(* ===== verification/Prelude.thy ===== *)
theory Prelude
  imports Main "HOL-Library.AList" "HOL-Library.While_Combinator"
begin

text \<open>
  Shared vocabulary of the development: insertion-ordered dictionaries, sets kept in their
  iteration order, loops, reachable states, and the Python string helpers
  (\<open>str.strip\<close>, \<open>str.lower\<close>, \<open>str.upper\<close>) that several components call.
\<close>

named_theorems dict_simps \<open>rewriting of dictionary operations to maps\<close>
named_theorems wf_intros \<open>preservation of well-formedness by the operations of a component\<close>

section \<open>Dictionaries and sets\<close>

text \<open>
  A Python \<^verbatim>\<open>dict\<close> keeps the order in which its keys were first inserted, and assignment to an
  existing key keeps the key's place. An association list under \<^const>\<open>AList.update\<close> has exactly
  this behaviour.  A Python \<^verbatim>\<open>set\<close> that the code iterates over is a list without duplicates, in
  its iteration order; where only membership matters it is an HOL set.
\<close>

type_synonym ('k, 'v) dict = "('k \<times> 'v) list"

abbreviation dict_get :: "('k, 'v) dict \<Rightarrow> 'k \<Rightarrow> 'v option" where
  "dict_get \<equiv> map_of"

abbreviation dict_set :: "'k \<Rightarrow> 'v \<Rightarrow> ('k, 'v) dict \<Rightarrow> ('k, 'v) dict" where
  "dict_set \<equiv> AList.update"

abbreviation dict_keys :: "('k, 'v) dict \<Rightarrow> 'k list" where
  "dict_keys d \<equiv> map fst d"

definition dict_getd :: "('k, 'v) dict \<Rightarrow> 'k \<Rightarrow> 'v \<Rightarrow> 'v" where
  "dict_getd d k v = (case dict_get d k of None \<Rightarrow> v | Some w \<Rightarrow> w)"

definition dict_setdefault :: "'k \<Rightarrow> 'v \<Rightarrow> ('k, 'v) dict \<Rightarrow> ('k, 'v) dict" where
  "dict_setdefault k v d = (if dict_get d k = None then d @ [(k, v)] else d)"

definition set_add :: "'a \<Rightarrow> 'a list \<Rightarrow> 'a list" where
  "set_add x xs = (if x \<in> set xs then xs else xs @ [x])"

lemma map_of_dict_set [simp, dict_simps]: "map_of (AList.update k v d) = (map_of d)(k \<mapsto> v)"
  by (simp add: update_conv')

lemma distinct_dict_set [intro, wf_intros]:
  "distinct (map fst d) \<Longrightarrow> distinct (map fst (AList.update k v d))"
  by (rule distinct_update)

lemma keys_dict_set: "set (map fst (AList.update k v d)) = insert k (set (map fst d))"
  by (induction d) auto

lemma dict_set_keys_present:
  "k \<in> set (map fst d) \<Longrightarrow> map fst (AList.update k v d) = map fst d"
  by (induction d) auto

lemma map_of_dict_setdefault [simp, dict_simps]:
  "map_of (dict_setdefault k v d) = (if map_of d k = None then (map_of d)(k \<mapsto> v) else map_of d)"
  by (auto simp: dict_setdefault_def map_add_def fun_eq_iff split: option.splits)

lemma set_set_add [simp]: "set (set_add x xs) = insert x (set xs)"
  by (auto simp: set_add_def)

lemma distinct_set_add [simp]: "distinct xs \<Longrightarrow> distinct (set_add x xs)"
  by (simp add: set_add_def)

lemma dict_getd_Nil [simp]: "dict_getd [] k v = v"
  by (simp add: dict_getd_def)

lemma dict_getd_set [simp, dict_simps]:
  "dict_getd (AList.update k v d) k' w = (if k' = k then v else dict_getd d k' w)"
  by (simp add: dict_getd_def)

section \<open>Loops and reachable states\<close>

text \<open>
  A \<^verbatim>\<open>while\<close> loop is \<^const>\<open>while_option\<close>; a loop with an invariant and a decreasing measure
  returns, and its result satisfies the invariant and the negated guard.
\<close>

lemma while_option_total:
  fixes m :: "'s \<Rightarrow> nat"
  assumes inv: "P s"
    and step: "\<And>s. P s \<Longrightarrow> b s \<Longrightarrow> P (c s) \<and> m (c s) < m s"
  shows "\<exists>t. while_option b c s = Some t \<and> P t \<and> \<not> b t"
proof -
  obtain t where t: "while_option b c s = Some t"
    using measure_while_option_Some [of P b c m s] inv step by blast
  moreover have "P t"
    using while_option_rule [of P b c s t] step inv t by blast
  moreover have "\<not> b t"
    using while_option_stop [OF t] .
  ultimately show ?thesis by blast
qed

lemma while_option_step:
  "b s \<Longrightarrow> while_option b c s = while_option b c (c s)"
  by (subst while_option_unfold) simp

lemma while_option_done:
  "\<not> b s \<Longrightarrow> while_option b c s = Some s"
  by (subst while_option_unfold) simp

text \<open>
  The states a machine can be in: the closure of its initial states under its steps. The locale
  states what makes a predicate an invariant; every state machine of the development interprets it.
\<close>

inductive reachable_from :: "('s \<Rightarrow> bool) \<Rightarrow> ('s \<Rightarrow> 's \<Rightarrow> bool) \<Rightarrow> 's \<Rightarrow> bool"
  for init :: "'s \<Rightarrow> bool" and step :: "'s \<Rightarrow> 's \<Rightarrow> bool" where
  reach_init: "init s \<Longrightarrow> reachable_from init step s"
| reach_step: "reachable_from init step s \<Longrightarrow> step s t \<Longrightarrow> reachable_from init step t"

locale invariant_machine =
  fixes init :: "'s \<Rightarrow> bool"
    and step :: "'s \<Rightarrow> 's \<Rightarrow> bool"
    and inv :: "'s \<Rightarrow> bool"
  assumes inv_init: "init s \<Longrightarrow> inv s"
    and inv_step: "inv s \<Longrightarrow> step s t \<Longrightarrow> inv t"
begin

lemma reachable_inv: "reachable_from init step s \<Longrightarrow> inv s"
  by (induction rule: reachable_from.induct) (auto intro: inv_init inv_step)

lemma steps_inv: "step\<^sup>*\<^sup>* s t \<Longrightarrow> inv s \<Longrightarrow> inv t"
  by (induction rule: rtranclp_induct) (auto intro: inv_step)

end

section \<open>Tables that only grow\<close>

text \<open>
  A table whose rows are never deleted and only change in one direction: what it may become. The locale takes the
  direction of a row and gives that of the table.
\<close>

definition table_forward :: "('a \<Rightarrow> 'a \<Rightarrow> bool) \<Rightarrow> 'a list \<Rightarrow> 'a list \<Rightarrow> bool" where
  "table_forward R xs ys \<longleftrightarrow> (\<exists>zs new. ys = zs @ new \<and> list_all2 R xs zs)"

locale row_order =
  fixes R :: "'a \<Rightarrow> 'a \<Rightarrow> bool"
  assumes row_refl: "R x x"
    and row_trans: "R x y \<Longrightarrow> R y z \<Longrightarrow> R x z"
begin

lemma table_append: "table_forward R xs (xs @ new)"
  unfolding table_forward_def by (intro exI [of _ xs] exI [of _ new]) (simp add: list_all2_refl row_refl)

lemma table_refl: "table_forward R xs xs"
  using table_append [of xs "[]"] by simp

lemma table_map: "(\<And>x. x \<in> set xs \<Longrightarrow> R x (f x)) \<Longrightarrow> table_forward R xs (map f xs)"
  unfolding table_forward_def by (intro exI [of _ "map f xs"] exI [of _ "[]"]) (auto simp: list_all2_conv_all_nth)

lemma table_trans:
  assumes "table_forward R xs ys" and "table_forward R ys zs"
  shows "table_forward R xs zs"
proof -
  obtain a b where ys: "ys = a @ b" "list_all2 R xs a" using assms(1) unfolding table_forward_def by blast
  obtain c d where zs: "zs = c @ d" "list_all2 R (a @ b) c" using assms(2) unfolding table_forward_def ys(1) by blast
  obtain c1 c2 where c: "c = c1 @ c2" "list_all2 R a c1" using zs(2) by (auto simp: list_all2_append1)
  have "list_all2 R xs c1" using list_all2_trans [OF _ ys(2) c(2)] row_trans by blast
  then show ?thesis using zs(1) c(1) unfolding table_forward_def by auto
qed

lemma table_row:
  assumes "table_forward R xs ys" and "x \<in> set xs"
  shows "\<exists>y \<in> set ys. R x y"
proof -
  obtain zs new where zs: "ys = zs @ new" "list_all2 R xs zs" using assms(1) unfolding table_forward_def by blast
  obtain k where k: "k < length xs" "x = xs ! k" using assms(2) by (auto simp: in_set_conv_nth)
  then have "R x (zs ! k)" "zs ! k \<in> set zs" using zs(2) by (auto simp: list_all2_conv_all_nth)
  then show ?thesis unfolding zs(1) by auto
qed

end

section \<open>Python strings\<close>

text \<open>
  Strings are lists of characters in the Latin-1 range. \<open>is_space\<close> is \<open>str.isspace\<close> on that
  range; \<open>strip\<close> removes it at both ends. Case mapping follows Unicode on the range, apart from
  the two letters (micro sign, y with diaeresis) whose upper case lies outside it.
\<close>

definition is_space :: "char \<Rightarrow> bool" where
  "is_space c = (let n = of_char c :: nat in
     9 \<le> n \<and> n \<le> 13 \<or> 28 \<le> n \<and> n \<le> 32 \<or> n = 133 \<or> n = 160)"

definition strip :: "string \<Rightarrow> string" where
  "strip s = rev (dropWhile is_space (rev (dropWhile is_space s)))"

definition lower_char :: "char \<Rightarrow> char" where
  "lower_char c = (let n = of_char c :: nat in
     if 65 \<le> n \<and> n \<le> 90 \<or> 192 \<le> n \<and> n \<le> 222 \<and> n \<noteq> 215 then char_of (n + 32) else c)"

definition lower :: "string \<Rightarrow> string" where
  "lower s = map lower_char s"

definition upper_char :: "char \<Rightarrow> string" where
  "upper_char c = (let n = of_char c :: nat in
     if 97 \<le> n \<and> n \<le> 122 \<or> 224 \<le> n \<and> n \<le> 254 \<and> n \<noteq> 247 then [char_of (n - 32)]
     else if n = 223 then ''SS'' else [c])"

definition upper :: "string \<Rightarrow> string" where
  "upper s = concat (map upper_char s)"

lemma strip_Nil [simp]: "strip [] = []"
  by (simp add: strip_def)

lemma dropWhile_id_iff: "dropWhile P xs = xs \<longleftrightarrow> xs = [] \<or> \<not> P (hd xs)"
proof (cases xs)
  case (Cons y ys)
  have "length (dropWhile P ys) \<le> length ys"
    by (rule length_dropWhile_le)
  with Cons show ?thesis by (auto dest: arg_cong [of _ _ length])
qed simp

lemma strip_idem [simp]: "strip (strip s) = strip s"
proof -
  define t where "t = dropWhile is_space s"
  define u where "u = rev (dropWhile is_space (rev t))"
  have tail: "dropWhile is_space (rev u) = rev u"
    by (simp add: u_def)
  have head: "dropWhile is_space u = u"
  proof (cases "u = []")
    case False
    obtain k where "dropWhile is_space (rev t) = drop k (rev t)"
      using dropWhile_eq_drop by blast
    then have u_take: "u = take (length t - k) t"
      by (simp add: u_def rev_drop)
    with False have "hd u = hd t" and "t \<noteq> []"
      by (auto simp: hd_take)
    then have "\<not> is_space (hd u)"
      using hd_dropWhile [of is_space s] by (simp add: t_def)
    then show ?thesis by (simp add: dropWhile_id_iff)
  qed simp
  have "strip s = u" by (simp add: strip_def t_def u_def)
  with head tail show ?thesis by (simp add: strip_def)
qed

end
