(* ===== verification/PyValues.thy ===== *)
theory PyValues
  imports Complex_Main Prelude
begin

text \<open>
  Python values shared by the components that read JSON documents: the values \<open>json.loads\<close> returns,
  their truth value and \<open>dict.get\<close>, the exceptions these raise, decimal rendering of integers and
  fixed-point rendering of floats, and \<open>round\<close> to a number of digits (to even on ties). A finite float
  is idealised as a real number (no rounding); the infinities and \<open>nan\<close> are kept, with Python's
  comparisons, \<open>min\<close> and \<open>max\<close>.
\<close>

section \<open>Floats\<close>

datatype pyfloat = Fin real | PInf | NInf | NaN

fun pf_neg :: "pyfloat \<Rightarrow> pyfloat" where
  "pf_neg (Fin x) = Fin (- x)" | "pf_neg PInf = NInf" | "pf_neg NInf = PInf" | "pf_neg NaN = NaN"

fun pf_abs :: "pyfloat \<Rightarrow> pyfloat" where
  "pf_abs (Fin x) = Fin \<bar>x\<bar>" | "pf_abs PInf = PInf" | "pf_abs NInf = PInf" | "pf_abs NaN = NaN"

fun pf_add :: "pyfloat \<Rightarrow> pyfloat \<Rightarrow> pyfloat" where
  "pf_add (Fin x) (Fin y) = Fin (x + y)"
| "pf_add NaN _ = NaN" | "pf_add _ NaN = NaN"
| "pf_add PInf NInf = NaN" | "pf_add NInf PInf = NaN"
| "pf_add PInf _ = PInf" | "pf_add _ PInf = PInf"
| "pf_add NInf _ = NInf" | "pf_add _ NInf = NInf"

definition pf_sub :: "pyfloat \<Rightarrow> pyfloat \<Rightarrow> pyfloat" where
  "pf_sub x y = pf_add x (pf_neg y)"

definition pf_inf :: "bool \<Rightarrow> pyfloat" where
  "pf_inf positive = (if positive then PInf else NInf)"

fun pf_mult :: "pyfloat \<Rightarrow> pyfloat \<Rightarrow> pyfloat" where
  "pf_mult (Fin x) (Fin y) = Fin (x * y)"
| "pf_mult NaN _ = NaN" | "pf_mult _ NaN = NaN"
| "pf_mult (Fin x) PInf = (if x = 0 then NaN else pf_inf (x > 0))"
| "pf_mult (Fin x) NInf = (if x = 0 then NaN else pf_inf (x < 0))"
| "pf_mult PInf (Fin x) = (if x = 0 then NaN else pf_inf (x > 0))"
| "pf_mult NInf (Fin x) = (if x = 0 then NaN else pf_inf (x < 0))"
| "pf_mult PInf PInf = PInf" | "pf_mult NInf NInf = PInf" | "pf_mult PInf NInf = NInf" | "pf_mult NInf PInf = NInf"

text \<open>Division by a divisor that is not zero; by zero Python raises, and every caller guards against it.\<close>

fun pf_div :: "pyfloat \<Rightarrow> pyfloat \<Rightarrow> pyfloat" where
  "pf_div (Fin x) (Fin y) = Fin (x / y)"
| "pf_div NaN _ = NaN" | "pf_div _ NaN = NaN"
| "pf_div (Fin x) PInf = Fin 0" | "pf_div (Fin x) NInf = Fin 0"
| "pf_div PInf (Fin y) = pf_inf (y \<ge> 0)" | "pf_div NInf (Fin y) = pf_inf (y < 0)"
| "pf_div PInf PInf = NaN" | "pf_div PInf NInf = NaN" | "pf_div NInf PInf = NaN" | "pf_div NInf NInf = NaN"

fun pf_less :: "pyfloat \<Rightarrow> pyfloat \<Rightarrow> bool" where
  "pf_less (Fin x) (Fin y) = (x < y)"
| "pf_less NaN _ = False" | "pf_less _ NaN = False"
| "pf_less _ NInf = False" | "pf_less NInf _ = True"
| "pf_less PInf _ = False" | "pf_less _ PInf = True"

fun pf_le :: "pyfloat \<Rightarrow> pyfloat \<Rightarrow> bool" where
  "pf_le (Fin x) (Fin y) = (x \<le> y)"
| "pf_le NaN _ = False" | "pf_le _ NaN = False"
| "pf_le NInf _ = True" | "pf_le _ PInf = True"
| "pf_le PInf _ = False" | "pf_le _ NInf = False"

text \<open>\<open>min(a, b)\<close> and \<open>max(a, b)\<close> keep the first argument unless the second compares strictly better.\<close>

definition py_min :: "pyfloat \<Rightarrow> pyfloat \<Rightarrow> pyfloat" where
  "py_min a b = (if pf_less b a then b else a)"

definition py_max :: "pyfloat \<Rightarrow> pyfloat \<Rightarrow> pyfloat" where
  "py_max a b = (if pf_less a b then b else a)"

lemma pf_sub_Fin [simp]: "pf_sub (Fin x) (Fin y) = Fin (x - y)"
  by (simp add: pf_sub_def)

lemma py_min_Fin [simp]: "py_min (Fin x) (Fin y) = Fin (min x y)"
  by (simp add: py_min_def min_def)

lemma py_max_Fin [simp]: "py_max (Fin x) (Fin y) = Fin (max x y)"
  by (simp add: py_max_def max_def)

lemma pf_add_NaN [simp]: "pf_add x NaN = NaN"
  by (cases x) simp_all

lemma pf_mult_NaN [simp]: "pf_mult x NaN = NaN"
  by (cases x) simp_all

lemma pf_div_NaN [simp]: "pf_div x NaN = NaN"
  by (cases x) simp_all

lemma pf_sub_NaN [simp]: "pf_sub x NaN = NaN" "pf_sub NaN x = NaN"
  by (simp_all add: pf_sub_def)

lemma pf_clamp_NaN [simp]: "py_max (Fin a) (py_min (Fin b) NaN) = Fin (max a b)"
  by (simp add: py_min_def)

section \<open>JSON values\<close>

datatype py_error = AttributeError | TypeError | ValueError string | KeyError string | IndexError | OtherException string

datatype json =
    JNull | JBool bool | JInt int | JFloat pyfloat | JStr string
  | JList "json list" | JDict "(string \<times> json) list"

fun truthy :: "json \<Rightarrow> bool" where
  "truthy JNull = False"
| "truthy (JBool b) = b"
| "truthy (JInt i) = (i \<noteq> 0)"
| "truthy (JFloat x) = (x \<noteq> Fin 0)"
| "truthy (JStr s) = (s \<noteq> [])"
| "truthy (JList xs) = (xs \<noteq> [])"
| "truthy (JDict d) = (d \<noteq> [])"

definition and_then :: "'e + 'a \<Rightarrow> ('a \<Rightarrow> 'e + 'b) \<Rightarrow> 'e + 'b" where
  "and_then r f = (case r of Inl e \<Rightarrow> Inl e | Inr x \<Rightarrow> f x)"

lemma and_then_simps [simp]: "and_then (Inl e) f = Inl e" "and_then (Inr x) f = f x"
  by (simp_all add: and_then_def)

lemma and_then_eq_Inr: "and_then r f = Inr y \<longleftrightarrow> (\<exists>x. r = Inr x \<and> f x = Inr y)"
  by (cases r) auto

lemma mem_dict_getd_list:
  "x \<in> set (dict_getd d k []) \<longleftrightarrow> (\<exists>xs. dict_get d k = Some xs \<and> x \<in> set xs)"
  by (cases "dict_get d k") (simp_all add: dict_getd_def)

text \<open>\<open>v.get(key, default)\<close>: only a dictionary has the method.\<close>

definition py_get :: "json \<Rightarrow> string \<Rightarrow> json \<Rightarrow> py_error + json" where
  "py_get v key dflt = (case v of JDict d \<Rightarrow> Inr (dict_getd d key dflt) | _ \<Rightarrow> Inl AttributeError)"

lemma py_get_JDict [simp]: "py_get (JDict d) key dflt = Inr (dict_getd d key dflt)"
  by (simp add: py_get_def)

text \<open>
  Equality of values: numbers and booleans compare by value (\<open>nan\<close> differs from everything); other
  values compare structurally.
\<close>

definition number_of :: "json \<Rightarrow> pyfloat option" where
  "number_of v = (case v of
      JInt i \<Rightarrow> Some (Fin (of_int i)) | JFloat x \<Rightarrow> Some x | JBool b \<Rightarrow> Some (Fin (if b then 1 else 0)) | _ \<Rightarrow> None)"

definition py_eq :: "json \<Rightarrow> json \<Rightarrow> bool" where
  "py_eq v w = (case (number_of v, number_of w) of
      (Some a, Some b) \<Rightarrow> a = b \<and> a \<noteq> NaN | (None, None) \<Rightarrow> v = w | _ \<Rightarrow> False)"

text \<open>\<open>float(v)\<close>; \<open>parse_float\<close> is its behaviour on text, \<open>None\<close> the \<open>ValueError\<close>.\<close>

definition py_float :: "(string \<Rightarrow> pyfloat option) \<Rightarrow> json \<Rightarrow> py_error + pyfloat" where
  "py_float parse_float v = (case v of
      JStr s \<Rightarrow> (case parse_float s of Some x \<Rightarrow> Inr x | None \<Rightarrow> Inl (ValueError ''could not convert string to float''))
    | _ \<Rightarrow> (case number_of v of Some x \<Rightarrow> Inr x | None \<Rightarrow> Inl TypeError))"

section \<open>Rendering of numbers\<close>

definition digit_char :: "nat \<Rightarrow> char" where
  "digit_char d = char_of (48 + d mod 10)"

fun show_nat :: "nat \<Rightarrow> string" where
  "show_nat n = (if n < 10 then [digit_char n] else show_nat (n div 10) @ [digit_char (n mod 10)])"

declare show_nat.simps [simp del]

definition show_int :: "int \<Rightarrow> string" where
  "show_int i = (if i < 0 then ''-'' @ show_nat (nat (- i)) else show_nat (nat i))"

text \<open>\<open>str(v)\<close>; \<open>repr_of\<close> renders floats and containers.\<close>

definition py_str :: "(json \<Rightarrow> string) \<Rightarrow> json \<Rightarrow> string" where
  "py_str repr_of v = (case v of
      JStr s \<Rightarrow> s | JInt i \<Rightarrow> show_int i | JNull \<Rightarrow> ''None'' | JBool b \<Rightarrow> (if b then ''True'' else ''False'') | _ \<Rightarrow> repr_of v)"

definition round_half_even :: "real \<Rightarrow> int" where
  "round_half_even x = (let n = \<lfloor>x\<rfloor>; r = x - of_int n in
     if r < 1 / 2 then n else if r > 1 / 2 then n + 1 else if even n then n else n + 1)"

definition py_round :: "real \<Rightarrow> nat \<Rightarrow> real" where
  "py_round x k = of_int (round_half_even (x * 10 ^ k)) / 10 ^ k"

text \<open>\<open>f"{x:.1f}"\<close>\<close>

definition fixed1 :: "real \<Rightarrow> string" where
  "fixed1 x = (let n = round_half_even (\<bar>x\<bar> * 10) in
     (if x < 0 then ''-'' else []) @ show_int (n div 10) @ ''.'' @ show_int (n mod 10))"

lemma round_half_even_of_int [simp]: "round_half_even (of_int n) = n"
  by (simp add: round_half_even_def)

lemma round_half_even_mono:
  assumes "x \<le> y" shows "round_half_even x \<le> round_half_even y"
proof -
  have le: "\<lfloor>x\<rfloor> \<le> \<lfloor>y\<rfloor>" using assms by (rule floor_mono)
  show ?thesis
  proof (cases "\<lfloor>x\<rfloor> = \<lfloor>y\<rfloor>")
    case True
    then show ?thesis using assms by (auto simp: round_half_even_def Let_def)
  next
    case False
    with le show ?thesis by (auto simp: round_half_even_def Let_def)
  qed
qed

lemma py_round_mono: "x \<le> y \<Longrightarrow> py_round x k \<le> py_round y k"
  by (simp add: py_round_def divide_right_mono round_half_even_mono mult_right_mono)

lemma py_round_of_int [simp]: "py_round (of_int n) k = of_int n"
proof -
  have "of_int n * 10 ^ k = (of_int (n * 10 ^ k) :: real)" by simp
  then have "round_half_even (of_int n * 10 ^ k) = n * 10 ^ k"
    by (metis round_half_even_of_int)
  then show ?thesis by (simp add: py_round_def)
qed

lemma py_round_unit: "0 \<le> x \<Longrightarrow> x \<le> 1 \<Longrightarrow> 0 \<le> py_round x k \<and> py_round x k \<le> 1"
  using py_round_mono [of 0 x k] py_round_mono [of x 1 k] py_round_of_int [of 0 k] py_round_of_int [of 1 k]
  by simp

lemma py_round_near: "\<bar>py_round x k - x\<bar> \<le> 1 / (2 * 10 ^ k)"
proof -
  have near: "\<bar>of_int (round_half_even y) - y\<bar> \<le> 1 / 2" for y :: real
    by (auto simp: round_half_even_def Let_def abs_if) linarith+
  have "py_round x k - x = (of_int (round_half_even (x * 10 ^ k)) - x * 10 ^ k) / 10 ^ k"
    by (simp add: py_round_def diff_divide_distrib)
  then have "\<bar>py_round x k - x\<bar> = \<bar>of_int (round_half_even (x * 10 ^ k)) - x * 10 ^ k\<bar> / 10 ^ k"
    by (simp add: abs_divide)
  also have "\<dots> \<le> (1 / 2) / 10 ^ k"
    by (rule divide_right_mono [OF near]) simp
  finally show ?thesis by (simp add: field_simps)
qed

end
