(* ===== verification/CronLocks.thy ===== *)
theory CronLocks
  imports Complex_Main PyValues
begin

text \<open>
  Distributed locks for scheduled jobs (\<^verbatim>\<open>src/nce/redis_lock.py\<close>, \<^verbatim>\<open>src/nce/cron_lock.py\<close>). Redis is a map from
  keys to a value and the time it expires; \<open>fault\<close> says whether a call to it fails and whether it takes
  effect first. A step relation interleaves any number of instances that acquire and release locks while
  time passes.
\<close>

section \<open>Redis primitives\<close>

type_synonym redis_store = "string \<rightharpoonup> string \<times> real"

datatype redis_fault = NoFault | FailsBefore | FailsAfter

definition live_value :: "real \<Rightarrow> redis_store \<Rightarrow> string \<Rightarrow> string option" where
  "live_value now store key = (case store key of
      None \<Rightarrow> None | Some (v, expiry) \<Rightarrow> if now < expiry then Some v else None)"

text \<open>\<open>SET key value NX EX ttl\<close>\<close>

definition redis_set_nx_ex :: "real \<Rightarrow> string \<Rightarrow> string \<Rightarrow> int \<Rightarrow> redis_store \<Rightarrow> bool \<times> redis_store" where
  "redis_set_nx_ex now key v ttl store =
     (if live_value now store key = None then (True, store(key \<mapsto> (v, now + of_int ttl))) else (False, store))"

definition release_lock_lua :: "real \<Rightarrow> string \<Rightarrow> string \<Rightarrow> redis_store \<Rightarrow> bool \<times> redis_store" where
  "release_lock_lua now key token store =
     (if live_value now store key = Some token then (True, store(key := None)) else (False, store))"

definition acquire_lock ::
  "real \<Rightarrow> redis_fault \<Rightarrow> string \<Rightarrow> string \<Rightarrow> int \<Rightarrow> redis_store \<Rightarrow> (py_error + string option) \<times> redis_store" where
  "acquire_lock now fault token key ttl store =
     (if ttl < 1 then (Inl (ValueError ''ttl_seconds must be >= 1''), store)
      else case redis_set_nx_ex now key token ttl store of (acquired, store') \<Rightarrow>
        (case fault of
           NoFault \<Rightarrow> (Inr (if acquired then Some token else None), store')
         | FailsBefore \<Rightarrow> (Inr None, store)
         | FailsAfter \<Rightarrow> (Inr None, store')))"

definition release_lock :: "real \<Rightarrow> redis_fault \<Rightarrow> string \<Rightarrow> string \<Rightarrow> redis_store \<Rightarrow> bool \<times> redis_store" where
  "release_lock now fault key token store =
     (case release_lock_lua now key token store of (released, store') \<Rightarrow>
        (case fault of
           NoFault \<Rightarrow> (released, store') | FailsBefore \<Rightarrow> (False, store) | FailsAfter \<Rightarrow> (False, store')))"

section \<open>Locks of jobs\<close>

definition CRON_LOCK_PREFIX :: string where
  "CRON_LOCK_PREFIX = ''nce:cron:lock''"

definition CRON_LOCK_NS_MARKER :: string where
  "CRON_LOCK_NS_MARKER = ''ns''"

definition LOCAL_DISABLED :: string where
  "LOCAL_DISABLED = ''local-disabled''"

text \<open>\<open>[a-zA-Z0-9_.-]{1,128}\<close>\<close>

definition id_char :: "char \<Rightarrow> bool" where
  "id_char c = (let n = of_char c :: nat in
     48 \<le> n \<and> n \<le> 57 \<or> 65 \<le> n \<and> n \<le> 90 \<or> 97 \<le> n \<and> n \<le> 122 \<or> c \<in> set ''_.-'')"

definition valid_id :: "string \<Rightarrow> bool" where
  "valid_id s \<longleftrightarrow> 1 \<le> length s \<and> length s \<le> 128 \<and> list_all id_char s"

record CronLock =
  cl_job_id :: string
  cl_key :: string
  cl_token :: string
  cl_ttl :: int

definition validated_lock_key :: "string \<Rightarrow> string option \<Rightarrow> py_error + string" where
  "validated_lock_key job_id ns =
     (if \<not> valid_id job_id then Inl (ValueError ''Invalid cron job_id'')
      else case ns of
        None \<Rightarrow> Inr (CRON_LOCK_PREFIX @ '':'' @ job_id)
      | Some n \<Rightarrow>
          if \<not> valid_id n then Inl (ValueError ''Invalid namespace_id'')
          else Inr (CRON_LOCK_PREFIX @ '':'' @ CRON_LOCK_NS_MARKER @ '':'' @ n @ '':'' @ job_id))"

record lock_cfg =
  redis_url :: bool
  is_prod :: bool

text \<open>\<open>connects\<close>: whether the client can be created; otherwise the outer handler returns \<open>None\<close>.\<close>

definition acquire_cron_lock ::
  "lock_cfg \<Rightarrow> real \<Rightarrow> bool \<Rightarrow> redis_fault \<Rightarrow> string \<Rightarrow> string \<Rightarrow> int \<Rightarrow> string option \<Rightarrow> redis_store \<Rightarrow>
     (py_error + CronLock option) \<times> redis_store" where
  "acquire_cron_lock cfg now connects fault token job_id ttl ns store =
     (if ttl < 1 then (Inl (ValueError ''ttl_seconds must be >= 1''), store)
      else case validated_lock_key job_id ns of
        Inl e \<Rightarrow> (Inl e, store)
      | Inr key \<Rightarrow>
          if \<not> redis_url cfg then
            (Inr (if is_prod cfg then None
                  else Some \<lparr>cl_job_id = job_id, cl_key = ''local-disabled:'' @ key, cl_token = LOCAL_DISABLED, cl_ttl = ttl\<rparr>),
             store)
          else if \<not> connects then (Inr None, store)
          else case acquire_lock now fault token key ttl store of
                 (Inl e, store') \<Rightarrow> (Inr None, store')
               | (Inr None, store') \<Rightarrow> (Inr None, store')
               | (Inr (Some t), store') \<Rightarrow>
                   (Inr (Some \<lparr>cl_job_id = job_id, cl_key = key, cl_token = t, cl_ttl = ttl\<rparr>), store'))"

definition release_cron_lock :: "real \<Rightarrow> bool \<Rightarrow> redis_fault \<Rightarrow> CronLock \<Rightarrow> redis_store \<Rightarrow> bool \<times> redis_store" where
  "release_cron_lock now connects fault lock store =
     (if cl_token lock = LOCAL_DISABLED then (True, store)
      else if \<not> connects then (False, store)
      else release_lock now fault (cl_key lock) (cl_token lock) store)"

section \<open>Keys\<close>

text \<open>Two lock requests use the same Redis key only when they are for the same job and the same tenant: a
  global lock never collides with a tenant's, and no tenant can forge another tenant's key. Invalid names are
  refused.\<close>

theorem lock_keys_separate:
  assumes "validated_lock_key job ns = Inr key" and "validated_lock_key job' ns' = Inr key"
  shows "job = job' \<and> ns = ns' \<and> valid_id job \<and> (case ns of None \<Rightarrow> True | Some n \<Rightarrow> valid_id n)"
proof -
  have colon: "CHR '':'' \<notin> set s" if "valid_id s" for s
  proof
    assume "CHR '':'' \<in> set s"
    then have "id_char CHR '':''" using that by (auto simp: valid_id_def list_all_iff)
    then show False by (simp add: id_char_def)
  qed
  have split: "a = c \<and> b = d" if "a @ '':'' @ b = c @ '':'' @ d" "valid_id a" "valid_id c" for a b c d :: string
  proof -
    have "takeWhile (\<lambda>x. x \<noteq> CHR '':'') (a @ '':'' @ b) = a" "takeWhile (\<lambda>x. x \<noteq> CHR '':'') (c @ '':'' @ d) = c"
      using colon [OF that(2)] colon [OF that(3)] by (auto simp: takeWhile_append takeWhile_eq_all_conv)
    then show ?thesis using that(1) by simp
  qed
  have ns_marker: "valid_id CRON_LOCK_NS_MARKER" by code_simp
  have no_colon: False if "job = CRON_LOCK_NS_MARKER @ '':'' @ r" "valid_id job" for job r :: string
    using colon [OF that(2)] that(1) by simp
  have key: "key = CRON_LOCK_PREFIX @ '':'' @ (case n of None \<Rightarrow> j | Some m \<Rightarrow> CRON_LOCK_NS_MARKER @ '':'' @ m @ '':'' @ j)"
      "valid_id j" "case n of None \<Rightarrow> True | Some m \<Rightarrow> valid_id m"
    if "validated_lock_key j n = Inr key" for j n
    using that by (auto simp: validated_lock_key_def split: if_splits option.splits)
  note k = key [OF assms(1)] and k' = key [OF assms(2)]
  have eq: "(case ns of None \<Rightarrow> job | Some m \<Rightarrow> CRON_LOCK_NS_MARKER @ '':'' @ m @ '':'' @ job) =
      (case ns' of None \<Rightarrow> job' | Some m \<Rightarrow> CRON_LOCK_NS_MARKER @ '':'' @ m @ '':'' @ job')"
    using k(1) k'(1) by (metis same_append_eq)
  show ?thesis
  proof (cases ns; cases ns')
    fix m m' assume some: "ns = Some m" "ns' = Some m'"
    then have "m @ '':'' @ job = m' @ '':'' @ job'" using eq by simp
    from split [OF this] some k k' show ?thesis by simp
  next
    fix m assume "ns = None" "ns' = Some m"
    then have "job = CRON_LOCK_NS_MARKER @ '':'' @ (m @ '':'' @ job')" using eq by simp
    from no_colon [OF this k(2)] show ?thesis ..
  next
    fix m assume "ns = Some m" "ns' = None"
    then have "job' = CRON_LOCK_NS_MARKER @ '':'' @ (m @ '':'' @ job)" using eq by simp
    from no_colon [OF this k'(2)] show ?thesis ..
  next
    assume "ns = None" "ns' = None"
    then show ?thesis using eq k k' by simp
  qed
qed

theorem lock_keys_separate_witness:
  "validated_lock_key ''gc'' (Some ''t1'') = Inr ''nce:cron:lock:ns:t1:gc'' \<and>
   (''gc'' = ''gc'' \<and> Some ''t1'' = Some ''t1'' \<and> valid_id ''gc'' \<and> (case Some ''t1'' of None \<Rightarrow> True | Some n \<Rightarrow> valid_id n))"
proof -
  have k: "validated_lock_key ''gc'' (Some ''t1'') = Inr ''nce:cron:lock:ns:t1:gc''" by code_simp
  show ?thesis using lock_keys_separate [OF k k] k by blast
qed

section \<open>Interleaved instances\<close>

text \<open>
  The state: the clock, Redis, the locks some instance believes to hold, each with the time up to which it
  was granted, and the tokens drawn so far. \<open>secrets.token_urlsafe\<close> draws a token that was not drawn before.
\<close>

record lock_system =
  ls_now :: real
  ls_store :: redis_store
  ls_held :: "(CronLock \<times> real) set"
  ls_tokens :: "string set"

definition grant :: "py_error + CronLock option \<Rightarrow> real \<Rightarrow> (CronLock \<times> real) set" where
  "grant result now = (case result of Inr (Some l) \<Rightarrow> {(l, now + of_int (cl_ttl l))} | _ \<Rightarrow> {})"

inductive lock_step :: "lock_cfg \<Rightarrow> lock_system \<Rightarrow> lock_system \<Rightarrow> bool" for cfg where
  pass: "ls_now s \<le> t \<Longrightarrow> lock_step cfg s (s\<lparr>ls_now := t\<rparr>)"
| acquire: "acquire_cron_lock cfg (ls_now s) connects fault token job ttl ns (ls_store s) = (result, store') \<Longrightarrow>
    token \<notin> ls_tokens s \<Longrightarrow>
    lock_step cfg s (s\<lparr>ls_store := store', ls_held := ls_held s \<union> grant result (ls_now s),
      ls_tokens := insert token (ls_tokens s)\<rparr>)"
| release: "(lock, expiry) \<in> ls_held s \<Longrightarrow>
    release_cron_lock (ls_now s) connects fault lock (ls_store s) = (released, store') \<Longrightarrow>
    lock_step cfg s (s\<lparr>ls_store := store', ls_held := ls_held s - {(lock, expiry)}\<rparr>)"

definition lock_start :: "real \<Rightarrow> lock_system" where
  "lock_start t = \<lparr>ls_now = t, ls_store = Map.empty, ls_held = {}, ls_tokens = {LOCAL_DISABLED}\<rparr>"

definition lock_inv :: "lock_system \<Rightarrow> bool" where
  "lock_inv s \<longleftrightarrow> LOCAL_DISABLED \<in> ls_tokens s \<and>
     (\<forall>key v e. ls_store s key = Some (v, e) \<longrightarrow> v \<in> ls_tokens s \<and> v \<noteq> LOCAL_DISABLED) \<and>
     (\<forall>key key' v e e'. ls_store s key = Some (v, e) \<longrightarrow> ls_store s key' = Some (v, e') \<longrightarrow> key = key') \<and>
     (\<forall>(l, e) \<in> ls_held s. cl_token l \<in> ls_tokens s \<and> cl_token l \<noteq> LOCAL_DISABLED) \<and>
     (\<forall>(l, e) \<in> ls_held s. ls_now s < e \<longrightarrow> ls_store s (cl_key l) = Some (cl_token l, e)) \<and>
     (\<forall>(l, e) \<in> ls_held s. \<forall>(l', e') \<in> ls_held s. cl_token l = cl_token l' \<longrightarrow> (l, e) = (l', e'))"

lemma lock_inv_start: "lock_inv (lock_start t)"
  by (simp add: lock_inv_def lock_start_def)

lemma release_store:
  assumes "release_cron_lock now connects fault lock store = (released, store')"
  shows "store' = store \<or> (store' = store(cl_key lock := None) \<and> live_value now store (cl_key lock) = Some (cl_token lock))"
  using assms
  by (auto simp: release_cron_lock_def release_lock_def release_lock_lua_def
      split: if_splits redis_fault.splits)

lemma acquire_store:
  assumes "acquire_cron_lock cfg now connects fault token job ttl ns store = (result, store')" and "redis_url cfg"
  shows "(store' = store \<and> grant result now = {}) \<or>
    (\<exists>key. store' = store(key \<mapsto> (token, now + of_int ttl)) \<and> live_value now store key = None \<and>
      grant result now \<subseteq> {(\<lparr>cl_job_id = job, cl_key = key, cl_token = token, cl_ttl = ttl\<rparr>, now + of_int ttl)})"
  using assms
  by (auto simp: acquire_cron_lock_def acquire_lock_def redis_set_nx_ex_def grant_def
      split: if_splits redis_fault.splits sum.splits option.splits)

text \<open>The invariant, read off and established.\<close>

lemma lock_invD:
  assumes "lock_inv s"
  shows "LOCAL_DISABLED \<in> ls_tokens s"
    and "ls_store s key = Some (v, e) \<Longrightarrow> v \<in> ls_tokens s \<and> v \<noteq> LOCAL_DISABLED"
    and "ls_store s key = Some (v, e) \<Longrightarrow> ls_store s key' = Some (v, e') \<Longrightarrow> key = key'"
    and "(l, e) \<in> ls_held s \<Longrightarrow> cl_token l \<in> ls_tokens s \<and> cl_token l \<noteq> LOCAL_DISABLED"
    and "(l, e) \<in> ls_held s \<Longrightarrow> ls_now s < e \<Longrightarrow> ls_store s (cl_key l) = Some (cl_token l, e)"
    and "(l, e) \<in> ls_held s \<Longrightarrow> (l', e') \<in> ls_held s \<Longrightarrow> cl_token l = cl_token l' \<Longrightarrow> l = l' \<and> e = e'"
  using assms unfolding lock_inv_def by blast+

lemma lock_invI:
  assumes "LOCAL_DISABLED \<in> ls_tokens s"
    and "\<And>key v e. ls_store s key = Some (v, e) \<Longrightarrow> v \<in> ls_tokens s \<and> v \<noteq> LOCAL_DISABLED"
    and "\<And>key key' v e e'. ls_store s key = Some (v, e) \<Longrightarrow> ls_store s key' = Some (v, e') \<Longrightarrow> key = key'"
    and "\<And>l e. (l, e) \<in> ls_held s \<Longrightarrow> cl_token l \<in> ls_tokens s \<and> cl_token l \<noteq> LOCAL_DISABLED"
    and "\<And>l e. (l, e) \<in> ls_held s \<Longrightarrow> ls_now s < e \<Longrightarrow> ls_store s (cl_key l) = Some (cl_token l, e)"
    and "\<And>l e l' e'. (l, e) \<in> ls_held s \<Longrightarrow> (l', e') \<in> ls_held s \<Longrightarrow> cl_token l = cl_token l' \<Longrightarrow> l = l' \<and> e = e'"
  shows "lock_inv s"
  unfolding lock_inv_def using assms by blast

lemma lock_inv_release:
  assumes inv: "lock_inv s" and held: "(lock, expiry) \<in> ls_held s"
    and step: "release_cron_lock (ls_now s) connects fault lock (ls_store s) = (released, store')"
  shows "lock_inv (s\<lparr>ls_store := store', ls_held := ls_held s - {(lock, expiry)}\<rparr>)"
proof -
  note D = lock_invD [OF inv]
  consider "store' = ls_store s"
    | "store' = (ls_store s)(cl_key lock := None)" "live_value (ls_now s) (ls_store s) (cl_key lock) = Some (cl_token lock)"
    using release_store [OF step] by blast
  then have kept: "store' (cl_key l) = Some (cl_token l, e)"
    if "(l, e) \<in> ls_held s" "(l, e) \<noteq> (lock, expiry)" "ls_now s < e" for l e
  proof cases
    case 1
    then show ?thesis using D(5) that by simp
  next
    case 2
    have "cl_key l \<noteq> cl_key lock"
    proof
      assume eq: "cl_key l = cl_key lock"
      then have "cl_token l = cl_token lock"
        using D(5) [OF that(1,3)] 2(2) that(3) by (simp add: live_value_def)
      then show False using D(6) [OF that(1) held] that(2) by simp
    qed
    then show ?thesis using 2(1) D(5) [OF that(1,3)] by simp
  qed
  have sub: "store' key = Some x \<Longrightarrow> ls_store s key = Some x" for key x
    using release_store [OF step] by (auto split: if_splits)
  show ?thesis
  proof (rule lock_invI; simp)
    show "LOCAL_DISABLED \<in> ls_tokens s" by (rule D(1))
    show "\<And>key v e. store' key = Some (v, e) \<Longrightarrow> v \<in> ls_tokens s \<and> v \<noteq> LOCAL_DISABLED" using D(2) sub by blast
    show "\<And>key key' v e e'. store' key = Some (v, e) \<Longrightarrow> store' key' = Some (v, e') \<Longrightarrow> key = key'" using D(3) sub by blast
    show "\<And>l e. (l, e) \<in> ls_held s \<and> (l = lock \<longrightarrow> e \<noteq> expiry) \<Longrightarrow> cl_token l \<in> ls_tokens s \<and> cl_token l \<noteq> LOCAL_DISABLED"
      using D(4) by blast
    show "\<And>l e. (l, e) \<in> ls_held s \<and> (l = lock \<longrightarrow> e \<noteq> expiry) \<Longrightarrow> ls_now s < e \<Longrightarrow> store' (cl_key l) = Some (cl_token l, e)"
      using kept by blast
    show "\<And>l e l' e'. (l, e) \<in> ls_held s \<and> (l = lock \<longrightarrow> e \<noteq> expiry) \<Longrightarrow>
        (l', e') \<in> ls_held s \<and> (l' = lock \<longrightarrow> e' \<noteq> expiry) \<Longrightarrow> cl_token l = cl_token l' \<Longrightarrow> l = l' \<and> e = e'"
      using D(6) by blast
  qed
qed

lemma lock_inv_acquire:
  assumes inv: "lock_inv s" and redis: "redis_url cfg" and fresh: "token \<notin> ls_tokens s"
    and step: "acquire_cron_lock cfg (ls_now s) connects fault token job ttl ns (ls_store s) = (result, store')"
  shows "lock_inv (s\<lparr>ls_store := store', ls_held := ls_held s \<union> grant result (ls_now s),
    ls_tokens := insert token (ls_tokens s)\<rparr>)"
proof -
  note D = lock_invD [OF inv]
  from acquire_store [OF step redis] show ?thesis
  proof (elim disjE exE conjE)
    assume "store' = ls_store s" "grant result (ls_now s) = {}"
    then show ?thesis
      by (intro lock_invI; simp) (use D in blast)+
  next
    fix key
    let ?l = "\<lparr>cl_job_id = job, cl_key = key, cl_token = token, cl_ttl = ttl\<rparr>" and ?e = "ls_now s + of_int ttl"
    assume store: "store' = (ls_store s)(key \<mapsto> (token, ?e))" and free: "live_value (ls_now s) (ls_store s) key = None"
      and granted: "grant result (ls_now s) \<subseteq> {(?l, ?e)}"
    have held: "(l, e) \<in> ls_held s \<or> (l = ?l \<and> e = ?e)" if "(l, e) \<in> ls_held s \<union> grant result (ls_now s)" for l e
      using that granted by auto
    have other: "cl_key l \<noteq> key" if "(l, e) \<in> ls_held s" "ls_now s < e" for l e
      using D(5) [OF that] free that(2) by (auto simp: live_value_def)
    have new: "token \<noteq> v" if "ls_store s k = Some (v, e)" for k v e using D(2) [OF that] fresh by blast
    have new': "cl_token l \<noteq> token" if "(l, e) \<in> ls_held s" for l e using D(4) [OF that] fresh by blast
    show ?thesis
    proof (rule lock_invI, goal_cases)
      case 1
      then show ?case using D(1) by simp
    next
      case (2 k v e)
      then show ?case using D(1,2) fresh store by (auto split: if_splits)
    next
      case (3 k k' v e e')
      then show ?case using D(3) [of k v e k' e'] new [of k v e] new [of k' v e'] store by (auto split: if_splits)
    next
      case (4 l e)
      then show ?case using held [of l e] D(1) D(4) [of l e] fresh by auto
    next
      case (5 l e)
      then show ?case using held [of l e] other [of l e] D(5) [of l e] store by auto
    next
      case (6 l e l' e')
      then show ?case using held [of l e] held [of l' e'] new' [of l e] new' [of l' e'] D(6) [of l e l' e'] by auto
    qed
  qed
qed

lemma lock_inv_step:
  assumes "lock_step cfg s s'" and "redis_url cfg" and "lock_inv s"
  shows "lock_inv s'"
  using assms(1)
proof cases
  case (pass t)
  show ?thesis unfolding pass(1)
    by (rule lock_invI; simp) (use lock_invD [OF assms(3)] pass(2) in \<open>(blast | fastforce)+\<close>)
next
  case (acquire connects fault token job ttl ns result store')
  show ?thesis unfolding acquire(1) by (rule lock_inv_acquire [OF assms(3,2) acquire(3,2)])
next
  case (release lock expiry connects fault released store')
  show ?thesis unfolding release(1) by (rule lock_inv_release [OF assms(3) release(2,3)])
qed

lemma lock_inv_reachable:
  assumes "(lock_step cfg)\<^sup>*\<^sup>* (lock_start t) s" and "redis_url cfg"
  shows "lock_inv s"
  using assms(1) by (induction rule: rtranclp_induct) (auto intro: lock_inv_start lock_inv_step [OF _ assms(2)])

text \<open>C36: Mutual exclusion of scheduled jobs: with Redis configured, however any number of instances interleave
  their attempts to acquire and release locks, with calls to Redis failing before or after they take effect,
  late releases of expired locks and time passing in between, no two instances hold an unexpired lock on the
  same key, and an unexpired lock is still in Redis under its holder's token until its holder releases it.\<close>

theorem lock_mutual_exclusion:
  assumes "(lock_step cfg)\<^sup>*\<^sup>* (lock_start t) s" and "redis_url cfg"
    and "(l, e) \<in> ls_held s" and "ls_now s < e"
  shows "ls_store s (cl_key l) = Some (cl_token l, e) \<and>
    ((l', e') \<in> ls_held s \<and> ls_now s < e' \<and> cl_key l' = cl_key l \<longrightarrow> l' = l \<and> e' = e)"
proof -
  note D = lock_invD [OF lock_inv_reachable [OF assms(1,2)]]
  have mine: "ls_store s (cl_key l) = Some (cl_token l, e)" by (rule D(5) [OF assms(3,4)])
  have "l' = l \<and> e' = e" if other: "(l', e') \<in> ls_held s" "ls_now s < e'" "cl_key l' = cl_key l"
  proof -
    have "cl_token l' = cl_token l" using D(5) [OF other(1,2)] mine other(3) by simp
    then show ?thesis by (rule D(6) [OF other(1) assms(3)])
  qed
  with mine show ?thesis by blast
qed

definition sample_lock :: CronLock where
  "sample_lock = \<lparr>cl_job_id = ''gc'', cl_key = ''nce:cron:lock:gc'', cl_token = ''T'', cl_ttl = 60\<rparr>"

definition sample_locked :: lock_system where
  "sample_locked = \<lparr>ls_now = 0, ls_store = [''nce:cron:lock:gc'' \<mapsto> (''T'', 60)],
     ls_held = {(sample_lock, 60)}, ls_tokens = {''T'', LOCAL_DISABLED}\<rparr>"

theorem lock_mutual_exclusion_witness:
  "ls_store sample_locked (cl_key sample_lock) = Some (cl_token sample_lock, 60)"
proof -
  have "validated_lock_key ''gc'' None = Inr ''nce:cron:lock:gc''" by code_simp
  then have "lock_step \<lparr>redis_url = True, is_prod = True\<rparr> (lock_start 0) sample_locked"
    using acquire [of "\<lparr>redis_url = True, is_prod = True\<rparr>" "lock_start 0" True NoFault "''T''" "''gc''" 60 None
        "Inr (Some sample_lock)" "[''nce:cron:lock:gc'' \<mapsto> (''T'', 60)]"]
    by (simp add: acquire_cron_lock_def acquire_lock_def redis_set_nx_ex_def live_value_def lock_start_def grant_def
        sample_lock_def sample_locked_def LOCAL_DISABLED_def)
  then have "(lock_step \<lparr>redis_url = True, is_prod = True\<rparr>)\<^sup>*\<^sup>* (lock_start 0) sample_locked" by blast
  from conjunct1 [OF lock_mutual_exclusion [OF this]] show ?thesis
    by (simp add: sample_locked_def)
qed

end
