(* ===== verification/MemoryDecay.thy ===== *)
theory MemoryDecay
  imports CronLocks "HOL-Library.Multiset"
begin

text \<open>
  Forgetting (\<^verbatim>\<open>src/nce/temporal_decay.py\<close>, \<^verbatim>\<open>src/nce/salience.py\<close>): the retention of a memory, the sweep that ends the
  validity of forgotten memories under a cron lock, and the salience of a memory for an agent. Times are seconds, floats
  are reals. A memory class is passed as its string, which is what the members of the enumeration are. The rows a
  \<open>LIMIT\<close> without an order picks are an argument, and so is the time of each statement; row-level security is not
  modelled.
\<close>

section \<open>Retention\<close>

definition RETENTION_PRUNE_THRESHOLD :: real where "RETENTION_PRUNE_THRESHOLD = 15 / 100"
definition DECAY_PRUNE_INTERVAL_MINUTES :: int where "DECAY_PRUNE_INTERVAL_MINUTES = 60"
definition DECAY_PRUNE_BATCH_SIZE :: nat where "DECAY_PRUNE_BATCH_SIZE = 500"

datatype MemoryClass = INCIDENT | CONFIGURATION | TOPOLOGY_EDGE | CONSOLIDATED | CODE_CHUNK | EPISODIC

definition memory_classes :: "MemoryClass list" where
  "memory_classes = [INCIDENT, CONFIGURATION, TOPOLOGY_EDGE, CONSOLIDATED, CODE_CHUNK, EPISODIC]"

fun class_value :: "MemoryClass \<Rightarrow> string" where
  "class_value INCIDENT = ''incident''"
| "class_value CONFIGURATION = ''configuration''"
| "class_value TOPOLOGY_EDGE = ''topology_edge''"
| "class_value CONSOLIDATED = ''consolidated''"
| "class_value CODE_CHUNK = ''code_chunk''"
| "class_value EPISODIC = ''episodic''"

definition memory_class_of :: "string \<Rightarrow> MemoryClass option" where
  "memory_class_of s = find (\<lambda>c. class_value c = s) memory_classes"

fun STABILITY :: "MemoryClass \<Rightarrow> real" where
  "STABILITY INCIDENT = 7"
| "STABILITY CONFIGURATION = 30"
| "STABILITY TOPOLOGY_EDGE = 90"
| "STABILITY CONSOLIDATED = 60"
| "STABILITY CODE_CHUNK = 180"
| "STABILITY EPISODIC = 30"

definition stability_for :: "string \<Rightarrow> real" where
  "stability_for memory_class = (case memory_class_of memory_class of None \<Rightarrow> STABILITY EPISODIC | Some c \<Rightarrow> STABILITY c)"

record RetentionResult =
  rt_retention :: real
  rt_elapsed_days :: real
  rt_stability :: real
  rt_class :: MemoryClass
  rt_prune_eligible :: bool

definition retention :: "real \<Rightarrow> string \<Rightarrow> real \<Rightarrow> py_error + RetentionResult" where
  "retention last_interaction memory_class now =
     (if last_interaction > now then Inl (ValueError ''last_interaction is in the future'')
      else case memory_class_of memory_class of
        None \<Rightarrow> Inl (ValueError ''not a valid MemoryClass'')
      | Some mc \<Rightarrow>
          (let s = stability_for (class_value mc);
               t = (now - last_interaction) / 86400;
               r = max 0 (min 1 (exp (- t / s))) in
           Inr \<lparr>rt_retention = r, rt_elapsed_days = t, rt_stability = s, rt_class = mc, rt_prune_eligible = (r < RETENTION_PRUNE_THRESHOLD)\<rparr>))"

definition retention_at_age :: "real \<Rightarrow> string \<Rightarrow> py_error + real" where
  "retention_at_age age_days memory_class =
     (let s = stability_for memory_class in
      if age_days < 0 then Inl (ValueError ''age_days must be non-negative'') else Inr (max 0 (min 1 (exp (- age_days / s)))))"

definition days_until_prune :: "real \<Rightarrow> string \<Rightarrow> real \<Rightarrow> py_error + real" where
  "days_until_prune last_interaction memory_class now =
     and_then (retention last_interaction memory_class now) (\<lambda>result.
       if rt_prune_eligible result then Inr 0
       else (let t_prune = - rt_stability result * ln RETENTION_PRUNE_THRESHOLD in Inr (max 0 (t_prune - rt_elapsed_days result))))"

text \<open>A row of the database as a dictionary: the class may be missing, the time missing or null.\<close>

record decay_row =
  dr_id :: string
  dr_class :: "string option"
  dr_time :: "real option"

definition row_class :: "decay_row \<Rightarrow> string" where
  "row_class row = (case dr_class row of None \<Rightarrow> class_value EPISODIC | Some c \<Rightarrow> c)"

fun score_batch :: "decay_row list \<Rightarrow> real \<Rightarrow> py_error + (decay_row \<times> real \<times> bool) list" where
  "score_batch [] now = Inr []"
| "score_batch (row # rows) now =
     and_then (case dr_time row of
        None \<Rightarrow> Inr (row, 1, False)
      | Some ts \<Rightarrow> and_then (retention ts (row_class row) now) (\<lambda>r. Inr (row, rt_retention r, rt_prune_eligible r))) (\<lambda>scored.
     and_then (score_batch rows now) (\<lambda>rest. Inr (scored # rest)))"

record retention_summary =
  rs_id :: string
  rs_class :: string
  rs_retention :: real
  rs_elapsed_days :: real
  rs_stability :: real
  rs_prune_eligible :: bool
  rs_days_until_prune :: real

definition summarise_memory :: "decay_row \<Rightarrow> real \<Rightarrow> py_error + retention_summary" where
  "summarise_memory row now = (case dr_time row of
      None \<Rightarrow> and_then (days_until_prune now (row_class row) now) (\<lambda>d.
        Inr \<lparr>rs_id = dr_id row, rs_class = row_class row, rs_retention = 1, rs_elapsed_days = 0, rs_stability = stability_for (row_class row),
             rs_prune_eligible = False, rs_days_until_prune = d\<rparr>)
    | Some ts \<Rightarrow> and_then (retention ts (row_class row) now) (\<lambda>r. and_then (days_until_prune ts (row_class row) now) (\<lambda>d.
        Inr \<lparr>rs_id = dr_id row, rs_class = class_value (rt_class r), rs_retention = py_round (rt_retention r) 6,
             rs_elapsed_days = py_round (rt_elapsed_days r) 4, rs_stability = rt_stability r, rs_prune_eligible = rt_prune_eligible r,
             rs_days_until_prune = py_round d 4\<rparr>)))"

fun build_retention_summary :: "decay_row list \<Rightarrow> real \<Rightarrow> py_error + retention_summary list" where
  "build_retention_summary [] now = Inr []"
| "build_retention_summary (row # rows) now =
     and_then (summarise_memory row now) (\<lambda>s. and_then (build_retention_summary rows now) (\<lambda>rest. Inr (s # rest)))"

section \<open>When a memory is forgotten\<close>

lemma memory_class_of_value [simp]: "memory_class_of (class_value c) = Some c"
  by (cases c) (simp_all add: memory_class_of_def memory_classes_def)

lemma memory_class_of_Some: "memory_class_of s = Some c \<longleftrightarrow> s = class_value c"
proof
  assume "memory_class_of s = Some c"
  then show "s = class_value c" by (auto simp: memory_class_of_def find_Some_iff)
qed simp

lemma STABILITY_pos: "0 < STABILITY c"
  by (cases c) simp_all

lemma stability_for_value [simp]: "stability_for (class_value c) = STABILITY c"
  by (simp add: stability_for_def)

definition prune_age :: "MemoryClass \<Rightarrow> real" where
  "prune_age c = - STABILITY c * ln RETENTION_PRUNE_THRESHOLD"

lemma forgotten_iff:
  assumes "0 \<le> t"
  shows "max 0 (min 1 (exp (- t / STABILITY c))) < RETENTION_PRUNE_THRESHOLD \<longleftrightarrow> prune_age c < t"
    and "max 0 (min 1 (exp (- t / STABILITY c))) = exp (- t / STABILITY c)"
proof -
  have "exp (- t / STABILITY c) \<le> 1" using assms STABILITY_pos [of c] by simp
  then show r: "max 0 (min 1 (exp (- t / STABILITY c))) = exp (- t / STABILITY c)" by simp
  have "exp (- t / STABILITY c) < RETENTION_PRUNE_THRESHOLD \<longleftrightarrow> - t / STABILITY c < ln RETENTION_PRUNE_THRESHOLD"
    by (metis RETENTION_PRUNE_THRESHOLD_def exp_less_mono exp_ln ln_exp ln_less_cancel_iff exp_gt_zero divide_pos_pos zero_less_numeral)
  also have "\<dots> \<longleftrightarrow> prune_age c < t"
    using STABILITY_pos [of c] by (auto simp: prune_age_def field_simps)
  finally show "max 0 (min 1 (exp (- t / STABILITY c))) < RETENTION_PRUNE_THRESHOLD \<longleftrightarrow> prune_age c < t" unfolding r .
qed

lemma retention_known:
  assumes "touched \<le> now"
  shows "retention touched (class_value c) now =
    Inr \<lparr>rt_retention = exp (- ((now - touched) / 86400) / STABILITY c), rt_elapsed_days = (now - touched) / 86400, rt_stability = STABILITY c,
         rt_class = c, rt_prune_eligible = (prune_age c < (now - touched) / 86400)\<rparr>"
  using assms forgotten_iff [of "(now - touched) / 86400" c] by (simp add: retention_def Let_def)

lemma days_until_known:
  assumes "touched \<le> now"
  shows "days_until_prune touched (class_value c) now = Inr (max 0 (prune_age c - (now - touched) / 86400))"
  by (auto simp: days_until_prune_def retention_known [OF assms] prune_age_def Let_def max_def)

text \<open>The countdown agrees with the curve: for every class and every memory touched in the past, the retention is
  between 0 and 1, only falls, and is 1 exactly when no time has passed; the reported days until pruning are the exact
  waiting time, so at any later moment the memory is eligible if and only if it was already or that many days have gone
  by.\<close>

theorem countdown_exact:
  assumes "touched \<le> now" and "now \<le> later"
  shows "\<exists>r d r'. retention touched (class_value c) now = Inr r \<and> days_until_prune touched (class_value c) now = Inr d \<and>
    retention touched (class_value c) later = Inr r' \<and> 0 < rt_retention r \<and> rt_retention r \<le> 1 \<and> (rt_retention r = 1 \<longleftrightarrow> now = touched) \<and>
    rt_retention r' \<le> rt_retention r \<and> 0 \<le> d \<and>
    (rt_prune_eligible r' \<longleftrightarrow> rt_prune_eligible r \<or> (later - now) / 86400 > d)"
proof -
  have s: "0 < STABILITY c" by (rule STABILITY_pos)
  have "touched \<le> later" using assms by simp
  note known = retention_known [OF assms(1), of c] retention_known [OF \<open>touched \<le> later\<close>, of c] days_until_known [OF assms(1), of c]
  have "- ((later - touched) / 86400) / STABILITY c \<le> - ((now - touched) / 86400) / STABILITY c"
    using assms(2) s by (simp add: divide_right_mono)
  moreover have "- ((now - touched) / 86400) / STABILITY c \<le> 0" using assms(1) s by simp
  moreover have "prune_age c < (later - touched) / 86400 \<longleftrightarrow>
      prune_age c < (now - touched) / 86400 \<or> max 0 (prune_age c - (now - touched) / 86400) < (later - now) / 86400"
  proof -
    have "p < b \<longleftrightarrow> p < a \<or> max 0 (p - a) < b - a" if "a \<le> b" for p a b :: real using that by auto
    from this [of "(now - touched) / 86400" "(later - touched) / 86400"] assms(2) show ?thesis
      by (simp add: diff_divide_distrib)
  qed
  ultimately show ?thesis unfolding known using s by auto
qed

theorem countdown_exact_witness:
  "\<exists>r. retention 0 ''incident'' (86400 * 20) = Inr r \<and> rt_retention r \<le> 1"
  using countdown_exact [of 0 "86400 * 20" "86400 * 21" INCIDENT] by auto

text \<open>A memory whose type the enumeration lacks makes the whole report fail, although a stability is defined for it.\<close>

lemma unknown_class_raises:
  assumes "memory_class_of c = None" and "dr_class row = Some c" and "dr_time row = Some t"
  shows "\<exists>e. build_retention_summary (rows @ row # others) now = Inl e" "\<exists>e. score_batch (rows @ row # others) now = Inl e"
    "stability_for c = STABILITY EPISODIC"
proof -
  have row: "\<exists>e. retention t (row_class row) now = Inl e" using assms by (simp add: retention_def row_class_def)
  show "\<exists>e. build_retention_summary (rows @ row # others) now = Inl e"
    by (induction rows) (use row assms(3) in \<open>auto simp: summarise_memory_def and_then_def split: sum.splits\<close>)
  show "\<exists>e. score_batch (rows @ row # others) now = Inl e"
    by (induction rows) (use row assms(3) in \<open>auto simp: and_then_def split: sum.splits\<close>)
  show "stability_for c = STABILITY EPISODIC" using assms(1) by (simp add: stability_for_def)
qed

section \<open>The sweep\<close>

record decay_memory =
  dm_id :: string
  dm_created :: real
  dm_ns :: string
  dm_type :: string
  dm_valid_from :: real
  dm_valid_to :: "real option"

record salience_row =
  sl_memory :: string
  sl_agent :: string
  sl_ns :: string
  sl_score :: real
  sl_updated :: real
  sl_count :: int

record decay_db =
  dd_memories :: "decay_memory list"
  dd_salience :: "salience_row list"
  dd_namespaces :: "string list"
  dd_events :: "(string \<times> string \<times> string \<times> string) list"

definition last_touch :: "salience_row list \<Rightarrow> decay_memory \<Rightarrow> real" where
  "last_touch sal m = fold (\<lambda>r t. if sl_memory r = dm_id m then max t (sl_updated r) else t) sal (dm_valid_from m)"

definition prune_ages :: "(string \<times> real) list" where
  "prune_ages = map (\<lambda>mc. (class_value mc, py_round (STABILITY mc * - ln RETENTION_PRUNE_THRESHOLD) 4)) memory_classes"

definition overdue :: "salience_row list \<Rightarrow> real \<Rightarrow> string option \<Rightarrow> string \<Rightarrow> real \<Rightarrow> decay_memory \<Rightarrow> bool" where
  "overdue sal now ns mc_value age m \<longleftrightarrow> dm_type m = mc_value \<and> dm_valid_to m = None \<and> (now - last_touch sal m) / 86400 > age \<and>
     (ns = None \<or> ns = Some (dm_ns m))"

text \<open>\<open>limit n rows\<close>: the rows that \<open>LIMIT n\<close> lets through. The update joins the table with them on the primary key.\<close>

type_synonym row_limit = "nat \<Rightarrow> decay_memory list \<Rightarrow> decay_memory list"

definition picked :: "decay_memory list \<Rightarrow> string option \<Rightarrow> decay_memory \<Rightarrow> bool" where
  "picked candidates ns m \<longleftrightarrow> list_ex (\<lambda>c. dm_id m = dm_id c \<and> dm_created m = dm_created c) candidates \<and> (ns = None \<or> ns = Some (dm_ns m))"

definition prune_class :: "row_limit \<Rightarrow> real \<Rightarrow> string option \<Rightarrow> string \<times> real \<Rightarrow> decay_db \<Rightarrow> nat \<times> decay_db" where
  "prune_class limit now ns = (\<lambda>(mc_value, age) db.
     let candidates = limit DECAY_PRUNE_BATCH_SIZE (filter (overdue (dd_salience db) now ns mc_value age) (dd_memories db)) in
     (length (filter (picked candidates ns) (dd_memories db)),
      db\<lparr>dd_memories := map (\<lambda>m. if picked candidates ns m then m\<lparr>dm_valid_to := Some now\<rparr> else m) (dd_memories db)\<rparr>))"

text \<open>\<open>clock ns c\<close> is the time of the statement for a namespace and a class, \<open>None\<close> when it fails: its transaction is rolled
  back, the error is logged and the sweep goes on.\<close>

type_synonym statement_clock = "string option \<Rightarrow> string \<Rightarrow> real option"

definition prune_statement :: "row_limit \<Rightarrow> statement_clock \<Rightarrow> string option \<times> string \<times> real \<Rightarrow> nat \<times> decay_db \<Rightarrow> nat \<times> decay_db" where
  "prune_statement limit clock = (\<lambda>(ns, c) (total_pruned, db).
     case clock ns (fst c) of
       None \<Rightarrow> (total_pruned, db)
     | Some now \<Rightarrow> (case prune_class limit now ns c db of (pruned, db') \<Rightarrow> (total_pruned + pruned, db')))"

definition sweep_namespaces :: "decay_db \<Rightarrow> string option list" where
  "sweep_namespaces db = (if dd_namespaces db = [] then [None] else map Some (dd_namespaces db))"

definition decay_sweep :: "row_limit \<Rightarrow> statement_clock \<Rightarrow> decay_db \<Rightarrow> nat \<times> decay_db" where
  "decay_sweep limit clock db = fold (prune_statement limit clock) (List.product (sweep_namespaces db) prune_ages) (0, db)"

definition decay_prune_tick ::
  "lock_cfg \<Rightarrow> real \<Rightarrow> real \<Rightarrow> bool \<Rightarrow> redis_fault \<Rightarrow> redis_fault \<Rightarrow> string \<Rightarrow> row_limit \<Rightarrow> statement_clock \<Rightarrow> redis_store \<times> decay_db \<Rightarrow>
     (py_error + nat) \<times> redis_store \<times> decay_db" where
  "decay_prune_tick cfg start finish connects fault fault' token limit clock = (\<lambda>(store, db).
     case acquire_cron_lock cfg start connects fault token ''decay_prune'' (DECAY_PRUNE_INTERVAL_MINUTES * 60 + 60) None store of
       (Inl e, store') \<Rightarrow> (Inl e, store', db)
     | (Inr None, store') \<Rightarrow> (Inr 0, store', db)
     | (Inr (Some lock), store') \<Rightarrow>
         (case decay_sweep limit clock db of (total_pruned, db') \<Rightarrow> (Inr total_pruned, snd (release_cron_lock finish connects fault' lock store'), db')))"

section \<open>What the sweep ends\<close>

definition row_key :: "decay_memory \<Rightarrow> string \<times> real" where
  "row_key m = (dm_id m, dm_created m)"

definition keys_distinct :: "decay_db \<Rightarrow> bool" where
  "keys_distinct db \<longleftrightarrow> distinct (map row_key (dd_memories db))"

definition limit_ok :: "row_limit \<Rightarrow> bool" where
  "limit_ok limit \<longleftrightarrow> (\<forall>n rows. mset (limit n rows) \<subseteq># mset rows \<and> length (limit n rows) = min n (length rows))"

abbreviation live_rows :: "decay_db \<Rightarrow> decay_memory list" where
  "live_rows db \<equiv> filter (\<lambda>m. dm_valid_to m = None) (dd_memories db)"

text \<open>A memory is left alone, or it was live, and the statement that ended it ran when its class had been forgotten for the time
  since its last touch; the thresholds are rounded to four digits, so this may be 1/20000 of a day early.\<close>

definition ended_justly :: "salience_row list \<Rightarrow> statement_clock \<Rightarrow> decay_memory \<Rightarrow> decay_memory \<Rightarrow> bool" where
  "ended_justly sal clock m m' \<longleftrightarrow> m' = m \<or>
     (\<exists>ns mc now. clock ns (class_value mc) = Some now \<and> (ns = None \<or> ns = Some (dm_ns m)) \<and> dm_valid_to m = None \<and> dm_type m = class_value mc \<and>
        prune_age mc < (now - last_touch sal m) / 86400 + 1 / 20000 \<and> m' = m\<lparr>dm_valid_to := Some now\<rparr>)"

interpretation decay: row_order "ended_justly sal clock" for sal clock
  by unfold_locales (auto simp: ended_justly_def)

lemma prune_ages_class: "(v, age) \<in> set prune_ages \<Longrightarrow> \<exists>mc. v = class_value mc \<and> prune_age mc \<le> age + 1 / 20000"
proof -
  assume "(v, age) \<in> set prune_ages"
  then obtain mc where mc: "v = class_value mc" "age = py_round (STABILITY mc * - ln RETENTION_PRUNE_THRESHOLD) 4"
    by (auto simp: prune_ages_def)
  have "STABILITY mc * - ln RETENTION_PRUNE_THRESHOLD \<le> age + 1 / 20000"
  proof -
    have "\<bar>age - STABILITY mc * - ln RETENTION_PRUNE_THRESHOLD\<bar> \<le> 1 / (2 * 10 ^ 4)" unfolding mc(2) by (rule py_round_near)
    also have "1 / (2 * 10 ^ 4) = (1 / 20000 :: real)" by simp
    finally show ?thesis by linarith
  qed
  then show ?thesis using mc(1) by (auto simp: prune_age_def)
qed

lemma limit_okD:
  assumes "limit_ok limit"
  shows "mset (limit n rows) \<subseteq># mset rows" "length (limit n rows) = min n (length rows)" "set (limit n rows) \<subseteq> set rows"
    "distinct rows \<Longrightarrow> distinct (limit n rows)"
proof -
  show sub: "mset (limit n rows) \<subseteq># mset rows" and "length (limit n rows) = min n (length rows)" using assms by (auto simp: limit_ok_def)
  show "set (limit n rows) \<subseteq> set rows" using set_mset_mono [OF sub] by simp
  show "distinct (limit n rows)" if "distinct rows"
    unfolding distinct_count_atmost_1
  proof
    fix a
    have "count (mset (limit n rows)) a \<le> 1"
      using mset_subset_eq_count [OF sub, of a] that unfolding distinct_count_atmost_1 by (metis le_trans order_refl zero_le_one)
    then show "count (mset (limit n rows)) a = (if a \<in> set (limit n rows) then 1 else 0)"
      by (metis count_greater_zero_iff count_eq_zero_iff le_antisym less_one not_less set_mset_mset)
  qed
qed

lemma picked_iff:
  assumes "limit_ok limit" and "keys_distinct db" and "m \<in> set (dd_memories db)"
    and c: "candidates = limit n (filter (overdue sal now ns v age) (dd_memories db))"
  shows "picked candidates ns m \<longleftrightarrow> m \<in> set candidates" "m \<in> set candidates \<Longrightarrow> overdue sal now ns v age m"
proof -
  have sub: "set candidates \<subseteq> {x \<in> set (dd_memories db). overdue sal now ns v age x}"
    using limit_okD(3) [OF assms(1), of n "filter (overdue sal now ns v age) (dd_memories db)"] c by auto
  then show "m \<in> set candidates \<Longrightarrow> overdue sal now ns v age m" by blast
  have "x = m" if "x \<in> set candidates" "row_key x = row_key m" for x
    using that assms(2,3) sub by (auto simp: keys_distinct_def distinct_map dest: inj_onD)
  then show "picked candidates ns m \<longleftrightarrow> m \<in> set candidates"
    using sub by (auto simp: picked_def list_ex_iff row_key_def overdue_def)
qed

lemma picked_count:
  assumes "limit_ok limit" and "keys_distinct db" and c: "candidates = limit n (filter P (dd_memories db))" and "P = overdue sal now ns v age"
  shows "length (filter (picked candidates ns) (dd_memories db)) = length candidates"
proof -
  have sub: "set candidates \<subseteq> set (dd_memories db)" using limit_okD(3) [OF assms(1), of n "filter P (dd_memories db)"] c by auto
  have dm: "distinct (dd_memories db)" using assms(2) by (simp add: keys_distinct_def distinct_map)
  then have dc: "distinct candidates"
    using limit_okD(4) [OF assms(1)] c by simp
  have "set (filter (picked candidates ns) (dd_memories db)) = set candidates"
    using picked_iff(1) [OF assms(1,2) _ c [unfolded assms(4)]] sub by auto
  then show ?thesis using dm dc by (metis distinct_card distinct_filter)
qed

lemma prune_class_frame:
  assumes "prune_class limit now ns c db = (n, db')"
  shows "dd_salience db' = dd_salience db" "dd_namespaces db' = dd_namespaces db" "map row_key (dd_memories db') = map row_key (dd_memories db)"
  using assms by (auto simp: prune_class_def Let_def row_key_def split: prod.splits)

lemma filter_split_count:
  "(\<And>x. x \<in> set xs \<Longrightarrow> P x \<Longrightarrow> Q x) \<Longrightarrow> (\<And>x. x \<in> set xs \<Longrightarrow> R x \<longleftrightarrow> Q x \<and> \<not> P x) \<Longrightarrow>
     length (filter P xs) + length (filter R xs) = length (filter Q xs)"
  by (induct xs) auto

lemma table_forward_same_length:
  assumes "table_forward R xs ys" and "length ys = length xs"
  shows "list_all2 R xs ys"
proof -
  obtain zs new where zs: "ys = zs @ new" "list_all2 R xs zs" using assms(1) by (auto simp: table_forward_def)
  then have "new = []" using assms(2) list_all2_lengthD [OF zs(2)] by simp
  then show ?thesis using zs by simp
qed

lemma prune_class_exact:
  assumes "limit_ok limit" and "keys_distinct db" and "prune_class limit now ns (v, age) db = (n, db')"
    and "(v, age) \<in> set prune_ages" and "clock ns v = Some now"
  shows "table_forward (ended_justly (dd_salience db) clock) (dd_memories db) (dd_memories db')"
    and "n = min DECAY_PRUNE_BATCH_SIZE (length (filter (overdue (dd_salience db) now ns v age) (dd_memories db)))"
    and "n + length (live_rows db') = length (live_rows db)"
proof -
  let ?over = "overdue (dd_salience db) now ns v age"
  define cs where "cs = limit DECAY_PRUNE_BATCH_SIZE (filter ?over (dd_memories db))"
  have db': "db' = db\<lparr>dd_memories := map (\<lambda>m. if picked cs ns m then m\<lparr>dm_valid_to := Some now\<rparr> else m) (dd_memories db)\<rparr>"
    and n: "n = length (filter (picked cs ns) (dd_memories db))"
    using assms(3) by (auto simp: prune_class_def cs_def Let_def)
  note picked = picked_iff [OF assms(1,2) _ cs_def]
  from prune_ages_class [OF assms(4)] obtain mc where mc: "v = class_value mc" "prune_age mc \<le> age + 1 / 20000" by blast
  have "ended_justly (dd_salience db) clock m (if picked cs ns m then m\<lparr>dm_valid_to := Some now\<rparr> else m)"
    if "m \<in> set (dd_memories db)" for m
  proof (cases "picked cs ns m")
    case True
    then have "?over m" using picked [OF that] by blast
    moreover from this have "prune_age mc < (now - last_touch (dd_salience db) m) / 86400 + 1 / 20000"
      using mc(2) unfolding overdue_def by linarith
    ultimately show ?thesis using True mc(1) assms(5) unfolding ended_justly_def overdue_def
      by (intro disjI2 exI [of _ ns] exI [of _ mc] exI [of _ now]) auto
  qed (simp add: ended_justly_def)
  then show "table_forward (ended_justly (dd_salience db) clock) (dd_memories db) (dd_memories db')"
    unfolding db' by (simp add: decay.table_map)
  show "n = min DECAY_PRUNE_BATCH_SIZE (length (filter ?over (dd_memories db)))"
    unfolding n picked_count [OF assms(1,2) cs_def refl] by (simp add: cs_def limit_okD(2) [OF assms(1)])
  have "dm_valid_to m = None" if "m \<in> set (dd_memories db)" "picked cs ns m" for m
    using picked [OF that(1)] that(2) by (auto simp: overdue_def)
  then show "n + length (live_rows db') = length (live_rows db)"
    unfolding n db' by (auto simp: filter_map comp_def intro!: filter_split_count)
qed

definition sweep_ok :: "row_limit \<Rightarrow> statement_clock \<Rightarrow> decay_db \<Rightarrow> nat \<Rightarrow> decay_db \<Rightarrow> bool" where
  "sweep_ok limit clock db n db' \<longleftrightarrow> table_forward (ended_justly (dd_salience db) clock) (dd_memories db) (dd_memories db') \<and>
     dd_salience db' = dd_salience db \<and> dd_namespaces db' = dd_namespaces db \<and> map row_key (dd_memories db') = map row_key (dd_memories db) \<and>
     n + length (live_rows db') = length (live_rows db)"

lemma prune_statement_ok:
  assumes "limit_ok limit" and "keys_distinct db" and "sweep_ok limit clock db n db1" and "c \<in> set prune_ages"
    and "prune_statement limit clock (ns, c) (n, db1) = (n', db')"
  shows "sweep_ok limit clock db n' db'"
proof (cases "clock ns (fst c)")
  case None
  then show ?thesis using assms(3,5) by (simp add: prune_statement_def)
next
  case (Some now)
  obtain k where k: "prune_class limit now ns c db1 = (k, db')" "n' = n + k"
    using assms(5) Some by (auto simp: prune_statement_def split: prod.splits)
  obtain v age where c: "c = (v, age)" by (cases c)
  have keys: "keys_distinct db1" using assms(2,3) by (simp add: keys_distinct_def sweep_ok_def)
  have same: "dd_salience db1 = dd_salience db" using assms(3) by (simp add: sweep_ok_def)
  note exact = prune_class_exact [OF assms(1) keys k(1) [unfolded c] assms(4) [unfolded c], of clock]
  show ?thesis
    using assms(3) exact Some prune_class_frame [OF k(1)] k(2) decay.table_trans same
    by (auto simp: sweep_ok_def c)
qed

lemma sweep_fold_ok:
  assumes "limit_ok limit" and "keys_distinct db" and "sweep_ok limit clock db n db1" and "snd ` set cs \<subseteq> set prune_ages"
    and "fold (prune_statement limit clock) cs (n, db1) = (n', db')"
  shows "sweep_ok limit clock db n' db'"
  using assms(3-5)
proof (induction cs arbitrary: n db1)
  case (Cons x cs)
  obtain n2 db2 where step: "prune_statement limit clock x (n, db1) = (n2, db2)" by (cases "prune_statement limit clock x (n, db1)")
  have "sweep_ok limit clock db n2 db2"
    using prune_statement_ok [OF assms(1,2) Cons.prems(1), of "snd x" "fst x" n2 db2] Cons.prems(2) step by simp
  then show ?case using Cons.IH Cons.prems(2,3) step by simp
qed simp

lemma decay_sweep_ok:
  assumes "limit_ok limit" and "keys_distinct db" and "decay_sweep limit clock db = (n, db')"
  shows "sweep_ok limit clock db n db'"
proof (rule sweep_fold_ok [OF assms(1,2)])
  show "sweep_ok limit clock db 0 db" by (simp add: sweep_ok_def decay.table_refl)
  show "fold (prune_statement limit clock) (List.product (sweep_namespaces db) prune_ages) (0, db) = (n, db')"
    using assms(3) by (simp add: decay_sweep_def)
qed auto

text \<open>C16: The sweep forgets only what the curve has forgotten. In a tick of the job every memory keeps all its fields, or
  exactly its validity ends, at the time of a statement that ran while it was live and when, since it was last written
  or recalled by any agent, at least the prune age of its class had passed (up to the four digits the thresholds are
  rounded to); memories of types outside the enumeration are never ended. The count the job reports is the number of
  memories that ended, and when another instance holds the lock nothing changes.\<close>

theorem sweep_forgets_forgotten:
  assumes "limit_ok limit" and "keys_distinct db"
    and "decay_prune_tick cfg start finish connects fault fault' token limit clock (store, db) = (Inr n, store', db')"
  shows "list_all2 (ended_justly (dd_salience db) clock) (dd_memories db) (dd_memories db') \<and>
    n + length (live_rows db') = length (live_rows db) \<and> dd_salience db' = dd_salience db \<and>
    (acquire_cron_lock cfg start connects fault token ''decay_prune'' 3660 None store = (Inr None, store) \<longrightarrow> db' = db \<and> n = 0 \<and> store' = store)"
proof -
  have "n = 0 \<and> db' = db \<or> decay_sweep limit clock db = (n, db')"
    using assms(3) by (auto simp: decay_prune_tick_def split: prod.splits sum.splits option.splits)
  then have ok: "sweep_ok limit clock db n db'"
  proof
    assume "n = 0 \<and> db' = db"
    then show ?thesis by (simp add: sweep_ok_def decay.table_refl)
  qed (rule decay_sweep_ok [OF assms(1,2)])
  then have "length (dd_memories db') = length (dd_memories db)" using map_eq_imp_length_eq sweep_ok_def by metis
  then have "list_all2 (ended_justly (dd_salience db) clock) (dd_memories db) (dd_memories db')"
    using ok by (simp add: sweep_ok_def table_forward_same_length)
  moreover have "db' = db \<and> n = 0 \<and> store' = store"
    if "acquire_cron_lock cfg start connects fault token ''decay_prune'' 3660 None store = (Inr None, store)"
    using assms(3) that by (simp add: decay_prune_tick_def DECAY_PRUNE_INTERVAL_MINUTES_def)
  ultimately show ?thesis using ok unfolding sweep_ok_def by blast
qed

section \<open>The sweep catches up\<close>

abbreviation of_class :: "string \<Rightarrow> string \<Rightarrow> decay_memory \<Rightarrow> bool" where
  "of_class x v m \<equiv> dm_valid_to m = None \<and> dm_type m = v \<and> dm_ns m = x"

definition backlog :: "string \<Rightarrow> string \<Rightarrow> decay_db \<Rightarrow> nat" where
  "backlog x v db = length (filter (of_class x v) (dd_memories db))"

definition ended :: "decay_memory \<Rightarrow> decay_db \<Rightarrow> bool" where
  "ended m db \<longleftrightarrow> (\<exists>m' \<in> set (dd_memories db). row_key m' = row_key m \<and> dm_valid_to m' \<noteq> None)"

lemma ended_justly_keeps:
  "ended_justly sal clock m m' \<Longrightarrow> row_key m' = row_key m \<and> (m' = m \<or> dm_valid_to m' \<noteq> None) \<and>
     (dm_valid_to m \<noteq> None \<longrightarrow> m' = m) \<and> (of_class x v m' \<longrightarrow> of_class x v m)"
  by (auto simp: ended_justly_def row_key_def)

lemma forward_keeps:
  assumes "table_forward (ended_justly sal clock) (dd_memories db) (dd_memories db')"
    and "length (dd_memories db') = length (dd_memories db)"
  shows "ended m db \<Longrightarrow> ended m db'" "m \<in> set (dd_memories db) \<Longrightarrow> m \<in> set (dd_memories db') \<or> ended m db'" "backlog x v db' \<le> backlog x v db"
proof -
  have row: "\<exists>m' \<in> set (dd_memories db'). ended_justly sal clock m m'" if "m \<in> set (dd_memories db)" for m
    using decay.table_row [OF assms(1) that] .
  then show "m \<in> set (dd_memories db) \<Longrightarrow> m \<in> set (dd_memories db') \<or> ended m db'"
    unfolding ended_def using ended_justly_keeps by metis
  show "ended m db \<Longrightarrow> ended m db'" unfolding ended_def using row ended_justly_keeps by metis
  have "length (filter (of_class x v) ys) \<le> length (filter (of_class x v) xs)" if "list_all2 (ended_justly sal clock) xs ys" for xs ys
    using that by (induction rule: list_all2_induct) (use ended_justly_keeps in auto)
  then show "backlog x v db' \<le> backlog x v db" using table_forward_same_length [OF assms] by (simp add: backlog_def)
qed

lemma prune_class_progress:
  assumes "limit_ok limit" and "keys_distinct db" and "prune_class limit now (Some x) (v, age) db = (n, db')"
    and "m \<in> set (dd_memories db)" and "overdue (dd_salience db) now (Some x) v age m"
  shows "ended m db' \<or> backlog x v db' + DECAY_PRUNE_BATCH_SIZE \<le> backlog x v db"
proof -
  let ?over = "overdue (dd_salience db) now (Some x) v age"
  define cs where "cs = limit DECAY_PRUNE_BATCH_SIZE (filter ?over (dd_memories db))"
  have db': "dd_memories db' = map (\<lambda>m. if picked cs (Some x) m then m\<lparr>dm_valid_to := Some now\<rparr> else m) (dd_memories db)"
    using assms(3) by (auto simp: prune_class_def cs_def Let_def)
  note picked = picked_iff [OF assms(1,2) _ cs_def]
  show ?thesis
  proof (cases "picked cs (Some x) m")
    case True
    then have "m\<lparr>dm_valid_to := Some now\<rparr> \<in> set (dd_memories db')" unfolding db' using assms(4) by force
    then show ?thesis unfolding ended_def row_key_def by (intro disjI1 bexI) auto
  next
    case False
    have "length cs < length (filter ?over (dd_memories db))"
    proof (rule ccontr)
      assume "\<not> length cs < length (filter ?over (dd_memories db))"
      then have "mset cs = mset (filter ?over (dd_memories db))"
        using limit_okD(1) [OF assms(1)] by (metis cs_def mset_subset_size not_less size_mset subset_mset.less_le)
      then have "m \<in> set cs" using assms(4,5) by (metis (mono_tags) mem_Collect_eq set_filter set_mset_mset)
      then show False using False picked(1) [OF assms(4)] by simp
    qed
    then have "length cs = DECAY_PRUNE_BATCH_SIZE"
      using limit_okD(2) [OF assms(1), of DECAY_PRUNE_BATCH_SIZE "filter ?over (dd_memories db)"] unfolding cs_def [symmetric] by linarith
    then have "length (filter (picked cs (Some x)) (dd_memories db)) = DECAY_PRUNE_BATCH_SIZE"
      using picked_count [OF assms(1,2) cs_def refl] by simp
    moreover have "length (filter (picked cs (Some x)) (dd_memories db)) + backlog x v db' = backlog x v db"
      unfolding backlog_def db' filter_map length_map comp_def
      by (rule filter_split_count) (use picked in \<open>auto simp: overdue_def\<close>)
    ultimately show ?thesis by simp
  qed
qed

text \<open>A statement keeps what is still open and makes progress when it is the one for the memory's class and namespace.\<close>

definition pending_or_ended :: "decay_memory \<Rightarrow> nat \<Rightarrow> decay_db \<Rightarrow> bool" where
  "pending_or_ended m bound db \<longleftrightarrow> ended m db \<or> m \<in> set (dd_memories db) \<and> backlog (dm_ns m) (dm_type m) db \<le> bound"

lemma prune_class_forward:
  assumes "limit_ok limit" and "keys_distinct db" and "prune_class limit now ns c db = (n, db')" and "c \<in> set prune_ages"
  shows "table_forward (ended_justly (dd_salience db) (\<lambda>_ _. Some now)) (dd_memories db) (dd_memories db')"
    "length (dd_memories db') = length (dd_memories db)"
proof -
  obtain v age where c: "c = (v, age)" by (cases c)
  show "table_forward (ended_justly (dd_salience db) (\<lambda>_ _. Some now)) (dd_memories db) (dd_memories db')"
    using prune_class_exact(1) [OF assms(1,2) assms(3) [unfolded c] assms(4) [unfolded c], of "\<lambda>_ _. Some now"] by simp
  show "length (dd_memories db') = length (dd_memories db)"
    using prune_class_frame(3) [OF assms(3)] map_eq_imp_length_eq by blast
qed

lemma prune_class_ended:
  assumes "limit_ok limit" and "keys_distinct db" and "prune_class limit now ns c db = (n, db')" and "c \<in> set prune_ages" and "ended m db"
  shows "ended m db'"
  using forward_keeps(1) [OF prune_class_forward [OF assms(1-4)] assms(5)] .

lemma prune_class_pending:
  assumes "limit_ok limit" and "keys_distinct db" and "prune_class limit now ns c db = (n, db')" and "c \<in> set prune_ages"
    and "pending_or_ended m bound db"
  shows "pending_or_ended m bound db'"
  using assms(5) forward_keeps [OF prune_class_forward [OF assms(1-4)]] unfolding pending_or_ended_def by (meson le_trans)

definition decay_sweeps :: "row_limit \<Rightarrow> statement_clock list \<Rightarrow> decay_db \<Rightarrow> decay_db" where
  "decay_sweeps limit clocks db = fold (\<lambda>clock db. snd (decay_sweep limit clock db)) clocks db"

lemma prune_statement_same:
  assumes "prune_statement limit clock (ns, c) (n, db) = (n', db')"
  shows "dd_salience db' = dd_salience db" "dd_namespaces db' = dd_namespaces db" "keys_distinct db' \<longleftrightarrow> keys_distinct db"
  using assms prune_class_frame by (auto simp: prune_statement_def keys_distinct_def split: option.splits prod.splits)

text \<open>One sweep, statement by statement: what is pending stays so, and after the statement of its own class the backlog is
  smaller by a batch.\<close>

lemma sweep_fold_pending:
  assumes "limit_ok limit" and "mine = (Some (dm_ns m), dm_type m, age)"
    and "\<exists>now. clock (Some (dm_ns m)) (dm_type m) = Some now \<and> (now - last_touch sal m) / 86400 > age" and "dm_valid_to m = None"
    and "fold (prune_statement limit clock) cs (n, db) = (n', db')" and "snd ` set cs \<subseteq> set prune_ages"
    and "keys_distinct db" and "dd_salience db = sal" and "pending_or_ended m bound db"
  shows "pending_or_ended m (if mine \<in> set cs then bound - DECAY_PRUNE_BATCH_SIZE else bound) db' \<and>
    keys_distinct db' \<and> dd_salience db' = sal \<and> dd_namespaces db' = dd_namespaces db"
  using assms(5-9)
proof (induction cs arbitrary: n db bound)
  case (Cons x cs)
  obtain ns c where x: "x = (ns, c)" by (cases x)
  obtain n2 db2 where step: "prune_statement limit clock (ns, c) (n, db) = (n2, db2)" by (cases "prune_statement limit clock (ns, c) (n, db)")
  note same = prune_statement_same [OF step]
  let ?b = "if x = mine then bound - DECAY_PRUNE_BATCH_SIZE else bound"
  have "pending_or_ended m ?b db2"
  proof (cases "clock ns (fst c)")
    case None
    then have "x \<noteq> mine" using assms(2,3) x by auto
    then show ?thesis using None step Cons.prems(5) by (simp add: prune_statement_def)
  next
    case (Some now)
    obtain k where k: "prune_class limit now ns c db = (k, db2)" using step Some by (auto simp: prune_statement_def split: prod.splits)
    have weak: "pending_or_ended m bound db2"
      using prune_class_pending [OF assms(1) Cons.prems(3) k _ Cons.prems(5)] Cons.prems(2) x by simp
    show ?thesis
    proof (cases "x = mine \<and> \<not> ended m db2")
      case True
      then have mine: "ns = Some (dm_ns m)" "c = (dm_type m, age)" using x assms(2) by auto
      have open_before: "m \<in> set (dd_memories db)" "backlog (dm_ns m) (dm_type m) db \<le> bound"
        using True prune_class_ended [OF assms(1) Cons.prems(3) k] Cons.prems(2,5) x by (auto simp: pending_or_ended_def)
      have "overdue (dd_salience db) now (Some (dm_ns m)) (dm_type m) age m"
        using assms(3,4) Cons.prems(4) Some mine by (simp add: overdue_def)
      then have "backlog (dm_ns m) (dm_type m) db2 + DECAY_PRUNE_BATCH_SIZE \<le> backlog (dm_ns m) (dm_type m) db"
        using prune_class_progress [OF assms(1) Cons.prems(3) k [unfolded mine] open_before(1)] True by blast
      then show ?thesis using True weak open_before(2) by (auto simp: pending_or_ended_def)
    next
      case False
      then show ?thesis using weak by (auto simp: pending_or_ended_def)
    qed
  qed
  then have "pending_or_ended m (if mine \<in> set cs then ?b - DECAY_PRUNE_BATCH_SIZE else ?b) db' \<and>
      keys_distinct db' \<and> dd_salience db' = sal \<and> dd_namespaces db' = dd_namespaces db2"
    using Cons.IH [of n2 db2 ?b] Cons.prems step x same by simp
  then show ?case using same(2) by (auto simp: pending_or_ended_def split: if_splits)
qed simp

text \<open>In a sweep the statement for the memory's class and namespace succeeds at a time when the memory is overdue.\<close>

definition due_in :: "salience_row list \<Rightarrow> MemoryClass \<Rightarrow> decay_memory \<Rightarrow> statement_clock \<Rightarrow> bool" where
  "due_in sal mc m clock \<longleftrightarrow>
     (\<exists>now. clock (Some (dm_ns m)) (dm_type m) = Some now \<and> (now - last_touch sal m) / 86400 > py_round (prune_age mc) 4)"

lemma decay_sweep_pending:
  assumes "limit_ok limit" and "dm_type m = class_value mc" and "Some (dm_ns m) \<in> set (sweep_namespaces db)"
    and "due_in (dd_salience db) mc m clock" and "dm_valid_to m = None" and "keys_distinct db" and "pending_or_ended m bound db"
  shows "pending_or_ended m (bound - DECAY_PRUNE_BATCH_SIZE) (snd (decay_sweep limit clock db)) \<and> keys_distinct (snd (decay_sweep limit clock db)) \<and>
    dd_salience (snd (decay_sweep limit clock db)) = dd_salience db \<and> dd_namespaces (snd (decay_sweep limit clock db)) = dd_namespaces db"
proof -
  let ?cs = "List.product (sweep_namespaces db) prune_ages" and ?mine = "(Some (dm_ns m), dm_type m, py_round (prune_age mc) 4)"
  obtain n db' where run: "fold (prune_statement limit clock) ?cs (0, db) = (n, db')" by fastforce
  have "(dm_type m, py_round (prune_age mc) 4) \<in> set prune_ages"
    unfolding assms(2) by (cases mc) (simp_all add: prune_ages_def memory_classes_def prune_age_def)
  then have mine: "?mine \<in> set ?cs" using assms(3) by auto
  have "snd ` set ?cs \<subseteq> set prune_ages" by auto
  from sweep_fold_pending [OF assms(1) refl assms(4) [unfolded due_in_def] assms(5) run this assms(6) refl assms(7)] mine run show ?thesis
    by (simp add: decay_sweep_def)
qed

lemma decay_sweeps_pending:
  assumes "limit_ok limit" and "dm_type m = class_value mc" and "dm_ns m \<in> set (dd_namespaces db)" and "dm_valid_to m = None"
    and "list_all (due_in (dd_salience db) mc m) clocks"
    and "keys_distinct db" and "pending_or_ended m bound db"
  shows "pending_or_ended m (bound - length clocks * 500) (decay_sweeps limit clocks db)"
  using assms(3,5-7)
proof (induction clocks arbitrary: db bound)
  case (Cons clock clocks)
  let ?db2 = "snd (decay_sweep limit clock db)"
  have "Some (dm_ns m) \<in> set (sweep_namespaces db)" using Cons.prems(1) by (auto simp: sweep_namespaces_def)
  from decay_sweep_pending [OF assms(1,2) this _ assms(4) Cons.prems(3,4), of clock] Cons.prems(2)
  have swept: "pending_or_ended m (bound - 500) ?db2" "keys_distinct ?db2" "dd_salience ?db2 = dd_salience db" "dd_namespaces ?db2 = dd_namespaces db"
    by (auto simp: DECAY_PRUNE_BATCH_SIZE_def)
  have "pending_or_ended m (bound - 500 - length clocks * 500) (decay_sweeps limit clocks ?db2)"
    by (rule Cons.IH) (use Cons.prems(1,2) swept in auto)
  then show ?case by (simp add: decay_sweeps_def)
qed (simp add: decay_sweeps_def)

lemma decay_sweeps_ended: "limit_ok limit \<Longrightarrow> keys_distinct db \<Longrightarrow> ended m db \<Longrightarrow> ended m (decay_sweeps limit clocks db)"
proof (induction clocks arbitrary: db)
  case (Cons clock clocks)
  obtain n db2 where run: "decay_sweep limit clock db = (n, db2)" by fastforce
  note ok = decay_sweep_ok [OF Cons.prems(1,2) run]
  have len: "length (dd_memories db2) = length (dd_memories db)" using ok map_eq_imp_length_eq sweep_ok_def by metis
  have "ended m db2" using forward_keeps(1) [OF _ len Cons.prems(3)] ok by (auto simp: sweep_ok_def)
  moreover have "keys_distinct db2" using ok Cons.prems(2) by (simp add: sweep_ok_def keys_distinct_def)
  ultimately show ?case using Cons.IH Cons.prems(1) run by (simp add: decay_sweeps_def)
qed (simp add: decay_sweeps_def)

text \<open>C18: The sweep catches up: whatever the backlog of a class in a namespace, after as many hourly sweeps as there are
  batches of five hundred in it, with the statement of that class and namespace succeeding each time, every memory of it
  that was overdue from the first sweep on has ended, whichever rows the database picks first.\<close>

theorem sweeps_catch_up:
  assumes "limit_ok limit" and "keys_distinct db" and "m \<in> set (dd_memories db)" and "dm_type m = class_value mc"
    and "dm_ns m \<in> set (dd_namespaces db)"
    and "list_all (due_in (dd_salience db) mc m) clocks"
    and "backlog (dm_ns m) (dm_type m) db \<le> length clocks * 500"
  shows "\<exists>m' \<in> set (dd_memories (decay_sweeps limit clocks db)). row_key m' = row_key m \<and> dm_valid_to m' \<noteq> None"
proof (cases "dm_valid_to m")
  case None
  have "pending_or_ended m (length clocks * 500) db" using assms(3,7) by (simp add: pending_or_ended_def)
  from decay_sweeps_pending [OF assms(1,4,5) None assms(6,2) this]
  have "pending_or_ended m 0 (decay_sweeps limit clocks db)" by simp
  then have "ended m (decay_sweeps limit clocks db)" using None by (auto simp: pending_or_ended_def backlog_def filter_empty_conv)
  then show ?thesis by (simp add: ended_def)
next
  case (Some t)
  then have "ended m db" using assms(3) by (auto simp: ended_def)
  then show ?thesis using decay_sweeps_ended [OF assms(1,2)] unfolding ended_def by blast
qed

lemma limit_ok_take: "limit_ok take"
  by (auto simp: limit_ok_def) (metis append_take_drop_id mset_append mset_subset_eq_add_left)

definition demo_memory :: decay_memory where
  "demo_memory = \<lparr>dm_id = ''m'', dm_created = 0, dm_ns = ''n'', dm_type = ''incident'', dm_valid_from = 0, dm_valid_to = None\<rparr>"

definition demo_decay :: decay_db where
  "demo_decay = \<lparr>dd_memories = [demo_memory], dd_salience = [], dd_namespaces = [''n''], dd_events = []\<rparr>"

lemma prune_age_incident: "py_round (prune_age INCIDENT) 4 < 100"
proof -
  have "ln (20 / 3 :: real) \<le> 20 / 3 - 1" by (rule ln_le_minus_one) simp
  moreover have "ln RETENTION_PRUNE_THRESHOLD = - ln (20 / 3)"
    unfolding RETENTION_PRUNE_THRESHOLD_def by (subst ln_inverse [symmetric]) simp_all
  ultimately have "prune_age INCIDENT \<le> 40" by (simp add: prune_age_def)
  then have "py_round (prune_age INCIDENT) 4 \<le> py_round (of_int 40) 4" using py_round_mono by simp
  then show ?thesis unfolding py_round_of_int by simp
qed

abbreviation demo_clock :: statement_clock where
  "demo_clock ns c \<equiv> Some (86400 * 200)"

theorem sweeps_catch_up_witness:
  "\<exists>m' \<in> set (dd_memories (decay_sweeps take [demo_clock] demo_decay)). row_key m' = (''m'', 0) \<and> dm_valid_to m' \<noteq> None"
proof -
  have "due_in [] INCIDENT demo_memory demo_clock"
    using prune_age_incident by (simp add: due_in_def last_touch_def demo_memory_def)
  then show ?thesis
    using sweeps_catch_up [OF limit_ok_take, of demo_decay demo_memory INCIDENT "[demo_clock]"]
    by (simp add: demo_decay_def keys_distinct_def backlog_def) (simp add: demo_memory_def row_key_def)
qed

theorem sweep_forgets_forgotten_witness:
  "list_all2 (ended_justly [] demo_clock) [demo_memory] (dd_memories (snd (snd (decay_prune_tick \<lparr>redis_url = False, is_prod = False\<rparr> 0 1 True
     NoFault NoFault ''t'' take demo_clock (Map.empty, demo_decay)))))"
proof -
  let ?tick = "decay_prune_tick \<lparr>redis_url = False, is_prod = False\<rparr> 0 1 True NoFault NoFault ''t'' take demo_clock (Map.empty, demo_decay)"
  have "fst ?tick = Inr (fst (decay_sweep take demo_clock demo_decay))"
    by (simp add: decay_prune_tick_def acquire_cron_lock_def validated_lock_key_def valid_id_def id_char_def DECAY_PRUNE_INTERVAL_MINUTES_def
        split: prod.splits)
  then obtain n store' db' where "?tick = (Inr n, store', db')" by (metis prod.collapse)
  then show ?thesis
    using sweep_forgets_forgotten [OF limit_ok_take, of demo_decay "\<lparr>redis_url = False, is_prod = False\<rparr>" 0 1 True NoFault NoFault "''t''" demo_clock
      Map.empty n store' db'] by (simp add: keys_distinct_def demo_decay_def)
qed

text \<open>The reports and the sweep read different clocks: a memory that was recalled yesterday is reported as eligible and with no
  days left when it was written long ago, while the sweep starts from the recall.\<close>

lemma recalled_reported_as_forgotten:
  assumes "dm_type m = class_value mc"
    and "last_touch sal m + 86400 * py_round (prune_age mc) 4 \<ge> now" and "dm_valid_from m + 86400 * prune_age mc < now" and "dm_valid_from m \<le> now"
  shows "\<exists>s. build_retention_summary [\<lparr>dr_id = dm_id m, dr_class = Some (dm_type m), dr_time = Some (dm_valid_from m)\<rparr>] now = Inr [s] \<and>
      rs_prune_eligible s \<and> rs_days_until_prune s = 0"
    "\<not> overdue sal now ns (class_value mc) (py_round (prune_age mc) 4) m"
proof -
  have "prune_age mc < (now - dm_valid_from m) / 86400" using assms(3) by (simp add: field_simps)
  then show "\<exists>s. build_retention_summary [\<lparr>dr_id = dm_id m, dr_class = Some (dm_type m), dr_time = Some (dm_valid_from m)\<rparr>] now = Inr [s] \<and>
      rs_prune_eligible s \<and> rs_days_until_prune s = 0"
    using py_round_of_int [of 0 4]
    by (simp add: summarise_memory_def row_class_def assms(1) retention_known [OF assms(4)] days_until_known [OF assms(4)])
  show "\<not> overdue sal now ns (class_value mc) (py_round (prune_age mc) 4) m"
    using assms(2) by (simp add: overdue_def field_simps)
qed

section \<open>Salience\<close>

definition MAX_DECAY_EXPONENT :: real where "MAX_DECAY_EXPONENT = 709"
definition JITTER_RANGE :: real where "JITTER_RANGE = 1 / 10"

definition hex_digit_value :: "char \<Rightarrow> nat" where
  "hex_digit_value c = (let n = of_char c :: nat in if 48 \<le> n \<and> n \<le> 57 then n - 48 else if 97 \<le> n \<and> n \<le> 102 then n - 87 else 0)"

definition hex_value :: "string \<Rightarrow> nat" where
  "hex_value s = foldl (\<lambda>n c. 16 * n + hex_digit_value c) 0 s"

definition jitter_factor :: "(string \<Rightarrow> string) \<Rightarrow> string \<Rightarrow> real" where
  "jitter_factor sha256_hex memory_id =
     (let seed_val = real (hex_value (take 8 (sha256_hex memory_id))) / 4294967295 in (seed_val - 1 / 2) * JITTER_RANGE)"

definition half_life_to_stability :: "real \<Rightarrow> real" where
  "half_life_to_stability half_life_days = (if half_life_days \<le> 0 then 0 else half_life_days / ln 2)"

definition stability_to_half_life :: "real \<Rightarrow> real" where
  "stability_to_half_life stability_days = (if stability_days \<le> 0 then 0 else stability_days * ln 2)"

definition effective_half_life :: "(string \<Rightarrow> string) \<Rightarrow> real \<Rightarrow> string option \<Rightarrow> real" where
  "effective_half_life sha256_hex half_life_days memory_id = (case memory_id of
      None \<Rightarrow> half_life_days
    | Some m \<Rightarrow> (let e = half_life_days * (1 + jitter_factor sha256_hex m) in if e \<le> 0 then half_life_days * (1 / 100) else e))"

definition compute_decayed_score :: "(string \<Rightarrow> string) \<Rightarrow> real \<Rightarrow> real \<Rightarrow> real \<Rightarrow> real \<Rightarrow> string option \<Rightarrow> real" where
  "compute_decayed_score sha256_hex s_last updated_at half_life_days now memory_id =
     (if half_life_days \<le> 0 then s_last
      else (let delta_t = max 0 ((now - updated_at) / 86400);
                decay_constant = ln 2 / effective_half_life sha256_hex half_life_days memory_id in
            s_last * exp (- min (decay_constant * delta_t) MAX_DECAY_EXPONENT)))"

definition ranking_score :: "real \<Rightarrow> real \<Rightarrow> real \<Rightarrow> real" where
  "ranking_score cosine_sim salience alpha =
     (let clamp = (\<lambda>x. max 0 (min 1 x)) in clamp cosine_sim * (clamp alpha + (1 - clamp alpha) * clamp salience))"

text \<open>An upsert on the primary key (memory, agent); \<open>update\<close> is the \<open>DO UPDATE\<close> of the score.\<close>

definition upsert_salience :: "string \<Rightarrow> string \<Rightarrow> string \<Rightarrow> real \<Rightarrow> real \<Rightarrow> (real \<Rightarrow> real) \<Rightarrow> salience_row list \<Rightarrow> salience_row list" where
  "upsert_salience memory_id agent_id ns now initial update sal =
     (if list_ex (\<lambda>r. sl_memory r = memory_id \<and> sl_agent r = agent_id) sal
      then map (\<lambda>r. if sl_memory r = memory_id \<and> sl_agent r = agent_id
             then r\<lparr>sl_score := update (sl_score r), sl_updated := now, sl_count := sl_count r + 1\<rparr> else r) sal
      else sal @ [\<lparr>sl_memory = memory_id, sl_agent = agent_id, sl_ns = ns, sl_score = initial, sl_updated = now, sl_count = 1\<rparr>])"

definition reinforce :: "string \<Rightarrow> string \<Rightarrow> string \<Rightarrow> real \<Rightarrow> real \<Rightarrow> decay_db \<Rightarrow> decay_db" where
  "reinforce memory_id agent_id ns delta now db =
     db\<lparr>dd_salience := upsert_salience memory_id agent_id ns now (min 1 delta) (\<lambda>s. min 1 (s + delta)) (dd_salience db)\<rparr>"

definition boost_memory :: "string \<Rightarrow> string \<Rightarrow> string \<Rightarrow> real \<Rightarrow> real \<Rightarrow> decay_db \<Rightarrow> decay_db \<times> real" where
  "boost_memory memory_id agent_id ns factor now db =
     (let f = max 0 (min 1 factor); db' = reinforce memory_id agent_id ns f now db in
      (db'\<lparr>dd_events := dd_events db' @ [(''boost_memory'', ns, agent_id, memory_id)]\<rparr>, f))"

definition forget_memory :: "string \<Rightarrow> string \<Rightarrow> string \<Rightarrow> real \<Rightarrow> decay_db \<Rightarrow> decay_db" where
  "forget_memory memory_id agent_id ns now db =
     db\<lparr>dd_salience := upsert_salience memory_id agent_id ns now 0 (\<lambda>_. 0) (dd_salience db),
        dd_memories := map (\<lambda>m. if dm_id m = memory_id \<and> dm_ns m = ns \<and> dm_valid_to m = None then m\<lparr>dm_valid_to := Some now\<rparr> else m) (dd_memories db),
        dd_events := dd_events db @ [(''forget_memory'', ns, agent_id, memory_id)]\<rparr>"

lemma hex_digit_value_le: "hex_digit_value c \<le> 15"
  by (auto simp: hex_digit_value_def Let_def)

lemma hex_value_less: "hex_value s < 16 ^ length s"
proof (induction s rule: rev_induct)
  case (snoc c s)
  then have "16 * hex_value s + hex_digit_value c < 16 * 16 ^ length s" using hex_digit_value_le [of c] by linarith
  then show ?case by (simp add: hex_value_def)
qed (simp add: hex_value_def)

lemma jitter_bounds: "\<bar>jitter_factor sha m\<bar> \<le> 1 / 20"
proof -
  have "hex_value (take 8 (sha m)) < 16 ^ length (take 8 (sha m))" by (rule hex_value_less)
  also have "\<dots> \<le> 16 ^ 8" by (rule power_increasing) simp_all
  finally have "real (hex_value (take 8 (sha m))) / 4294967295 \<le> 1" by simp
  moreover have "0 \<le> real (hex_value (take 8 (sha m))) / 4294967295" by simp
  moreover have "\<bar>(x - 1 / 2) * (1 / 10)\<bar> \<le> 1 / 20" if "0 \<le> x" "x \<le> 1" for x :: real
  proof -
    have "(x - 1 / 2) * (1 / 10) = x / 10 - 1 / 20" by (simp add: field_simps)
    then show ?thesis using that unfolding abs_le_iff by linarith
  qed
  ultimately show ?thesis unfolding jitter_factor_def JITTER_RANGE_def Let_def by blast
qed

lemma effective_half_life_bounds:
  assumes "0 < hl"
  shows "19 / 20 * hl \<le> effective_half_life sha hl m" "effective_half_life sha hl m \<le> 21 / 20 * hl"
proof -
  have "19 / 20 * hl \<le> hl * (1 + j) \<and> hl * (1 + j) \<le> 21 / 20 * hl" if "\<bar>j\<bar> \<le> 1 / 20" for j :: real
  proof -
    have j: "19 / 20 \<le> 1 + j" "1 + j \<le> 21 / 20" using that by linarith+
    show ?thesis using mult_left_mono [OF j(1), of hl] mult_left_mono [OF j(2), of hl] assms by (simp only: mult.commute less_imp_le simp_thms)
  qed
  note near = this [OF jitter_bounds]
  have "19 / 20 * hl \<le> effective_half_life sha hl m \<and> effective_half_life sha hl m \<le> 21 / 20 * hl"
  proof (cases m)
    case (Some i)
    have "\<not> hl * (1 + jitter_factor sha i) \<le> 0" using near [of sha i] assms by linarith
    then show ?thesis using Some near [of sha i] by (simp add: effective_half_life_def Let_def)
  qed (use assms in \<open>simp add: effective_half_life_def\<close>)
  then show "19 / 20 * hl \<le> effective_half_life sha hl m" "effective_half_life sha hl m \<le> 21 / 20 * hl" by auto
qed

lemma half_life_round_trip:
  "0 < x \<Longrightarrow> stability_to_half_life (half_life_to_stability x) = x" "0 < x \<Longrightarrow> half_life_to_stability (stability_to_half_life x) = x"
  by (simp_all add: stability_to_half_life_def half_life_to_stability_def not_le)

text \<open>The two forgetting curves are one: the decayed salience of a memory with the half-life that belongs to the stability
  of its class is its last score times its retention, until the exponent reaches the clamp; and for any half-life and
  any jitter the score never grows and lies between the curves of half-lives five percent shorter and longer.\<close>

theorem decayed_score_is_retention:
  assumes "touched \<le> now" and "0 \<le> s" and "0 < hl"
  shows "((now - touched) / 86400 / STABILITY c \<le> MAX_DECAY_EXPONENT \<longrightarrow>
      map_sum id (\<lambda>r. s * rt_retention r) (retention touched (class_value c) now) =
        Inr (compute_decayed_score sha s touched (stability_to_half_life (STABILITY c)) now None)) \<and>
    compute_decayed_score sha s touched (19 / 20 * hl) now None \<le> compute_decayed_score sha s touched hl now m \<and>
    compute_decayed_score sha s touched hl now m \<le> compute_decayed_score sha s touched (21 / 20 * hl) now None \<and>
    0 \<le> compute_decayed_score sha s touched hl now m \<and> compute_decayed_score sha s touched hl now m \<le> s"
proof -
  let ?t = "(now - touched) / 86400"
  have t: "0 \<le> ?t" "max 0 ?t = ?t" using assms(1) by simp_all
  have half_life: "\<not> STABILITY c * ln 2 \<le> 0" using STABILITY_pos [of c] by (simp add: not_le)
  have 1: "map_sum id (\<lambda>r. s * rt_retention r) (retention touched (class_value c) now) =
      Inr (compute_decayed_score sha s touched (stability_to_half_life (STABILITY c)) now None)" if "?t / STABILITY c \<le> MAX_DECAY_EXPONENT"
    using that t STABILITY_pos [of c]
    by (simp add: retention_known [OF assms(1)] compute_decayed_score_def effective_half_life_def stability_to_half_life_def Let_def
        half_life min_def)
  have mono: "s * exp (- min (ln 2 / a * ?t) MAX_DECAY_EXPONENT) \<le> s * exp (- min (ln 2 / b * ?t) MAX_DECAY_EXPONENT)"
    if "0 < a" "a \<le> b" for a b
  proof -
    have "ln 2 / b * ?t \<le> ln 2 / a * ?t" using that t(1) by (intro mult_right_mono divide_left_mono) simp_all
    then show ?thesis using assms(2) by (intro mult_left_mono) auto
  qed
  note eff = effective_half_life_bounds [OF assms(3), of sha m]
  have pos: "0 < effective_half_life sha hl m" using eff(1) assms(3) by linarith
  have score: "compute_decayed_score sha s touched x now i = s * exp (- min (ln 2 / effective_half_life sha x i * ?t) MAX_DECAY_EXPONENT)"
    if "0 < x" for x i using that unfolding compute_decayed_score_def Let_def t(2) by simp
  have "0 \<le> ln 2 / effective_half_life sha hl m * ?t" using pos t(1) by simp
  then have "s * exp (- min (ln 2 / effective_half_life sha hl m * ?t) MAX_DECAY_EXPONENT) \<le> s"
    using mult_left_mono [of "exp (- min (ln 2 / effective_half_life sha hl m * ?t) MAX_DECAY_EXPONENT)" 1 s] assms(2)
    by (simp add: MAX_DECAY_EXPONENT_def)
  moreover have "effective_half_life sha x None = x" for x by (simp add: effective_half_life_def)
  ultimately show ?thesis
    using 1 mono [of "19 / 20 * hl" "effective_half_life sha hl m"] mono [OF pos, of "21 / 20 * hl"] eff assms(2,3)
    by (auto simp: score)
qed

theorem decayed_score_is_retention_witness:
  "compute_decayed_score (\<lambda>_. []) 1 0 7 86400 (Some ''m'') \<le> 1"
  using decayed_score_is_retention [of 0 86400 1 7 INCIDENT "\<lambda>_. []" "Some ''m''"] by simp

definition salience_ok :: "salience_row list \<Rightarrow> bool" where
  "salience_ok sal \<longleftrightarrow> distinct (map (\<lambda>r. (sl_memory r, sl_agent r)) sal) \<and> list_all (\<lambda>r. 0 \<le> sl_score r \<and> sl_score r \<le> 1 \<and> 1 \<le> sl_count r) sal"

lemma upsert_salience_ok:
  assumes "salience_ok sal" and "0 \<le> initial" "initial \<le> 1" and "\<And>s. 0 \<le> s \<Longrightarrow> s \<le> 1 \<Longrightarrow> 0 \<le> update s \<and> update s \<le> 1"
  shows "salience_ok (upsert_salience memory agent ns now initial update sal)"
proof -
  have "map (\<lambda>r. (sl_memory r, sl_agent r)) (map (\<lambda>r. if sl_memory r = memory \<and> sl_agent r = agent
      then r\<lparr>sl_score := update (sl_score r), sl_updated := now, sl_count := sl_count r + 1\<rparr> else r) sal) = map (\<lambda>r. (sl_memory r, sl_agent r)) sal"
    by simp
  then show ?thesis
    using assms unfolding salience_ok_def upsert_salience_def list_all_iff list_ex_iff
    by (auto simp del: map_map)
qed

text \<open>Boosting, recalling and forgetting keep every score between 0 and 1 and one row for each memory and agent.\<close>

lemma salience_operations_ok:
  assumes "salience_ok (dd_salience db)"
  shows "0 \<le> delta \<Longrightarrow> salience_ok (dd_salience (reinforce m a ns delta now db))"
    "salience_ok (dd_salience (fst (boost_memory m a ns factor now db)))" "salience_ok (dd_salience (forget_memory m a ns now db))"
  using assms by (auto simp: reinforce_def boost_memory_def forget_memory_def Let_def intro!: upsert_salience_ok)

lemma ranking_score_unit: "0 \<le> ranking_score c s a \<and> ranking_score c s a \<le> 1"
proof -
  have "0 \<le> c' * (a' + (1 - a') * s') \<and> c' * (a' + (1 - a') * s') \<le> 1"
    if "0 \<le> c'" "c' \<le> 1" "0 \<le> s'" "s' \<le> 1" "0 \<le> a'" "a' \<le> 1" for c' s' a' :: real
  proof -
    have "(1 - a') * s' \<le> (1 - a') * 1" using that by (intro mult_left_mono) auto
    moreover have "0 \<le> (1 - a') * s'" using that by simp
    ultimately show ?thesis using that mult_mono [of c' 1 "a' + (1 - a') * s'" 1] by auto
  qed
  then show ?thesis by (simp add: ranking_score_def Let_def)
qed

end
