(* ===== verification/A2A.thy ===== *)
theory A2A
  imports PyValues
begin

text \<open>
  Sharing between agents (\<^verbatim>\<open>src/nce/a2a.py\<close>, \<^verbatim>\<open>src/nce/a2a_mcp_handlers.py\<close>): grants with their scopes, targets,
  expiry and single use, the tokens that stand for them, and the shared query. Tables are lists of rows in order of
  insertion; SHA-256 and the parsing of UUIDs are parameters, the random token and id of a new grant are arguments, and
  the time is a field of the database. A namespace of a caller may be missing, as \<open>NamespaceContext\<close> allows.
\<close>

section \<open>Grants\<close>

record A2AScope =
  sc_type :: string
  sc_id :: string
  sc_permissions :: "string list"

record NamespaceContext =
  cx_ns :: "string option"
  cx_agent :: string

record a2a_grant =
  gr_id :: string
  gr_owner_ns :: string
  gr_owner_agent :: string
  gr_target_ns :: "string option"
  gr_target_agent :: "string option"
  gr_scopes :: "A2AScope list"
  gr_token_hash :: string
  gr_status :: string
  gr_expires :: int
  gr_can_delegate :: bool
  gr_one_time :: bool
  gr_usage :: int
  gr_created :: int

record a2a_event =
  ae_ns :: string
  ae_agent :: string
  ae_type :: string
  ae_grant :: string
  ae_count :: nat

record memory_row =
  mm_id :: string
  mm_ns :: string
  mm_signature :: "string option"

record kg_row =
  kn_id :: string
  kn_label :: string
  kn_ns :: string

record a2a_db =
  ad_grants :: "a2a_grant list"
  ad_memories :: "memory_row list"
  ad_nodes :: "kg_row list"
  ad_events :: "a2a_event list"
  ad_now :: int

datatype a2a_error = A2AAuthorizationError string | A2AScopeViolationError string | A2AValueError string | A2ADatabaseError

record A2AGrantRequest =
  rq_target_ns :: "string option"
  rq_target_agent :: "string option"
  rq_scopes :: "A2AScope list"
  rq_expires_in :: int
  rq_can_delegate :: bool
  rq_one_time :: bool

definition RESOURCE_TYPES :: "string list" where
  "RESOURCE_TYPES = [''namespace'', ''memory'', ''kg_node'', ''subgraph'']"

definition valid_scope :: "A2AScope \<Rightarrow> bool" where
  "valid_scope s \<longleftrightarrow> sc_type s \<in> set RESOURCE_TYPES \<and> list_all (\<lambda>p. p = ''read'') (sc_permissions s)"

definition valid_request :: "A2AGrantRequest \<Rightarrow> bool" where
  "valid_request r \<longleftrightarrow> rq_scopes r \<noteq> [] \<and> list_all valid_scope (rq_scopes r) \<and> 60 \<le> rq_expires_in r \<and> rq_expires_in r \<le> 86400 * 30"

definition append_a2a_event :: "NamespaceContext \<Rightarrow> string \<Rightarrow> string \<Rightarrow> nat \<Rightarrow> a2a_db \<Rightarrow> a2a_error + a2a_db" where
  "append_a2a_event ctx event_type grant_id n db = (case cx_ns ctx of
      None \<Rightarrow> Inl A2ADatabaseError
    | Some ns \<Rightarrow> Inr (db\<lparr>ad_events := ad_events db @
        [\<lparr>ae_ns = ns, ae_agent = cx_agent ctx, ae_type = event_type, ae_grant = grant_id, ae_count = n\<rparr>]\<rparr>))"

section \<open>Creating a grant\<close>

definition resolve_scope_namespaces :: "(string \<Rightarrow> string option) \<Rightarrow> A2AScope \<Rightarrow> a2a_db \<Rightarrow> a2a_error + string list" where
  "resolve_scope_namespaces uuid s db =
     (if sc_type s \<in> {''namespace'', ''subgraph''} then
        (case uuid (sc_id s) of None \<Rightarrow> Inl (A2AScopeViolationError ''Invalid UUID'') | Some u \<Rightarrow> Inr [u])
      else if sc_type s = ''memory'' then
        (case uuid (sc_id s) of
           None \<Rightarrow> Inl (A2AScopeViolationError ''Invalid UUID'')
         | Some u \<Rightarrow> (case find (\<lambda>m. mm_id m = u) (ad_memories db) of
             None \<Rightarrow> Inl (A2AScopeViolationError ''Memory not found'') | Some m \<Rightarrow> Inr [mm_ns m]))
      else if sc_type s = ''kg_node'' then
        (case uuid (sc_id s) of
           Some u \<Rightarrow> (case find (\<lambda>n. kn_id n = u) (ad_nodes db) of
             None \<Rightarrow> Inl (A2AScopeViolationError ''KG Node not found'') | Some n \<Rightarrow> Inr [kn_ns n])
         | None \<Rightarrow> Inr (remdups (map kn_ns (filter (\<lambda>n. kn_label n = sc_id s) (ad_nodes db)))))
      else Inl (A2AScopeViolationError ''Unsupported resource type''))"

definition has_delegate_grant :: "string \<Rightarrow> NamespaceContext \<Rightarrow> a2a_db \<Rightarrow> bool" where
  "has_delegate_grant ns ctx db = list_ex (\<lambda>g. gr_owner_ns g = ns \<and>
     (gr_target_ns g = None \<or> gr_target_ns g \<noteq> None \<and> gr_target_ns g = cx_ns ctx) \<and>
     gr_can_delegate g \<and> gr_status g = ''active'' \<and> gr_expires g > ad_now db) (ad_grants db)"

fun check_scopes :: "(string \<Rightarrow> string option) \<Rightarrow> NamespaceContext \<Rightarrow> A2AScope list \<Rightarrow> a2a_db \<Rightarrow> a2a_error + unit" where
  "check_scopes uuid ctx [] db = Inr ()"
| "check_scopes uuid ctx (s # ss) db =
     and_then (resolve_scope_namespaces uuid s db) (\<lambda>ns_ids.
       if list_all (\<lambda>ns. Some ns = cx_ns ctx \<or> has_delegate_grant ns ctx db) ns_ids then check_scopes uuid ctx ss db
       else Inl (A2AScopeViolationError ''no delegable access to target namespace''))"

definition create_grant ::
  "(string \<Rightarrow> string option) \<Rightarrow> (string \<Rightarrow> string) \<Rightarrow> string \<Rightarrow> string \<Rightarrow> NamespaceContext \<Rightarrow> A2AGrantRequest \<Rightarrow> a2a_db \<Rightarrow>
     a2a_error + (a2a_db \<times> string \<times> int)" where
  "create_grant uuid sha token grant_id ctx req db =
     (if \<not> valid_request req then Inl (A2AValueError ''invalid request'')
      else and_then (check_scopes uuid ctx (rq_scopes req) db) (\<lambda>_.
       (case cx_ns ctx of
          None \<Rightarrow> Inl A2ADatabaseError
        | Some owner \<Rightarrow>
            if list_ex (\<lambda>g. gr_id g = grant_id \<or> gr_token_hash g = sha token) (ad_grants db) then Inl A2ADatabaseError
            else (let expires = ad_now db + rq_expires_in req in
              and_then (append_a2a_event ctx ''a2a_grant_created'' grant_id (length (rq_scopes req))
                (db\<lparr>ad_grants := ad_grants db @
                  [\<lparr>gr_id = grant_id, gr_owner_ns = owner, gr_owner_agent = cx_agent ctx, gr_target_ns = rq_target_ns req,
                    gr_target_agent = rq_target_agent req, gr_scopes = rq_scopes req, gr_token_hash = sha token, gr_status = ''active'',
                    gr_expires = expires, gr_can_delegate = rq_can_delegate req, gr_one_time = rq_one_time req, gr_usage = 0,
                    gr_created = ad_now db\<rparr>]\<rparr>)) (\<lambda>db'. Inr (db', token, expires))))))"

section \<open>Verifying a token\<close>

record VerifiedGrant =
  vg_id :: string
  vg_owner_ns :: string
  vg_owner_agent :: string
  vg_scopes :: "A2AScope list"
  vg_expires :: int
  vg_can_delegate :: bool
  vg_one_time :: bool

definition update_grant :: "string \<Rightarrow> (a2a_grant \<Rightarrow> a2a_grant) \<Rightarrow> a2a_db \<Rightarrow> a2a_db" where
  "update_grant i f db = db\<lparr>ad_grants := map (\<lambda>g. if gr_id g = i then f g else g) (ad_grants db)\<rparr>"

definition token_row :: "(string \<Rightarrow> string) \<Rightarrow> string \<Rightarrow> a2a_db \<Rightarrow> a2a_grant option" where
  "token_row sha token db = find (\<lambda>g. gr_token_hash g = sha token \<and> gr_status g = ''active'') (ad_grants db)"

text \<open>The checks on the row that was read, in the order of the code; the expiry comes first.\<close>

definition token_refused :: "NamespaceContext \<Rightarrow> a2a_grant \<Rightarrow> a2a_error option" where
  "token_refused ctx g =
     (if gr_one_time g \<and> gr_usage g \<ge> 1 then Some (A2AAuthorizationError ''One-time sharing token has already been used.'')
      else if gr_target_ns g \<noteq> None \<and> gr_target_ns g \<noteq> cx_ns ctx then Some (A2AAuthorizationError ''Token is not valid for this namespace.'')
      else if gr_target_agent g \<noteq> None \<and> gr_target_agent g \<noteq> Some (cx_agent ctx) then Some (A2AAuthorizationError ''Token is not valid for this agent.'')
      else None)"

definition count_use :: "string \<Rightarrow> a2a_db \<Rightarrow> a2a_db" where
  "count_use i db = update_grant i (\<lambda>g. g\<lparr>gr_usage := gr_usage g + 1, gr_status := (if gr_one_time g then ''expired'' else gr_status g)\<rparr>) db"

definition verified :: "a2a_grant \<Rightarrow> VerifiedGrant" where
  "verified g = \<lparr>vg_id = gr_id g, vg_owner_ns = gr_owner_ns g, vg_owner_agent = gr_owner_agent g, vg_scopes = gr_scopes g,
     vg_expires = gr_expires g, vg_can_delegate = gr_can_delegate g, vg_one_time = gr_one_time g\<rparr>"

text \<open>The function reads the row in one statement and writes in a later one: \<open>finish_verification\<close> is what it does with the
  row it read, on the database of that moment.\<close>

definition finish_verification :: "NamespaceContext \<Rightarrow> a2a_grant option \<Rightarrow> a2a_db \<Rightarrow> (a2a_error + VerifiedGrant) \<times> a2a_db" where
  "finish_verification ctx row db = (case row of
      None \<Rightarrow> (Inl (A2AAuthorizationError ''Invalid or revoked sharing token.''), db)
    | Some g \<Rightarrow>
        if gr_expires g < ad_now db then
          (Inl (A2AAuthorizationError ''Sharing token has expired.''),
           update_grant (gr_id g) (\<lambda>x. if gr_status x = ''active'' then x\<lparr>gr_status := ''expired''\<rparr> else x) db)
        else (case token_refused ctx g of
            Some e \<Rightarrow> (Inl e, db)
          | None \<Rightarrow> (Inr (verified g), count_use (gr_id g) db)))"

definition verify_token :: "(string \<Rightarrow> string) \<Rightarrow> string \<Rightarrow> NamespaceContext \<Rightarrow> a2a_db \<Rightarrow> (a2a_error + VerifiedGrant) \<times> a2a_db" where
  "verify_token sha token ctx db = finish_verification ctx (token_row sha token db) db"

section \<open>The owner's operations\<close>

definition revoke_grant :: "string \<Rightarrow> NamespaceContext \<Rightarrow> a2a_db \<Rightarrow> a2a_error + (a2a_db \<times> bool)" where
  "revoke_grant i ctx db =
     (if list_ex (\<lambda>g. gr_id g = i \<and> Some (gr_owner_ns g) = cx_ns ctx \<and> gr_status g = ''active'') (ad_grants db)
      then and_then (append_a2a_event ctx ''a2a_grant_revoked'' i 0
             (db\<lparr>ad_grants := map (\<lambda>g. if gr_id g = i \<and> Some (gr_owner_ns g) = cx_ns ctx \<and> gr_status g = ''active''
                then g\<lparr>gr_status := ''revoked''\<rparr> else g) (ad_grants db)\<rparr>)) (\<lambda>db'. Inr (db', True))
      else Inr (db, False))"

definition list_grants :: "NamespaceContext \<Rightarrow> bool \<Rightarrow> a2a_db \<Rightarrow> a2a_grant list" where
  "list_grants ctx include_inactive db = take 500 (rev (sort_key gr_created (filter (\<lambda>g. Some (gr_owner_ns g) = cx_ns ctx \<and>
     (include_inactive \<or> gr_status g = ''active'' \<and> gr_expires g > ad_now db)) (ad_grants db))))"

definition verify_grant_status ::
  "(string \<Rightarrow> string) \<Rightarrow> NamespaceContext \<Rightarrow> string option \<Rightarrow> string option \<Rightarrow> a2a_db \<Rightarrow> (a2a_error + a2a_grant) \<times> a2a_db" where
  "verify_grant_status sha ctx sharing_token grant_id db =
     (if (sharing_token = None) = (grant_id = None) then (Inl (A2AValueError ''Must provide exactly one of sharing_token or grant_id''), db)
      else
        (case (case sharing_token of
                 Some t \<Rightarrow> find (\<lambda>g. gr_token_hash g = sha t) (ad_grants db)
               | None \<Rightarrow> find (\<lambda>g. gr_id g = the grant_id) (ad_grants db)) of
           None \<Rightarrow> (Inl (A2AAuthorizationError ''Grant not found.''), db)
         | Some g \<Rightarrow>
             (let lapsed = (gr_status g = ''active'' \<and> gr_expires g < ad_now db);
                  db' = (if lapsed then update_grant (gr_id g) (\<lambda>x. x\<lparr>gr_status := ''expired''\<rparr>) db else db);
                  is_owner = (cx_ns ctx = Some (gr_owner_ns g));
                  is_target = (case gr_target_ns g of
                     None \<Rightarrow> True
                   | Some t \<Rightarrow> cx_ns ctx = Some t \<and> (gr_target_agent g = None \<or> gr_target_agent g = Some (cx_agent ctx))) in
              if \<not> (is_owner \<or> is_target) then (Inl (A2AAuthorizationError ''Unauthorized access to grant status.''), db')
              else (Inr (if lapsed then g\<lparr>gr_status := ''expired''\<rparr> else g), db'))))"

definition merge_scopes :: "A2AScope list \<Rightarrow> A2AScope list \<Rightarrow> A2AScope list" where
  "merge_scopes old new = fold (\<lambda>s acc. if s \<in> set acc then acc else acc @ [s]) new old"

definition update_grant_scopes ::
  "NamespaceContext \<Rightarrow> string \<Rightarrow> A2AScope list \<Rightarrow> string \<Rightarrow> a2a_db \<Rightarrow> a2a_error + (a2a_db \<times> A2AScope list)" where
  "update_grant_scopes ctx i scopes mode db =
     (case find (\<lambda>g. gr_id g = i \<and> Some (gr_owner_ns g) = cx_ns ctx) (ad_grants db) of
        None \<Rightarrow> Inl (A2AAuthorizationError ''Grant not found or unauthorized.'')
      | Some g \<Rightarrow>
          if gr_status g \<noteq> ''active'' then Inl (A2AAuthorizationError ''Cannot update scopes of an inactive grant.'')
          else if gr_expires g < ad_now db then Inl (A2AAuthorizationError ''Cannot update scopes of an expired grant.'')
          else if mode \<notin> {''append'', ''replace''} then Inl (A2AValueError ''Invalid scope update mode'')
          else (let final = (if mode = ''append'' then merge_scopes (gr_scopes g) scopes else scopes) in
            if final = [] then Inl (A2AValueError ''A grant must have at least one active scope.'')
            else and_then (append_a2a_event ctx ''a2a_grant_updated'' i (length final)
                   (update_grant i (\<lambda>x. x\<lparr>gr_scopes := final\<rparr>) db)) (\<lambda>db'. Inr (db', final))))"

definition inspect_grant :: "NamespaceContext \<Rightarrow> string \<Rightarrow> a2a_db \<Rightarrow> a2a_error + a2a_grant" where
  "inspect_grant ctx i db = (case find (\<lambda>g. gr_id g = i \<and> Some (gr_owner_ns g) = cx_ns ctx) (ad_grants db) of
      None \<Rightarrow> Inl (A2AAuthorizationError ''Grant not found or unauthorized.'') | Some g \<Rightarrow> Inr g)"

section \<open>Scopes and the shared query\<close>

definition scope_covers :: "string \<Rightarrow> string \<Rightarrow> string \<Rightarrow> A2AScope \<Rightarrow> bool" where
  "scope_covers resource_type resource_id resource_ns s \<longleftrightarrow> ''read'' \<in> set (sc_permissions s) \<and>
     (sc_type s = resource_type \<and> sc_id s = resource_id \<or>
      sc_type s = ''namespace'' \<and> sc_id s = resource_ns \<and> resource_type \<in> {''memory'', ''kg_node'', ''subgraph''})"

definition enforce_scope :: "A2AScope list \<Rightarrow> string \<Rightarrow> string \<Rightarrow> string \<Rightarrow> a2a_error + unit" where
  "enforce_scope scopes resource_type resource_id resource_ns =
     (if list_ex (scope_covers resource_type resource_id resource_ns) scopes then Inr ()
      else Inl (A2AScopeViolationError ''Access denied''))"

text \<open>The search engine is a parameter: the ids of the memories of a namespace that match a query. The signatures are
  looked up for the memories found.\<close>

record shared_query =
  sq_token :: string
  sq_query :: string
  sq_resource_type :: string
  sq_resource_id :: "string option"
  sq_top_k :: nat

definition MAX_SHARING_TOKEN_LEN :: nat where "MAX_SHARING_TOKEN_LEN = 4096"

definition query_shared ::
  "(string \<Rightarrow> string) \<Rightarrow> (string \<Rightarrow> string \<Rightarrow> string \<Rightarrow> nat \<Rightarrow> string list) \<Rightarrow> NamespaceContext \<Rightarrow> shared_query \<Rightarrow> a2a_db \<Rightarrow>
     (a2a_error + (string \<times> string option) list) \<times> a2a_db" where
  "query_shared sha search ctx q db =
     (if length (sq_token q) > MAX_SHARING_TOKEN_LEN then (Inl (A2AValueError ''sharing_token exceeds maximum length''), db)
      else
        (case verify_token sha (sq_token q) ctx db of
           (Inl e, db') \<Rightarrow> (Inl e, db')
         | (Inr v, db') \<Rightarrow>
             (let resource_id = (case sq_resource_id q of None \<Rightarrow> vg_owner_ns v | Some r \<Rightarrow> if r = [] then vg_owner_ns v else r) in
              if sq_resource_type q \<noteq> ''namespace'' \<and> (sq_resource_id q = None \<or> sq_resource_id q = Some [])
              then (Inl (A2AValueError ''resource_id is required''), db')
              else
                (case enforce_scope (vg_scopes v) (sq_resource_type q) resource_id (vg_owner_ns v) of
                   Inl e \<Rightarrow> (Inl e, db')
                 | Inr _ \<Rightarrow>
                     (case append_a2a_event \<lparr>cx_ns = Some (vg_owner_ns v), cx_agent = vg_owner_agent v\<rparr> ''a2a_shared_query'' (vg_id v) 0 db' of
                        Inl e \<Rightarrow> (Inl e, db')
                      | Inr db'' \<Rightarrow>
                          (let found = search (vg_owner_ns v) (vg_owner_agent v) (sq_query q) (sq_top_k q) in
                           (Inr (map (\<lambda>m. (m, Option.bind (find (\<lambda>r. mm_id r = m \<and> mm_ns r = vg_owner_ns v) (ad_memories db'')) mm_signature)) found),
                            db'')))))))"

section \<open>The life of a grant\<close>

text \<open>A grant keeps what it was created with, apart from its scopes; its uses only grow, and once it is not active it never
  becomes active again.\<close>

definition grant_forward :: "a2a_grant \<Rightarrow> a2a_grant \<Rightarrow> bool" where
  "grant_forward g g' \<longleftrightarrow> g' = g\<lparr>gr_scopes := gr_scopes g', gr_status := gr_status g', gr_usage := gr_usage g'\<rparr> \<and>
     gr_usage g \<le> gr_usage g' \<and> (gr_status g \<noteq> ''active'' \<longrightarrow> gr_status g' \<noteq> ''active'')"

abbreviation a2a_forward :: "a2a_db \<Rightarrow> a2a_db \<Rightarrow> bool" where
  "a2a_forward db db' \<equiv> table_forward grant_forward (ad_grants db) (ad_grants db')"

definition a2a_inv :: "a2a_db \<Rightarrow> bool" where
  "a2a_inv db \<longleftrightarrow> distinct (map gr_id (ad_grants db)) \<and> distinct (map gr_token_hash (ad_grants db)) \<and>
     list_all (\<lambda>g. gr_status g \<in> {''active'', ''revoked'', ''expired''} \<and> 0 \<le> gr_usage g \<and>
       (gr_one_time g \<longrightarrow> gr_usage g \<le> 1 \<and> (gr_usage g = 1 \<longrightarrow> gr_status g \<noteq> ''active''))) (ad_grants db)"

lemma grant_forward_refl [simp]: "grant_forward g g"
  by (simp add: grant_forward_def)

lemma grant_forward_trans: "grant_forward a b \<Longrightarrow> grant_forward b c \<Longrightarrow> grant_forward a c"
  unfolding grant_forward_def by (cases a; cases b; cases c) auto

lemma grant_forward_same:
  "grant_forward g g' \<Longrightarrow> gr_id g' = gr_id g \<and> gr_token_hash g' = gr_token_hash g \<and> gr_one_time g' = gr_one_time g \<and>
     gr_owner_ns g' = gr_owner_ns g \<and> gr_owner_agent g' = gr_owner_agent g \<and> gr_target_ns g' = gr_target_ns g \<and>
     gr_target_agent g' = gr_target_agent g \<and> gr_expires g' = gr_expires g \<and> gr_can_delegate g' = gr_can_delegate g"
  by (cases g; cases g') (simp add: grant_forward_def)

interpretation grants: row_order grant_forward
  by unfold_locales (simp, rule grant_forward_trans)

text \<open>An update of grants in place keeps the invariant when each grant moves forward and stays well formed.\<close>

lemma a2a_inv_map:
  assumes "a2a_inv db" and "ad_grants db' = map f (ad_grants db)" and "\<And>g. g \<in> set (ad_grants db) \<Longrightarrow> grant_forward g (f g)"
    and "\<And>g. g \<in> set (ad_grants db) \<Longrightarrow> gr_status (f g) \<in> {''active'', ''revoked'', ''expired''} \<and>
      (gr_one_time g \<longrightarrow> gr_usage (f g) \<le> 1 \<and> (gr_usage (f g) = 1 \<longrightarrow> gr_status (f g) \<noteq> ''active''))"
  shows "a2a_inv db'"
proof -
  have ids: "map gr_id (ad_grants db') = map gr_id (ad_grants db)" "map gr_token_hash (ad_grants db') = map gr_token_hash (ad_grants db)"
    using assms(2,3) grant_forward_same by auto
  have "gr_status g' \<in> {''active'', ''revoked'', ''expired''} \<and> 0 \<le> gr_usage g' \<and>
      (gr_one_time g' \<longrightarrow> gr_usage g' \<le> 1 \<and> (gr_usage g' = 1 \<longrightarrow> gr_status g' \<noteq> ''active''))" if g': "g' \<in> set (ad_grants db')" for g'
  proof -
    obtain g where g: "g \<in> set (ad_grants db)" "g' = f g" using g' assms(2) by auto
    have "0 \<le> gr_usage g" using assms(1) g(1) by (auto simp: a2a_inv_def list_all_iff)
    moreover have "gr_usage g \<le> gr_usage g'" using assms(3) [OF g(1)] g(2) by (simp add: grant_forward_def)
    moreover have "gr_one_time g' = gr_one_time g" using grant_forward_same [OF assms(3) [OF g(1)]] g(2) by simp
    ultimately show ?thesis using assms(4) [OF g(1)] g(2) by auto
  qed
  then show ?thesis using assms(1) ids by (simp add: a2a_inv_def list_all_iff)
qed

lemma grant_forward_intros:
  "grant_forward g (g\<lparr>gr_scopes := ss\<rparr>)" "s \<noteq> ''active'' \<Longrightarrow> grant_forward g (g\<lparr>gr_status := s\<rparr>)"
  "grant_forward g (g\<lparr>gr_usage := gr_usage g + 1, gr_status := (if gr_one_time g then ''expired'' else gr_status g)\<rparr>)"
  by (simp_all add: grant_forward_def)

lemma a2a_inv_frame: "a2a_inv db \<Longrightarrow> ad_grants db' = ad_grants db \<Longrightarrow> a2a_inv db'"
  by (simp add: a2a_inv_def)

lemma grant_ok:
  "a2a_inv db \<Longrightarrow> g \<in> set (ad_grants db) \<Longrightarrow> gr_status g \<in> {''active'', ''revoked'', ''expired''} \<and> 0 \<le> gr_usage g \<and>
     (gr_one_time g \<longrightarrow> gr_usage g \<le> 1 \<and> (gr_usage g = 1 \<longrightarrow> gr_status g \<noteq> ''active''))"
  by (simp add: a2a_inv_def list_all_iff)

lemma same_grant:
  assumes "a2a_inv db" and "g \<in> set (ad_grants db)" and "g' \<in> set (ad_grants db)" and "gr_id g = gr_id g' \<or> gr_token_hash g = gr_token_hash g'"
  shows "g = g'"
  using assms by (auto simp: a2a_inv_def distinct_map dest: inj_onD)

lemma token_row_Some:
  assumes "token_row sha t db = Some g"
  shows "g \<in> set (ad_grants db)" "gr_token_hash g = sha t" "gr_status g = ''active''"
  using assms by (auto simp: token_row_def find_Some_iff)

lemma expire_keeps:
  assumes "a2a_inv db" and "\<And>g. f g = g \<or> (\<exists>s. f g = g\<lparr>gr_status := s\<rparr> \<and> s \<in> {''revoked'', ''expired''})"
    and "ad_grants db' = map f (ad_grants db)"
  shows "a2a_inv db'" "a2a_forward db db'"
proof -
  have fwd: "grant_forward g (f g)" for g using assms(2) [of g] by (auto intro: grant_forward_intros)
  show "a2a_inv db'"
  proof (rule a2a_inv_map [OF assms(1,3) fwd])
    fix g
    assume g: "g \<in> set (ad_grants db)"
    show "gr_status (f g) \<in> {''active'', ''revoked'', ''expired''} \<and>
        (gr_one_time g \<longrightarrow> gr_usage (f g) \<le> 1 \<and> (gr_usage (f g) = 1 \<longrightarrow> gr_status (f g) \<noteq> ''active''))"
      using grant_ok [OF assms(1) g] assms(2) [of g] by auto
  qed
  show "a2a_forward db db'" unfolding assms(3) by (rule grants.table_map) (rule fwd)
qed

lemma count_use_keeps:
  assumes "a2a_inv db" and "g \<in> set (ad_grants db)" and "\<not> (gr_one_time g \<and> gr_usage g \<ge> 1)"
  shows "a2a_inv (count_use (gr_id g) db)" "a2a_forward db (count_use (gr_id g) db)"
proof -
  let ?f = "\<lambda>x. if gr_id x = gr_id g then x\<lparr>gr_usage := gr_usage x + 1, gr_status := (if gr_one_time x then ''expired'' else gr_status x)\<rparr> else x"
  have rows: "ad_grants (count_use (gr_id g) db) = map ?f (ad_grants db)" by (simp add: count_use_def update_grant_def)
  have fwd: "grant_forward x (?f x)" for x by (simp add: grant_forward_intros)
  show "a2a_forward db (count_use (gr_id g) db)" unfolding rows by (rule grants.table_map) (rule fwd)
  show "a2a_inv (count_use (gr_id g) db)"
  proof (rule a2a_inv_map [OF assms(1) rows fwd])
    fix x
    assume x: "x \<in> set (ad_grants db)"
    show "gr_status (?f x) \<in> {''active'', ''revoked'', ''expired''} \<and>
        (gr_one_time x \<longrightarrow> gr_usage (?f x) \<le> 1 \<and> (gr_usage (?f x) = 1 \<longrightarrow> gr_status (?f x) \<noteq> ''active''))"
      using grant_ok [OF assms(1) x] same_grant [OF assms(1) x assms(2)] assms(3) by auto
  qed
qed

lemma verify_token_keeps:
  assumes "a2a_inv db"
  shows "a2a_inv (snd (verify_token sha t ctx db))" "a2a_forward db (snd (verify_token sha t ctx db))"
proof -
  have "a2a_inv (snd (verify_token sha t ctx db)) \<and> a2a_forward db (snd (verify_token sha t ctx db))"
  proof (cases "token_row sha t db")
    case None
    then show ?thesis using assms by (simp add: verify_token_def finish_verification_def grants.table_refl)
  next
    case (Some g)
    note g = token_row_Some [OF Some]
    show ?thesis
    proof (cases "gr_expires g < ad_now db")
      case True
      let ?f = "\<lambda>x. if gr_id x = gr_id g then (if gr_status x = ''active'' then x\<lparr>gr_status := ''expired''\<rparr> else x) else x"
      have rows: "ad_grants (snd (verify_token sha t ctx db)) = map ?f (ad_grants db)"
        using True Some by (simp add: verify_token_def finish_verification_def update_grant_def)
      have "?f x = x \<or> (\<exists>s. ?f x = x\<lparr>gr_status := s\<rparr> \<and> s \<in> {''revoked'', ''expired''})" for x by auto
      then show ?thesis using expire_keeps [OF assms _ rows] by blast
    next
      case False
      then show ?thesis
        using Some assms count_use_keeps [OF assms g(1)]
        by (auto simp: verify_token_def finish_verification_def token_refused_def grants.table_refl split: if_splits option.splits)
    qed
  qed
  then show "a2a_inv (snd (verify_token sha t ctx db))" "a2a_forward db (snd (verify_token sha t ctx db))" by auto
qed

lemma append_a2a_event_grants: "append_a2a_event ctx ty i n db = Inr db' \<Longrightarrow> ad_grants db' = ad_grants db"
  by (auto simp: append_a2a_event_def split: option.splits)

lemma create_grant_Inr:
  assumes "create_grant uuid sha t i ctx req db = Inr (db', r)"
  obtains g where "ad_grants db' = ad_grants db @ [g]" "gr_status g = ''active''" "gr_usage g = 0"
    "gr_id g \<notin> gr_id ` set (ad_grants db)" "gr_token_hash g \<notin> gr_token_hash ` set (ad_grants db)"
    "gr_id g = i" "gr_token_hash g = sha t" "cx_ns ctx = Some (gr_owner_ns g)" "gr_owner_agent g = cx_agent ctx" "gr_scopes g = rq_scopes req"
    "gr_expires g = ad_now db + rq_expires_in req" "gr_target_ns g = rq_target_ns req" "gr_target_agent g = rq_target_agent req"
    "gr_can_delegate g = rq_can_delegate req" "gr_one_time g = rq_one_time req"
    "ad_now db' = ad_now db" "valid_request req" "check_scopes uuid ctx (rq_scopes req) db = Inr ()" "r = (t, gr_expires g)"
proof -
  obtain owner where owner: "cx_ns ctx = Some owner"
    using assms by (cases "cx_ns ctx") (auto simp: create_grant_def and_then_eq_Inr split: if_splits)
  let ?g = "\<lparr>gr_id = i, gr_owner_ns = owner, gr_owner_agent = cx_agent ctx, gr_target_ns = rq_target_ns req,
     gr_target_agent = rq_target_agent req, gr_scopes = rq_scopes req, gr_token_hash = sha t, gr_status = ''active'',
     gr_expires = ad_now db + rq_expires_in req, gr_can_delegate = rq_can_delegate req, gr_one_time = rq_one_time req, gr_usage = 0,
     gr_created = ad_now db\<rparr>"
  have "ad_grants db' = ad_grants db @ [?g]" "i \<notin> gr_id ` set (ad_grants db)" "sha t \<notin> gr_token_hash ` set (ad_grants db)"
    "ad_now db' = ad_now db" "valid_request req" "check_scopes uuid ctx (rq_scopes req) db = Inr ()" "r = (t, ad_now db + rq_expires_in req)"
    using assms owner
    by (auto simp: create_grant_def append_a2a_event_def and_then_eq_Inr Let_def list_ex_iff split: if_splits)
  with owner show thesis by (intro that [of ?g]) simp_all
qed

text \<open>The operations of the service, in any order.\<close>

inductive a2a_step :: "(string \<Rightarrow> string option) \<Rightarrow> (string \<Rightarrow> string) \<Rightarrow> a2a_db \<Rightarrow> a2a_db \<Rightarrow> bool" for uuid sha where
  a2a_create: "create_grant uuid sha t i ctx req db = Inr (db', r) \<Longrightarrow> a2a_step uuid sha db db'"
| a2a_verify: "a2a_step uuid sha db (snd (verify_token sha t ctx db))"
| a2a_revoke: "revoke_grant i ctx db = Inr (db', b) \<Longrightarrow> a2a_step uuid sha db db'"
| a2a_status: "a2a_step uuid sha db (snd (verify_grant_status sha ctx t i db))"
| a2a_scopes: "update_grant_scopes ctx i ss mode db = Inr (db', r) \<Longrightarrow> a2a_step uuid sha db db'"
| a2a_query: "a2a_step uuid sha db (snd (query_shared sha search ctx q db))"
| a2a_clock: "0 \<le> t \<Longrightarrow> a2a_step uuid sha db (db\<lparr>ad_now := ad_now db + t\<rparr>)"

lemma query_shared_grants: "ad_grants (snd (query_shared sha search ctx q db)) \<in> {ad_grants db, ad_grants (snd (verify_token sha (sq_token q) ctx db))}"
  by (auto simp: query_shared_def Let_def split: sum.splits prod.splits dest!: append_a2a_event_grants)

lemma a2a_step_keeps: "a2a_step uuid sha db db' \<Longrightarrow> a2a_inv db \<Longrightarrow> a2a_inv db' \<and> a2a_forward db db'"
proof (induction rule: a2a_step.induct)
  case (a2a_create t i ctx req db db' r)
  from a2a_create(1) obtain g where g: "ad_grants db' = ad_grants db @ [g]" "gr_status g = ''active''" "gr_usage g = 0"
    "gr_id g \<notin> gr_id ` set (ad_grants db)" "gr_token_hash g \<notin> gr_token_hash ` set (ad_grants db)"
    by (rule create_grant_Inr)
  then have "a2a_inv db'" using a2a_create(2) by (auto simp: a2a_inv_def)
  then show ?case using g(1) by (simp add: grants.table_append)
next
  case (a2a_verify db t ctx)
  then show ?case using verify_token_keeps by blast
next
  case (a2a_revoke i ctx db db' b)
  show ?case
  proof (cases b)
    case True
    let ?f = "\<lambda>g. if gr_id g = i \<and> Some (gr_owner_ns g) = cx_ns ctx \<and> gr_status g = ''active'' then g\<lparr>gr_status := ''revoked''\<rparr> else g"
    have rows: "ad_grants db' = map ?f (ad_grants db)"
      using a2a_revoke(1) True by (auto simp: revoke_grant_def and_then_eq_Inr split: if_splits dest!: append_a2a_event_grants)
    have "?f x = x \<or> (\<exists>s. ?f x = x\<lparr>gr_status := s\<rparr> \<and> s \<in> {''revoked'', ''expired''})" for x by auto
    then show ?thesis using expire_keeps [OF a2a_revoke(2) _ rows] by blast
  next
    case False
    then have "db' = db" using a2a_revoke(1) by (auto simp: revoke_grant_def and_then_eq_Inr split: if_splits)
    then show ?thesis using a2a_revoke(2) by (simp add: grants.table_refl)
  qed
next
  case (a2a_status db ctx t i)
  let ?db' = "snd (verify_grant_status sha ctx t i db)"
  have "ad_grants ?db' = ad_grants db \<or> (\<exists>k. ad_grants ?db' = map (\<lambda>x. if gr_id x = k then x\<lparr>gr_status := ''expired''\<rparr> else x) (ad_grants db))"
    by (auto simp: verify_grant_status_def Let_def update_grant_def split: option.splits)
  then show ?case
  proof
    assume "ad_grants ?db' = ad_grants db"
    then show ?thesis using a2a_status by (simp add: grants.table_refl a2a_inv_frame)
  next
    assume "\<exists>k. ad_grants ?db' = map (\<lambda>x. if gr_id x = k then x\<lparr>gr_status := ''expired''\<rparr> else x) (ad_grants db)"
    then obtain k where rows: "ad_grants ?db' = map (\<lambda>x. if gr_id x = k then x\<lparr>gr_status := ''expired''\<rparr> else x) (ad_grants db)" ..
    let ?f = "\<lambda>x. if gr_id x = k then x\<lparr>gr_status := ''expired''\<rparr> else x"
    have "?f x = x \<or> (\<exists>s. ?f x = x\<lparr>gr_status := s\<rparr> \<and> s \<in> {''revoked'', ''expired''})" for x by auto
    then show ?thesis using expire_keeps [OF a2a_status _ rows] by blast
  qed
next
  case (a2a_scopes ctx i ss mode db db' r)
  have rows: "ad_grants db' = map (\<lambda>x. if gr_id x = i then x\<lparr>gr_scopes := r\<rparr> else x) (ad_grants db)"
    using a2a_scopes(1)
    by (auto simp: update_grant_scopes_def and_then_eq_Inr Let_def update_grant_def split: option.splits if_splits dest!: append_a2a_event_grants)
  have fwd: "grant_forward g (if gr_id g = i then g\<lparr>gr_scopes := r\<rparr> else g)" for g by (simp add: grant_forward_intros)
  have "a2a_inv db'"
    by (rule a2a_inv_map [OF a2a_scopes(2) rows fwd]) (use grant_ok [OF a2a_scopes(2)] in auto)
  then show ?case unfolding rows using grants.table_map [of "ad_grants db", OF fwd] by simp
next
  case (a2a_query db search ctx q)
  then show ?case
    using query_shared_grants [of sha search ctx q db] verify_token_keeps [OF a2a_query, of sha "sq_token q" ctx]
    by (auto simp: grants.table_refl a2a_inv_frame)
next
  case (a2a_clock t db)
  then show ?case by (auto simp: grants.table_refl a2a_inv_frame)
qed

abbreviation no_grants :: "a2a_db \<Rightarrow> bool" where
  "no_grants db \<equiv> ad_grants db = []"

interpretation a2a: invariant_machine no_grants "a2a_step uuid sha" a2a_inv for uuid sha
  by unfold_locales (auto simp: a2a_inv_def dest: a2a_step_keeps)

lemma a2a_steps_forward: "(a2a_step uuid sha)\<^sup>*\<^sup>* db db' \<Longrightarrow> a2a_inv db \<Longrightarrow> a2a_forward db db'"
proof (induction rule: rtranclp_induct)
  case (step b c)
  then have "a2a_inv b" by (blast intro: a2a.steps_inv)
  with step show ?case by (blast dest: a2a_step_keeps intro: grants.table_trans)
qed (rule grants.table_refl)

section \<open>What a token gives\<close>

definition accepts :: "NamespaceContext \<Rightarrow> a2a_grant \<Rightarrow> int \<Rightarrow> bool" where
  "accepts ctx g now \<longleftrightarrow> gr_status g = ''active'' \<and> now \<le> gr_expires g \<and>
     (gr_target_ns g = None \<or> gr_target_ns g = cx_ns ctx) \<and> (gr_target_agent g = None \<or> gr_target_agent g = Some (cx_agent ctx))"

lemma token_row_unique:
  assumes "a2a_inv db" and "g \<in> set (ad_grants db)" and "gr_token_hash g = sha t"
  shows "token_row sha t db = (if gr_status g = ''active'' then Some g else None)"
proof (cases "token_row sha t db")
  case None
  then show ?thesis using assms(2,3) by (auto simp: token_row_def find_None_iff)
next
  case (Some g')
  then show ?thesis using token_row_Some [OF Some] same_grant [OF assms(1,2), of g'] assms(3) by auto
qed

lemma verified_has_grant:
  "fst (verify_token sha t ctx db) = Inr v \<Longrightarrow> \<exists>g \<in> set (ad_grants db). gr_token_hash g = sha t"
  by (cases "token_row sha t db") (auto simp: verify_token_def finish_verification_def dest: token_row_Some)

lemma verify_token_grant:
  assumes "a2a_inv db" and "g \<in> set (ad_grants db)" and "gr_token_hash g = sha t"
  shows "(\<exists>v. fst (verify_token sha t ctx db) = Inr v) \<longleftrightarrow> accepts ctx g (ad_now db)"
    "accepts ctx g (ad_now db) \<Longrightarrow> verify_token sha t ctx db = (Inr (verified g), count_use (gr_id g) db)"
proof -
  have row: "token_row sha t db = (if gr_status g = ''active'' then Some g else None)"
    using assms by (rule token_row_unique)
  have unused: "gr_status g = ''active'' \<Longrightarrow> \<not> (gr_one_time g \<and> gr_usage g \<ge> 1)" using grant_ok [OF assms(1,2)] by auto
  show "accepts ctx g (ad_now db) \<Longrightarrow> verify_token sha t ctx db = (Inr (verified g), count_use (gr_id g) db)"
    using unused by (auto simp: verify_token_def finish_verification_def row accepts_def token_refused_def)
  show "(\<exists>v. fst (verify_token sha t ctx db) = Inr v) \<longleftrightarrow> accepts ctx g (ad_now db)"
    using unused
    by (auto simp: verify_token_def finish_verification_def row accepts_def token_refused_def split: if_splits)
qed

lemma count_use_row:
  "g \<in> set (ad_grants db) \<Longrightarrow>
     g\<lparr>gr_usage := gr_usage g + 1, gr_status := (if gr_one_time g then ''expired'' else gr_status g)\<rparr> \<in> set (ad_grants (count_use (gr_id g) db))"
  by (force simp: count_use_def update_grant_def)

text \<open>C32: A token opens exactly what its grant says, to whom it says, for as long as it says. In every reachable state a
  token is accepted exactly when a grant with its hash is active, not past its expiry, and bound to no other namespace
  and no other agent than the caller's; the answer is that grant's owner and scopes and one use is counted. Whatever has
  happened to a grant that is not active any more (revoked, expired, or a one-time token that was used), no later call
  with its token is accepted, whatever operations are in between.\<close>

theorem token_exactly_while_active:
  assumes "reachable_from no_grants (a2a_step uuid sha) db"
  shows "(fst (verify_token sha t ctx db) = Inr v \<longleftrightarrow>
      (\<exists>g \<in> set (ad_grants db). gr_token_hash g = sha t \<and> accepts ctx g (ad_now db) \<and> v = verified g)) \<and>
    (\<forall>g \<in> set (ad_grants db). gr_token_hash g = sha t \<longrightarrow> accepts ctx g (ad_now db) \<longrightarrow>
       snd (verify_token sha t ctx db) = count_use (gr_id g) db \<and>
       (gr_one_time g \<longrightarrow> (\<exists>g' \<in> set (ad_grants (count_use (gr_id g) db)). gr_token_hash g' = sha t \<and> gr_status g' \<noteq> ''active''))) \<and>
    (\<forall>g \<in> set (ad_grants db). gr_token_hash g = sha t \<longrightarrow> gr_status g \<noteq> ''active'' \<longrightarrow> (a2a_step uuid sha)\<^sup>*\<^sup>* db later \<longrightarrow>
       verify_token sha t ctx' later = (Inl (A2AAuthorizationError ''Invalid or revoked sharing token.''), later))"
proof -
  have inv: "a2a_inv db" using assms by (rule a2a.reachable_inv)
  have 1: "fst (verify_token sha t ctx db) = Inr v \<longleftrightarrow>
      (\<exists>g \<in> set (ad_grants db). gr_token_hash g = sha t \<and> accepts ctx g (ad_now db) \<and> v = verified g)"
    using verify_token_grant [OF inv, where sha = sha and t = t and ctx = ctx] verified_has_grant [of sha t ctx db v] by fastforce
  have 2: "snd (verify_token sha t ctx db) = count_use (gr_id g) db \<and>
      (gr_one_time g \<longrightarrow> (\<exists>g' \<in> set (ad_grants (count_use (gr_id g) db)). gr_token_hash g' = sha t \<and> gr_status g' \<noteq> ''active''))"
    if g: "g \<in> set (ad_grants db)" "gr_token_hash g = sha t" "accepts ctx g (ad_now db)" for g
  proof
    show "snd (verify_token sha t ctx db) = count_use (gr_id g) db"
      using verify_token_grant(2) [where sha = sha and t = t, OF inv g] by simp
    show "gr_one_time g \<longrightarrow> (\<exists>g' \<in> set (ad_grants (count_use (gr_id g) db)). gr_token_hash g' = sha t \<and> gr_status g' \<noteq> ''active'')"
      by (intro impI bexI [OF _ count_use_row [OF g(1)]]) (simp add: g(2))
  qed
  have 3: "verify_token sha t ctx' later = (Inl (A2AAuthorizationError ''Invalid or revoked sharing token.''), later)"
    if g: "g \<in> set (ad_grants db)" "gr_token_hash g = sha t" "gr_status g \<noteq> ''active''" "(a2a_step uuid sha)\<^sup>*\<^sup>* db later" for g
  proof -
    obtain g' where g': "g' \<in> set (ad_grants later)" "grant_forward g g'"
      using grants.table_row [OF a2a_steps_forward [OF g(4) inv] g(1)] by blast
    have "gr_status g' \<noteq> ''active''" "gr_token_hash g' = sha t"
      using g'(2) g(2,3) grant_forward_same [OF g'(2)] unfolding grant_forward_def by simp_all
    then have "token_row sha t later = None"
      using token_row_unique [where sha = sha and t = t, OF a2a.steps_inv [OF g(4) inv] g'(1)] by simp
    then show ?thesis by (simp add: verify_token_def finish_verification_def)
  qed
  show ?thesis using 1 2 3 by blast
qed

definition demo_grant :: a2a_grant where
  "demo_grant = \<lparr>gr_id = ''g1'', gr_owner_ns = ''A'', gr_owner_agent = ''a'', gr_target_ns = Some ''B'', gr_target_agent = None,
     gr_scopes = [\<lparr>sc_type = ''memory'', sc_id = ''m1'', sc_permissions = [''read'']\<rparr>], gr_token_hash = ''t'', gr_status = ''active'',
     gr_expires = 60, gr_can_delegate = False, gr_one_time = True, gr_usage = 0, gr_created = 0\<rparr>"

definition demo_request :: A2AGrantRequest where
  "demo_request = \<lparr>rq_target_ns = Some ''B'', rq_target_agent = None,
     rq_scopes = [\<lparr>sc_type = ''memory'', sc_id = ''m1'', sc_permissions = [''read'']\<rparr>], rq_expires_in = 60, rq_can_delegate = False, rq_one_time = True\<rparr>"

definition demo_a2a :: a2a_db where
  "demo_a2a = \<lparr>ad_grants = [], ad_memories = [\<lparr>mm_id = ''m1'', mm_ns = ''A'', mm_signature = Some ''s1''\<rparr>, \<lparr>mm_id = ''m2'', mm_ns = ''A'', mm_signature = None\<rparr>],
     ad_nodes = [], ad_events = [], ad_now = 0\<rparr>"

definition demo_granted :: a2a_db where
  "demo_granted = demo_a2a\<lparr>ad_grants := [demo_grant], ad_events := [\<lparr>ae_ns = ''A'', ae_agent = ''a'', ae_type = ''a2a_grant_created'', ae_grant = ''g1'', ae_count = 1\<rparr>]\<rparr>"

abbreviation "demo_owner \<equiv> \<lparr>cx_ns = Some ''A'', cx_agent = ''a''\<rparr>"
abbreviation "demo_consumer \<equiv> \<lparr>cx_ns = Some ''B'', cx_agent = ''b''\<rparr>"

lemma demo_create: "create_grant Some (\<lambda>t. t) ''t'' ''g1'' demo_owner demo_request demo_a2a = Inr (demo_granted, ''t'', 60)"
  by (simp add: create_grant_def demo_request_def demo_a2a_def demo_granted_def demo_grant_def append_a2a_event_def valid_request_def
      valid_scope_def RESOURCE_TYPES_def resolve_scope_namespaces_def)

lemma demo_reachable: "reachable_from no_grants (a2a_step Some (\<lambda>t. t)) demo_granted"
proof -
  have "reachable_from no_grants (a2a_step Some (\<lambda>t. t)) demo_a2a" by (rule reach_init) (simp add: demo_a2a_def)
  then show ?thesis using a2a_create [OF demo_create] by (rule reach_step)
qed

theorem token_exactly_while_active_witness:
  "fst (verify_token (\<lambda>t. t) ''t'' demo_consumer demo_granted) = Inr (verified demo_grant) \<and>
   gr_status (hd (ad_grants (snd (verify_token (\<lambda>t. t) ''t'' demo_consumer demo_granted)))) = ''expired''"
proof -
  note main = token_exactly_while_active [OF demo_reachable, of "''t''" demo_consumer "verified demo_grant"]
  have g: "demo_grant \<in> set (ad_grants demo_granted)" "gr_token_hash demo_grant = ''t''" "accepts demo_consumer demo_grant (ad_now demo_granted)"
    by (simp_all add: demo_granted_def demo_grant_def demo_a2a_def accepts_def)
  from main g have "fst (verify_token (\<lambda>t. t) ''t'' demo_consumer demo_granted) = Inr (verified demo_grant)" by blast
  moreover from main g have "snd (verify_token (\<lambda>t. t) ''t'' demo_consumer demo_granted) = count_use (gr_id demo_grant) demo_granted" by blast
  ultimately show ?thesis by (simp add: count_use_def update_grant_def demo_granted_def demo_grant_def)
qed

text \<open>C35: Creating a grant and presenting its token meet: after a grant is created in a reachable state, its token is
  accepted until the moment of expiry from every caller the grant is for, with the owner, the scopes and the flags of
  the request, and refused after it; another namespace is refused at once when the grant names one.\<close>

theorem grant_round_trip:
  assumes "reachable_from no_grants (a2a_step uuid sha) db"
    and "create_grant uuid sha t i ctx req db = Inr (db', t', expires)"
  shows "t' = t \<and> expires = ad_now db + rq_expires_in req \<and>
    (rq_target_ns req \<in> {None, cx_ns ctx'} \<and> rq_target_agent req \<in> {None, Some (cx_agent ctx')} \<and> now \<le> expires \<longrightarrow>
       map_sum id (\<lambda>v. (Some (vg_owner_ns v), vg_owner_agent v, vg_scopes v, vg_one_time v)) (fst (verify_token sha t ctx' (db'\<lparr>ad_now := now\<rparr>))) =
         Inr (cx_ns ctx, cx_agent ctx, rq_scopes req, rq_one_time req)) \<and>
    (now > expires \<or> rq_target_ns req \<notin> {None, cx_ns ctx'} \<longrightarrow>
       (\<exists>e. fst (verify_token sha t ctx' (db'\<lparr>ad_now := now\<rparr>)) = Inl (A2AAuthorizationError e)))"
proof -
  from assms(2) obtain g where g: "ad_grants db' = ad_grants db @ [g]" "gr_status g = ''active''" "gr_token_hash g = sha t"
    "cx_ns ctx = Some (gr_owner_ns g)" "gr_owner_agent g = cx_agent ctx" "gr_scopes g = rq_scopes req" "gr_usage g = 0"
    "gr_expires g = ad_now db + rq_expires_in req" "gr_target_ns g = rq_target_ns req" "gr_target_agent g = rq_target_agent req"
    "gr_one_time g = rq_one_time req" "(t', expires) = (t, gr_expires g)"
    by (rule create_grant_Inr)
  have "a2a_inv db'"
    using a2a.reachable_inv [OF assms(1)] a2a_step_keeps [OF a2a_create [OF assms(2)]] by blast
  then have inv: "a2a_inv (db'\<lparr>ad_now := now\<rparr>)" by (rule a2a_inv_frame) simp
  have row: "token_row sha t (db'\<lparr>ad_now := now\<rparr>) = Some g"
    using token_row_unique [where sha = sha and t = t, OF inv, of g] g(1-3) by simp
  show ?thesis
    using row g(2,4-12) by (auto simp: verify_token_def finish_verification_def token_refused_def verified_def)
qed

theorem grant_round_trip_witness:
  "map_sum id vg_owner_ns (fst (verify_token (\<lambda>t. t) ''t'' demo_consumer (demo_granted\<lparr>ad_now := 60\<rparr>))) = Inr ''A'' \<and>
   (\<exists>e. fst (verify_token (\<lambda>t. t) ''t'' demo_consumer (demo_granted\<lparr>ad_now := 61\<rparr>)) = Inl (A2AAuthorizationError e))"
proof -
  have start: "reachable_from no_grants (a2a_step Some (\<lambda>t. t)) demo_a2a" by (rule reach_init) (simp add: demo_a2a_def)
  note main = grant_round_trip [OF start demo_create]
  have "map_sum id (\<lambda>v. (Some (vg_owner_ns v), vg_owner_agent v, vg_scopes v, vg_one_time v))
      (fst (verify_token (\<lambda>t. t) ''t'' demo_consumer (demo_granted\<lparr>ad_now := 60\<rparr>))) = Inr (Some ''A'', ''a'', rq_scopes demo_request, True)"
    using main [of demo_consumer 60] by (simp add: demo_request_def)
  moreover have "\<exists>e. fst (verify_token (\<lambda>t. t) ''t'' demo_consumer (demo_granted\<lparr>ad_now := 61\<rparr>)) = Inl (A2AAuthorizationError e)"
    using main [of demo_consumer 61] by simp
  ultimately show ?thesis by (cases "fst (verify_token (\<lambda>t. t) ''t'' demo_consumer (demo_granted\<lparr>ad_now := 60\<rparr>))") auto
qed

section \<open>What the shared query reads\<close>

definition answer_of :: "(string \<Rightarrow> string \<Rightarrow> string \<Rightarrow> nat \<Rightarrow> string list) \<Rightarrow> a2a_grant \<Rightarrow> shared_query \<Rightarrow> a2a_db \<Rightarrow> (string \<times> string option) list" where
  "answer_of search g q db = map (\<lambda>m. (m, Option.bind (find (\<lambda>r. mm_id r = m \<and> mm_ns r = gr_owner_ns g) (ad_memories db)) mm_signature))
     (search (gr_owner_ns g) (gr_owner_agent g) (sq_query q) (sq_top_k q))"

definition query_resource :: "a2a_grant \<Rightarrow> shared_query \<Rightarrow> string" where
  "query_resource g q = (case sq_resource_id q of None \<Rightarrow> gr_owner_ns g | Some r \<Rightarrow> if r = [] then gr_owner_ns g else r)"

definition query_covered :: "a2a_grant \<Rightarrow> shared_query \<Rightarrow> bool" where
  "query_covered g q \<longleftrightarrow> length (sq_token q) \<le> MAX_SHARING_TOKEN_LEN \<and>
     (sq_resource_type q = ''namespace'' \<or> sq_resource_id q \<notin> {None, Some []}) \<and>
     (\<exists>s \<in> set (gr_scopes g). scope_covers (sq_resource_type q) (query_resource g q) (gr_owner_ns g) s)"

definition query_logged :: "a2a_grant \<Rightarrow> a2a_db \<Rightarrow> a2a_db" where
  "query_logged g db = (count_use (gr_id g) db)\<lparr>ad_events := ad_events db @
     [\<lparr>ae_ns = gr_owner_ns g, ae_agent = gr_owner_agent g, ae_type = ''a2a_shared_query'', ae_grant = gr_id g, ae_count = 0\<rparr>]\<rparr>"

lemma count_use_frame [simp]:
  "ad_memories (count_use i db) = ad_memories db" "ad_events (count_use i db) = ad_events db" "ad_now (count_use i db) = ad_now db"
  by (simp_all add: count_use_def update_grant_def)

lemma verified_sel [simp]:
  "vg_id (verified g) = gr_id g" "vg_owner_ns (verified g) = gr_owner_ns g" "vg_owner_agent (verified g) = gr_owner_agent g"
  "vg_scopes (verified g) = gr_scopes g"
  by (simp_all add: verified_def)

lemma query_shared_verified:
  assumes "verify_token sha (sq_token q) ctx db = (Inr (verified g), count_use (gr_id g) db)"
  shows "query_covered g q \<Longrightarrow> query_shared sha search ctx q db = (Inr (answer_of search g q db), query_logged g db)" (is "_ \<Longrightarrow> ?A")
    "\<not> query_covered g q \<Longrightarrow> \<exists>e. fst (query_shared sha search ctx q db) = Inl e \<and>
       ad_events (snd (query_shared sha search ctx q db)) = ad_events db" (is "_ \<Longrightarrow> ?B")
proof -
  have scope: "enforce_scope (gr_scopes g) ty r (gr_owner_ns g) =
      (if \<exists>s \<in> set (gr_scopes g). scope_covers ty r (gr_owner_ns g) s then Inr ()
       else Inl (A2AScopeViolationError ''Access denied''))" for ty r
    by (simp add: enforce_scope_def list_ex_iff)
  note defs = query_covered_def query_resource_def query_shared_def answer_of_def query_logged_def append_a2a_event_def scope assms
  show "query_covered g q \<Longrightarrow> ?A" by (cases "sq_resource_id q") (auto simp: defs)
  show "\<not> query_covered g q \<Longrightarrow> ?B" by (cases "sq_resource_id q") (auto simp: defs)
qed



abbreviation "demo_query \<equiv> \<lparr>sq_token = ''t'', sq_query = ''x'', sq_resource_type = ''memory'', sq_resource_id = Some ''m1'', sq_top_k = 5\<rparr>"


text \<open>The answer does not depend on the scope that was enforced: whatever resource a scope names, one memory, one node, or
  another namespace that was delegated, presenting the token with that resource returns the search over the whole
  namespace of the agent that created the grant.\<close>

lemma scope_does_not_narrow:
  assumes "a2a_inv db" and "g \<in> set (ad_grants db)" and "gr_token_hash g = sha t" and "accepts ctx g (ad_now db)"
    and "s \<in> set (gr_scopes g)" and "''read'' \<in> set (sc_permissions s)" and "sc_id s \<noteq> []" and "length t \<le> MAX_SHARING_TOKEN_LEN"
  shows "fst (query_shared sha search ctx \<lparr>sq_token = t, sq_query = text_of, sq_resource_type = sc_type s, sq_resource_id = Some (sc_id s), sq_top_k = k\<rparr> db) =
    Inr (map (\<lambda>m. (m, Option.bind (find (\<lambda>r. mm_id r = m \<and> mm_ns r = gr_owner_ns g) (ad_memories db)) mm_signature))
      (search (gr_owner_ns g) (gr_owner_agent g) text_of k))"
proof -
  let ?q = "\<lparr>sq_token = t, sq_query = text_of, sq_resource_type = sc_type s, sq_resource_id = Some (sc_id s), sq_top_k = k\<rparr>"
  have "query_covered g ?q" using assms(5-8) by (auto simp: query_covered_def query_resource_def scope_covers_def)
  then show ?thesis
    using query_shared_verified(1) [of sha ?q ctx db g search] verify_token_grant(2) [where sha = sha and t = t, OF assms(1-4)]
    by (simp add: answer_of_def)
qed

text \<open>Two callers of the same one-time token that both read the row before either of them writes are both accepted: the
  update of the second does not look at the status again.\<close>

lemma one_time_token_used_twice:
  assumes "token_row sha t db = Some g" and "gr_one_time g" and "gr_usage g = 0" and "accepts ctx g (ad_now db)" and "accepts ctx' g (ad_now db)"
  shows "let row = token_row sha t db; (r, db') = finish_verification ctx row db; (r', db'') = finish_verification ctx' row db' in
    r = Inr (verified g) \<and> r' = Inr (verified g)"
  using assms by (auto simp: Let_def finish_verification_def token_refused_def accepts_def)

text \<open>Any active delegable grant of a namespace lets its target pass on the whole namespace, whatever the scopes of that
  grant and whatever agent it was meant for.\<close>

lemma delegation_ignores_scopes:
  assumes "g \<in> set (ad_grants db)" and "gr_can_delegate g" and "gr_status g = ''active''" and "gr_expires g > ad_now db"
    and "gr_target_ns g \<in> {None, cx_ns ctx}" and "uuid (gr_owner_ns g) = Some (gr_owner_ns g)"
  shows "check_scopes uuid ctx [\<lparr>sc_type = ''namespace'', sc_id = gr_owner_ns g, sc_permissions = [''read'']\<rparr>] db = Inr ()"
  using assms by (auto simp: resolve_scope_namespaces_def has_delegate_grant_def list_ex_iff and_then_eq_Inr)

lemma status_ignores_agent:
  assumes "find (\<lambda>x. gr_id x = i) (ad_grants db) = Some g" and "gr_target_ns g = None"
  shows "\<exists>g'. fst (verify_grant_status sha ctx None (Some i) db) = Inr g' \<and> gr_scopes g' = gr_scopes g"
  using assms by (auto simp: verify_grant_status_def Let_def)

text \<open>Only the owner's namespace changes or inspects a grant.\<close>

lemma only_owner_changes:
  assumes "a2a_inv db" and "g \<in> set (ad_grants db)" and "cx_ns ctx \<noteq> Some (gr_owner_ns g)"
  shows "revoke_grant (gr_id g) ctx db = Inr (db, False)"
    "update_grant_scopes ctx (gr_id g) ss mode db = Inl (A2AAuthorizationError ''Grant not found or unauthorized.'')"
    "inspect_grant ctx (gr_id g) db = Inl (A2AAuthorizationError ''Grant not found or unauthorized.'')"
    "g \<notin> set (list_grants ctx all_of_them db)"
proof -
  have none: "\<not> (gr_id x = gr_id g \<and> Some (gr_owner_ns x) = cx_ns ctx)" if "x \<in> set (ad_grants db)" for x
    using same_grant [OF assms(1) that assms(2)] assms(3) by metis
  then have row: "find (\<lambda>x. gr_id x = gr_id g \<and> Some (gr_owner_ns x) = cx_ns ctx) (ad_grants db) = None" by (auto simp: find_None_iff)
  show "revoke_grant (gr_id g) ctx db = Inr (db, False)" using none by (auto simp: revoke_grant_def list_ex_iff)
  show "update_grant_scopes ctx (gr_id g) ss mode db = Inl (A2AAuthorizationError ''Grant not found or unauthorized.'')"
    "inspect_grant ctx (gr_id g) db = Inl (A2AAuthorizationError ''Grant not found or unauthorized.'')"
    by (simp_all add: update_grant_scopes_def inspect_grant_def row)
  show "g \<notin> set (list_grants ctx all_of_them db)" using assms(3) by (auto simp: list_grants_def dest!: in_set_takeD)
qed

lemma merge_scopes_set: "set (merge_scopes old new) = set old \<union> set new"
  unfolding merge_scopes_def by (induction new arbitrary: old) auto

lemma merge_scopes_distinct: "distinct old \<Longrightarrow> distinct (merge_scopes old new)"
  unfolding merge_scopes_def by (induction new arbitrary: old) auto

end
