(* ===== verification/DeadLetters.thy ===== *)
theory DeadLetters
  imports CronLocks "HOL-Library.Sublist"
begin

text \<open>
  The dead letter queue (\<^verbatim>\<open>src/nce/dead_letter_queue.py\<close>) and the workers that feed it (\<^verbatim>\<open>src/nce/tasks.py\<close>): what of a
  failed task's arguments is stored, how failures are classified and triaged, the life of an entry, and the
  counter of attempts that decides when a task has failed for good. The table is a list of rows in order of insertion;
  Redis is a map with expiry times, faults of its calls are arguments.
\<close>

section \<open>Sanitising the arguments of a task\<close>

definition DLQ_SENSITIVE_KEYS :: "string list" where
  "DLQ_SENSITIVE_KEYS =
     [''access_token'', ''accesstoken'', ''refresh_token'', ''refreshtoken'', ''token'', ''authorization'', ''auth'',
      ''bearer'', ''password'', ''passwd'', ''secret'', ''api_key'', ''apikey'', ''private_key'', ''client_secret'',
      ''clientsecret'', ''raw_code'', ''code'', ''content'', ''file_content'']"

definition DLQ_SENSITIVE_SUBSTRINGS :: "string list" where
  "DLQ_SENSITIVE_SUBSTRINGS = [''token'', ''secret'', ''password'', ''private_key'', ''api_key'', ''apikey'']"

definition MAX_DLQ_STRING_LEN :: nat where "MAX_DLQ_STRING_LEN = 4096"
definition MAX_DLQ_NESTED_KEYS :: nat where "MAX_DLQ_NESTED_KEYS = 50"
definition ERROR_MESSAGE_MAX_LEN :: nat where "ERROR_MESSAGE_MAX_LEN = 1024"

definition normalised_key :: "string \<Rightarrow> string" where
  "normalised_key key = map (\<lambda>c. if c = CHR ''-'' then CHR ''_'' else c) (lower key)"

definition is_sensitive_key :: "string \<Rightarrow> bool" where
  "is_sensitive_key key \<longleftrightarrow> normalised_key key \<in> set DLQ_SENSITIVE_KEYS \<or>
     list_ex (\<lambda>marker. sublist marker (normalised_key key)) DLQ_SENSITIVE_SUBSTRINGS"

definition REDACTED :: json where "REDACTED = JStr ''[REDACTED]''"

definition TRUNCATED :: string where "TRUNCATED = ''...[truncated]''"

lemma json_size_dict: "(k, x) \<in> set d \<Longrightarrow> size x < Suc (size_list (size_prod (\<lambda>_. 0) size) d)"
  by (induction d) auto

lemma json_size_list: "x \<in> set xs \<Longrightarrow> size x < Suc (size_list size xs)"
  by (induction xs) auto

function sanitize_dlq_kwargs :: "json \<Rightarrow> json" where
  "sanitize_dlq_kwargs v = (case v of
      JDict d \<Rightarrow> JDict (map (\<lambda>(k, x). (k, if is_sensitive_key k then REDACTED else sanitize_dlq_kwargs x)) (take MAX_DLQ_NESTED_KEYS d))
    | JList xs \<Rightarrow> JList (map sanitize_dlq_kwargs (take MAX_DLQ_NESTED_KEYS xs))
    | JStr s \<Rightarrow> JStr (if length s > MAX_DLQ_STRING_LEN then take MAX_DLQ_STRING_LEN s @ TRUNCATED else s)
    | other \<Rightarrow> other)"
  by pat_completeness auto
termination
  by (relation "measure size") (auto dest!: in_set_takeD intro: json_size_dict json_size_list)

declare sanitize_dlq_kwargs.simps [simp del]

lemma sanitize_simps [simp]:
  "sanitize_dlq_kwargs (JDict d) =
     JDict (map (\<lambda>(k, x). (k, if is_sensitive_key k then REDACTED else sanitize_dlq_kwargs x)) (take MAX_DLQ_NESTED_KEYS d))"
  "sanitize_dlq_kwargs (JList xs) = JList (map sanitize_dlq_kwargs (take MAX_DLQ_NESTED_KEYS xs))"
  "sanitize_dlq_kwargs (JStr s) = JStr (if length s > MAX_DLQ_STRING_LEN then take MAX_DLQ_STRING_LEN s @ TRUNCATED else s)"
  "sanitize_dlq_kwargs JNull = JNull" "sanitize_dlq_kwargs (JBool b) = JBool b" "sanitize_dlq_kwargs (JInt i) = JInt i"
  "sanitize_dlq_kwargs (JFloat f) = JFloat f"
  by (simp_all add: sanitize_dlq_kwargs.simps)

text \<open>The value at a path of keys and positions of a document.\<close>

datatype json_step = Key string | Pos nat

fun json_at :: "json \<Rightarrow> json_step list \<Rightarrow> json option" where
  "json_at v [] = Some v"
| "json_at (JDict d) (Key k # ps) = (case dict_get d k of None \<Rightarrow> None | Some x \<Rightarrow> json_at x ps)"
| "json_at (JList xs) (Pos i # ps) = (if i < length xs then json_at (xs ! i) ps else None)"
| "json_at _ _ = None"

definition open_step :: "json_step \<Rightarrow> bool" where
  "open_step p = (case p of Key k \<Rightarrow> \<not> is_sensitive_key k | Pos _ \<Rightarrow> True)"

lemma open_step_simps [simp]: "open_step (Key k) = (\<not> is_sensitive_key k)" "open_step (Pos i)"
  by (simp_all add: open_step_def)



lemma json_at_REDACTED [simp]: "json_at REDACTED (p # ps) = None"
  by (simp add: REDACTED_def)

lemma json_at_REDACTED_snoc [simp]: "json_at REDACTED (ps @ [p]) = None"
  by (cases ps) simp_all

lemma sanitize_REDACTED [simp]: "sanitize_dlq_kwargs REDACTED = REDACTED"
  by (simp add: REDACTED_def MAX_DLQ_STRING_LEN_def)






section \<open>Classifying failures\<close>

definition TRANSIENT_EXC_SUBSTRINGS :: "string list" where
  "TRANSIENT_EXC_SUBSTRINGS =
     [''timeout'', ''connectionreset'', ''connectionerror'', ''connectionrefused'', ''brokenpipe'', ''operationalerror'',
      ''toomanyrequests'', ''serviceunavailable'', ''badgateway'', ''gatewaytimeout'', ''networkerror'', ''connecttimeout'',
      ''readtimeout'', ''writetimeout'', ''asynctimeouterror'', ''asyncioerror'']"

definition TRANSIENT_STATUS_CODES :: "string list" where
  "TRANSIENT_STATUS_CODES = [''429'', ''500'', ''502'', ''503'', ''504'']"

text \<open>\<open>re\<close>'s \<open>\w\<close> and \<open>\d\<close> on the Latin-1 range.\<close>

definition word_char :: "char \<Rightarrow> bool" where
  "word_char c = (let n = of_char c :: nat in
     48 \<le> n \<and> n \<le> 57 \<or> 65 \<le> n \<and> n \<le> 90 \<or> n = 95 \<or> 97 \<le> n \<and> n \<le> 122 \<or>
     n \<in> {170, 178, 179, 181, 185, 186, 188, 189, 190} \<or> 192 \<le> n \<and> n \<noteq> 215 \<and> n \<noteq> 247)"

definition decimal_char :: "char \<Rightarrow> bool" where
  "decimal_char c = (let n = of_char c :: nat in 48 \<le> n \<and> n \<le> 57)"

text \<open>The maximal runs of word characters, which are what \<open>\b ... \b\<close> delimits.\<close>

function words_of :: "string \<Rightarrow> string list" where
  "words_of s = (case dropWhile (Not \<circ> word_char) s of
      [] \<Rightarrow> []
    | c # cs \<Rightarrow> (c # takeWhile word_char cs) # words_of (dropWhile word_char cs))"
  by pat_completeness auto
termination
proof (relation "measure length", simp)
  fix s c cs
  assume "dropWhile (Not \<circ> word_char) s = c # cs"
  then have "Suc (length cs) \<le> length s" by (metis length_Cons length_dropWhile_le)
  then show "(dropWhile word_char cs, s) \<in> measure length"
    using length_dropWhile_le [of word_char cs] by simp
qed

definition status_code :: "string \<Rightarrow> bool" where
  "status_code w = (case w of [a, b, c] \<Rightarrow> (a = CHR ''4'' \<or> a = CHR ''5'') \<and> decimal_char b \<and> decimal_char c | _ \<Rightarrow> False)"

definition classify_error :: "string \<Rightarrow> string \<Rightarrow> string" where
  "classify_error exc_class error_message =
     (if list_ex (\<lambda>sub. sublist sub (lower exc_class)) TRANSIENT_EXC_SUBSTRINGS then ''transient''
      else if list_ex (\<lambda>code. code \<in> set TRANSIENT_STATUS_CODES) (filter status_code (words_of error_message)) then ''transient''
      else ''deterministic'')"

section \<open>Fingerprints and the circuit of a task\<close>

text \<open>A stack frame as \<open>traceback\<close> gives it: file, line and function. The fingerprint is a hash of the task, the
  class of the exception and the last frame; the hash function is a parameter.\<close>

record stack_frame =
  sf_filename :: string
  sf_lineno :: int
  sf_name :: string

fun collapse_slashes :: "string \<Rightarrow> string" where
  "collapse_slashes [] = []"
| "collapse_slashes (c # s) =
     (if c = CHR ''/'' \<or> c = CHR 0x5C then
        (case collapse_slashes s of [] \<Rightarrow> ''/'' | d # r \<Rightarrow> if d = CHR ''/'' then d # r else CHR ''/'' # d # r)
      else c # collapse_slashes s)"

definition normalize_top_frame :: "stack_frame list \<Rightarrow> string" where
  "normalize_top_frame tb = (if tb = [] then [] else let frame = last tb in
     dropWhile (\<lambda>c. c = CHR ''/'') (collapse_slashes (sf_filename frame)) @ '':'' @ show_int (sf_lineno frame) @ '':'' @ sf_name frame)"

definition compute_error_fingerprint :: "(string \<Rightarrow> string) \<Rightarrow> string \<Rightarrow> string \<Rightarrow> stack_frame list \<Rightarrow> string \<Rightarrow> string" where
  "compute_error_fingerprint sha task_name exc_class tb top_frame =
     (let frame = (if top_frame \<noteq> [] then top_frame else normalize_top_frame tb) in
      sha (task_name @ [CHR 0x00] @ exc_class @ [CHR 0x00] @ frame))"

definition circuit_key :: "string \<Rightarrow> string" where
  "circuit_key task_name = ''nce:dlq:quarantine:'' @ task_name"

definition is_circuit_open :: "real \<Rightarrow> string \<Rightarrow> redis_store \<Rightarrow> bool" where
  "is_circuit_open now task_name store \<longleftrightarrow> live_value now store (circuit_key task_name) \<noteq> None"

definition open_circuit :: "real \<Rightarrow> int \<Rightarrow> string \<Rightarrow> redis_store \<Rightarrow> redis_store" where
  "open_circuit now ttl task_name store = store(circuit_key task_name \<mapsto> (''1'', now + of_int ttl))"

definition close_circuit :: "string \<Rightarrow> redis_store \<Rightarrow> redis_store" where
  "close_circuit task_name store = store(circuit_key task_name := None)"

definition check_circuit_before_enqueue :: "real \<Rightarrow> string \<Rightarrow> redis_store \<Rightarrow> bool" where
  "check_circuit_before_enqueue now task_name store \<longleftrightarrow> \<not> is_circuit_open now task_name store"

section \<open>The table\<close>

text \<open>The parsing of UUIDs, what the database accepts as \<open>jsonb\<close> and the hash are parameters.\<close>

record dlq_env =
  de_uuid :: "string \<Rightarrow> string option"
  de_jsonb :: "json \<Rightarrow> json option"
  de_sha :: "string \<Rightarrow> string"

record dead_letter =
  dl_id :: string
  dl_ns :: "string option"
  dl_task :: string
  dl_job :: string
  dl_kwargs :: json
  dl_error :: string
  dl_attempts :: int
  dl_status :: string
  dl_created :: int
  dl_replayed_at :: "int option"
  dl_purged_at :: "int option"
  dl_fingerprint :: "string option"
  dl_quarantined_until :: "int option"

record dlq_db =
  dq_rows :: "dead_letter list"
  dq_namespaces :: "string list"
  dq_now :: int

datatype dlq_error = DlqValueError string | InvalidUuid | ForeignKeyViolation | CheckViolation | UniqueViolation | InvalidJson

definition ALLOWED_DLQ_STATUS :: "string list" where
  "ALLOWED_DLQ_STATUS = [''pending'', ''replayed'', ''purged'']"

definition validate_status :: "string option \<Rightarrow> dlq_error + string option" where
  "validate_status status = (case status of
      None \<Rightarrow> Inr None
    | Some s \<Rightarrow> if s = [] then Inr None else if s \<in> set ALLOWED_DLQ_STATUS then Inr (Some s)
        else Inl (DlqValueError ''status must be one of pending, purged, replayed''))"

text \<open>\<open>namespace_id or kwargs.get('namespace_id')\<close>, as the column takes it.\<close>

definition dlq_namespace :: "dlq_env \<Rightarrow> string option \<Rightarrow> (string, json) dict \<Rightarrow> dlq_error + string option" where
  "dlq_namespace e ns kwargs =
     (case (if ns = None \<or> ns = Some [] then dict_getd kwargs ''namespace_id'' JNull else JStr (the ns)) of
        JNull \<Rightarrow> Inr None
      | JStr s \<Rightarrow> (case de_uuid e s of None \<Rightarrow> Inl InvalidUuid | Some u \<Rightarrow> Inr (Some u))
      | _ \<Rightarrow> Inl InvalidUuid)"

definition insert_dead_letter :: "dead_letter \<Rightarrow> 'z dlq_db_scheme \<Rightarrow> dlq_error + 'z dlq_db_scheme" where
  "insert_dead_letter row db =
     (if dl_id row \<in> set (map dl_id (dq_rows db)) then Inl UniqueViolation
      else if dl_attempts row \<le> 0 then Inl CheckViolation
      else if (case dl_ns row of None \<Rightarrow> False | Some u \<Rightarrow> u \<notin> set (dq_namespaces db)) then Inl ForeignKeyViolation
      else Inr (db\<lparr>dq_rows := dq_rows db @ [row]\<rparr>))"

definition store_dead_letter ::
  "dlq_env \<Rightarrow> string \<Rightarrow> string \<Rightarrow> string \<Rightarrow> (string, json) dict \<Rightarrow> string \<Rightarrow> int \<Rightarrow> string option \<Rightarrow> string option \<Rightarrow>
     'z dlq_db_scheme \<Rightarrow> dlq_error + ('z dlq_db_scheme \<times> string)" where
  "store_dead_letter e new_id task_name job_id kwargs error_message attempt_count namespace_id error_fingerprint db =
     and_then (dlq_namespace e namespace_id kwargs) (\<lambda>ns.
     (case de_jsonb e (sanitize_dlq_kwargs (JDict kwargs)) of
        None \<Rightarrow> Inl InvalidJson
      | Some stored \<Rightarrow>
          and_then (insert_dead_letter
            \<lparr>dl_id = new_id, dl_ns = ns, dl_task = task_name, dl_job = job_id, dl_kwargs = stored,
             dl_error = take ERROR_MESSAGE_MAX_LEN error_message, dl_attempts = attempt_count, dl_status = ''pending'',
             dl_created = dq_now db, dl_replayed_at = None, dl_purged_at = None, dl_fingerprint = error_fingerprint,
             dl_quarantined_until = None\<rparr> db) (\<lambda>db'. Inr (db', new_id))))"

definition update_row :: "(dead_letter \<Rightarrow> bool) \<Rightarrow> (dead_letter \<Rightarrow> dead_letter) \<Rightarrow> 'z dlq_db_scheme \<Rightarrow> 'z dlq_db_scheme" where
  "update_row P f db = db\<lparr>dq_rows := map (\<lambda>r. if P r then f r else r) (dq_rows db)\<rparr>"

definition replay_dead_letter :: "dlq_env \<Rightarrow> string \<Rightarrow> 'z dlq_db_scheme \<Rightarrow> dlq_error + ('z dlq_db_scheme \<times> dead_letter)" where
  "replay_dead_letter e dlq_id db = (case de_uuid e dlq_id of
      None \<Rightarrow> Inl InvalidUuid
    | Some i \<Rightarrow>
        (case find (\<lambda>r. dl_id r = i \<and> dl_status r = ''pending'') (dq_rows db) of
           None \<Rightarrow> Inl (DlqValueError ''not found or not in pending status'')
         | Some row \<Rightarrow>
             Inr (update_row (\<lambda>r. dl_id r = i \<and> dl_status r = ''pending'')
                    (\<lambda>r. r\<lparr>dl_status := ''replayed'', dl_replayed_at := Some (dq_now db)\<rparr>) db,
                  row\<lparr>dl_status := ''replayed'', dl_replayed_at := Some (dq_now db)\<rparr>)))"

definition purge_dead_letter :: "dlq_env \<Rightarrow> string \<Rightarrow> 'z dlq_db_scheme \<Rightarrow> dlq_error + 'z dlq_db_scheme" where
  "purge_dead_letter e dlq_id db = (case de_uuid e dlq_id of
      None \<Rightarrow> Inl InvalidUuid
    | Some i \<Rightarrow>
        (if i \<in> set (map dl_id (dq_rows db)) then
           Inr (update_row (\<lambda>r. dl_id r = i) (\<lambda>r. r\<lparr>dl_status := ''purged'', dl_purged_at := Some (dq_now db)\<rparr>) db)
         else Inl (DlqValueError ''not found'')))"

definition dlq_matches :: "string option \<Rightarrow> string option \<Rightarrow> dead_letter \<Rightarrow> bool" where
  "dlq_matches task_name status r \<longleftrightarrow>
     (case task_name of None \<Rightarrow> True | Some t \<Rightarrow> t = [] \<or> dl_task r = t) \<and> (case status of None \<Rightarrow> True | Some s \<Rightarrow> dl_status r = s)"

definition count_dead_letters :: "string option \<Rightarrow> string option \<Rightarrow> 'z dlq_db_scheme \<Rightarrow> dlq_error + nat" where
  "count_dead_letters task_name status db =
     and_then (validate_status status) (\<lambda>st. Inr (length (filter (dlq_matches task_name st) (dq_rows db))))"

definition list_dead_letters :: "string option \<Rightarrow> string option \<Rightarrow> int \<Rightarrow> int \<Rightarrow> 'z dlq_db_scheme \<Rightarrow> dlq_error + dead_letter list" where
  "list_dead_letters task_name status limit offset db =
     and_then (validate_status status) (\<lambda>st.
     (let n = nat (max 1 (min limit 200)); k = nat (max 0 offset) in
      Inr (take n (drop k (rev (sort_key dl_created (filter (dlq_matches task_name st) (dq_rows db))))))))"

section \<open>Triage\<close>

record dlq_cfg =
  AUTO_REPLAY_MAX :: nat
  CIRCUIT_THRESHOLD :: nat
  CIRCUIT_TTL_S :: int
  TASK_MAX_RETRIES :: int
  TASK_DLQ_REDIS_TTL :: int

definition count_fingerprint_entries :: "string \<Rightarrow> 'z dlq_db_scheme \<Rightarrow> nat" where
  "count_fingerprint_entries fp db = length (filter (\<lambda>r. dl_fingerprint r = Some fp \<and> dl_status r = ''pending'') (dq_rows db))"

definition count_replayed_for_fingerprint :: "string \<Rightarrow> 'z dlq_db_scheme \<Rightarrow> nat" where
  "count_replayed_for_fingerprint fp db = length (filter (\<lambda>r. dl_fingerprint r = Some fp \<and> dl_status r = ''replayed'') (dq_rows db))"

definition mark_auto_replay :: "string \<Rightarrow> int \<Rightarrow> 'z dlq_db_scheme \<Rightarrow> 'z dlq_db_scheme" where
  "mark_auto_replay i backoff_s db = update_row (\<lambda>r. dl_id r = i)
     (\<lambda>r. r\<lparr>dl_status := ''replayed'', dl_replayed_at := Some (dq_now db), dl_quarantined_until := Some (dq_now db + backoff_s)\<rparr>) db"

record task_failure =
  tf_class :: string
  tf_message :: string
  tf_traceback :: "stack_frame list"

record triage_result =
  tr_dlq_id :: string
  tr_fingerprint :: string
  tr_error_class :: string
  tr_action :: string

definition triage_dead_letter ::
  "dlq_env \<Rightarrow> dlq_cfg \<Rightarrow> real \<Rightarrow> string \<Rightarrow> string \<Rightarrow> string \<Rightarrow> (string, json) dict \<Rightarrow> task_failure \<Rightarrow> int \<Rightarrow> string option \<Rightarrow>
     'z dlq_db_scheme \<times> redis_store \<Rightarrow> dlq_error + (('z dlq_db_scheme \<times> redis_store) \<times> triage_result)" where
  "triage_dead_letter e cfg now new_id task_name job_id kwargs exc attempt_count namespace_id w =
     (case w of (db, store) \<Rightarrow>
      let fp = compute_error_fingerprint (de_sha e) task_name (tf_class exc) (tf_traceback exc) [];
          error_class = classify_error (tf_class exc) (tf_message exc);
          error_message = take ERROR_MESSAGE_MAX_LEN (tf_class exc @ '': '' @ tf_message exc);
          result = (\<lambda>i action. \<lparr>tr_dlq_id = i, tr_fingerprint = fp, tr_error_class = error_class, tr_action = action\<rparr>) in
      and_then (store_dead_letter e new_id task_name job_id kwargs error_message attempt_count namespace_id (Some fp) db) (\<lambda>(db', i).
        if error_class = ''transient'' then
          (let replayed_count = count_replayed_for_fingerprint fp db' in
           if replayed_count < AUTO_REPLAY_MAX cfg
           then Inr ((mark_auto_replay i (2 ^ replayed_count) db', store), result i ''auto_replay_scheduled'')
           else Inr ((db', store), result i ''manual_review_required''))
        else if count_fingerprint_entries fp db' \<ge> CIRCUIT_THRESHOLD cfg
        then Inr ((db', open_circuit now (CIRCUIT_TTL_S cfg) task_name store), result i ''circuit_opened'')
        else Inr ((db', store), result i ''deterministic_pending'')))"

section \<open>Attempts of a worker task\<close>

text \<open>Redis counters with an optional expiry. A call can fail before \<open>INCR\<close> takes effect, or after it and before
  \<open>EXPIRE\<close> does.\<close>

type_synonym counters = "string \<rightharpoonup> int \<times> real option"

definition live_count :: "real \<Rightarrow> counters \<Rightarrow> string \<Rightarrow> (int \<times> real option) option" where
  "live_count now cs key = (case cs key of
      None \<Rightarrow> None
    | Some (n, expiry) \<Rightarrow> (case expiry of None \<Rightarrow> Some (n, None) | Some t \<Rightarrow> if now < t then Some (n, Some t) else None))"

definition job_char :: "char \<Rightarrow> bool" where
  "job_char c = (let n = of_char c :: nat in
     48 \<le> n \<and> n \<le> 57 \<or> 65 \<le> n \<and> n \<le> 90 \<or> 97 \<le> n \<and> n \<le> 122 \<or> c \<in> set '':_./-'')"

definition attempt_key :: "string \<Rightarrow> py_error + string" where
  "attempt_key job_id = (if 1 \<le> length job_id \<and> length job_id \<le> 256 \<and> list_all job_char job_id
     then Inr (''task_attempts:'' @ job_id) else Inl (ValueError ''Invalid job_id for attempt tracking''))"

definition track_attempt :: "real \<Rightarrow> redis_fault \<Rightarrow> int \<Rightarrow> string \<Rightarrow> counters \<Rightarrow> (py_error + int) \<times> counters" where
  "track_attempt now fault ttl job_id cs = (case attempt_key job_id of
      Inl e \<Rightarrow> (Inl e, cs)
    | Inr key \<Rightarrow>
        (let old = live_count now cs key;
             n = (case old of None \<Rightarrow> 1 | Some (k, _) \<Rightarrow> k + 1);
             expiry = (case old of None \<Rightarrow> None | Some (_, t) \<Rightarrow> t) in
         case fault of
           NoFault \<Rightarrow> (Inr n, cs(key \<mapsto> (n, Some (now + of_int ttl))))
         | FailsBefore \<Rightarrow> (Inl (OtherException ''ConnectionError''), cs)
         | FailsAfter \<Rightarrow> (Inl (OtherException ''ConnectionError''), cs(key \<mapsto> (n, expiry)))))"

definition clear_attempt :: "redis_fault \<Rightarrow> string \<Rightarrow> counters \<Rightarrow> (py_error + unit) \<times> counters" where
  "clear_attempt fault job_id cs = (case attempt_key job_id of
      Inl e \<Rightarrow> (Inl e, cs)
    | Inr key \<Rightarrow>
        (case fault of
           NoFault \<Rightarrow> (Inr (), cs(key := None))
         | FailsBefore \<Rightarrow> (Inl (OtherException ''ConnectionError''), cs)
         | FailsAfter \<Rightarrow> (Inl (OtherException ''ConnectionError''), cs(key := None))))"

definition check_poison_pill ::
  "real \<Rightarrow> redis_fault \<Rightarrow> dlq_cfg \<Rightarrow> string \<Rightarrow> string \<Rightarrow> counters \<Rightarrow> (py_error + bool \<times> int \<times> string) \<times> counters" where
  "check_poison_pill now fault cfg job_id error_text cs =
     (case track_attempt now fault (TASK_DLQ_REDIS_TTL cfg) job_id cs of
        (Inl e, cs') \<Rightarrow> (Inl e, cs')
      | (Inr attempt, cs') \<Rightarrow>
          (if TASK_MAX_RETRIES cfg \<le> 0 then (Inr (False, attempt, []), cs')
           else if attempt \<le> TASK_MAX_RETRIES cfg then (Inr (False, attempt, []), cs')
           else (Inr (True, attempt, take 1024 error_text), cs')))"

text \<open>One run of the worker for a document bridge. The provider's answer, the faults of Redis and whether the entry
  could be stored are inputs; \<open>Reraised\<close> makes the queue run the job again.\<close>

datatype task_outcome = TaskOk json | TaskRaisesValueError string | TaskRaises string

datatype job_result = Done json | ErrorReport string | DeadLettered string | Reraised

record bridge_run =
  br_now :: real
  br_outcome :: task_outcome
  br_clear_fault :: redis_fault
  br_track_fault :: redis_fault
  br_new_id :: string

definition bridge_failed ::
  "dlq_env \<Rightarrow> dlq_cfg \<Rightarrow> string \<Rightarrow> string \<Rightarrow> (string, json) dict \<Rightarrow> bridge_run \<Rightarrow> string \<Rightarrow> 'z dlq_db_scheme \<times> counters \<Rightarrow>
     job_result \<times> 'z dlq_db_scheme \<times> counters" where
  "bridge_failed e cfg job_id provider payload run error_text w =
     (case w of (db, cs) \<Rightarrow>
      (case check_poison_pill (br_now run) (br_track_fault run) cfg job_id error_text cs of
         (Inl _, cs') \<Rightarrow> (Reraised, db, cs')
       | (Inr (poisoned, attempt_count, error_msg), cs') \<Rightarrow>
           (if \<not> poisoned then (Reraised, db, cs')
            else
              (case store_dead_letter e (br_new_id run) ''process_bridge_event'' job_id
                 [(''provider'', JStr provider), (''payload'', JDict payload)] error_msg attempt_count None None db of
                 Inl _ \<Rightarrow> (DeadLettered job_id, db, cs')
               | Inr (db', _) \<Rightarrow> (DeadLettered job_id, db', cs')))))"

definition process_bridge_event ::
  "dlq_env \<Rightarrow> dlq_cfg \<Rightarrow> string \<Rightarrow> string \<Rightarrow> (string, json) dict \<Rightarrow> bridge_run \<Rightarrow> 'z dlq_db_scheme \<times> counters \<Rightarrow>
     job_result \<times> 'z dlq_db_scheme \<times> counters" where
  "process_bridge_event e cfg job_id provider payload run w =
     (case w of (db, cs) \<Rightarrow>
      (case br_outcome run of
         TaskOk r \<Rightarrow>
           (case clear_attempt (br_clear_fault run) job_id cs of
              (Inr _, cs') \<Rightarrow> (Done r, db, cs')
            | (Inl (ValueError m), cs') \<Rightarrow> (ErrorReport m, db, cs')
            | (Inl _, cs') \<Rightarrow> bridge_failed e cfg job_id provider payload run ''ConnectionError'' (db, cs'))
       | TaskRaisesValueError m \<Rightarrow> (ErrorReport m, db, cs)
       | TaskRaises m \<Rightarrow> bridge_failed e cfg job_id provider payload run m (db, cs)))"

text \<open>The queue runs the job again until it does not raise.\<close>

primrec run_job ::
  "dlq_env \<Rightarrow> dlq_cfg \<Rightarrow> string \<Rightarrow> string \<Rightarrow> (string, json) dict \<Rightarrow> bridge_run list \<Rightarrow> 'z dlq_db_scheme \<times> counters \<Rightarrow>
     job_result list \<times> 'z dlq_db_scheme \<times> counters" where
  "run_job e cfg job_id provider payload [] w = ([], w)"
| "run_job e cfg job_id provider payload (run # runs) w =
     (case process_bridge_event e cfg job_id provider payload run w of (r, w') \<Rightarrow>
      (if r = Reraised then (case run_job e cfg job_id provider payload runs w' of (rs, w'') \<Rightarrow> (r # rs, w'')) else ([r], w')))"

section \<open>The life of an entry\<close>

definition status_rank :: "string \<Rightarrow> nat" where
  "status_rank s = (if s = ''pending'' then 0 else if s = ''replayed'' then 1 else 2)"

text \<open>What an entry may become: the record of the failure stays, the status only moves on.\<close>

definition row_forward :: "dead_letter \<Rightarrow> dead_letter \<Rightarrow> bool" where
  "row_forward r r' \<longleftrightarrow> status_rank (dl_status r) \<le> status_rank (dl_status r') \<and>
     r' = r\<lparr>dl_status := dl_status r', dl_replayed_at := dl_replayed_at r', dl_purged_at := dl_purged_at r',
            dl_quarantined_until := dl_quarantined_until r'\<rparr>"

abbreviation dlq_forward :: "dlq_db \<Rightarrow> dlq_db \<Rightarrow> bool" where
  "dlq_forward db db' \<equiv> table_forward row_forward (dq_rows db) (dq_rows db')"

definition dlq_inv :: "dlq_db \<Rightarrow> bool" where
  "dlq_inv db \<longleftrightarrow> distinct (map dl_id (dq_rows db)) \<and>
     list_all (\<lambda>r. dl_status r \<in> set ALLOWED_DLQ_STATUS \<and> 0 < dl_attempts r \<and> length (dl_error r) \<le> ERROR_MESSAGE_MAX_LEN) (dq_rows db)"

inductive dlq_step :: "dlq_env \<Rightarrow> dlq_cfg \<Rightarrow> dlq_db \<Rightarrow> dlq_db \<Rightarrow> bool" for e cfg where
  step_store: "store_dead_letter e i t j kw m n ns fp db = Inr (db', i') \<Longrightarrow> dlq_step e cfg db db'"
| step_triage: "triage_dead_letter e cfg now i t j kw exc n ns (db, store) = Inr ((db', store'), r) \<Longrightarrow> dlq_step e cfg db db'"
| step_replay: "replay_dead_letter e i db = Inr (db', r) \<Longrightarrow> dlq_step e cfg db db'"
| step_purge: "purge_dead_letter e i db = Inr db' \<Longrightarrow> dlq_step e cfg db db'"
| step_clock: "0 \<le> t \<Longrightarrow> dlq_step e cfg db (db\<lparr>dq_now := dq_now db + t\<rparr>)"

lemma row_forward_refl [simp]: "row_forward r r"
  by (simp add: row_forward_def)

lemma row_forward_trans: "row_forward a b \<Longrightarrow> row_forward b c \<Longrightarrow> row_forward a c"
  unfolding row_forward_def by (cases a; cases b; cases c) auto

lemma row_forward_intros:
  "dl_status r = ''pending'' \<Longrightarrow> row_forward r (r\<lparr>dl_status := ''replayed'', dl_replayed_at := a\<rparr>)"
  "dl_status r = ''pending'' \<Longrightarrow> row_forward r (r\<lparr>dl_status := ''replayed'', dl_replayed_at := a, dl_quarantined_until := b\<rparr>)"
  "row_forward r (r\<lparr>dl_status := ''purged'', dl_purged_at := a\<rparr>)"
  by (simp_all add: row_forward_def status_rank_def)

lemma row_forward_same:
  "row_forward r r' \<Longrightarrow> dl_id r' = dl_id r \<and> dl_attempts r' = dl_attempts r \<and> dl_error r' = dl_error r \<and> dl_task r' = dl_task r \<and>
     dl_job r' = dl_job r \<and> dl_kwargs r' = dl_kwargs r"
  by (cases r; cases r') (simp add: row_forward_def)

interpretation dead_letters: row_order row_forward
  by unfold_locales (simp, rule row_forward_trans)

lemma update_row_forward: "(\<And>r. P r \<Longrightarrow> row_forward r (f r)) \<Longrightarrow> dlq_forward db (update_row P f db)"
  unfolding update_row_def using dead_letters.table_map [of "dq_rows db"] by auto

lemma update_row_inv:
  assumes "dlq_inv db" and "\<And>r. P r \<Longrightarrow> row_forward r (f r)" and "\<And>r. P r \<Longrightarrow> dl_status (f r) \<in> set ALLOWED_DLQ_STATUS"
  shows "dlq_inv (update_row P f db)"
proof -
  have same: "dl_id (f r) = dl_id r" "dl_attempts (f r) = dl_attempts r" "dl_error (f r) = dl_error r" if "P r" for r
    using row_forward_same [OF assms(2) [OF that]] by auto
  have "map dl_id (dq_rows (update_row P f db)) = map dl_id (dq_rows db)"
    by (auto simp: update_row_def same)
  then have "distinct (map dl_id (dq_rows (update_row P f db)))" using assms(1) by (simp add: dlq_inv_def)
  moreover have "dl_status r' \<in> set ALLOWED_DLQ_STATUS \<and> 0 < dl_attempts r' \<and> length (dl_error r') \<le> ERROR_MESSAGE_MAX_LEN"
    if "r' \<in> set (dq_rows (update_row P f db))" for r'
    using that assms(1,3) by (auto simp: dlq_inv_def update_row_def list_all_iff same split: if_splits)
  ultimately show ?thesis by (simp add: dlq_inv_def list_all_iff)
qed

lemma insert_dead_letter_Inr:
  "insert_dead_letter row db = Inr db' \<longleftrightarrow> dl_id row \<notin> dl_id ` set (dq_rows db) \<and> 0 < dl_attempts row \<and>
     (case dl_ns row of None \<Rightarrow> True | Some u \<Rightarrow> u \<in> set (dq_namespaces db)) \<and> db' = db\<lparr>dq_rows := dq_rows db @ [row]\<rparr>"
  by (auto simp: insert_dead_letter_def split: option.splits)

lemma store_dead_letter_Inr:
  assumes "store_dead_letter e i t j kw m n ns fp db = Inr (db', i')"
  obtains row where "db' = db\<lparr>dq_rows := dq_rows db @ [row]\<rparr>" "i' = i" "dl_id row = i" "i \<notin> dl_id ` set (dq_rows db)"
    "dl_task row = t" "dl_job row = j" "dl_status row = ''pending''" "dl_attempts row = n" "0 < n" "dl_fingerprint row = fp"
    "dl_error row = take ERROR_MESSAGE_MAX_LEN m" "de_jsonb e (sanitize_dlq_kwargs (JDict kw)) = Some (dl_kwargs row)"
proof (cases "de_jsonb e (sanitize_dlq_kwargs (JDict kw))")
  case (Some stored)
  then obtain row where row: "insert_dead_letter row db = Inr db'" and "i' = i" and "dl_id row = i" "dl_task row = t" "dl_job row = j"
    "dl_status row = ''pending''" "dl_attempts row = n" "dl_fingerprint row = fp" "dl_error row = take ERROR_MESSAGE_MAX_LEN m"
    "dl_kwargs row = stored"
    using assms unfolding store_dead_letter_def by (auto simp: and_then_eq_Inr simp del: sanitize_simps)
  with Some that show thesis unfolding insert_dead_letter_Inr by blast
qed (use assms in \<open>auto simp: store_dead_letter_def and_then_eq_Inr\<close>)

lemma store_forward: "store_dead_letter e i t j kw m n ns fp db = Inr (db', i') \<Longrightarrow> dlq_forward db db'"
  by (erule store_dead_letter_Inr) (simp add: dead_letters.table_append)

lemma store_inv: "dlq_inv db \<Longrightarrow> store_dead_letter e i t j kw m n ns fp db = Inr (db', i') \<Longrightarrow> dlq_inv db'"
  by (erule store_dead_letter_Inr) (auto simp: dlq_inv_def ALLOWED_DLQ_STATUS_def)

lemma mark_auto_replay_pending:
  assumes "i \<in> set (map dl_id (filter (\<lambda>r. dl_status r = ''pending'') (dq_rows db)))" and "distinct (map dl_id (dq_rows db))"
  shows "mark_auto_replay i b db = update_row (\<lambda>r. dl_id r = i \<and> dl_status r = ''pending'')
     (\<lambda>r. r\<lparr>dl_status := ''replayed'', dl_replayed_at := Some (dq_now db), dl_quarantined_until := Some (dq_now db + b)\<rparr>) db"
  using assms unfolding mark_auto_replay_def update_row_def
  by (auto simp: distinct_map inj_on_def intro!: arg_cong [where f = "\<lambda>rs. db\<lparr>dq_rows := rs\<rparr>"]) metis

lemma mark_auto_replay_forward:
  assumes "i \<in> set (map dl_id (filter (\<lambda>r. dl_status r = ''pending'') (dq_rows db)))" and "distinct (map dl_id (dq_rows db))"
  shows "dlq_forward db (mark_auto_replay i b db)"
  unfolding mark_auto_replay_pending [OF assms]
  by (auto intro!: update_row_forward row_forward_intros)

lemma mark_auto_replay_inv:
  assumes "dlq_inv db" and "i \<in> set (map dl_id (filter (\<lambda>r. dl_status r = ''pending'') (dq_rows db)))"
  shows "dlq_inv (mark_auto_replay i b db)"
proof -
  have d: "distinct (map dl_id (dq_rows db))" using assms(1) by (simp add: dlq_inv_def)
  show ?thesis unfolding mark_auto_replay_pending [OF assms(2) d]
    by (auto intro!: update_row_inv [OF assms(1)] row_forward_intros simp: ALLOWED_DLQ_STATUS_def)
qed

lemma replay_dead_letter_Inr:
  "replay_dead_letter e i db = Inr (db', row) \<Longrightarrow>
     db' = update_row (\<lambda>r. Some (dl_id r) = de_uuid e i \<and> dl_status r = ''pending'')
             (\<lambda>r. r\<lparr>dl_status := ''replayed'', dl_replayed_at := Some (dq_now db)\<rparr>) db \<and>
     (\<exists>old \<in> set (dq_rows db). Some (dl_id old) = de_uuid e i \<and> dl_status old = ''pending'' \<and>
        row = old\<lparr>dl_status := ''replayed'', dl_replayed_at := Some (dq_now db)\<rparr>)"
  by (auto simp: replay_dead_letter_def find_Some_iff split: option.splits intro: nth_mem)

lemma purge_dead_letter_Inr:
  "purge_dead_letter e i db = Inr db' \<Longrightarrow>
     db' = update_row (\<lambda>r. Some (dl_id r) = de_uuid e i) (\<lambda>r. r\<lparr>dl_status := ''purged'', dl_purged_at := Some (dq_now db)\<rparr>) db"
  by (auto simp: purge_dead_letter_def split: option.splits if_splits)

text \<open>A triage stores the entry and leaves it pending or schedules its replay.\<close>

lemma triage_Inr:
  assumes "triage_dead_letter e cfg now i t j kw exc n ns (db, store) = Inr ((db', store'), r)"
  obtains db1 where "store_dead_letter e i t j kw (take ERROR_MESSAGE_MAX_LEN (tf_class exc @ '': '' @ tf_message exc)) n ns
      (Some (tr_fingerprint r)) db = Inr (db1, i)"
    "tr_dlq_id r = i" "tr_error_class r = classify_error (tf_class exc) (tf_message exc)"
    "if tr_error_class r = ''transient'' then store' = store \<and>
       (if count_replayed_for_fingerprint (tr_fingerprint r) db1 < AUTO_REPLAY_MAX cfg
        then db' = mark_auto_replay i (2 ^ count_replayed_for_fingerprint (tr_fingerprint r) db1) db1 \<and> tr_action r = ''auto_replay_scheduled''
        else db' = db1 \<and> tr_action r = ''manual_review_required'')
     else db' = db1 \<and>
       (if count_fingerprint_entries (tr_fingerprint r) db1 \<ge> CIRCUIT_THRESHOLD cfg
        then store' = open_circuit now (CIRCUIT_TTL_S cfg) t store \<and> tr_action r = ''circuit_opened''
        else store' = store \<and> tr_action r = ''deterministic_pending'')"
proof (cases "store_dead_letter e i t j kw (take ERROR_MESSAGE_MAX_LEN (tf_class exc @ '': '' @ tf_message exc)) n ns
    (Some (compute_error_fingerprint (de_sha e) t (tf_class exc) (tf_traceback exc) [])) db")
  case (Inr p)
  obtain db1 i1 where p: "p = (db1, i1)" by (cases p)
  have "i1 = i" using Inr unfolding p by (rule store_dead_letter_Inr)
  moreover have "tr_fingerprint r = compute_error_fingerprint (de_sha e) t (tf_class exc) (tf_traceback exc) []"
    using assms Inr p by (auto simp: triage_dead_letter_def Let_def simp del: take_append split: if_splits)
  ultimately show thesis
    using assms Inr p
    by (intro that [of db1]) (auto simp: triage_dead_letter_def Let_def simp del: take_append split: if_splits)
qed (use assms in \<open>simp add: triage_dead_letter_def Let_def del: take_append\<close>)

lemma stored_pending:
  "store_dead_letter e i t j kw m n ns fp db = Inr (db1, i') \<Longrightarrow>
     i \<in> set (map dl_id (filter (\<lambda>r. dl_status r = ''pending'') (dq_rows db1)))"
  by (erule store_dead_letter_Inr) auto

lemma step_forward_inv: "dlq_step e cfg db db' \<Longrightarrow> dlq_inv db \<Longrightarrow> dlq_forward db db' \<and> dlq_inv db'"
proof (induction rule: dlq_step.induct)
  case (step_store i t j kw m n ns fp db db' i')
  then show ?case by (auto dest: store_forward store_inv)
next
  case (step_triage now i t j kw exc n ns db store db' store' r)
  from step_triage(1) show ?case
  proof (rule triage_Inr)
    fix db1
    assume st: "store_dead_letter e i t j kw (take ERROR_MESSAGE_MAX_LEN (tf_class exc @ '': '' @ tf_message exc)) n ns
        (Some (tr_fingerprint r)) db = Inr (db1, i)"
      and cases: "if tr_error_class r = ''transient'' then store' = store \<and>
       (if count_replayed_for_fingerprint (tr_fingerprint r) db1 < AUTO_REPLAY_MAX cfg
        then db' = mark_auto_replay i (2 ^ count_replayed_for_fingerprint (tr_fingerprint r) db1) db1 \<and> tr_action r = ''auto_replay_scheduled''
        else db' = db1 \<and> tr_action r = ''manual_review_required'')
     else db' = db1 \<and>
       (if count_fingerprint_entries (tr_fingerprint r) db1 \<ge> CIRCUIT_THRESHOLD cfg
        then store' = open_circuit now (CIRCUIT_TTL_S cfg) t store \<and> tr_action r = ''circuit_opened''
        else store' = store \<and> tr_action r = ''deterministic_pending'')"
    have one: "dlq_forward db db1" "dlq_inv db1" using st step_triage(2) by (auto dest: store_forward store_inv)
    have "dlq_forward db1 (mark_auto_replay i b db1) \<and> dlq_inv (mark_auto_replay i b db1)" for b
      using mark_auto_replay_forward [OF stored_pending [OF st]] mark_auto_replay_inv [OF one(2) stored_pending [OF st]] one(2)
      by (auto simp: dlq_inv_def)
    then show ?thesis using one cases dead_letters.table_trans [of "dq_rows db" "dq_rows db1"] by (auto split: if_splits)
  qed
next
  case (step_replay i db db' r)
  then show ?case
    by (auto dest!: replay_dead_letter_Inr
        intro!: update_row_inv update_row_forward row_forward_intros simp: ALLOWED_DLQ_STATUS_def)
next
  case (step_purge i db db')
  then show ?case
    by (auto dest!: purge_dead_letter_Inr
        intro!: update_row_inv update_row_forward row_forward_intros simp: ALLOWED_DLQ_STATUS_def)
next
  case (step_clock t db)
  then show ?case by (simp add: dlq_inv_def dead_letters.table_refl)
qed

text \<open>The queue from an empty table, under any sequence of its operations.\<close>

abbreviation empty_dlq :: "dlq_db \<Rightarrow> bool" where
  "empty_dlq db \<equiv> dq_rows db = []"

interpretation dlq: invariant_machine empty_dlq "dlq_step e cfg" dlq_inv for e cfg
  by unfold_locales (auto simp: dlq_inv_def dest: step_forward_inv)



definition sample_dlq_env :: dlq_env where
  "sample_dlq_env = \<lparr>de_uuid = Some, de_jsonb = Some, de_sha = id\<rparr>"

definition sample_dlq_cfg :: dlq_cfg where
  "sample_dlq_cfg = \<lparr>AUTO_REPLAY_MAX = 3, CIRCUIT_THRESHOLD = 3, CIRCUIT_TTL_S = 3600, TASK_MAX_RETRIES = 2, TASK_DLQ_REDIS_TTL = 86400\<rparr>"

definition no_dead_letters :: dlq_db where
  "no_dead_letters = \<lparr>dq_rows = [], dq_namespaces = [], dq_now = 7\<rparr>"






section \<open>Triage is bounded\<close>

lemma count_replayed_insert:
  "dl_status row = ''pending'' \<Longrightarrow>
     count_replayed_for_fingerprint fp (db\<lparr>dq_rows := dq_rows db @ [row]\<rparr>) = count_replayed_for_fingerprint fp db"
  by (simp add: count_replayed_for_fingerprint_def)

lemma count_replayed_mark:
  assumes "distinct (map dl_id rows)" and "row \<in> set rows" and "dl_id row = i" and "dl_status row = ''pending''"
  shows "length (filter (\<lambda>r. dl_fingerprint r = Some fp \<and> dl_status r = ''replayed'')
      (map (\<lambda>r. if dl_id r = i then r\<lparr>dl_status := ''replayed'', dl_replayed_at := a, dl_quarantined_until := b\<rparr> else r) rows)) =
    length (filter (\<lambda>r. dl_fingerprint r = Some fp \<and> dl_status r = ''replayed'') rows) + (if dl_fingerprint row = Some fp then 1 else 0)"
  using assms
proof (induction rows)
  case (Cons r rows)
  show ?case
  proof (cases "dl_id r = i")
    case True
    then have "r = row" using Cons.prems by (auto simp: image_iff)
    moreover have "map (\<lambda>r. if dl_id r = i then r\<lparr>dl_status := ''replayed'', dl_replayed_at := a, dl_quarantined_until := b\<rparr> else r) rows = rows"
      using True Cons.prems(1) by (intro map_idI) (auto simp: image_iff)
    ultimately show ?thesis using Cons.prems by simp
  qed (use Cons in auto)
qed simp

lemma count_replayed_auto:
  assumes "distinct (map dl_id (dq_rows db))" and "row \<in> set (dq_rows db)" and "dl_id row = i" and "dl_status row = ''pending''"
  shows "count_replayed_for_fingerprint fp (mark_auto_replay i b db) =
    count_replayed_for_fingerprint fp db + (if dl_fingerprint row = Some fp then 1 else 0)"
  using count_replayed_mark [OF assms]
  by (simp add: count_replayed_for_fingerprint_def mark_auto_replay_def update_row_def)

text \<open>Automatic replays of one kind of failure are bounded: a triage schedules a replay only of a transient failure
  and only while fewer than the configured number of entries with its fingerprint have been replayed, so the number
  never rises above the limit by itself, and other fingerprints' numbers stay; a deterministic failure is never
  replayed, and opens the circuit of its task exactly when enough such entries are pending.\<close>

theorem triage_bounded:
  assumes "triage_dead_letter e cfg now i t j kw exc n ns (db, store) = Inr ((db', store'), r)" and "dlq_inv db" and "0 < CIRCUIT_TTL_S cfg"
  shows "count_replayed_for_fingerprint fp db' =
      count_replayed_for_fingerprint fp db + (if fp = tr_fingerprint r \<and> tr_action r = ''auto_replay_scheduled'' then 1 else 0) \<and>
    (tr_action r = ''auto_replay_scheduled'' \<longleftrightarrow> classify_error (tf_class exc) (tf_message exc) = ''transient'' \<and>
       count_replayed_for_fingerprint (tr_fingerprint r) db < AUTO_REPLAY_MAX cfg) \<and>
    (tr_action r = ''circuit_opened'' \<longleftrightarrow> classify_error (tf_class exc) (tf_message exc) \<noteq> ''transient'' \<and>
       CIRCUIT_THRESHOLD cfg \<le> Suc (count_fingerprint_entries (tr_fingerprint r) db)) \<and>
    (tr_action r = ''circuit_opened'' \<longrightarrow> \<not> check_circuit_before_enqueue now t store')"
  using assms(1)
proof (rule triage_Inr)
  fix db1
  assume st: "store_dead_letter e i t j kw (take ERROR_MESSAGE_MAX_LEN (tf_class exc @ '': '' @ tf_message exc)) n ns
      (Some (tr_fingerprint r)) db = Inr (db1, i)"
    and cls: "tr_error_class r = classify_error (tf_class exc) (tf_message exc)"
    and cases: "if tr_error_class r = ''transient'' then store' = store \<and>
       (if count_replayed_for_fingerprint (tr_fingerprint r) db1 < AUTO_REPLAY_MAX cfg
        then db' = mark_auto_replay i (2 ^ count_replayed_for_fingerprint (tr_fingerprint r) db1) db1 \<and> tr_action r = ''auto_replay_scheduled''
        else db' = db1 \<and> tr_action r = ''manual_review_required'')
     else db' = db1 \<and>
       (if count_fingerprint_entries (tr_fingerprint r) db1 \<ge> CIRCUIT_THRESHOLD cfg
        then store' = open_circuit now (CIRCUIT_TTL_S cfg) t store \<and> tr_action r = ''circuit_opened''
        else store' = store \<and> tr_action r = ''deterministic_pending'')"
  from st obtain row where row: "db1 = db\<lparr>dq_rows := dq_rows db @ [row]\<rparr>" "dl_id row = i" "i \<notin> dl_id ` set (dq_rows db)"
    "dl_status row = ''pending''" "dl_fingerprint row = Some (tr_fingerprint r)"
    by (rule store_dead_letter_Inr)
  have same: "count_replayed_for_fingerprint f db1 = count_replayed_for_fingerprint f db" for f
    using row(4) by (simp add: row(1) count_replayed_insert)
  have "distinct (map dl_id (dq_rows db1))" using assms(2) row by (auto simp: dlq_inv_def)
  moreover have "row \<in> set (dq_rows db1)" by (simp add: row(1))
  ultimately have marked: "count_replayed_for_fingerprint f (mark_auto_replay i b db1) =
      count_replayed_for_fingerprint f db + (if f = tr_fingerprint r then 1 else 0)" for f b
    using count_replayed_auto [of db1 row i f b] row(2,4,5) same [of f] by auto
  have pending: "count_fingerprint_entries (tr_fingerprint r) db1 = Suc (count_fingerprint_entries (tr_fingerprint r) db)"
    using row by (simp add: count_fingerprint_entries_def)
  have circuit: "\<not> check_circuit_before_enqueue now t (open_circuit now (CIRCUIT_TTL_S cfg) t store)"
    using assms(3) by (simp add: check_circuit_before_enqueue_def is_circuit_open_def open_circuit_def live_value_def)
  show ?thesis
  proof (cases "tr_error_class r = ''transient''")
    case True
    then show ?thesis
      using cases cls by (cases "count_replayed_for_fingerprint (tr_fingerprint r) db1 < AUTO_REPLAY_MAX cfg") (simp_all add: same marked)
  next
    case False
    then show ?thesis
      using cases cls circuit
      by (cases "count_fingerprint_entries (tr_fingerprint r) db1 \<ge> CIRCUIT_THRESHOLD cfg") (simp_all add: same pending)
  qed
qed

definition sample_timeout :: task_failure where
  "sample_timeout = \<lparr>tf_class = ''ReadTimeout'', tf_message = ''slow'', tf_traceback = []\<rparr>"

definition sample_triaged :: "(dlq_db \<times> redis_store) \<times> triage_result" where
  "sample_triaged = projr (triage_dead_letter sample_dlq_env sample_dlq_cfg 0 ''d2'' ''sync'' ''j2'' [] sample_timeout 6 None (no_dead_letters, Map.empty))"

lemma classify_sample_timeout: "classify_error (tf_class sample_timeout) (tf_message sample_timeout) = ''transient''"
  by code_simp

lemma sample_triage:
  "triage_dead_letter sample_dlq_env sample_dlq_cfg 0 ''d2'' ''sync'' ''j2'' [] sample_timeout 6 None (no_dead_letters, Map.empty) =
     Inr ((fst (fst sample_triaged), snd (fst sample_triaged)), snd sample_triaged)"
  by (simp add: sample_triaged_def triage_dead_letter_def Let_def classify_sample_timeout store_dead_letter_def insert_dead_letter_def
      dlq_namespace_def dict_getd_def sample_dlq_env_def no_dead_letters_def)

theorem triage_bounded_witness:
  "tr_action (snd sample_triaged) = ''auto_replay_scheduled'' \<and>
   count_replayed_for_fingerprint (tr_fingerprint (snd sample_triaged)) (fst (fst sample_triaged)) = 1"
  using triage_bounded [OF sample_triage, of "tr_fingerprint (snd sample_triaged)"]
  by (simp add: classify_sample_timeout sample_dlq_cfg_def dlq_inv_def count_replayed_for_fingerprint_def no_dead_letters_def)

section \<open>A failing job is dead-lettered\<close>

text \<open>The attempts counted so far, as the next run sees them.\<close>

definition attempts_so_far :: "real \<Rightarrow> string \<Rightarrow> counters \<Rightarrow> int" where
  "attempts_so_far now key cs = (case live_count now cs key of None \<Rightarrow> 0 | Some (n, _) \<Rightarrow> n)"

definition fails_cleanly :: "bridge_run \<Rightarrow> bool" where
  "fails_cleanly run \<longleftrightarrow> br_track_fault run = NoFault \<and> (case br_outcome run of TaskRaises _ \<Rightarrow> True | _ \<Rightarrow> False)"

text \<open>What the last run writes: the entry, or nothing when it cannot be stored.\<close>

definition buried :: "dlq_env \<Rightarrow> dlq_cfg \<Rightarrow> string \<Rightarrow> string \<Rightarrow> (string, json) dict \<Rightarrow> bridge_run \<Rightarrow> 'z dlq_db_scheme \<Rightarrow> 'z dlq_db_scheme" where
  "buried e cfg job prov payload run db =
     (case store_dead_letter e (br_new_id run) ''process_bridge_event'' job [(''provider'', JStr prov), (''payload'', JDict payload)]
        (take 1024 (case br_outcome run of TaskRaises m \<Rightarrow> m | _ \<Rightarrow> [])) (TASK_MAX_RETRIES cfg + 1) None None db of
        Inl _ \<Rightarrow> db | Inr (db', _) \<Rightarrow> db')"

lemma bridge_fails:
  assumes "attempt_key job = Inr key" and "fails_cleanly run" and "0 < TASK_MAX_RETRIES cfg"
    and "n = attempts_so_far (br_now run) key cs" and "n \<le> TASK_MAX_RETRIES cfg"
    and "process_bridge_event e cfg job prov payload run (db, cs) = (r, db', cs')"
  shows "r = (if n < TASK_MAX_RETRIES cfg then Reraised else DeadLettered job) \<and>
    cs' = cs(key \<mapsto> (n + 1, Some (br_now run + of_int (TASK_DLQ_REDIS_TTL cfg)))) \<and>
    db' = (if n < TASK_MAX_RETRIES cfg then db else buried e cfg job prov payload run db)"
proof -
  obtain m where m: "br_outcome run = TaskRaises m" using assms(2) by (auto simp: fails_cleanly_def split: task_outcome.splits)
  have "track_attempt (br_now run) (br_track_fault run) (TASK_DLQ_REDIS_TTL cfg) job cs =
      (Inr (n + 1), cs(key \<mapsto> (n + 1, Some (br_now run + of_int (TASK_DLQ_REDIS_TTL cfg)))))"
    using assms(1,2,4) by (auto simp: track_attempt_def fails_cleanly_def attempts_so_far_def Let_def split: option.splits)
  then show ?thesis
    using assms(3,5,6) m
    by (cases "n < TASK_MAX_RETRIES cfg")
      (auto simp: process_bridge_event_def bridge_failed_def check_poison_pill_def buried_def split: sum.splits prod.splits)
qed

lemma run_job_gives_up:
  assumes "attempt_key job = Inr key" and "0 < TASK_MAX_RETRIES cfg" and "list_all fails_cleanly runs"
    and "successively (\<lambda>a b. br_now b < br_now a + of_int (TASK_DLQ_REDIS_TTL cfg)) runs"
    and "runs \<noteq> [] \<longrightarrow> attempts_so_far (br_now (hd runs)) key cs = TASK_MAX_RETRIES cfg - int k" and "k < length runs"
  shows "fst (run_job e cfg job prov payload runs (db, cs)) = replicate k Reraised @ [DeadLettered job] \<and>
    fst (snd (run_job e cfg job prov payload runs (db, cs))) = buried e cfg job prov payload (runs ! k) db"
  using assms(3-)
proof (induction runs arbitrary: k cs)
  case (Cons run runs)
  obtain r db' cs' where p: "process_bridge_event e cfg job prov payload run (db, cs) = (r, db', cs')"
    by (metis prod_cases3)
  note one = bridge_fails [OF assms(1) _ assms(2) refl _ p]
  show ?case
  proof (cases k)
    case 0
    with Cons.prems one p show ?thesis by simp
  next
    case (Suc m)
    then have r: "r = Reraised" "cs' = cs(key \<mapsto> (TASK_MAX_RETRIES cfg - int m, Some (br_now run + of_int (TASK_DLQ_REDIS_TTL cfg))))" "db' = db"
      using Cons.prems one by auto
    have "runs \<noteq> []" using Suc Cons.prems by auto
    then have "br_now (hd runs) < br_now run + of_int (TASK_DLQ_REDIS_TTL cfg)"
      "successively (\<lambda>a b. br_now b < br_now a + of_int (TASK_DLQ_REDIS_TTL cfg)) runs"
      using Cons.prems by (auto simp: successively_Cons)
    then have "fst (run_job e cfg job prov payload runs (db, cs')) = replicate m Reraised @ [DeadLettered job] \<and>
        fst (snd (run_job e cfg job prov payload runs (db, cs'))) = buried e cfg job prov payload (runs ! m) db"
      using Cons.prems Suc r by (intro Cons.IH) (auto simp: attempts_so_far_def live_count_def)
    then show ?thesis using p r Suc by (auto split: prod.splits)
  qed
qed simp

text \<open>A job that keeps failing is given up: with a retry budget, a counter that starts empty and no two runs further
  apart than the counter lives, the queue runs it exactly one time more than the budget, every run but the last raising
  so that the queue tries again, and the last one writes the entry for the job (when the database takes it) and ends.
  The entry's arguments are sanitised and its attempts are the runs made.\<close>

theorem job_dead_lettered:
  assumes "attempt_key job = Inr key" and "0 < TASK_MAX_RETRIES cfg" and "list_all fails_cleanly runs"
    and "successively (\<lambda>a b. br_now b < br_now a + of_int (TASK_DLQ_REDIS_TTL cfg)) runs"
    and "cs key = None" and "TASK_MAX_RETRIES cfg < int (length runs)"
    and "run_job e cfg job prov payload runs (db, cs) = (rs, db', cs')"
  shows "rs = replicate (nat (TASK_MAX_RETRIES cfg)) Reraised @ [DeadLettered job] \<and>
    db' = buried e cfg job prov payload (runs ! nat (TASK_MAX_RETRIES cfg)) db \<and>
    (dq_rows db' = dq_rows db \<or>
     (\<exists>row. dq_rows db' = dq_rows db @ [row] \<and> dl_job row = job \<and> dl_status row = ''pending'' \<and>
        dl_attempts row = TASK_MAX_RETRIES cfg + 1 \<and>
        de_jsonb e (sanitize_dlq_kwargs (JDict [(''provider'', JStr prov), (''payload'', JDict payload)])) = Some (dl_kwargs row)))"
proof -
  have "runs \<noteq> [] \<longrightarrow> attempts_so_far (br_now (hd runs)) key cs = TASK_MAX_RETRIES cfg - int (nat (TASK_MAX_RETRIES cfg))"
    using assms(2,5) by (simp add: attempts_so_far_def live_count_def)
  then have run: "rs = replicate (nat (TASK_MAX_RETRIES cfg)) Reraised @ [DeadLettered job]"
      "db' = buried e cfg job prov payload (runs ! nat (TASK_MAX_RETRIES cfg)) db"
    using run_job_gives_up [OF assms(1-4), of cs "nat (TASK_MAX_RETRIES cfg)" e prov payload db] assms(2,6,7) by auto
  show ?thesis
  proof (cases "dq_rows db' = dq_rows db")
    case False
    then obtain p where "store_dead_letter e (br_new_id (runs ! nat (TASK_MAX_RETRIES cfg))) ''process_bridge_event'' job
        [(''provider'', JStr prov), (''payload'', JDict payload)]
        (take 1024 (case br_outcome (runs ! nat (TASK_MAX_RETRIES cfg)) of TaskRaises m \<Rightarrow> m | _ \<Rightarrow> [])) (TASK_MAX_RETRIES cfg + 1) None None db =
        Inr (db', p)"
      unfolding run(2) buried_def by (auto split: sum.splits)
    then show ?thesis by (rule store_dead_letter_Inr) (use run in auto)
  qed (use run in simp)
qed

definition sample_bridge_runs :: "bridge_run list" where
  "sample_bridge_runs = map (\<lambda>t. \<lparr>br_now = t, br_outcome = TaskRaises ''TimeoutError: x'', br_clear_fault = NoFault,
     br_track_fault = NoFault, br_new_id = ''d9''\<rparr>) [0, 10, 20, 30]"

theorem job_dead_lettered_witness:
  "fst (run_job sample_dlq_env sample_dlq_cfg ''j9'' ''gdrive'' [] sample_bridge_runs (no_dead_letters, Map.empty)) =
     [Reraised, Reraised, DeadLettered ''j9''] \<and>
   map dl_attempts (dq_rows (fst (snd (run_job sample_dlq_env sample_dlq_cfg ''j9'' ''gdrive'' [] sample_bridge_runs (no_dead_letters, Map.empty))))) = [3]"
proof -
  have key: "attempt_key ''j9'' = Inr ''task_attempts:j9''" by code_simp
  let ?r = "run_job sample_dlq_env sample_dlq_cfg ''j9'' ''gdrive'' [] sample_bridge_runs (no_dead_letters, Map.empty)"
  have "?r = (fst ?r, fst (snd ?r), snd (snd ?r))" by simp
  note run = job_dead_lettered [OF key _ _ _ _ _ this]
  have "list_all fails_cleanly sample_bridge_runs" by (simp add: sample_bridge_runs_def fails_cleanly_def)
  moreover have "fst (snd ?r) = buried sample_dlq_env sample_dlq_cfg ''j9'' ''gdrive'' [] (sample_bridge_runs ! 2) no_dead_letters"
    using run by (simp add: sample_bridge_runs_def fails_cleanly_def sample_dlq_cfg_def)
  moreover have "fst ?r = [Reraised, Reraised, DeadLettered ''j9'']"
    using run by (simp add: sample_bridge_runs_def fails_cleanly_def sample_dlq_cfg_def numeral_2_eq_2)
  ultimately show ?thesis
    by (simp add: buried_def store_dead_letter_def insert_dead_letter_def dlq_namespace_def dict_getd_def sample_dlq_env_def
        no_dead_letters_def sample_dlq_cfg_def)
qed

end
