(* ===== verification/EventCatalogue.thy ===== *)
theory EventCatalogue
  imports Prelude
begin

text \<open>
  The catalogue of event contracts (\<^verbatim>\<open>src/nce/events/catalogue.py\<close>): which modules produce and consume the events
  of each selector. The shipped table is translated entry by entry, without its explanatory texts. The relay asks it
  what to do with an event that nobody subscribed to.
\<close>

section \<open>Contracts\<close>

record EventContract =
  ec_selector :: string
  ec_node_type :: string
  ec_op :: string
  declared_producers :: "string list"
  declared_consumers :: "string list"
  ec_status :: string

definition contract ::
  "string \<Rightarrow> string \<Rightarrow> string \<Rightarrow> string list \<Rightarrow> string list \<Rightarrow> string \<Rightarrow> EventContract" where
  "contract sel node_type op producers consumers status =
     \<lparr>ec_selector = sel, ec_node_type = node_type, ec_op = op, declared_producers = producers,
      declared_consumers = consumers, ec_status = status\<rparr>"

section \<open>The shipped catalogue\<close>

definition catalogue_part1 :: "(string \<times> EventContract) list" where
  "catalogue_part1 = [
     (''PO_LINE.status_changed'', contract ''PO_LINE.status_changed'' ''PO_LINE'' ''status_changed''
        [''nce/vertical_modules/procurement/po_line.py'']
        [''nce/vertical_modules/project/automation.py'', ''nce/vertical_modules/notifications/subscribers.py''] ''ACTIVE''),
     (''GOODS_RECEIPT.created'', contract ''GOODS_RECEIPT.created'' ''GOODS_RECEIPT'' ''created''
        [''nce/vertical_modules/inventory/goods_receipt.py'']
        [''nce/vertical_modules/project/automation.py''] ''ACTIVE''),
     (''TICKET.dispatched'', contract ''TICKET.dispatched'' ''TICKET'' ''dispatched''
        [''nce/vertical_modules/support/dispatch.py'']
        [''nce/vertical_modules/field_tech/work_orders.py''] ''ACTIVE''),
     (''BOM_LINE.status_changed'', contract ''BOM_LINE.status_changed'' ''BOM_LINE'' ''status_changed''
        []
        [''nce/vertical_modules/project/tasks.py''] ''UNPRODUCED''),
     (''CERTIFICATION.CREATED'', contract ''CERTIFICATION.CREATED'' ''CERTIFICATION'' ''CREATED''
        []
        [''nce/vertical_modules/resources/watcher.py''] ''UNPRODUCED''),
     (''CERTIFICATION.UPDATED'', contract ''CERTIFICATION.UPDATED'' ''CERTIFICATION'' ''UPDATED''
        []
        [''nce/vertical_modules/resources/watcher.py''] ''UNPRODUCED''),
     (''CERTIFICATION.EXPIRED'', contract ''CERTIFICATION.EXPIRED'' ''CERTIFICATION'' ''EXPIRED''
        [''nce/vertical_modules/hr/certs.py'', ''nce/vertical_modules/vendors/certs.py'']
        [''nce/vertical_modules/resources/watcher.py'', ''nce/vertical_modules/notifications/subscribers.py''] ''ACTIVE''),
     (''cert.expiry'', contract ''cert.expiry'' ''cert'' ''expiry''
        []
        [] ''DEPRECATED''),
     (''DESIGN.upserted'', contract ''DESIGN.upserted'' ''DESIGN'' ''upserted''
        [''nce/vertical_modules/system_design/graph.py'', ''nce/vertical_modules/system_design/from_quote.py'']
        [''nce/vertical_modules/system_design/subscribers.py''] ''ACTIVE''),
     (''DESIGN_LINE.upserted'', contract ''DESIGN_LINE.upserted'' ''DESIGN_LINE'' ''upserted''
        [''nce/vertical_modules/system_design/graph.py'']
        [''nce/vertical_modules/system_design/subscribers.py''] ''ACTIVE''),
     (''FUNCTIONAL_LOCATION.upserted'', contract ''FUNCTIONAL_LOCATION.upserted'' ''FUNCTIONAL_LOCATION'' ''upserted''
        [''nce/vertical_modules/system_design/graph.py'']
        [''nce/vertical_modules/system_design/subscribers.py''] ''ACTIVE''),
     (''DEVICE.upserted'', contract ''DEVICE.upserted'' ''DEVICE'' ''upserted''
        [''nce/vertical_modules/system_design/devices.py'']
        [''nce/vertical_modules/system_design/subscribers.py''] ''ACTIVE'')]"

definition catalogue_part2 :: "(string \<times> EventContract) list" where
  "catalogue_part2 = [
     (''PORT.upserted'', contract ''PORT.upserted'' ''PORT'' ''upserted''
        [''nce/vertical_modules/system_design/devices.py'']
        [''nce/vertical_modules/system_design/subscribers.py''] ''ACTIVE''),
     (''RACK.upserted'', contract ''RACK.upserted'' ''RACK'' ''upserted''
        [''nce/vertical_modules/system_design/devices.py'']
        [''nce/vertical_modules/system_design/subscribers.py''] ''ACTIVE''),
     (''CABLE.upserted'', contract ''CABLE.upserted'' ''CABLE'' ''upserted''
        [''nce/vertical_modules/system_design/devices.py'']
        [''nce/vertical_modules/system_design/subscribers.py''] ''ACTIVE''),
     (''BOM_LINE.upserted'', contract ''BOM_LINE.upserted'' ''BOM_LINE'' ''upserted''
        [''nce/bom_lines.py'']
        [''nce/read_model_subscribers.py''] ''ACTIVE''),
     (''AGREEMENT.upserted'', contract ''AGREEMENT.upserted'' ''AGREEMENT'' ''upserted''
        [''nce/vertical_modules/agreements/graph.py'']
        [] ''UNCONSUMED''),
     (''AGREEMENT_TERM.upserted'', contract ''AGREEMENT_TERM.upserted'' ''AGREEMENT_TERM'' ''upserted''
        [''nce/vertical_modules/agreements/graph.py'']
        [] ''UNCONSUMED''),
     (''AGREEMENT_SIGNATURE.upserted'', contract ''AGREEMENT_SIGNATURE.upserted'' ''AGREEMENT_SIGNATURE'' ''upserted''
        [''nce/vertical_modules/agreements/signing.py'']
        [] ''UNCONSUMED''),
     (''ASSET.upserted'', contract ''ASSET.upserted'' ''ASSET'' ''upserted''
        [''nce/vertical_modules/assets/graph.py'']
        [''nce/read_model_subscribers.py''] ''ACTIVE''),
     (''DYNAMICS_ENTITY.upserted'', contract ''DYNAMICS_ENTITY.upserted'' ''DYNAMICS_ENTITY'' ''upserted''
        [''nce/vertical_modules/dynamics365/sync.py'']
        [] ''UNCONSUMED''),
     (''ACCOUNT.upserted'', contract ''ACCOUNT.upserted'' ''ACCOUNT'' ''upserted''
        [''nce/vertical_modules/economy/graph.py'']
        [] ''UNCONSUMED''),
     (''GOODS_RECEIPT.upserted'', contract ''GOODS_RECEIPT.upserted'' ''GOODS_RECEIPT'' ''upserted''
        [''nce/vertical_modules/inventory/goods_receipt.py'']
        [] ''UNCONSUMED''),
     (''INVENTORY_RMA.upserted'', contract ''INVENTORY_RMA.upserted'' ''INVENTORY_RMA'' ''upserted''
        [''nce/vertical_modules/inventory/rma.py'']
        [] ''UNCONSUMED''),
     (''INVENTORY_ITEM.upserted'', contract ''INVENTORY_ITEM.upserted'' ''INVENTORY_ITEM'' ''upserted''
        [''nce/vertical_modules/inventory/stock.py'']
        [] ''UNCONSUMED''),
     (''PO.upserted'', contract ''PO.upserted'' ''PO'' ''upserted''
        [''nce/vertical_modules/procurement/graph.py'']
        [] ''UNCONSUMED''),
     (''PROCUREMENT_MATCH.upserted'', contract ''PROCUREMENT_MATCH.upserted'' ''PROCUREMENT_MATCH'' ''upserted''
        [''nce/vertical_modules/procurement/graph.py'']
        [] ''UNCONSUMED''),
     (''PURCHASE_ORDER.upserted'', contract ''PURCHASE_ORDER.upserted'' ''PURCHASE_ORDER'' ''upserted''
        [''nce/vertical_modules/procurement/graph.py'']
        [] ''UNCONSUMED'')]"

definition catalogue_part3 :: "(string \<times> EventContract) list" where
  "catalogue_part3 = [
     (''PO_LINE.upserted'', contract ''PO_LINE.upserted'' ''PO_LINE'' ''upserted''
        [''nce/vertical_modules/procurement/graph.py'']
        [] ''UNCONSUMED''),
     (''PRODUCT_SKU.upserted'', contract ''PRODUCT_SKU.upserted'' ''PRODUCT_SKU'' ''upserted''
        [''nce/vertical_modules/product/graph.py'']
        [''nce/read_model_subscribers.py''] ''ACTIVE''),
     (''PRODUCT.upserted'', contract ''PRODUCT.upserted'' ''PRODUCT'' ''upserted''
        [''nce/vertical_modules/product/graph.py'']
        [] ''UNCONSUMED''),
     (''PROJECT_PROJECT.upserted'', contract ''PROJECT_PROJECT.upserted'' ''PROJECT_PROJECT'' ''upserted''
        [''nce/vertical_modules/project/convert.py'']
        [] ''UNCONSUMED''),
     (''PROJECT_GATE.upserted'', contract ''PROJECT_GATE.upserted'' ''PROJECT_GATE'' ''upserted''
        [''nce/vertical_modules/project/advance.py'', ''nce/vertical_modules/project/convert.py'']
        [] ''UNCONSUMED''),
     (''PROJECT_TASK.upserted'', contract ''PROJECT_TASK.upserted'' ''PROJECT_TASK'' ''upserted''
        [''nce/vertical_modules/project/convert.py'']
        [] ''UNCONSUMED''),
     (''PROJECT_CASE_STUDY.upserted'', contract ''PROJECT_CASE_STUDY.upserted'' ''PROJECT_CASE_STUDY'' ''upserted''
        [''nce/vertical_modules/project/case_study.py'']
        [] ''UNCONSUMED''),
     (''PROJECT.upserted'', contract ''PROJECT.upserted'' ''PROJECT'' ''upserted''
        [''nce/vertical_modules/project/convert.py'']
        [] ''UNCONSUMED''),
     (''GATE.upserted'', contract ''GATE.upserted'' ''GATE'' ''upserted''
        [''nce/vertical_modules/project/advance.py'', ''nce/vertical_modules/project/convert.py'']
        [] ''UNCONSUMED''),
     (''TASK.upserted'', contract ''TASK.upserted'' ''TASK'' ''upserted''
        [''nce/vertical_modules/project/convert.py'']
        [] ''UNCONSUMED''),
     (''CASE_STUDY.upserted'', contract ''CASE_STUDY.upserted'' ''CASE_STUDY'' ''upserted''
        [''nce/vertical_modules/project/case_study.py'']
        [] ''UNCONSUMED''),
     (''QUOTE.upserted'', contract ''QUOTE.upserted'' ''QUOTE'' ''upserted''
        [''nce/vertical_modules/sales/graph.py'']
        [''nce/read_model_subscribers.py''] ''ACTIVE''),
     (''QUOTE.edge_realized_as'', contract ''QUOTE.edge_realized_as'' ''QUOTE'' ''edge_realized_as''
        [''nce/vertical_modules/system_design/from_quote.py'']
        [] ''UNCONSUMED''),
     (''CERT.upserted'', contract ''CERT.upserted'' ''CERT'' ''upserted''
        [''nce/vertical_modules/vendors/certs.py'']
        [] ''UNCONSUMED''),
     (''CONTRACTOR.upserted'', contract ''CONTRACTOR.upserted'' ''CONTRACTOR'' ''upserted''
        [''nce/vertical_modules/vendors/contractors.py'']
        [] ''UNCONSUMED'')]"

definition catalogue_part4 :: "(string \<times> EventContract) list" where
  "catalogue_part4 = [
     (''VENDOR.upserted'', contract ''VENDOR.upserted'' ''VENDOR'' ''upserted''
        [''nce/vertical_modules/vendors/registry.py'']
        [] ''UNCONSUMED''),
     (''TICKET.sla_breached'', contract ''TICKET.sla_breached'' ''TICKET'' ''sla_breached''
        [''nce/vertical_modules/support/sla.py'']
        [''nce/vertical_modules/notifications/subscribers.py''] ''ACTIVE''),
     (''ABSENCE.compliance_alert'', contract ''ABSENCE.compliance_alert'' ''ABSENCE'' ''compliance_alert''
        [''nce/vertical_modules/hr/compliance.py'']
        [''nce/vertical_modules/hr/compliance.py''] ''ACTIVE''),
     (''DEVICE.retired'', contract ''DEVICE.retired'' ''DEVICE'' ''retired''
        [''nce/vertical_modules/system_design/retire.py'']
        [] ''UNCONSUMED''),
     (''PORT.retired'', contract ''PORT.retired'' ''PORT'' ''retired''
        [''nce/vertical_modules/system_design/retire.py'']
        [] ''UNCONSUMED''),
     (''CABLE.retired'', contract ''CABLE.retired'' ''CABLE'' ''retired''
        [''nce/vertical_modules/system_design/retire.py'']
        [] ''UNCONSUMED''),
     (''RACK.retired'', contract ''RACK.retired'' ''RACK'' ''retired''
        [''nce/vertical_modules/system_design/retire.py'']
        [] ''UNCONSUMED''),
     (''FUNCTIONAL_LOCATION.retired'', contract ''FUNCTIONAL_LOCATION.retired'' ''FUNCTIONAL_LOCATION'' ''retired''
        [''nce/vertical_modules/system_design/retire.py'']
        [] ''UNCONSUMED''),
     (''DESIGN.retired'', contract ''DESIGN.retired'' ''DESIGN'' ''retired''
        [''nce/vertical_modules/system_design/retire.py'']
        [] ''UNCONSUMED''),
     (''DESIGN.updated'', contract ''DESIGN.updated'' ''DESIGN'' ''updated''
        [''nce/vertical_modules/system_design/design_versions.py'']
        [] ''UNCONSUMED''),
     (''DESIGN_REQUEST.created'', contract ''DESIGN_REQUEST.created'' ''DESIGN_REQUEST'' ''created''
        [''nce/vertical_modules/system_design/design_requests.py'']
        [] ''UNCONSUMED''),
     (''DESIGN_REQUEST.updated'', contract ''DESIGN_REQUEST.updated'' ''DESIGN_REQUEST'' ''updated''
        [''nce/vertical_modules/system_design/design_requests.py'']
        [] ''UNCONSUMED''),
     (''DESIGN_REQUEST.completed'', contract ''DESIGN_REQUEST.completed'' ''DESIGN_REQUEST'' ''completed''
        [''nce/vertical_modules/system_design/design_requests.py'']
        [] ''UNCONSUMED''),
     (''DESIGN_LINE.retired'', contract ''DESIGN_LINE.retired'' ''DESIGN_LINE'' ''retired''
        [''nce/vertical_modules/system_design/retire.py'']
        [] ''UNCONSUMED''),
     (''PORT.deleted'', contract ''PORT.deleted'' ''PORT'' ''deleted''
        [''nce/vertical_modules/system_design/retire.py'']
        [] ''UNCONSUMED''),
     (''CABLE.deleted'', contract ''CABLE.deleted'' ''CABLE'' ''deleted''
        [''nce/vertical_modules/system_design/retire.py'']
        [] ''UNCONSUMED'')]"

definition catalogue_part5 :: "(string \<times> EventContract) list" where
  "catalogue_part5 = [
     (''D365_Account.upserted'', contract ''D365_Account.upserted'' ''D365_Account'' ''upserted''
        [''nce/vertical_modules/dynamics365/sync.py'']
        [] ''UNCONSUMED''),
     (''D365_KnowledgeArticle.upserted'', contract ''D365_KnowledgeArticle.upserted'' ''D365_KnowledgeArticle'' ''upserted''
        [''nce/vertical_modules/dynamics365/sync.py'']
        [] ''UNCONSUMED''),
     (''INVOICE.upserted'', contract ''INVOICE.upserted'' ''INVOICE'' ''upserted''
        [''nce/vertical_modules/economy/graph.py'']
        [''nce/read_model_subscribers.py''] ''ACTIVE''),
     (''POSTING.upserted'', contract ''POSTING.upserted'' ''POSTING'' ''upserted''
        [''nce/vertical_modules/economy/graph.py'']
        [] ''UNCONSUMED''),
     (''PERIOD.upserted'', contract ''PERIOD.upserted'' ''PERIOD'' ''upserted''
        [''nce/vertical_modules/economy/graph.py'']
        [] ''UNCONSUMED''),
     (''MARGIN.upserted'', contract ''MARGIN.upserted'' ''MARGIN'' ''upserted''
        [''nce/vertical_modules/economy/graph.py'']
        [] ''UNCONSUMED''),
     (''STOCK_LOCATION.upserted'', contract ''STOCK_LOCATION.upserted'' ''STOCK_LOCATION'' ''upserted''
        [''nce/vertical_modules/inventory/stock.py'']
        [] ''UNCONSUMED''),
     (''CUSTOMER.upserted'', contract ''CUSTOMER.upserted'' ''CUSTOMER'' ''upserted''
        [''nce/vertical_modules/sales/graph.py'']
        [] ''UNCONSUMED''),
     (''DEAL.upserted'', contract ''DEAL.upserted'' ''DEAL'' ''upserted''
        [''nce/vertical_modules/sales/graph.py'']
        [] ''UNCONSUMED''),
     (''LEAD.upserted'', contract ''LEAD.upserted'' ''LEAD'' ''upserted''
        [''nce/vertical_modules/sales/graph.py'']
        [] ''UNCONSUMED''),
     (''OPPORTUNITY.upserted'', contract ''OPPORTUNITY.upserted'' ''OPPORTUNITY'' ''upserted''
        [''nce/vertical_modules/sales/graph.py'']
        [] ''UNCONSUMED''),
     (''DEVICE.deleted'', contract ''DEVICE.deleted'' ''DEVICE'' ''deleted''
        [''nce/vertical_modules/system_design/retire.py'']
        [] ''UNCONSUMED''),
     (''RACK.deleted'', contract ''RACK.deleted'' ''RACK'' ''deleted''
        [''nce/vertical_modules/system_design/retire.py'']
        [] ''UNCONSUMED''),
     (''signing_key_rotated'', contract ''signing_key_rotated'' ''signing_key'' ''rotated''
        [''nce/admin_mcp_handlers.py'']
        [] ''UNCONSUMED''),
     (''REMINDER.fired'', contract ''REMINDER.fired'' ''REMINDER'' ''fired''
        [''nce/vertical_modules/notifications/reminders.py'']
        [''nce/vertical_modules/notifications/subscribers.py''] ''ACTIVE''),
     (''AGREEMENT.renewal_due'', contract ''AGREEMENT.renewal_due'' ''AGREEMENT'' ''renewal_due''
        [''nce/cron.py'']
        [''nce/vertical_modules/notifications/subscribers.py''] ''ACTIVE'')]"

definition catalogue_part6 :: "(string \<times> EventContract) list" where
  "catalogue_part6 = [
     (''DEAL.stalled'', contract ''DEAL.stalled'' ''DEAL'' ''stalled''
        [''nce/cron.py'']
        [''nce/vertical_modules/notifications/subscribers.py''] ''ACTIVE''),
     (''ASSET.health_changed'', contract ''ASSET.health_changed'' ''ASSET'' ''health_changed''
        []
        [''nce/vertical_modules/notifications/subscribers.py''] ''UNPRODUCED'')]"
definition EVENT_CATALOGUE :: "(string, EventContract) dict" where
  "EVENT_CATALOGUE = catalogue_part1 @ catalogue_part2 @ catalogue_part3 @ catalogue_part4 @ catalogue_part5 @ catalogue_part6"

definition get_contract :: "string \<Rightarrow> EventContract option" where
  "get_contract sel = dict_get EVENT_CATALOGUE sel"

definition get_unproduced_selectors :: "(string, EventContract) dict" where
  "get_unproduced_selectors = filter (\<lambda>(s, c). ec_status c \<in> {''UNPRODUCED'', ''PARKED''}) EVENT_CATALOGUE"

definition get_active_selectors :: "(string, EventContract) dict" where
  "get_active_selectors = filter (\<lambda>(s, c). ec_status c = ''ACTIVE'') EVENT_CATALOGUE"

definition get_selectors_for_node_type :: "string \<Rightarrow> string list" where
  "get_selectors_for_node_type node_type = map (ec_selector \<circ> snd) (filter (\<lambda>(s, c). ec_node_type c = node_type) EVENT_CATALOGUE)"

section \<open>The catalogue is coherent\<close>

text \<open>A contract's status says which of its two ends exist.\<close>

definition coherent :: "string \<times> EventContract \<Rightarrow> bool" where
  "coherent = (\<lambda>(s, c). ec_selector c = s \<and>
     (ec_status c = ''ACTIVE'' \<and> declared_producers c \<noteq> [] \<and> declared_consumers c \<noteq> [] \<or>
      ec_status c = ''UNPRODUCED'' \<and> declared_producers c = [] \<and> declared_consumers c \<noteq> [] \<or>
      ec_status c = ''UNCONSUMED'' \<and> declared_producers c \<noteq> [] \<and> declared_consumers c = [] \<or>
      ec_status c = ''DEPRECATED'' \<and> declared_producers c = [] \<and> declared_consumers c = []))"

lemma coherent_parts:
  "list_all coherent catalogue_part1" "list_all coherent catalogue_part2" "list_all coherent catalogue_part3"
  "list_all coherent catalogue_part4" "list_all coherent catalogue_part5" "list_all coherent catalogue_part6"
  by (simp_all add: catalogue_part1_def catalogue_part2_def catalogue_part3_def catalogue_part4_def catalogue_part5_def
      catalogue_part6_def coherent_def contract_def)

lemma catalogue_coherent: "list_all coherent EVENT_CATALOGUE"
  by (simp add: EVENT_CATALOGUE_def coherent_parts)

lemma get_contract_coherent: "get_contract s = Some c \<Longrightarrow> coherent (s, c)"
  using catalogue_coherent by (auto simp: get_contract_def list_all_iff dest!: map_of_SomeD)

lemma catalogue_keys_distinct: "distinct (dict_keys EVENT_CATALOGUE)"
  by (simp add: EVENT_CATALOGUE_def catalogue_part1_def catalogue_part2_def catalogue_part3_def catalogue_part4_def
      catalogue_part5_def catalogue_part6_def)

end
