(* ===== verification/OutboxRelay.thy ===== *)
theory OutboxRelay
  imports DeadLetters EventCatalogue
begin

text \<open>
  The transactional outbox (\<^verbatim>\<open>src/nce/outbox_relay.py\<close>, \<^verbatim>\<open>src/nce/events/bus.py\<close>, \<^verbatim>\<open>src/nce/events/dispatch.py\<close>) with the
  webhooks tenants register (\<^verbatim>\<open>src/nce/outbound_webhooks/\<close>): the registry of handlers, one relay pass from the poll
  to the post-commit actions, retries and dead letters, and the alerts it throttles.

  A handler is a parameter: a function of the event and of the application's tables, which it may change on the relay's
  own connection, that fails or returns an optional post-commit action. A failed handler's changes are undone by the
  savepoint, so a failure carries no state. Handlers are identified by names, as the registry compares them. A pass is
  one transaction; rows locked by other passes, a transaction that does not commit and a process that dies after the
  commit are inputs of a pass. Log lines and metrics are left out.
\<close>

section \<open>Webhooks\<close>

record webhook =
  wh_id :: string
  wh_ns :: string
  wh_url :: string
  wh_secret :: string
  wh_selectors :: "string list"
  wh_active :: bool
  wh_created :: int

definition selector_matches :: "string \<Rightarrow> string \<Rightarrow> bool" where
  "selector_matches event_type sel_raw = (let sel = strip sel_raw in
     if sel = [] then False
     else if sel = ''*'' then True
     else if suffix ''.*'' sel then prefix (butlast sel) event_type
     else sel = event_type)"

definition matches_selector :: "string list \<Rightarrow> string \<Rightarrow> bool" where
  "matches_selector selectors event_type = list_ex (selector_matches event_type) selectors"

definition create_webhook ::
  "(string \<Rightarrow> string option) \<Rightarrow> string \<Rightarrow> int \<Rightarrow> string \<Rightarrow> string \<Rightarrow> string \<Rightarrow> string list option \<Rightarrow> bool \<Rightarrow> webhook list \<Rightarrow>
     py_error + (webhook list \<times> webhook)" where
  "create_webhook uuid new_id now namespace_id url secret selectors is_active hooks =
     (case uuid (strip namespace_id) of
        None \<Rightarrow> Inl (ValueError ''badly formed hexadecimal UUID string'')
      | Some ns \<Rightarrow>
          if strip url = [] then Inl (ValueError ''Webhook URL cannot be empty'')
          else if strip secret = [] then Inl (ValueError ''Webhook HMAC secret cannot be empty'')
          else (let h = \<lparr>wh_id = new_id, wh_ns = ns, wh_url = strip url, wh_secret = strip secret,
                         wh_selectors = (case selectors of None \<Rightarrow> [''*''] | Some s \<Rightarrow> s), wh_active = is_active, wh_created = now\<rparr> in
                Inr (hooks @ [h], h)))"

definition list_webhooks :: "string \<Rightarrow> bool option \<Rightarrow> webhook list \<Rightarrow> webhook list" where
  "list_webhooks ns is_active hooks = rev (sort_key wh_created
     (filter (\<lambda>h. wh_ns h = ns \<and> (case is_active of None \<Rightarrow> True | Some b \<Rightarrow> wh_active h = b)) hooks))"

definition get_webhook :: "string \<Rightarrow> string \<Rightarrow> webhook list \<Rightarrow> webhook option" where
  "get_webhook ns i hooks = find (\<lambda>h. wh_ns h = ns \<and> wh_id h = i) hooks"

definition delete_webhook :: "string \<Rightarrow> string \<Rightarrow> webhook list \<Rightarrow> webhook list \<times> bool" where
  "delete_webhook ns i hooks =
     (filter (\<lambda>h. \<not> (wh_ns h = ns \<and> wh_id h = i)) hooks, list_ex (\<lambda>h. wh_ns h = ns \<and> wh_id h = i) hooks)"

definition get_matching_webhooks :: "string \<Rightarrow> string \<Rightarrow> webhook list \<Rightarrow> webhook list" where
  "get_matching_webhooks ns event_type hooks =
     filter (\<lambda>h. matches_selector (wh_selectors h) event_type) (filter (\<lambda>h. wh_ns h = ns \<and> wh_active h) hooks)"

section \<open>Events, handlers and the database\<close>

record outbox_event =
  oe_id :: string
  oe_ns :: string
  oe_aggregate_type :: string
  oe_aggregate_id :: string
  oe_event_type :: string
  oe_payload :: json
  oe_headers :: json
  oe_attempts :: int
  oe_error :: "string option"
  oe_created :: int
  oe_published :: "int option"

definition MAX_OUTBOX_ATTEMPTS :: int where "MAX_OUTBOX_ATTEMPTS = 5"

datatype relay_error = OutboxDeliveryError string | HandlerError string string

fun error_text :: "relay_error \<Rightarrow> string" where
  "error_text (OutboxDeliveryError m) = ''OutboxDeliveryError: '' @ m"
| "error_text (HandlerError cls m) = cls @ '': '' @ m"

datatype 'a post_commit = FromHandler 'a | SendWebhook string string json

record 's relay_db = dlq_db +
  rl_events :: "outbox_event list"
  rl_processed :: "string list"
  rl_webhooks :: "webhook list"
  rl_app :: 's

record ('h, 's, 'a) relay_env =
  re_handlers :: "(string, 'h list) dict"
  re_run :: "'h \<Rightarrow> outbox_event \<Rightarrow> 's \<Rightarrow> relay_error + ('s \<times> 'a option)"
  re_isoformat :: "int \<Rightarrow> string"
  re_gen_uuid :: "string list \<Rightarrow> string"

definition register_handler :: "bool \<Rightarrow> string \<Rightarrow> 'h \<Rightarrow> (string, 'h list) dict \<Rightarrow> py_error + ((string, 'h list) dict \<times> bool)" where
  "register_handler is_coroutine event_type fn registry =
     (if \<not> is_coroutine then Inl TypeError
      else let handlers = dict_getd registry event_type [] in
        if fn \<in> set handlers then Inr (dict_setdefault event_type [] registry, False)
        else Inr (dict_set event_type (handlers @ [fn]) registry, True))"

definition subscribe :: "bool \<Rightarrow> (string, string) dict \<Rightarrow> 'h \<Rightarrow> (string, 'h list) dict \<Rightarrow> py_error + (string, 'h list) dict" where
  "subscribe is_coroutine sel handler registry =
     (case dict_get sel ''node_type'' of None \<Rightarrow> Inl (KeyError ''node_type'') | Some node_type \<Rightarrow>
     (case dict_get sel ''op'' of None \<Rightarrow> Inl (KeyError ''op'') | Some op \<Rightarrow>
      and_then (register_handler is_coroutine (node_type @ ''.'' @ op) handler registry) (\<lambda>(registry', _). Inr registry')))"

section \<open>Operations of the relay\<close>

definition is_pending :: "outbox_event \<Rightarrow> bool" where
  "is_pending e \<longleftrightarrow> oe_published e = None \<and> oe_attempts e < MAX_OUTBOX_ATTEMPTS"

definition poll_outbox :: "nat \<Rightarrow> string list \<Rightarrow> 's relay_db \<Rightarrow> outbox_event list" where
  "poll_outbox batch_size locked db =
     take batch_size (sort_key oe_created (filter (\<lambda>e. is_pending e \<and> oe_id e \<notin> set locked) (rl_events db)))"

definition update_event :: "string \<Rightarrow> (outbox_event \<Rightarrow> outbox_event) \<Rightarrow> 's relay_db \<Rightarrow> 's relay_db" where
  "update_event i f db = db\<lparr>rl_events := map (\<lambda>e. if oe_id e = i then f e else e) (rl_events db)\<rparr>"

definition mark_published :: "string \<Rightarrow> 's relay_db \<Rightarrow> 's relay_db" where
  "mark_published i db = update_event i (\<lambda>e. e\<lparr>oe_published := Some (dq_now db)\<rparr>) db"

definition mark_failed :: "string \<Rightarrow> string \<Rightarrow> 's relay_db \<Rightarrow> 's relay_db" where
  "mark_failed i error_message db =
     update_event i (\<lambda>e. e\<lparr>oe_attempts := oe_attempts e + 1, oe_error := Some (take 2048 error_message)\<rparr>) db"

definition mark_undeliverable :: "string \<Rightarrow> string \<Rightarrow> 's relay_db \<Rightarrow> 's relay_db" where
  "mark_undeliverable i error_message db =
     update_event i (\<lambda>e. e\<lparr>oe_attempts := MAX_OUTBOX_ATTEMPTS, oe_error := Some (take 2048 error_message)\<rparr>) db"

text \<open>The alerts: when each key was last sent, and what was sent.\<close>

record alert_state =
  al_cache :: "(string, real) dict"
  al_sent :: "(real \<times> string) list"

definition THROTTLE_WINDOW_SECONDS :: real where "THROTTLE_WINDOW_SECONDS = 300"

definition dispatch_throttled_alert :: "real \<Rightarrow> string \<Rightarrow> alert_state \<Rightarrow> alert_state" where
  "dispatch_throttled_alert now key al =
     (if now - dict_getd (al_cache al) key 0 \<ge> THROTTLE_WINDOW_SECONDS
      then al\<lparr>al_cache := dict_set key now (al_cache al), al_sent := al_sent al @ [(now, key)]\<rparr> else al)"

definition or_empty :: "json \<Rightarrow> json" where
  "or_empty v = (if truthy v then v else JDict [])"

definition outbox_letter :: "string \<Rightarrow> outbox_event \<Rightarrow> string \<Rightarrow> int \<Rightarrow> dead_letter" where
  "outbox_letter i e error_message now =
     \<lparr>dl_id = i, dl_ns = Some (oe_ns e), dl_task = ''outbox:'' @ oe_event_type e, dl_job = oe_id e,
      dl_kwargs = JDict [(''aggregate_id'', JStr (oe_aggregate_id e)), (''aggregate_type'', JStr (oe_aggregate_type e)),
        (''event_type'', JStr (oe_event_type e)), (''outbox_event_id'', JStr (oe_id e)), (''payload'', or_empty (oe_payload e))],
      dl_error = take 1024 error_message, dl_attempts = oe_attempts e + 1, dl_status = ''pending'', dl_created = now,
      dl_replayed_at = None, dl_purged_at = None, dl_fingerprint = None, dl_quarantined_until = None\<rparr>"

definition move_to_dead_letter_if_exhausted ::
  "('h, 's, 'a) relay_env \<Rightarrow> real \<Rightarrow> outbox_event \<Rightarrow> string \<Rightarrow> 's relay_db \<times> alert_state \<Rightarrow> dlq_error + ('s relay_db \<times> alert_state)" where
  "move_to_dead_letter_if_exhausted env now e error_message w = (case w of (db, al) \<Rightarrow>
     if oe_attempts e + 1 < MAX_OUTBOX_ATTEMPTS then Inr (db, al)
     else and_then (insert_dead_letter (outbox_letter (re_gen_uuid env (map dl_id (dq_rows db))) e error_message (dq_now db)) db)
       (\<lambda>db'. Inr (db', dispatch_throttled_alert now (''outbox.dlq.'' @ oe_event_type e) al)))"

fun run_handlers ::
  "('h \<Rightarrow> outbox_event \<Rightarrow> 's \<Rightarrow> relay_error + ('s \<times> 'a option)) \<Rightarrow> 'h list \<Rightarrow> outbox_event \<Rightarrow> 's \<Rightarrow>
     relay_error + ('s \<times> 'a post_commit list)" where
  "run_handlers run [] e s = Inr (s, [])"
| "run_handlers run (h # hs) e s =
     and_then (run h e s) (\<lambda>(s', action).
     and_then (run_handlers run hs e s') (\<lambda>(s'', actions).
       Inr (s'', (case action of None \<Rightarrow> actions | Some a \<Rightarrow> FromHandler a # actions))))"

definition opt_text :: "string \<Rightarrow> json" where
  "opt_text s = (if s = [] then JNull else JStr s)"

definition prepare_webhook_payload :: "(int \<Rightarrow> string) \<Rightarrow> outbox_event \<Rightarrow> json" where
  "prepare_webhook_payload isoformat e = JDict
     [(''event_id'', JStr (oe_id e)), (''namespace_id'', JStr (oe_ns e)), (''event_type'', JStr (oe_event_type e)),
      (''aggregate_type'', JStr (oe_aggregate_type e)), (''aggregate_id'', opt_text (oe_aggregate_id e)),
      (''payload'', or_empty (oe_payload e)), (''headers'', or_empty (oe_headers e)), (''created_at'', JStr (isoformat (oe_created e)))]"

datatype 'a delivery = AlreadyProcessed | NoConsumerDeclared | Actions "'a post_commit list"

definition declared_unconsumed :: "string \<Rightarrow> bool" where
  "declared_unconsumed event_type = (case get_contract event_type of
      None \<Rightarrow> False
    | Some c \<Rightarrow> declared_consumers c = [] \<and> ec_status c \<in> {''UNCONSUMED'', ''DEPRECATED''})"

definition deliver_one ::
  "('h, 's, 'a) relay_env \<Rightarrow> outbox_event \<Rightarrow> 's relay_db \<Rightarrow> relay_error + ('s relay_db \<times> 'a delivery)" where
  "deliver_one env e db =
     (let event_type = oe_event_type e;
          handlers = dict_getd (re_handlers env) event_type [];
          hooks = get_matching_webhooks (oe_ns e) event_type (rl_webhooks db) in
      if handlers = [] \<and> hooks = [] then
        (if declared_unconsumed event_type
         then Inr (db\<lparr>rl_processed := set_add (oe_id e) (rl_processed db)\<rparr>, NoConsumerDeclared)
         else Inl (OutboxDeliveryError (''No outbox handler registered for event_type='' @ event_type)))
      else if oe_id e \<in> set (rl_processed db) then Inr (db, AlreadyProcessed)
      else and_then (run_handlers (re_run env) handlers e (rl_app db)) (\<lambda>(s, actions).
        Inr (db\<lparr>rl_processed := rl_processed db @ [oe_id e], rl_app := s\<rparr>,
             Actions (actions @ map (\<lambda>h. SendWebhook (wh_url h) (wh_secret h) (prepare_webhook_payload (re_isoformat env) e)) hooks))))"

section \<open>A relay pass\<close>

record ('s, 'a) relay_run =
  rr_db :: "'s relay_db"
  rr_actions :: "'a post_commit list"
  rr_delivered :: nat
  rr_drained :: nat
  rr_alerts :: alert_state

text \<open>One iteration of the loop. An error of the database aborts the pass.\<close>

definition fail_event ::
  "('h, 's, 'a) relay_env \<Rightarrow> real \<Rightarrow> outbox_event \<Rightarrow> relay_error \<Rightarrow> ('s, 'a) relay_run \<Rightarrow> ('s, 'a) relay_run \<times> dlq_error option" where
  "fail_event env now e exc st =
     (let msg = error_text exc;
          al = dispatch_throttled_alert now (''outbox.delivery_failed.'' @ oe_event_type e) (rr_alerts st);
          moved = (case exc of
             OutboxDeliveryError _ \<Rightarrow>
               move_to_dead_letter_if_exhausted env now (e\<lparr>oe_attempts := MAX_OUTBOX_ATTEMPTS - 1\<rparr>) msg (mark_undeliverable (oe_id e) msg (rr_db st), al)
           | HandlerError _ _ \<Rightarrow> move_to_dead_letter_if_exhausted env now e msg (mark_failed (oe_id e) msg (rr_db st), al)) in
      case moved of
        Inl err \<Rightarrow> (st\<lparr>rr_alerts := al\<rparr>, Some err)
      | Inr (db', al') \<Rightarrow> (st\<lparr>rr_db := db', rr_alerts := al'\<rparr>, None))"

definition process_event ::
  "('h, 's, 'a) relay_env \<Rightarrow> real \<Rightarrow> outbox_event \<Rightarrow> ('s, 'a) relay_run \<Rightarrow> ('s, 'a) relay_run \<times> dlq_error option" where
  "process_event env now e st = (case deliver_one env e (rr_db st) of
      Inl exc \<Rightarrow> fail_event env now e exc st
    | Inr (db', AlreadyProcessed) \<Rightarrow> (st\<lparr>rr_db := mark_published (oe_id e) db'\<rparr>, None)
    | Inr (db', NoConsumerDeclared) \<Rightarrow> (st\<lparr>rr_db := mark_published (oe_id e) db', rr_drained := Suc (rr_drained st)\<rparr>, None)
    | Inr (db', Actions acts) \<Rightarrow>
        (st\<lparr>rr_db := mark_published (oe_id e) db', rr_delivered := Suc (rr_delivered st), rr_actions := rr_actions st @ acts\<rparr>, None))"

fun process_events ::
  "('h, 's, 'a) relay_env \<Rightarrow> real \<Rightarrow> outbox_event list \<Rightarrow> ('s, 'a) relay_run \<Rightarrow> ('s, 'a) relay_run \<times> dlq_error option" where
  "process_events env now [] st = (st, None)"
| "process_events env now (e # es) st = (case process_event env now e st of
      (st', Some err) \<Rightarrow> (st', Some err)
    | (st', None) \<Rightarrow> process_events env now es st')"

record ('s, 'a) relay_world =
  wd_db :: "'s relay_db"
  wd_fired :: "'a post_commit list"
  wd_alerts :: alert_state

text \<open>How a pass ends: it completes; its transaction is rolled back after some events; or the process dies after
  the commit, with some of the post-commit actions done.\<close>

datatype ending = Completes | RollsBack nat | DiesAfter nat

definition run_outbox_relay_once ::
  "('h, 's, 'a) relay_env \<Rightarrow> nat \<Rightarrow> string list \<Rightarrow> real \<Rightarrow> ending \<Rightarrow> ('s, 'a) relay_world \<Rightarrow> (nat \<times> nat) option \<times> ('s, 'a) relay_world" where
  "run_outbox_relay_once env batch_size locked now how w =
     (let events = poll_outbox batch_size locked (wd_db w);
          start = \<lparr>rr_db = wd_db w, rr_actions = [], rr_delivered = 0, rr_drained = 0, rr_alerts = wd_alerts w\<rparr> in
      case process_events env now (case how of RollsBack k \<Rightarrow> take k events | _ \<Rightarrow> events) start of
        (st, Some _) \<Rightarrow> (None, w\<lparr>wd_alerts := rr_alerts st\<rparr>)
      | (st, None) \<Rightarrow>
          (case how of
             RollsBack _ \<Rightarrow> (None, w\<lparr>wd_alerts := rr_alerts st\<rparr>)
           | Completes \<Rightarrow> (Some (rr_delivered st, rr_drained st),
               w\<lparr>wd_db := rr_db st, wd_fired := wd_fired w @ rr_actions st, wd_alerts := rr_alerts st\<rparr>)
           | DiesAfter k \<Rightarrow> (None,
               w\<lparr>wd_db := rr_db st, wd_fired := wd_fired w @ take k (rr_actions st), wd_alerts := rr_alerts st\<rparr>)))"

section \<open>The state of an event\<close>

definition letters :: "outbox_event \<Rightarrow> 's relay_db \<Rightarrow> dead_letter list" where
  "letters e db = filter (\<lambda>r. dl_job r = oe_id e \<and> dl_task r = ''outbox:'' @ oe_event_type e) (dq_rows db)"

text \<open>An event is published and processed, or waiting and neither, or given up and in the dead letter queue exactly once.\<close>

definition event_ok :: "'s relay_db \<Rightarrow> outbox_event \<Rightarrow> bool" where
  "event_ok db e \<longleftrightarrow> 0 \<le> oe_attempts e \<and>
     (if oe_published e \<noteq> None then oe_id e \<in> set (rl_processed db) \<and> letters e db = [] \<and> oe_attempts e < MAX_OUTBOX_ATTEMPTS
      else oe_id e \<notin> set (rl_processed db) \<and>
        (oe_attempts e < MAX_OUTBOX_ATTEMPTS \<and> letters e db = [] \<or> oe_attempts e = MAX_OUTBOX_ATTEMPTS \<and> length (letters e db) = 1))"

text \<open>The effects of a history of deliveries: the handlers of each event, applied in order.\<close>

fun replay_log ::
  "('h \<Rightarrow> outbox_event \<Rightarrow> 's \<Rightarrow> relay_error + ('s \<times> 'a option)) \<Rightarrow> (outbox_event \<times> 'h list) list \<Rightarrow> 's \<Rightarrow> 's option" where
  "replay_log run [] s = Some s"
| "replay_log run ((e, hs) # hist) s = (case run_handlers run hs e s of Inl _ \<Rightarrow> None | Inr (s', _) \<Rightarrow> replay_log run hist s')"

definition delivered_exactly ::
  "('h \<Rightarrow> outbox_event \<Rightarrow> 's \<Rightarrow> relay_error + ('s \<times> 'a option)) \<Rightarrow> 's \<Rightarrow> 's relay_db \<Rightarrow> bool" where
  "delivered_exactly run s0 db \<longleftrightarrow>
     (\<exists>hist. map (oe_id \<circ> fst) hist = rl_processed db \<and> replay_log run hist s0 = Some (rl_app db))"

definition relay_inv ::
  "('h \<Rightarrow> outbox_event \<Rightarrow> 's \<Rightarrow> relay_error + ('s \<times> 'a option)) \<Rightarrow> 's \<Rightarrow> 's relay_db \<Rightarrow> bool" where
  "relay_inv run s0 db \<longleftrightarrow> distinct (map oe_id (rl_events db)) \<and> distinct (rl_processed db) \<and>
     set (rl_processed db) \<subseteq> set (map oe_id (rl_events db)) \<and>
     set (map dl_job (filter (\<lambda>r. prefix ''outbox:'' (dl_task r)) (dq_rows db))) \<subseteq> set (map oe_id (rl_events db)) \<and>
     (\<forall>e \<in> set (rl_events db). event_ok db e) \<and> delivered_exactly run s0 db"

lemma replay_log_append:
  "replay_log run (hist @ hist') s = (case replay_log run hist s of None \<Rightarrow> None | Some s' \<Rightarrow> replay_log run hist' s')"
  by (induction run hist s rule: replay_log.induct) (auto split: sum.splits)

lemma delivered_exactly_snoc:
  assumes "delivered_exactly run s0 db" and "run_handlers run hs e (rl_app db) = Inr (s, acts)"
    and "rl_processed db' = rl_processed db @ [oe_id e]" and "rl_app db' = s"
  shows "delivered_exactly run s0 db'"
proof -
  obtain hist where "map (oe_id \<circ> fst) hist = rl_processed db" "replay_log run hist s0 = Some (rl_app db)"
    using assms(1) by (auto simp: delivered_exactly_def)
  with assms(2-) show ?thesis
    unfolding delivered_exactly_def by (intro exI [of _ "hist @ [(e, hs)]"]) (simp add: replay_log_append)
qed

lemma update_event_sel [simp]:
  "dq_rows (update_event i f db) = dq_rows db" "rl_processed (update_event i f db) = rl_processed db"
  "rl_app (update_event i f db) = rl_app db" "rl_webhooks (update_event i f db) = rl_webhooks db"
  "dq_now (update_event i f db) = dq_now db" "dq_namespaces (update_event i f db) = dq_namespaces db"
  "rl_events (update_event i f db) = map (\<lambda>e. if oe_id e = i then f e else e) (rl_events db)"
  by (simp_all add: update_event_def)

text \<open>A database that differs from another one only in the row, the letters and the mark of one event.\<close>

definition only_event :: "outbox_event \<Rightarrow> outbox_event \<Rightarrow> 's relay_db \<Rightarrow> 's relay_db \<Rightarrow> bool" where
  "only_event e e' db db' \<longleftrightarrow> oe_id e' = oe_id e \<and> oe_event_type e' = oe_event_type e \<and> oe_ns e' = oe_ns e \<and>
     rl_events db' = map (\<lambda>x. if oe_id x = oe_id e then e' else x) (rl_events db) \<and>
     (\<exists>ls. dq_rows db' = dq_rows db @ ls \<and> list_all (\<lambda>r. dl_job r = oe_id e) ls) \<and>
     (rl_processed db' = rl_processed db \<or> rl_processed db' = rl_processed db @ [oe_id e])"

lemma only_event_inv:
  assumes "relay_inv run s0 db" and "e \<in> set (rl_events db)" and "only_event e e' db db'" and "oe_id e \<notin> set (rl_processed db)"
    and "event_ok db' e'" and "delivered_exactly run s0 db'"
  shows "relay_inv run s0 db'"
proof -
  have ids: "map oe_id (rl_events db') = map oe_id (rl_events db)"
    using assms(3) by (auto simp: only_event_def)
  obtain ls where ls: "dq_rows db' = dq_rows db @ ls" "list_all (\<lambda>r. dl_job r = oe_id e) ls"
    using assms(3) by (auto simp: only_event_def)
  have "event_ok db' x" if x: "x \<in> set (rl_events db')" for x
  proof (cases "oe_id x = oe_id e")
    case True
    then have "x = e'" using x assms(3) by (auto simp: only_event_def split: if_splits)
    then show ?thesis using assms(5) by simp
  next
    case False
    then have "x \<in> set (rl_events db)" using x assms(3) by (auto simp: only_event_def split: if_splits)
    then have "event_ok db x" using assms(1) by (simp add: relay_inv_def)
    moreover have "letters x db' = letters x db" using ls False by (auto simp: letters_def list_all_iff filter_empty_conv)
    moreover have "oe_id x \<in> set (rl_processed db') \<longleftrightarrow> oe_id x \<in> set (rl_processed db)"
      using assms(3) False by (auto simp: only_event_def)
    ultimately show ?thesis by (cases "oe_published x") (auto simp: event_ok_def)
  qed
  moreover have "distinct (rl_processed db')" "set (rl_processed db') \<subseteq> set (map oe_id (rl_events db))"
    using assms(1-4) by (auto simp: relay_inv_def only_event_def)
  moreover have "set (map dl_job (filter (\<lambda>r. prefix ''outbox:'' (dl_task r)) (dq_rows db'))) \<subseteq> set (map oe_id (rl_events db))"
    using assms(1,2) ls by (auto simp: relay_inv_def list_all_iff)
  ultimately show ?thesis using assms(1,6) ids unfolding relay_inv_def by simp
qed

lemma unique_event:
  "distinct (map oe_id (rl_events db)) \<Longrightarrow> e \<in> set (rl_events db) \<Longrightarrow> x \<in> set (rl_events db) \<Longrightarrow> oe_id x = oe_id e \<Longrightarrow> x = e"
  using inj_onD [of oe_id "set (rl_events db)" x e] by (simp add: distinct_map)

text \<open>What an iteration of the loop does to a waiting event.\<close>

definition handled :: "('h \<Rightarrow> outbox_event \<Rightarrow> 's \<Rightarrow> relay_error + ('s \<times> 'a option)) \<Rightarrow> 's \<Rightarrow> outbox_event \<Rightarrow> 's relay_db \<Rightarrow> 's relay_db \<Rightarrow> bool" where
  "handled run s0 e db db' \<longleftrightarrow> (\<exists>e'. only_event e e' db db' \<and> event_ok db' e' \<and> delivered_exactly run s0 db' \<and>
     (oe_published e' \<noteq> None \<or> oe_attempts e < oe_attempts e'))"

lemma waiting_facts:
  assumes "relay_inv run s0 db" and "e \<in> set (rl_events db)" and "is_pending e"
  shows "oe_id e \<notin> set (rl_processed db)" "letters e db = []" "oe_published e = None" "0 \<le> oe_attempts e"
    "oe_attempts e < MAX_OUTBOX_ATTEMPTS" "distinct (map oe_id (rl_events db))" "delivered_exactly run s0 db"
  using assms by (auto simp: relay_inv_def event_ok_def is_pending_def)

lemma handled_published:
  assumes inv: "relay_inv run s0 db" and e: "e \<in> set (rl_events db)" "is_pending e"
    and "run_handlers run hs e (rl_app db) = Inr (s, acts)"
  shows "handled run s0 e db (mark_published (oe_id e) (db\<lparr>rl_processed := rl_processed db @ [oe_id e], rl_app := s\<rparr>))"
    (is "handled run s0 e db ?db'")
proof -
  note w = waiting_facts [OF inv e]
  let ?e' = "e\<lparr>oe_published := Some (dq_now db)\<rparr>"
  have "only_event e ?e' db ?db'"
    using unique_event [OF w(6) e(1)] by (auto simp: only_event_def mark_published_def)
  moreover have "letters ?e' ?db' = []" using w(2) by (simp add: letters_def mark_published_def)
  then have "event_ok ?db' ?e'" using w by (simp add: event_ok_def mark_published_def)
  moreover have "delivered_exactly run s0 ?db'"
    using w(7) assms(4) by (rule delivered_exactly_snoc) (simp_all add: mark_published_def)
  ultimately show ?thesis unfolding handled_def by (intro exI [of _ ?e']) simp
qed

lemma handled_failed:
  assumes inv: "relay_inv run s0 db" and e: "e \<in> set (rl_events db)" "is_pending e"
    and e': "oe_id e' = oe_id e" "oe_event_type e' = oe_event_type e" "oe_ns e' = oe_ns e" "oe_published e' = None" "oe_attempts e < oe_attempts e'"
    and db': "rl_events db' = map (\<lambda>x. if oe_id x = oe_id e then e' else x) (rl_events db)" "rl_processed db' = rl_processed db" "rl_app db' = rl_app db"
    and rows: "oe_attempts e' < MAX_OUTBOX_ATTEMPTS \<and> dq_rows db' = dq_rows db \<or>
      oe_attempts e' = MAX_OUTBOX_ATTEMPTS \<and> dq_rows db' = dq_rows db @ [row] \<and> dl_job row = oe_id e \<and> dl_task row = ''outbox:'' @ oe_event_type e"
  shows "handled run s0 e db db'"
proof -
  note w = waiting_facts [OF inv e]
  have "only_event e e' db db'" using e' db' rows by (auto simp: only_event_def)
  moreover have "letters e' db' = (if oe_attempts e' < MAX_OUTBOX_ATTEMPTS then [] else [row])"
    using w(2) e' rows by (auto simp: letters_def)
  then have "event_ok db' e'" using w e' db' rows by (auto simp: event_ok_def)
  moreover have "delivered_exactly run s0 db'" using w(7) db' by (simp add: delivered_exactly_def)
  ultimately show ?thesis using e'(5) unfolding handled_def by blast
qed

lemma handled_inv:
  assumes "relay_inv run s0 db" and "e \<in> set (rl_events db)" and "is_pending e" and "handled run s0 e db db'"
  shows "relay_inv run s0 db'"
proof -
  obtain e' where "only_event e e' db db'" "event_ok db' e'" "delivered_exactly run s0 db'"
    using assms(4) unfolding handled_def by blast
  then show ?thesis using only_event_inv [OF assms(1,2)] waiting_facts(1) [OF assms(1-3)] by blast
qed

lemma moved_Inr:
  assumes "move_to_dead_letter_if_exhausted env now e msg (db, al) = Inr (db', al')"
  shows "oe_attempts e + 1 < MAX_OUTBOX_ATTEMPTS \<and> db' = db \<or>
    MAX_OUTBOX_ATTEMPTS \<le> oe_attempts e + 1 \<and>
      db' = db\<lparr>dq_rows := dq_rows db @ [outbox_letter (re_gen_uuid env (map dl_id (dq_rows db))) e msg (dq_now db)]\<rparr>"
  using assms by (auto simp: move_to_dead_letter_if_exhausted_def and_then_eq_Inr insert_dead_letter_Inr split: if_splits)

lemma fail_event_handled:
  assumes inv: "relay_inv run s0 (rr_db st)" and e: "e \<in> set (rl_events (rr_db st))" "is_pending e"
    and "fail_event env now e exc st = (st', None)"
  shows "handled run s0 e (rr_db st) (rr_db st')"
proof -
  note w = waiting_facts [OF inv e]
  note u = unique_event [OF w(6) e(1)]
  show ?thesis
  proof (cases exc)
    case (OutboxDeliveryError m)
    then obtain al al' where "move_to_dead_letter_if_exhausted env now (e\<lparr>oe_attempts := MAX_OUTBOX_ATTEMPTS - 1\<rparr>) (error_text exc)
        (mark_undeliverable (oe_id e) (error_text exc) (rr_db st), al) = Inr (rr_db st', al')"
      using assms(4) by (auto simp: fail_event_def Let_def split: sum.splits prod.splits)
    from moved_Inr [OF this] show ?thesis
      using w
      by (intro handled_failed [OF inv e, where e' = "e\<lparr>oe_attempts := MAX_OUTBOX_ATTEMPTS, oe_error := Some (take 2048 (error_text exc))\<rparr>"
            and row = "outbox_letter (re_gen_uuid env (map dl_id (dq_rows (rr_db st)))) (e\<lparr>oe_attempts := MAX_OUTBOX_ATTEMPTS - 1\<rparr>) (error_text exc) (dq_now (rr_db st))"])
        (auto simp: mark_undeliverable_def outbox_letter_def MAX_OUTBOX_ATTEMPTS_def dest: u)
  next
    case (HandlerError c m)
    then obtain al al' where "move_to_dead_letter_if_exhausted env now e (error_text exc)
        (mark_failed (oe_id e) (error_text exc) (rr_db st), al) = Inr (rr_db st', al')"
      using assms(4) by (auto simp: fail_event_def Let_def split: sum.splits prod.splits)
    from moved_Inr [OF this] show ?thesis
      using w
      by (intro handled_failed [OF inv e, where e' = "e\<lparr>oe_attempts := oe_attempts e + 1, oe_error := Some (take 2048 (error_text exc))\<rparr>"
            and row = "outbox_letter (re_gen_uuid env (map dl_id (dq_rows (rr_db st)))) e (error_text exc) (dq_now (rr_db st))"])
        (auto simp: mark_failed_def outbox_letter_def MAX_OUTBOX_ATTEMPTS_def dest: u)
  qed
qed

lemma process_event_handled:
  assumes inv: "relay_inv (re_run env) s0 (rr_db st)" and e: "e \<in> set (rl_events (rr_db st))" "is_pending e"
    and "process_event env now e st = (st', None)"
  shows "handled (re_run env) s0 e (rr_db st) (rr_db st')"
proof (cases "deliver_one env e (rr_db st)")
  case (Inl exc)
  then show ?thesis using fail_event_handled [OF inv e] assms(4) by (simp add: process_event_def)
next
  case (Inr p)
  note w = waiting_facts [OF inv e]
  have app: "db\<lparr>rl_processed := ps\<rparr> = db\<lparr>rl_processed := ps, rl_app := rl_app db\<rparr>" for ps and db :: "'b relay_db" by simp
  obtain hs s acts where "run_handlers (re_run env) hs e (rl_app (rr_db st)) = Inr (s, acts)"
    "fst p = (rr_db st)\<lparr>rl_processed := rl_processed (rr_db st) @ [oe_id e], rl_app := s\<rparr>" "snd p \<noteq> AlreadyProcessed"
  proof (cases "snd p = NoConsumerDeclared")
    case True
    then show thesis using Inr w(1) that [of "[]" "rl_app (rr_db st)" "[]"]
      by (auto simp: deliver_one_def Let_def set_add_def and_then_eq_Inr split: if_splits)
  next
    case False
    then show thesis using Inr w(1) that
      by (auto simp: deliver_one_def Let_def set_add_def and_then_eq_Inr split: if_splits)
  qed
  then show ?thesis
    using handled_published [OF inv e, of hs s acts] assms(4) Inr
    by (cases p) (auto simp: process_event_def split: delivery.splits)
qed

lemma only_event_facts:
  assumes "only_event e e' db db'"
  shows "map oe_id (rl_events db') = map oe_id (rl_events db)"
    "x \<in> set (rl_events db) \<Longrightarrow> oe_id x \<noteq> oe_id e \<Longrightarrow> x \<in> set (rl_events db')"
    "e \<in> set (rl_events db) \<Longrightarrow> e' \<in> set (rl_events db')"
    "e \<in> set (rl_events db) \<Longrightarrow> oe_ns ` set (rl_events db') \<subseteq> oe_ns ` set (rl_events db)"
  using assms by (auto simp: only_event_def image_iff)

text \<open>The loop over the polled events: each of them is published or has one more attempt, the others are untouched.\<close>

lemma process_events_handled:
  assumes "relay_inv (re_run env) s0 (rr_db st)" and "set es \<subseteq> set (rl_events (rr_db st))" and "list_all is_pending es"
    and "distinct (map oe_id es)" and "process_events env now es st = (st', None)"
  shows "relay_inv (re_run env) s0 (rr_db st') \<and> map oe_id (rl_events (rr_db st')) = map oe_id (rl_events (rr_db st)) \<and>
    oe_ns ` set (rl_events (rr_db st')) \<subseteq> oe_ns ` set (rl_events (rr_db st)) \<and>
    (\<forall>x \<in> set (rl_events (rr_db st)). oe_id x \<notin> oe_id ` set es \<longrightarrow> x \<in> set (rl_events (rr_db st'))) \<and>
    (\<forall>e \<in> set es. \<exists>e' \<in> set (rl_events (rr_db st')). oe_id e' = oe_id e \<and> (oe_published e' \<noteq> None \<or> oe_attempts e < oe_attempts e'))"
  using assms
proof (induction es arbitrary: st)
  case (Cons e es)
  obtain st1 where st1: "process_event env now e st = (st1, None)" and rest: "process_events env now es st1 = (st', None)"
    using Cons.prems(5) by (auto split: prod.splits option.splits)
  have e: "e \<in> set (rl_events (rr_db st))" "is_pending e" using Cons.prems by auto
  note h = process_event_handled [OF Cons.prems(1) e st1]
  obtain e' where e': "only_event e e' (rr_db st) (rr_db st1)" "oe_published e' \<noteq> None \<or> oe_attempts e < oe_attempts e'"
    using h unfolding handled_def by blast
  note f = only_event_facts [OF e'(1)]
  have id: "oe_id e' = oe_id e" using e'(1) by (simp add: only_event_def)
  have others: "oe_id x \<noteq> oe_id e" if "x \<in> set es" for x using that Cons.prems(4) by (auto simp: image_iff)
  then have "set es \<subseteq> set (rl_events (rr_db st1))" using Cons.prems(2) f(2) by auto
  then have ih: "relay_inv (re_run env) s0 (rr_db st')" "map oe_id (rl_events (rr_db st')) = map oe_id (rl_events (rr_db st1))"
    "oe_ns ` set (rl_events (rr_db st')) \<subseteq> oe_ns ` set (rl_events (rr_db st1))"
    "\<And>x. x \<in> set (rl_events (rr_db st1)) \<Longrightarrow> oe_id x \<notin> oe_id ` set es \<Longrightarrow> x \<in> set (rl_events (rr_db st'))"
    "\<And>x. x \<in> set es \<Longrightarrow> \<exists>x' \<in> set (rl_events (rr_db st')). oe_id x' = oe_id x \<and> (oe_published x' \<noteq> None \<or> oe_attempts x < oe_attempts x')"
    using Cons.IH [OF handled_inv [OF Cons.prems(1) e h] _ _ _ rest] Cons.prems(3,4) by auto
  have "e' \<in> set (rl_events (rr_db st'))" using ih(4) [OF f(3) [OF e(1)]] others id by (metis image_iff)
  moreover have "oe_ns ` set (rl_events (rr_db st')) \<subseteq> oe_ns ` set (rl_events (rr_db st))" using ih(3) f(4) [OF e(1)] by (rule order_trans)
  ultimately show ?case using ih(1,2,4,5) f(1,2) e'(2) id by auto
qed auto

lemma poll_outbox_facts:
  assumes "distinct (map oe_id (rl_events db))"
  shows "set (poll_outbox b locked db) \<subseteq> set (rl_events db)" "list_all is_pending (poll_outbox b locked db)"
    "distinct (map oe_id (poll_outbox b locked db))"
proof -
  let ?es = "sort_key oe_created (filter (\<lambda>e. is_pending e \<and> oe_id e \<notin> set locked) (rl_events db))"
  have "distinct (map oe_id ?es)" using assms by (simp add: distinct_map inj_on_def)
  then show "distinct (map oe_id (poll_outbox b locked db))"
    unfolding poll_outbox_def by (metis distinct_take take_map)
qed (auto simp: poll_outbox_def list_all_iff dest: in_set_takeD)

section \<open>Exactly once\<close>

text \<open>
  The life of the outbox: passes of any process, with its own handlers registered, any batch size, any rows locked
  by others and any ending; events published by the application; tenants changing their webhooks; workers adding dead
  letters of their own tasks, operators replaying and purging them; and time.
\<close>

definition new_event :: "outbox_event \<Rightarrow> 's relay_db \<Rightarrow> bool" where
  "new_event e db \<longleftrightarrow> oe_id e \<notin> set (map oe_id (rl_events db)) \<and> oe_attempts e = 0 \<and> oe_published e = None \<and> oe_ns e \<in> set (dq_namespaces db)"

inductive relay_step ::
  "('h \<Rightarrow> outbox_event \<Rightarrow> 's \<Rightarrow> relay_error + ('s \<times> 'a option)) \<Rightarrow> ('s, 'a) relay_world \<Rightarrow> ('s, 'a) relay_world \<Rightarrow> bool" for run where
  pass: "re_run env = run \<Longrightarrow> relay_step run w (snd (run_outbox_relay_once env b locked now how w))"
| publish_event: "new_event e (wd_db w) \<Longrightarrow> relay_step run w (w\<lparr>wd_db := (wd_db w)\<lparr>rl_events := rl_events (wd_db w) @ [e]\<rparr>\<rparr>)"
| change_webhooks: "relay_step run w (w\<lparr>wd_db := (wd_db w)\<lparr>rl_webhooks := hooks\<rparr>\<rparr>)"
| replay_letter: "replay_dead_letter d i (wd_db w) = Inr (db', r) \<Longrightarrow> relay_step run w (w\<lparr>wd_db := db'\<rparr>)"
| store_letter: "store_dead_letter d i t j kw m n ns fp (wd_db w) = Inr (db', i') \<Longrightarrow> \<not> prefix ''outbox:'' t \<Longrightarrow> relay_step run w (w\<lparr>wd_db := db'\<rparr>)"
| purge_letter: "purge_dead_letter d i (wd_db w) = Inr db' \<Longrightarrow> relay_step run w (w\<lparr>wd_db := db'\<rparr>)"
| clock: "0 \<le> t \<Longrightarrow> relay_step run w (w\<lparr>wd_db := (wd_db w)\<lparr>dq_now := dq_now (wd_db w) + t\<rparr>\<rparr>)"

definition empty_outbox :: "'s \<Rightarrow> ('s, 'a) relay_world \<Rightarrow> bool" where
  "empty_outbox s0 w \<longleftrightarrow> rl_events (wd_db w) = [] \<and> rl_processed (wd_db w) = [] \<and> dq_rows (wd_db w) = [] \<and> rl_app (wd_db w) = s0"

lemma pass_inv:
  assumes "relay_inv (re_run env) s0 (wd_db w)"
  shows "relay_inv (re_run env) s0 (wd_db (snd (run_outbox_relay_once env b locked now how w)))"
proof -
  have "distinct (map oe_id (rl_events (wd_db w)))" using assms by (simp add: relay_inv_def)
  note poll = poll_outbox_facts [OF this, of b locked]
  let ?start = "\<lparr>rr_db = wd_db w, rr_actions = [], rr_delivered = 0, rr_drained = 0, rr_alerts = wd_alerts w\<rparr>"
  have "relay_inv (re_run env) s0 (rr_db st)" if "process_events env now (poll_outbox b locked (wd_db w)) ?start = (st, None)" for st
    using process_events_handled [of env s0 ?start, OF _ _ poll(2,3) that] assms poll(1) by simp
  then show ?thesis using assms
    by (auto simp: run_outbox_relay_once_def Let_def split: prod.splits option.splits ending.splits)
qed

text \<open>Operations on the dead letter queue leave the letters of an event as many as they are.\<close>

lemma letters_update_row:
  assumes "\<And>r. dl_job (f r) = dl_job r" and "\<And>r. dl_task (f r) = dl_task r"
  shows "length (letters e (update_row P f db)) = length (letters e db)"
    "map dl_job (filter (\<lambda>r. prefix ''outbox:'' (dl_task r)) (dq_rows (update_row P f db))) =
       map dl_job (filter (\<lambda>r. prefix ''outbox:'' (dl_task r)) (dq_rows db))"
proof -
  have "length (filter (\<lambda>r. dl_job r = a \<and> dl_task r = b) (map (\<lambda>r. if P r then f r else r) rs)) =
      length (filter (\<lambda>r. dl_job r = a \<and> dl_task r = b) rs)" for a b rs
    by (induction rs) (auto simp: assms)
  then show "length (letters e (update_row P f db)) = length (letters e db)" by (simp add: letters_def update_row_def)
  have "map dl_job (filter (\<lambda>r. prefix ''outbox:'' (dl_task r)) (map (\<lambda>r. if P r then f r else r) rs)) =
      map dl_job (filter (\<lambda>r. prefix ''outbox:'' (dl_task r)) rs)" for rs
    by (induction rs) (auto simp: assms)
  then show "map dl_job (filter (\<lambda>r. prefix ''outbox:'' (dl_task r)) (dq_rows (update_row P f db))) =
       map dl_job (filter (\<lambda>r. prefix ''outbox:'' (dl_task r)) (dq_rows db))" by (simp add: update_row_def)
qed

lemma update_row_relay_inv:
  assumes "relay_inv run s0 db" and "\<And>r. dl_job (f r) = dl_job r" and "\<And>r. dl_task (f r) = dl_task r"
  shows "relay_inv run s0 (update_row P f db)"
proof -
  have same: "rl_events (update_row P f db) = rl_events db" "rl_processed (update_row P f db) = rl_processed db"
    "rl_app (update_row P f db) = rl_app db" by (simp_all add: update_row_def)
  have len: "length (letters e (update_row P f db)) = length (letters e db)" for e
    using assms(2,3) by (rule letters_update_row(1))
  have "event_ok (update_row P f db) e \<longleftrightarrow> event_ok db e" for e
    using len [of e] by (simp only: event_ok_def same length_0_conv [symmetric])
  then show ?thesis
    using assms(1)
    by (simp only: relay_inv_def delivered_exactly_def same letters_update_row(2) [where f = f, OF assms(2,3)]) simp
qed

lemma letters_filter:
  "letters e db = filter (\<lambda>r. dl_job r = oe_id e \<and> dl_task r = ''outbox:'' @ oe_event_type e)
     (filter (\<lambda>r. prefix ''outbox:'' (dl_task r)) (dq_rows db))"
  unfolding letters_def filter_filter by (rule filter_cong) (auto simp del: append_Cons)

lemma no_letters:
  assumes "relay_inv run s0 db" and "oe_id e \<notin> set (map oe_id (rl_events db))"
  shows "letters e db = []"
proof -
  have "oe_id e \<notin> set (map dl_job (filter (\<lambda>r. prefix ''outbox:'' (dl_task r)) (dq_rows db)))"
    using assms unfolding relay_inv_def by blast
  then show ?thesis unfolding letters_filter filter_empty_conv by (auto simp: image_iff)
qed

lemma relay_inv_frame:
  assumes "relay_inv run s0 db" and "rl_events db' = rl_events db" and "rl_processed db' = rl_processed db" and "rl_app db' = rl_app db"
    and "filter (\<lambda>r. prefix ''outbox:'' (dl_task r)) (dq_rows db') = filter (\<lambda>r. prefix ''outbox:'' (dl_task r)) (dq_rows db)"
  shows "relay_inv run s0 db'"
proof -
  have "letters e db' = letters e db" for e by (simp only: letters_filter assms(5))
  then have "event_ok db' e \<longleftrightarrow> event_ok db e" for e using assms(3) by (simp add: event_ok_def)
  with assms show ?thesis by (simp only: relay_inv_def delivered_exactly_def) simp
qed

lemma relay_step_inv: "relay_step run w w' \<Longrightarrow> relay_inv run s0 (wd_db w) \<Longrightarrow> relay_inv run s0 (wd_db w')"
proof (induction rule: relay_step.induct)
  case (pass env w b locked now how)
  then show ?case using pass_inv [of env s0 w b locked now how] by simp
next
  case (publish_event e w)
  have "oe_id e \<notin> set (rl_processed (wd_db w))" "letters e (wd_db w) = []"
    using publish_event no_letters [of run s0 "wd_db w" e] by (auto simp: new_event_def relay_inv_def)
  then show ?case using publish_event
    by (auto simp: relay_inv_def new_event_def event_ok_def letters_def delivered_exactly_def MAX_OUTBOX_ATTEMPTS_def)
next
  case (change_webhooks w hooks)
  then show ?case by (rule relay_inv_frame) simp_all
next
  case (replay_letter d i w db' r)
  then show ?case by (auto dest!: replay_dead_letter_Inr intro!: update_row_relay_inv)
next
  case (store_letter d i t j kw m n ns fp w db' i')
  from store_letter(1) show ?case
    by (rule store_dead_letter_Inr) (use store_letter(2,3) in \<open>auto intro: relay_inv_frame\<close>)
next
  case (purge_letter d i w db')
  then show ?case by (auto dest!: purge_dead_letter_Inr intro!: update_row_relay_inv)
next
  case (clock t w)
  then show ?case by (auto intro: relay_inv_frame)
qed

interpretation relay: invariant_machine "empty_outbox s0" "relay_step run" "\<lambda>w. relay_inv run s0 (wd_db w)" for s0 run
proof
  fix w
  assume "empty_outbox s0 w"
  then show "relay_inv run s0 (wd_db w)"
    by (auto simp: relay_inv_def empty_outbox_def delivered_exactly_def intro!: exI [of _ "[]"])
qed (rule relay_step_inv)


section \<open>The outbox drains\<close>

text \<open>What a pass needs to write its dead letters: fresh ids, and namespaces that exist.\<close>

definition letters_insertable :: "('h, 's, 'a) relay_env \<Rightarrow> 's relay_db \<Rightarrow> bool" where
  "letters_insertable env db \<longleftrightarrow> (\<forall>ids. re_gen_uuid env ids \<notin> set ids) \<and> (\<forall>e \<in> set (rl_events db). oe_ns e \<in> set (dq_namespaces db))"

lemma moved_total:
  assumes "\<And>ids. re_gen_uuid env ids \<notin> set ids" and "oe_ns e \<in> set (dq_namespaces db)" and "0 \<le> oe_attempts e"
  shows "\<exists>db' al'. move_to_dead_letter_if_exhausted env now e msg (db, al) = Inr (db', al') \<and> dq_namespaces db' = dq_namespaces db"
  using assms(1) [of "map dl_id (dq_rows db)"] assms(2,3)
  by (auto simp: move_to_dead_letter_if_exhausted_def insert_dead_letter_def outbox_letter_def MAX_OUTBOX_ATTEMPTS_def)

lemma process_event_total:
  assumes "\<And>ids. re_gen_uuid env ids \<notin> set ids" and "oe_ns e \<in> set (dq_namespaces (rr_db st))" and "0 \<le> oe_attempts e"
  shows "\<exists>st'. process_event env now e st = (st', None) \<and> dq_namespaces (rr_db st') = dq_namespaces (rr_db st)"
proof (cases "deliver_one env e (rr_db st)")
  case (Inl exc)
  let ?al = "dispatch_throttled_alert now (''outbox.delivery_failed.'' @ oe_event_type e) (rr_alerts st)"
  have "\<exists>db' al'. move_to_dead_letter_if_exhausted env now (e\<lparr>oe_attempts := MAX_OUTBOX_ATTEMPTS - 1\<rparr>) (error_text exc)
      (mark_undeliverable (oe_id e) (error_text exc) (rr_db st), ?al) = Inr (db', al') \<and> dq_namespaces db' = dq_namespaces (rr_db st)"
    using moved_total [of env "e\<lparr>oe_attempts := MAX_OUTBOX_ATTEMPTS - 1\<rparr>" "mark_undeliverable (oe_id e) (error_text exc) (rr_db st)"] assms
    by (simp add: mark_undeliverable_def MAX_OUTBOX_ATTEMPTS_def)
  moreover have "\<exists>db' al'. move_to_dead_letter_if_exhausted env now e (error_text exc)
      (mark_failed (oe_id e) (error_text exc) (rr_db st), ?al) = Inr (db', al') \<and> dq_namespaces db' = dq_namespaces (rr_db st)"
    using moved_total [of env e "mark_failed (oe_id e) (error_text exc) (rr_db st)"] assms by (simp add: mark_failed_def)
  ultimately show ?thesis using Inl by (cases exc) (auto simp: process_event_def fail_event_def Let_def)
next
  case (Inr p)
  then have "dq_namespaces (fst p) = dq_namespaces (rr_db st)"
    by (auto simp: deliver_one_def Let_def and_then_eq_Inr split: if_splits)
  with Inr show ?thesis by (cases p) (auto simp: process_event_def mark_published_def split: delivery.splits)
qed

lemma process_events_total:
  assumes "\<And>ids. re_gen_uuid env ids \<notin> set ids" and "list_all (\<lambda>e. oe_ns e \<in> set (dq_namespaces (rr_db st)) \<and> 0 \<le> oe_attempts e) es"
  shows "\<exists>st'. process_events env now es st = (st', None) \<and> dq_namespaces (rr_db st') = dq_namespaces (rr_db st)"
  using assms(2)
proof (induction es arbitrary: st)
  case (Cons e es)
  then obtain st1 where "process_event env now e st = (st1, None)" "dq_namespaces (rr_db st1) = dq_namespaces (rr_db st)"
    using process_event_total [OF assms(1), of e st now] by auto
  with Cons.prems Cons.IH [of st1] show ?case by simp
qed simp

definition all_tried :: "int \<Rightarrow> 's relay_db \<Rightarrow> bool" where
  "all_tried k db \<longleftrightarrow> (\<forall>e \<in> set (rl_events db). is_pending e \<longrightarrow> k \<le> oe_attempts e)"

lemma poll_everything:
  assumes "length (rl_events db) \<le> b"
  shows "set (poll_outbox b [] db) = {e \<in> set (rl_events db). is_pending e}"
proof -
  have "length (sort_key oe_created (filter (\<lambda>e. is_pending e \<and> oe_id e \<notin> set []) (rl_events db))) \<le> b"
    using assms length_filter_le [of "\<lambda>e. is_pending e \<and> oe_id e \<notin> set []" "rl_events db"] by (simp del: length_filter_le)
  then show ?thesis unfolding poll_outbox_def by simp
qed

text \<open>A completed pass that can poll everything brings every waiting event one attempt further.\<close>

lemma full_pass:
  assumes inv: "relay_inv (re_run env) s0 (wd_db w)" and ins: "letters_insertable env (wd_db w)"
    and b: "length (rl_events (wd_db w)) \<le> b" and k: "all_tried k (wd_db w)"
    and w': "w' = snd (run_outbox_relay_once env b [] now Completes w)"
  shows "relay_inv (re_run env) s0 (wd_db w') \<and> letters_insertable env (wd_db w') \<and>
    map oe_id (rl_events (wd_db w')) = map oe_id (rl_events (wd_db w)) \<and> all_tried (k + 1) (wd_db w')"
proof -
  let ?es = "poll_outbox b [] (wd_db w)"
  let ?start = "\<lparr>rr_db = wd_db w, rr_actions = [], rr_delivered = 0, rr_drained = 0, rr_alerts = wd_alerts w\<rparr>"
  have dist: "distinct (map oe_id (rl_events (wd_db w)))" using inv by (simp add: relay_inv_def)
  note poll = poll_outbox_facts [OF dist, of b "[]"] poll_everything [OF b]
  have "list_all (\<lambda>e. oe_ns e \<in> set (dq_namespaces (rr_db ?start)) \<and> 0 \<le> oe_attempts e) ?es"
    using ins inv poll(1) by (auto simp: letters_insertable_def relay_inv_def event_ok_def list_all_iff)
  then obtain st where st: "process_events env now ?es ?start = (st, None)" "dq_namespaces (rr_db st) = dq_namespaces (wd_db w)"
    using process_events_total [of env ?start ?es now] ins by (auto simp: letters_insertable_def)
  have db': "wd_db w' = rr_db st" using st(1) by (simp add: w' run_outbox_relay_once_def)
  note h = process_events_handled [of env s0 ?start, OF _ _ poll(2,3) st(1)]
  have "k + 1 \<le> oe_attempts x" if x: "x \<in> set (rl_events (rr_db st))" "is_pending x" for x
  proof -
    have "oe_id x \<in> set (map oe_id (rl_events (wd_db w)))" using h inv poll(1) x(1) by (metis image_eqI list.set_map relay_run.select_convs(1))
    then obtain e where e: "e \<in> set (rl_events (wd_db w))" "oe_id e = oe_id x" by auto
    have dist': "distinct (map oe_id (rl_events (rr_db st)))" using h inv poll(1) dist by simp
    show ?thesis
    proof (cases "is_pending e")
      case True
      then have "e \<in> set ?es" using e(1) poll(4) by simp
      then obtain e' where e': "e' \<in> set (rl_events (rr_db st))" "oe_id e' = oe_id e" "oe_published e' \<noteq> None \<or> oe_attempts e < oe_attempts e'"
        using h inv poll(1) by fastforce
      then have "e' = x" using unique_event [OF dist' x(1)] e(2) by simp
      then show ?thesis using e' x(2) k e(1) True by (auto simp: is_pending_def all_tried_def)
    next
      case False
      then have "oe_id e \<notin> oe_id ` set ?es" using unique_event [OF dist e(1)] poll(4) by auto
      then have "e \<in> set (rl_events (rr_db st))" using h inv poll(1) e(1) by simp
      then show ?thesis using unique_event [OF dist' x(1)] e(2) x(2) False by blast
    qed
  qed
  moreover have "letters_insertable env (rr_db st)" using h inv poll(1) ins st(2) by (auto simp: letters_insertable_def subset_iff image_iff)
  ultimately show ?thesis unfolding db' using h inv poll(1) by (simp add: all_tried_def)
qed

lemma full_passes:
  assumes "relay_inv (re_run env) s0 (wd_db w)" and "letters_insertable env (wd_db w)"
    and "length (rl_events (wd_db w)) \<le> b" and "all_tried k (wd_db w)"
    and "w' = fold (\<lambda>now w. snd (run_outbox_relay_once env b [] now Completes w)) nows w"
  shows "relay_inv (re_run env) s0 (wd_db w') \<and> map oe_id (rl_events (wd_db w')) = map oe_id (rl_events (wd_db w)) \<and>
    all_tried (k + int (length nows)) (wd_db w')"
  using assms
proof (induction nows arbitrary: w k)
  case (Cons now nows)
  let ?w1 = "snd (run_outbox_relay_once env b [] now Completes w)"
  have one: "relay_inv (re_run env) s0 (wd_db ?w1)" "letters_insertable env (wd_db ?w1)"
    "map oe_id (rl_events (wd_db ?w1)) = map oe_id (rl_events (wd_db w))" "all_tried (k + 1) (wd_db ?w1)"
    using full_pass [OF Cons.prems(1-4) refl] by auto
  have "length (rl_events (wd_db ?w1)) \<le> b" using one(3) Cons.prems(3) by (metis length_map)
  then have "relay_inv (re_run env) s0 (wd_db w') \<and> map oe_id (rl_events (wd_db w')) = map oe_id (rl_events (wd_db ?w1)) \<and>
      all_tried (k + 1 + int (length nows)) (wd_db w')"
    using Cons.IH [OF one(1,2) _ one(4)] Cons.prems(5) by simp
  then show ?case using one(3) by (simp add: algebra_simps)
qed simp

text \<open>C38: The outbox drains: from any reachable state, five completed passes whose batch covers the table leave every
  event that was there either published or in the dead letter queue, whatever the handlers do.\<close>

theorem outbox_drains:
  assumes "reachable_from (empty_outbox s0) (relay_step (re_run env)) w" and "letters_insertable env (wd_db w)"
    and "length (rl_events (wd_db w)) \<le> b" and "5 \<le> length nows"
    and "w' = fold (\<lambda>now w. snd (run_outbox_relay_once env b [] now Completes w)) nows w"
  shows "map oe_id (rl_events (wd_db w')) = map oe_id (rl_events (wd_db w)) \<and>
    list_all (\<lambda>e. oe_published e \<noteq> None \<or> length (letters e (wd_db w')) = 1) (rl_events (wd_db w'))"
proof -
  have inv: "relay_inv (re_run env) s0 (wd_db w)" using assms(1) by (rule relay.reachable_inv)
  then have "all_tried 0 (wd_db w)" by (auto simp: relay_inv_def event_ok_def all_tried_def)
  then have end_state: "relay_inv (re_run env) s0 (wd_db w')" "map oe_id (rl_events (wd_db w')) = map oe_id (rl_events (wd_db w))"
    "all_tried (int (length nows)) (wd_db w')"
    using full_passes [OF inv assms(2,3) _ assms(5), of 0] by auto
  have "oe_published e \<noteq> None \<or> length (letters e (wd_db w')) = 1" if e: "e \<in> set (rl_events (wd_db w'))" for e
  proof -
    have "event_ok (wd_db w') e" using end_state(1) e by (simp add: relay_inv_def)
    moreover have "\<not> is_pending e"
      using end_state(3) e assms(4) by (auto simp: all_tried_def is_pending_def MAX_OUTBOX_ATTEMPTS_def)
    ultimately show ?thesis by (cases "oe_published e") (auto simp: event_ok_def is_pending_def)
  qed
  then show ?thesis using end_state(2) by (simp add: list_all_iff)
qed

section \<open>A concrete outbox\<close>

text \<open>Two handlers: one records the event and asks for an action, one always fails.\<close>

fun sample_handler :: "string \<Rightarrow> outbox_event \<Rightarrow> string list \<Rightarrow> relay_error + (string list \<times> string option)" where
  "sample_handler h e s = (if h = ''record'' then Inr (s @ [oe_id e], Some (oe_id e)) else Inl (HandlerError ''RuntimeError'' ''no''))"

definition sample_relay :: "(string, string list, string) relay_env" where
  "sample_relay = \<lparr>re_handlers = [(''memory.stored'', [''record'']), (''a.b'', [''record'', ''fail''])], re_run = sample_handler,
     re_isoformat = (\<lambda>_. []), re_gen_uuid = (\<lambda>ids. CHR ''u'' # concat ids)\<rparr>"

definition sample_outbox_event :: "string \<Rightarrow> string \<Rightarrow> int \<Rightarrow> outbox_event" where
  "sample_outbox_event i t c = \<lparr>oe_id = i, oe_ns = ''n'', oe_aggregate_type = ''x'', oe_aggregate_id = ''y'', oe_event_type = t, oe_payload = JNull,
     oe_headers = JNull, oe_attempts = 0, oe_error = None, oe_created = c, oe_published = None\<rparr>"

definition outbox_with :: "outbox_event list \<Rightarrow> (string list, string) relay_world" where
  "outbox_with es = \<lparr>wd_db = \<lparr>dq_rows = [], dq_namespaces = [''n''], dq_now = 9, rl_events = es, rl_processed = [], rl_webhooks = [], rl_app = []\<rparr>,
     wd_fired = [], wd_alerts = \<lparr>al_cache = [], al_sent = []\<rparr>\<rparr>"

definition sample_outbox :: "(string list, string) relay_world" where
  "sample_outbox = outbox_with [sample_outbox_event ''e1'' ''a.b'' 1, sample_outbox_event ''e2'' ''memory.stored'' 2, sample_outbox_event ''e3'' ''p.q'' 3]"

lemma outbox_with_reachable:
  assumes "distinct (map oe_id es)" and "list_all (\<lambda>e. \<exists>i t c. e = sample_outbox_event i t c) es"
  shows "reachable_from (empty_outbox []) (relay_step run) (outbox_with es)"
  using assms
proof (induction es rule: rev_induct)
  case Nil
  show ?case by (rule reach_init) (simp add: empty_outbox_def outbox_with_def)
next
  case (snoc e es)
  have "relay_step run (outbox_with es) ((outbox_with es)\<lparr>wd_db := (wd_db (outbox_with es))\<lparr>rl_events := rl_events (wd_db (outbox_with es)) @ [e]\<rparr>\<rparr>)"
    using snoc.prems by (intro publish_event) (auto simp: new_event_def outbox_with_def sample_outbox_event_def)
  moreover have "(outbox_with es)\<lparr>wd_db := (wd_db (outbox_with es))\<lparr>rl_events := rl_events (wd_db (outbox_with es)) @ [e]\<rparr>\<rparr> = outbox_with (es @ [e])"
    by (simp add: outbox_with_def)
  ultimately show ?case using snoc by (auto intro: reach_step)
qed

lemma sample_outbox_reachable: "reachable_from (empty_outbox []) (relay_step sample_handler) sample_outbox"
  unfolding sample_outbox_def by (rule outbox_with_reachable) (auto simp: sample_outbox_event_def)

lemma fresh_id: "CHR ''u'' # concat ids \<notin> set ids"
proof -
  have "length x \<le> length (concat ids)" if "x \<in> set ids" for x using that by (induction ids) auto
  then show ?thesis by fastforce
qed

lemma sample_insertable: "letters_insertable sample_relay (wd_db sample_outbox)"
  using fresh_id by (simp add: letters_insertable_def sample_relay_def sample_outbox_def outbox_with_def sample_outbox_event_def)

theorem outbox_drains_witness:
  "list_all (\<lambda>e. oe_published e \<noteq> None \<or>
     length (letters e (wd_db (fold (\<lambda>now w. snd (run_outbox_relay_once sample_relay 3 [] now Completes w)) [1, 2, 3, 4, 5] sample_outbox))) = 1)
     (rl_events (wd_db (fold (\<lambda>now w. snd (run_outbox_relay_once sample_relay 3 [] now Completes w)) [1, 2, 3, 4, 5] sample_outbox)))"
proof -
  have run: "re_run sample_relay = sample_handler" by (simp add: sample_relay_def)
  show ?thesis
    using outbox_drains [OF _ sample_insertable, of "[]" 3 "[1, 2, 3, 4, 5]", OF _ _ _ refl]
    by (simp add: run sample_outbox_reachable) (simp add: sample_outbox_def outbox_with_def)
qed


section \<open>What the relay does not promise\<close>

text \<open>A pass over an outbox without waiting events changes nothing and fires nothing.\<close>

lemma idle_pass:
  assumes "list_all (\<lambda>e. \<not> is_pending e) (rl_events (wd_db w))"
  shows "snd (run_outbox_relay_once env b locked now how w) = w"
proof -
  have "filter (\<lambda>e. is_pending e \<and> oe_id e \<notin> set locked) (rl_events (wd_db w)) = []"
    using assms by (auto simp: list_all_iff filter_empty_conv)
  then show ?thesis by (auto simp: run_outbox_relay_once_def poll_outbox_def Let_def split: ending.splits)
qed

text \<open>The effects on the database are exactly once, the post-commit actions are at most once: when the process dies
  after the commit and before the actions, and the pass settled every event, no later pass of any process ever
  fires one of them, although the events are marked published.\<close>

theorem actions_lost_after_commit:
  assumes "w' = snd (run_outbox_relay_once env b locked now (DiesAfter 0) w)" and "list_all (\<lambda>e. \<not> is_pending e) (rl_events (wd_db w'))"
  shows "wd_fired (fold (\<lambda>(env, b, locked, now, how) w. snd (run_outbox_relay_once env b locked now how w)) passes w') = wd_fired w"
proof -
  have "wd_fired w' = wd_fired w"
    unfolding assms(1) by (auto simp: run_outbox_relay_once_def Let_def split: prod.splits option.splits)
  moreover have "fold (\<lambda>(env, b, locked, now, how) w. snd (run_outbox_relay_once env b locked now how w)) passes w' = w'"
    by (induction passes) (auto simp: idle_pass [OF assms(2)])
  ultimately show ?thesis by simp
qed

definition one_event :: "(string list, string) relay_world" where
  "one_event = outbox_with [sample_outbox_event ''e2'' ''memory.stored'' 2]"

lemma one_event_pass:
  "snd (run_outbox_relay_once sample_relay 5 [] 1000 (DiesAfter 0) one_event) =
     one_event\<lparr>wd_db := (wd_db one_event)\<lparr>rl_events := [(sample_outbox_event ''e2'' ''memory.stored'' 2)\<lparr>oe_published := Some 9\<rparr>],
       rl_processed := [''e2''], rl_app := [''e2'']\<rparr>\<rparr>"
  by (simp add: run_outbox_relay_once_def poll_outbox_def is_pending_def one_event_def outbox_with_def sample_outbox_event_def
      MAX_OUTBOX_ATTEMPTS_def process_event_def deliver_one_def sample_relay_def dict_getd_def get_matching_webhooks_def Let_def
      mark_published_def update_event_def)

theorem actions_lost_after_commit_witness:
  "rl_app (wd_db (snd (run_outbox_relay_once sample_relay 5 [] 1000 (DiesAfter 0) one_event))) = [''e2''] \<and>
   wd_fired (fold (\<lambda>(env, b, locked, now, how) w. snd (run_outbox_relay_once env b locked now how w))
     (replicate 3 (sample_relay, 5, [], 2000, Completes)) (snd (run_outbox_relay_once sample_relay 5 [] 1000 (DiesAfter 0) one_event))) = []"
proof
  show "rl_app (wd_db (snd (run_outbox_relay_once sample_relay 5 [] 1000 (DiesAfter 0) one_event))) = [''e2'']"
    by (simp add: one_event_pass)
  have "list_all (\<lambda>e. \<not> is_pending e) (rl_events (wd_db (snd (run_outbox_relay_once sample_relay 5 [] 1000 (DiesAfter 0) one_event))))"
    by (simp add: one_event_pass is_pending_def)
  from actions_lost_after_commit [OF refl this, of "replicate 3 (sample_relay, 5, [], 2000, Completes)"]
  show "wd_fired (fold (\<lambda>(env, b, locked, now, how) w. snd (run_outbox_relay_once env b locked now how w))
     (replicate 3 (sample_relay, 5, [], 2000, Completes)) (snd (run_outbox_relay_once sample_relay 5 [] 1000 (DiesAfter 0) one_event))) = []"
    by (simp add: one_event_def outbox_with_def)
qed

text \<open>Delivery is not ordered: an event whose handler fails is overtaken by the later ones of the same batch.\<close>

lemma later_event_overtakes:
  "map (\<lambda>e. (oe_id e, oe_published e = None, oe_attempts e))
     (rl_events (wd_db (snd (run_outbox_relay_once sample_relay 5 [] 1000 Completes
        (outbox_with [sample_outbox_event ''e1'' ''a.b'' 1, sample_outbox_event ''e2'' ''memory.stored'' 2]))))) =
   [(''e1'', True, 1), (''e2'', False, 0)]"
  by (simp add: run_outbox_relay_once_def poll_outbox_def is_pending_def outbox_with_def sample_outbox_event_def
      MAX_OUTBOX_ATTEMPTS_def process_event_def deliver_one_def sample_relay_def dict_getd_def get_matching_webhooks_def Let_def
      mark_published_def update_event_def fail_event_def move_to_dead_letter_if_exhausted_def mark_failed_def)

section \<open>Events without subscribers, and alerts\<close>

text \<open>Fail closed: an event is acknowledged without a handler or a webhook only when the catalogue lists its selector
  with no consumers; one with declared consumers, or one that is not catalogued, is an error.\<close>

lemma unsubscribed_events:
  assumes "dict_getd (re_handlers env) (oe_event_type e) [] = []" and "get_matching_webhooks (oe_ns e) (oe_event_type e) (rl_webhooks db) = []"
  shows "(\<exists>r. deliver_one env e db = Inr r) \<longleftrightarrow>
    (\<exists>c. get_contract (oe_event_type e) = Some c \<and> ec_status c \<notin> {''ACTIVE'', ''UNPRODUCED''})"
  using assms get_contract_coherent [of "oe_event_type e"]
  by (cases "get_contract (oe_event_type e)") (auto simp: deliver_one_def declared_unconsumed_def coherent_def Let_def)

definition sent_times :: "string \<Rightarrow> alert_state \<Rightarrow> real list" where
  "sent_times key al = map fst (filter (\<lambda>(t, k). k = key) (al_sent al))"

definition throttled :: "alert_state \<Rightarrow> bool" where
  "throttled al \<longleftrightarrow> (\<forall>key. successively (\<lambda>a b. THROTTLE_WINDOW_SECONDS \<le> b - a) (sent_times key al) \<and>
     (sent_times key al \<noteq> [] \<longrightarrow> dict_get (al_cache al) key = Some (last (sent_times key al))))"

lemma dispatch_throttled: "throttled al \<Longrightarrow> throttled (dispatch_throttled_alert now key al)"
  by (auto simp: throttled_def dispatch_throttled_alert_def sent_times_def successively_append_iff dict_getd_def)

lemma process_event_throttled: "throttled (rr_alerts st) \<Longrightarrow> throttled (rr_alerts (fst (process_event env now e st)))"
  by (auto simp: process_event_def fail_event_def Let_def move_to_dead_letter_if_exhausted_def and_then_eq_Inr
      intro: dispatch_throttled split: sum.splits delivery.splits relay_error.splits if_splits)

lemma process_events_throttled: "throttled (rr_alerts st) \<Longrightarrow> throttled (rr_alerts (fst (process_events env now es st)))"
proof (induction es arbitrary: st)
  case (Cons e es)
  then show ?case using process_event_throttled [of st env now e] by (auto split: prod.splits option.splits)
qed simp

text \<open>The operators are not flooded: over any passes, two alerts with the same key are at least five minutes apart.\<close>

lemma alerts_throttled:
  assumes "throttled (wd_alerts w)"
  shows "throttled (wd_alerts (snd (run_outbox_relay_once env b locked now how w)))"
proof -
  have "throttled (rr_alerts st)" if "process_events env now es \<lparr>rr_db = wd_db w, rr_actions = [], rr_delivered = 0, rr_drained = 0, rr_alerts = wd_alerts w\<rparr> = (st, r)" for es st r
    using process_events_throttled [of "\<lparr>rr_db = wd_db w, rr_actions = [], rr_delivered = 0, rr_drained = 0, rr_alerts = wd_alerts w\<rparr>" env now es] that assms by simp
  then show ?thesis by (auto simp: run_outbox_relay_once_def Let_def split: prod.splits option.splits ending.splits)
qed

end
