(* ===== verification/AtmsSearch.thy ===== *)
theory AtmsSearch
  imports Atms
begin

text \<open>
  Correctness of the proof search of \<open>Atms\<close>: well-founded support, its path-avoiding form, and the
  theorem that the stack machine returns for every engine and decides support.
\<close>

section \<open>Well-founded support\<close>

text \<open>
  \<open>supported e F P n\<close>: node \<open>n\<close> has a well-founded derivation that uses no node of \<open>F\<close> (nodes known
  to fail) and no derived node of \<open>P\<close> (the active path). \<open>believed e n\<close> is the unrestricted form,
  the specification of the engine.
\<close>

inductive supported :: "ATMSEngine \<Rightarrow> string set \<Rightarrow> string set \<Rightarrow> string \<Rightarrow> bool"
  for e :: ATMSEngine and F :: "string set" and P :: "string set" where
  supp_premise: "node_of e n = Some nd \<Longrightarrow> node_type nd = PREMISE \<Longrightarrow> n \<notin> F \<Longrightarrow> supported e F P n"
| supp_assumption: "node_of e n = Some nd \<Longrightarrow> node_type nd = ASSUMPTION \<Longrightarrow> is_valid nd \<Longrightarrow> n \<notin> F \<Longrightarrow>
     supported e F P n"
| supp_derived: "node_of e n = Some nd \<Longrightarrow> node_type nd = DERIVED \<Longrightarrow> n \<notin> F \<Longrightarrow> n \<notin> P \<Longrightarrow>
     j \<in> set (justifications nd) \<Longrightarrow> (\<And>a. a \<in> set (antecedents j) \<Longrightarrow> supported e F P a) \<Longrightarrow>
     supported e F P n"

definition believed :: "ATMSEngine \<Rightarrow> string \<Rightarrow> bool" where
  "believed e n = supported e {} {} n"

text \<open>The same with a bound on the height of the derivation, as an executable function.\<close>

fun supported_within :: "nat \<Rightarrow> ATMSEngine \<Rightarrow> string set \<Rightarrow> string set \<Rightarrow> string \<Rightarrow> bool" where
  "supported_within 0 e F P n = False"
| "supported_within (Suc k) e F P n =
     (n \<notin> F \<and>
      (case node_of e n of
         None \<Rightarrow> False
       | Some nd \<Rightarrow>
           (case node_type nd of
              PREMISE \<Rightarrow> True
            | ASSUMPTION \<Rightarrow> is_valid nd
            | DERIVED \<Rightarrow> n \<notin> P \<and>
                (\<exists>j\<in>set (justifications nd). \<forall>a\<in>set (antecedents j). supported_within k e F P a))))"

lemma supported_within_mono:
  "supported_within k e F P n \<Longrightarrow> k \<le> k' \<Longrightarrow> supported_within k' e F P n"
proof (induction k arbitrary: k' n)
  case (Suc k)
  then obtain l where k': "k' = Suc l" and "k \<le> l" by (cases k') auto
  with Suc.IH have "\<And>a. supported_within k e F P a \<Longrightarrow> supported_within l e F P a" by blast
  with Suc.prems(1) show ?case
    by (auto simp: k' split: option.splits ATMSNodeType.splits)
qed simp

lemma supported_within_sound: "supported_within k e F P n \<Longrightarrow> supported e F P n"
proof (induction k arbitrary: n)
  case (Suc k)
  then show ?case
    by (auto split: option.splits ATMSNodeType.splits intro: supported.intros)
qed simp

lemma supported_within_complete: "supported e F P n \<Longrightarrow> \<exists>k. supported_within k e F P n"
proof (induction rule: supported.induct)
  case (supp_premise n nd)
  then have "supported_within 1 e F P n" by simp
  then show ?case by blast
next
  case (supp_assumption n nd)
  then have "supported_within 1 e F P n" by simp
  then show ?case by blast
next
  case (supp_derived n nd j)
  then obtain h where h: "\<And>a. a \<in> set (antecedents j) \<Longrightarrow> supported_within (h a) e F P a"
    by metis
  define k where "k = Max (insert 0 (h ` set (antecedents j)))"
  have "supported_within k e F P a" if "a \<in> set (antecedents j)" for a
    using h [OF that] supported_within_mono that by (fastforce simp: k_def)
  with supp_derived have "supported_within (Suc k) e F P n" by auto
  then show ?case by blast
qed

lemma supported_iff_within: "supported e F P n \<longleftrightarrow> (\<exists>k. supported_within k e F P n)"
  using supported_within_sound supported_within_complete by blast

lemma supported_antimono:
  "supported e F P n \<Longrightarrow> F' \<subseteq> F \<Longrightarrow> P' \<subseteq> P \<Longrightarrow> supported e F' P' n"
  by (induction rule: supported.induct) (blast intro: supported.intros)+

text \<open>Nodes above a minimal derivation of \<open>n\<close> do not need \<open>n\<close>, so circular arguments are never needed.\<close>

lemma supported_within_avoid:
  "supported_within k e F P a \<Longrightarrow> \<not> supported_within k e F P n \<Longrightarrow>
     supported_within k e F (insert n P) a"
proof (induction k arbitrary: a)
  case (Suc k)
  have n: "\<not> supported_within k e F P n"
    using Suc.prems(2) supported_within_mono [of k e F P n "Suc k"] by auto
  have "a \<noteq> n" using Suc.prems by auto
  with Suc.prems(1) Suc.IH [OF _ n] show ?case
    by (fastforce split: option.splits ATMSNodeType.splits)
qed simp

lemma supported_derived_avoid:
  assumes nd: "node_of e n = Some nd" and der: "node_type nd = DERIVED"
    and supp: "supported e F P n"
  shows "\<exists>j\<in>set (justifications nd). \<forall>a\<in>set (antecedents j). supported e F (insert n P) a"
proof -
  define k where "k = (LEAST k. supported_within k e F P n)"
  from supp have k: "supported_within k e F P n"
    unfolding k_def supported_iff_within by (rule LeastI_ex)
  then obtain l where l: "k = Suc l" by (cases k) auto
  have below: "\<not> supported_within l e F P n"
    using not_less_Least [of l "\<lambda>k. supported_within k e F P n"] l by (simp add: k_def)
  from k nd der obtain j where "j \<in> set (justifications nd)"
    and "\<forall>a\<in>set (antecedents j). supported_within l e F P a"
    by (auto simp: l)
  with supported_within_avoid [OF _ below] show ?thesis
    by (meson supported_within_sound)
qed

lemma supported_derived_iff:
  assumes "node_of e n = Some nd" and "node_type nd = DERIVED" and "n \<notin> F" and "n \<notin> P"
  shows "supported e F P n \<longleftrightarrow>
    (\<exists>j\<in>set (justifications nd). \<forall>a\<in>set (antecedents j). supported e F (insert n P) a)"
    (is "?L \<longleftrightarrow> ?R")
proof
  assume ?R
  then obtain j where "j \<in> set (justifications nd)"
    and "\<forall>a\<in>set (antecedents j). supported e F (insert n P) a" by blast
  then have "\<forall>a\<in>set (antecedents j). supported e F P a"
    using supported_antimono [of e F "insert n P" _ F P] by blast
  with \<open>j \<in> _\<close> assms show ?L by (blast intro: supp_derived)
next
  assume ?L
  with assms supported_derived_avoid show ?R by blast
qed

inductive_cases supportedE: "supported e F P n"

lemma supported_known: "supported e F P n \<Longrightarrow> n \<notin> F \<and> node_of e n \<noteq> None"
  by (auto elim: supportedE)

text \<open>Adding nodes without support to the failed set changes nothing.\<close>

lemma supported_grow_failed:
  assumes "supported e F P n" and "\<And>x. x \<in> G \<Longrightarrow> \<not> supported e F P x"
  shows "supported e (F \<union> G) P n"
  using assms(1)
proof (induction rule: supported.induct)
  case (supp_premise n nd)
  moreover have "n \<notin> G" using assms(2) supp_premise supported.supp_premise by blast
  ultimately show ?case by (auto intro: supported.supp_premise)
next
  case (supp_assumption n nd)
  moreover have "n \<notin> G" using assms(2) supp_assumption supported.supp_assumption by blast
  ultimately show ?case by (auto intro: supported.supp_assumption)
next
  case (supp_derived n nd j)
  then have "supported e F P n" by (blast intro: supported.supp_derived)
  then have "n \<notin> F \<union> G" using assms(2) supp_derived by blast
  with supp_derived show ?case by (blast intro: supported.supp_derived)
qed

lemma supported_failed_eq:
  assumes "F \<subseteq> F'" and "\<And>x. x \<in> F' \<Longrightarrow> \<not> supported e F P x"
  shows "supported e F' P n = supported e F P n"
proof
  assume "supported e F' P n"
  then show "supported e F P n" using assms(1) by (rule supported_antimono) simp
next
  assume "supported e F P n"
  then have "supported e (F \<union> F') P n" using assms(2) by (rule supported_grow_failed)
  moreover have "F \<union> F' = F'" using assms(1) by blast
  ultimately show "supported e F' P n" by simp
qed

text \<open>Support reads only the node table's types, assumption flags and justifications.\<close>

definition support_view :: "ATMSEngine \<Rightarrow> string \<Rightarrow> (ATMSNodeType \<times> Justification list \<times> bool) option" where
  "support_view e n = map_option (\<lambda>nd. (node_type nd, justifications nd,
     node_type nd = ASSUMPTION \<and> is_valid nd)) (node_of e n)"

definition same_support :: "ATMSEngine \<Rightarrow> ATMSEngine \<Rightarrow> bool" where
  "same_support e e' = (support_view e = support_view e')"

lemma same_support_refl [simp, intro]: "same_support e e"
  by (simp add: same_support_def)

lemma same_support_sym: "same_support e e' \<Longrightarrow> same_support e' e"
  by (simp add: same_support_def)

lemma same_support_trans: "same_support e e' \<Longrightarrow> same_support e' e'' \<Longrightarrow> same_support e e''"
  by (simp add: same_support_def)

lemma same_support_put:
  assumes "node_of e n = Some nd" and "node_type nd' = node_type nd"
    and "justifications nd' = justifications nd"
    and "node_type nd = ASSUMPTION \<Longrightarrow> is_valid nd' = is_valid nd"
  shows "same_support e (put_node n nd' e)"
  using assms by (auto simp: same_support_def support_view_def fun_eq_iff)

lemma same_support_node:
  assumes "same_support e e'" and "node_of e n = Some nd"
  obtains nd' where "node_of e' n = Some nd'" "node_type nd' = node_type nd"
    "justifications nd' = justifications nd" "node_type nd = ASSUMPTION \<Longrightarrow> is_valid nd' = is_valid nd"
proof -
  from assms have "support_view e' n = support_view e n" by (simp add: same_support_def)
  with assms(2) show ?thesis by (auto simp: support_view_def intro: that)
qed

lemma supported_same_support: "supported e F P n \<Longrightarrow> same_support e e' \<Longrightarrow> supported e' F P n"
proof (induction rule: supported.induct)
  case (supp_premise n nd)
  then show ?case by (auto elim!: same_support_node intro: supported.supp_premise)
next
  case (supp_assumption n nd)
  then show ?case by (auto elim!: same_support_node intro: supported.supp_assumption)
next
  case (supp_derived n nd j)
  from supp_derived.prems supp_derived.hyps(1) show ?case
    by (rule same_support_node) (use supp_derived in \<open>auto intro: supported.supp_derived\<close>)
qed

lemma same_support_eq: "same_support e e' \<Longrightarrow> supported e F P n = supported e' F P n"
  using supported_same_support same_support_sym by blast

section \<open>The stack machine decides support\<close>

definition failed :: "memo option \<Rightarrow> string set" where
  "failed m = {n. memo_lookup m n = Some False}"

lemma leaf_decided:
  assumes "leaf e m a P = (True, v)" and "P \<noteq> {}"
  shows "v = supported e (failed m) P a"
proof (cases "a \<in> failed m")
  case True
  then have "\<not> supported e (failed m) P a" by (auto dest: supported_known)
  with True assms show ?thesis by (auto simp: leaf_def failed_def)
next
  case False
  with assms have "leaf_node e a P = (True, v)"
    by (auto simp: leaf_def failed_def split: option.splits if_splits)
  with False show ?thesis
    by (auto simp: leaf_node_def elim: supportedE intro: supported.intros
        split: option.splits ATMSNodeType.splits if_splits)
qed

lemma leaf_undecided:
  assumes "leaf e m a P = (False, v)"
  shows "a \<notin> failed m \<and> a \<notin> P \<and> (\<exists>nd. node_of e a = Some nd \<and> node_type nd = DERIVED)"
  using assms by (auto simp: leaf_def leaf_node_def failed_def
      split: option.splits ATMSNodeType.splits if_splits)

text \<open>What a frame still has to find out, and the memo table after it is popped.\<close>

definition justified :: "ATMSEngine \<Rightarrow> string set \<Rightarrow> string set \<Rightarrow> string list \<Rightarrow> bool" where
  "justified e F P ants = (\<forall>a\<in>set ants. supported e F P a)"

definition pending :: "ATMSEngine \<Rightarrow> string set \<Rightarrow> frame \<Rightarrow> bool" where
  "pending e F f =
     (let js = justs_of e (fr_nid f); i = fr_just_idx f in
      i < length js \<and>
      (justified e F (fr_path f) (drop (fr_ant_idx f) (fr_ants f)) \<or>
       (\<exists>j\<in>set (drop (Suc i) js). justified e F (fr_path f) (antecedents j))))"

definition memo_done :: "frame \<Rightarrow> bool \<Rightarrow> memo option \<Rightarrow> memo option" where
  "memo_done f v m =
     map_option (\<lambda>t. if fr_path f = {fr_nid f} then t(fr_nid f \<mapsto> v) else t) m"

definition frame_ok :: "ATMSEngine \<Rightarrow> frame \<Rightarrow> bool" where
  "frame_ok e f =
     (let js = justs_of e (fr_nid f) in
      node_of e (fr_nid f) \<noteq> None \<and> fr_nid f \<in> fr_path f \<and> fr_ant_ok f \<and> \<not> fr_found f \<and>
      fr_ants f = (if fr_just_idx f < length js then antecedents (js ! fr_just_idx f) else []))"

lemma next_just_frame:
  "fr_path (next_just js f) = fr_path f" "fr_nid (next_just js f) = fr_nid f"
  "fr_just_idx (next_just js f) = Suc (fr_just_idx f)"
  by (simp_all add: next_just_def Let_def)

lemma memo_done_frame: "fr_path g = fr_path f \<Longrightarrow> fr_nid g = fr_nid f \<Longrightarrow> memo_done g = memo_done f"
  unfolding memo_done_def fun_eq_iff by (simp only: simp_thms)

lemma memo_done_moves [simp]:
  "memo_done (f\<lparr>fr_ant_idx := i\<rparr>) = memo_done f" "memo_done (next_just js f) = memo_done f"
  by (rule memo_done_frame; simp add: next_just_frame)+

lemma frame_ok_next: "frame_ok e f \<Longrightarrow> frame_ok e (next_just (justs_of e (fr_nid f)) f)"
  by (auto simp: frame_ok_def next_just_def Let_def)

lemma frame_ok_ant: "frame_ok e f \<Longrightarrow> frame_ok e (f\<lparr>fr_ant_idx := i\<rparr>)"
  by (auto simp: frame_ok_def Let_def)

lemma frame_ok_make: "node_of e n \<noteq> None \<Longrightarrow> frame_ok e (make_frame e n (insert n P))"
  by (auto simp: frame_ok_def make_frame_def Let_def)

lemma pending_make:
  assumes "node_of e n = Some nd" and "node_type nd = DERIVED" and "n \<notin> F" and "n \<notin> P"
  shows "pending e F (make_frame e n (insert n P)) = supported e F P n"
proof -
  have js: "justs_of e n = justifications nd" using assms(1) by (simp add: justs_of_def)
  show ?thesis
    unfolding supported_derived_iff [OF assms] pending_def make_frame_def Let_def
    by (cases "justifications nd") (auto simp: justified_def js)
qed

text \<open>The inner loops, one antecedent at a time.\<close>

lemma advance_cases:
  assumes ok: "frame_ok e f" and js: "js = justs_of e (fr_nid f)"
  obtains
    (exhausted) "length js \<le> fr_just_idx f" "advance_frame lf js f = (f, None)"
  | (complete) "fr_just_idx f < length js" "length (fr_ants f) \<le> fr_ant_idx f"
      "\<exists>g. advance_frame lf js f = (g, None) \<and> fr_found g"
  | (holds) "fr_just_idx f < length js" "fr_ant_idx f < length (fr_ants f)"
      "lf (fr_ants f ! fr_ant_idx f) = (True, True)"
      "advance_frame lf js f = advance_frame lf js (f\<lparr>fr_ant_idx := Suc (fr_ant_idx f)\<rparr>)"
  | (fails) "fr_just_idx f < length js" "fr_ant_idx f < length (fr_ants f)"
      "lf (fr_ants f ! fr_ant_idx f) = (True, False)"
      "advance_frame lf js f = advance_frame lf js (next_just js f)"
  | (child) v where "fr_just_idx f < length js" "fr_ant_idx f < length (fr_ants f)"
      "lf (fr_ants f ! fr_ant_idx f) = (False, v)"
      "advance_frame lf js f =
         (f\<lparr>fr_ant_idx := Suc (fr_ant_idx f)\<rparr>, Some (fr_ants f ! fr_ant_idx f))"
proof (cases "fr_just_idx f < length js")
  case False
  then have "advance_frame lf js f = (f, None)"
    by (subst advance_frame.simps) simp
  with False exhausted show thesis by simp
next
  case idx: True
  from ok have fok: "fr_ant_ok f" "\<not> fr_found f" by (auto simp: frame_ok_def Let_def)
  show thesis
  proof (cases "fr_ant_idx f < length (fr_ants f)")
    case False
    then have "\<exists>g. advance_frame lf js f = (g, None) \<and> fr_found g"
      using idx fok by (simp add: advance_frame.simps [of lf js f] scan_ants.simps)
    with idx False complete show thesis by simp
  next
    case ant: True
    obtain b v where lf: "lf (fr_ants f ! fr_ant_idx f) = (b, v)" by fastforce
    consider "b" "v" | "b" "\<not> v" | "\<not> b" by blast
    then show thesis
    proof cases
      case 1
      have "advance_frame lf js f = advance_frame lf js (f\<lparr>fr_ant_idx := Suc (fr_ant_idx f)\<rparr>)"
        using idx fok ant lf 1
        by (simp add: advance_frame.simps [of lf js f] scan_ants.simps [of _ _ "fr_ant_idx f"]
            advance_frame.simps [of lf js "f\<lparr>fr_ant_idx := Suc (fr_ant_idx f)\<rparr>"] next_just_def Let_def
            split: prod.splits option.splits)
      with idx ant lf 1 holds show thesis by simp
    next
      case 2
      then have "advance_frame lf js f = advance_frame lf js (next_just js f)"
        using idx fok ant lf
        by (simp add: advance_frame.simps [of lf js f] scan_ants.simps [of _ _ "fr_ant_idx f"])
      with idx ant lf 2 fails show thesis by simp
    next
      case 3
      then have "advance_frame lf js f =
          (f\<lparr>fr_ant_idx := Suc (fr_ant_idx f)\<rparr>, Some (fr_ants f ! fr_ant_idx f))"
        using idx fok ant lf
        by (simp add: advance_frame.simps [of lf js f] scan_ants.simps [of _ _ "fr_ant_idx f"])
      with idx ant lf 3 child show thesis by simp
    qed
  qed
qed

text \<open>How the pending question changes as the frame moves on.\<close>

lemma pending_exhausted: "length (justs_of e (fr_nid f)) \<le> fr_just_idx f \<Longrightarrow> \<not> pending e F f"
  by (simp add: pending_def)

lemma pending_complete:
  "fr_just_idx f < length (justs_of e (fr_nid f)) \<Longrightarrow> length (fr_ants f) \<le> fr_ant_idx f \<Longrightarrow> pending e F f"
  by (simp add: pending_def justified_def)

lemma pending_holds:
  assumes "fr_ant_idx f < length (fr_ants f)"
    and "supported e F (fr_path f) (fr_ants f ! fr_ant_idx f)"
  shows "pending e F (f\<lparr>fr_ant_idx := Suc (fr_ant_idx f)\<rparr>) = pending e F f"
  using assms by (simp add: pending_def justified_def Let_def Cons_nth_drop_Suc [symmetric])

lemma pending_fails:
  assumes ok: "frame_ok e f"
    and "fr_just_idx f < length (justs_of e (fr_nid f))"
    and "fr_ant_idx f < length (fr_ants f)"
    and "\<not> supported e F (fr_path f) (fr_ants f ! fr_ant_idx f)"
  shows "pending e F (next_just (justs_of e (fr_nid f)) f) = pending e F f"
proof -
  let ?js = "justs_of e (fr_nid f)" and ?i = "Suc (fr_just_idx f)"
  have no: "\<not> justified e F (fr_path f) (drop (fr_ant_idx f) (fr_ants f))"
    using assms by (simp add: justified_def Cons_nth_drop_Suc [symmetric])
  show ?thesis
  proof (cases "?i < length ?js")
    case True
    then have "drop ?i ?js = ?js ! ?i # drop (Suc ?i) ?js" by (simp add: Cons_nth_drop_Suc)
    with True no assms(2) show ?thesis by (simp add: pending_def next_just_def Let_def)
  next
    case False
    with no show ?thesis by (simp add: pending_def next_just_def Let_def)
  qed
qed

lemma search_unfold: "search e (f # ws, rs, m) = search e (search_step e (f # ws, rs, m))"
  unfolding search_def by (rule while_option_step) (simp add: search_running_def)

lemma search_step_cong:
  assumes "advance_frame (\<lambda>a. leaf e m a (fr_path f)) (justs_of e (fr_nid f)) f =
      advance_frame (\<lambda>a. leaf e m a (fr_path f)) (justs_of e (fr_nid f)) g"
    and "fr_path g = fr_path f" and "fr_nid g = fr_nid f" and "frame_ok e f"
  shows "search e (f # ws, [], m) = search e (g # ws, [], m)"
proof -
  from assms(4) obtain nd where "node_of e (fr_nid f) = Some nd"
    by (auto simp: frame_ok_def Let_def)
  with assms have "search_step e (f # ws, [], m) = search_step e (g # ws, [], m)"
    by (simp add: resume_frame_def justs_of_def)
  then show ?thesis by (simp add: search_unfold)
qed

lemma search_resume:
  assumes "frame_ok e f"
  shows "search e (f # ws, [v], m) =
    search e ((if v then f else next_just (justs_of e (fr_nid f)) f) # ws, [], m)"
proof -
  from assms obtain nd where nd: "node_of e (fr_nid f) = Some nd" and "fr_ant_ok f"
    by (auto simp: frame_ok_def Let_def)
  then have "search_step e (f # ws, [v], m) =
      search_step e ((if v then f else next_just (justs_of e (fr_nid f)) f) # ws, [], m)"
    by (cases f) (simp add: resume_frame_def justs_of_def next_just_def Let_def)
  then show ?thesis by (simp add: search_unfold)
qed

text \<open>
  Running a frame to completion leaves the rest of the stack alone and returns the pending answer.
  The induction goes over the nodes not yet on the path, then the justifications and antecedents left.
\<close>

lemma search_frame:
  "frame_ok e f \<Longrightarrow>
     search e (f # ws, [], m) =
       search e (ws, [pending e (failed m) f], memo_done f (pending e (failed m) f) m)"
proof (induction f arbitrary: ws rule: wf_induct_rule
    [OF wf_measures [of "[\<lambda>f. card (dom (map_of (nodes e)) - fr_path f),
        \<lambda>f. length (justs_of e (fr_nid f)) - fr_just_idx f,
        \<lambda>f. length (fr_ants f) - fr_ant_idx f]"]])
  case (1 f)
  let ?js = "justs_of e (fr_nid f)" and ?F = "failed m"
  let ?lf = "\<lambda>a. leaf e m a (fr_path f)" and ?ant = "fr_ants f ! fr_ant_idx f"
  note IH = "1.IH" and ok = "1.prems"
  from ok obtain nd where nd: "node_of e (fr_nid f) = Some nd" and nid: "fr_nid f \<in> fr_path f"
    and found: "\<not> fr_found f"
    by (auto simp: frame_ok_def Let_def)
  have js: "?js = justifications nd" using nd by (simp add: justs_of_def)
  have path: "fr_path f \<noteq> {}" using nid by blast
  have pop: "search e (f # ws, [], m) = search e (ws, [fr_found g], memo_done f (fr_found g) m)"
    if "advance_frame ?lf ?js f = (g, None)" for g
    using that nd js by (simp add: search_unfold resume_frame_def memo_done_def finish_frame_def)
  show ?case
  proof (cases rule: advance_cases
      [OF ok refl, where lf = ?lf, case_names exhausted complete holds fails child])
    case exhausted
    then show ?thesis using pop found pending_exhausted [of e f ?F] by simp
  next
    case complete
    then show ?thesis using pop pending_complete [of f e ?F] by auto
  next
    case holds
    let ?g = "f\<lparr>fr_ant_idx := Suc (fr_ant_idx f)\<rparr>"
    have "search e (f # ws, [], m) = search e (?g # ws, [], m)"
      using holds(4) ok by (intro search_step_cong) simp_all
    also have "\<dots> = search e (ws, [pending e ?F ?g], memo_done ?g (pending e ?F ?g) m)"
      using holds by (intro IH frame_ok_ant ok) simp
    finally show ?thesis
      using pending_holds [OF holds(2)] leaf_decided [OF holds(3) path] by simp
  next
    case fails
    let ?g = "next_just ?js f"
    have "search e (f # ws, [], m) = search e (?g # ws, [], m)"
      using fails(4) ok by (intro search_step_cong) (simp_all add: next_just_frame)
    also have "\<dots> = search e (ws, [pending e ?F ?g], memo_done ?g (pending e ?F ?g) m)"
      using fails(1) by (intro IH frame_ok_next ok) (auto simp: next_just_frame)
    finally show ?thesis
      using pending_fails [OF ok fails(1,2)] leaf_decided [OF fails(3) path] by simp
  next
    case (child v)
    let ?c = "make_frame e ?ant (insert ?ant (fr_path f))"
    let ?g = "f\<lparr>fr_ant_idx := Suc (fr_ant_idx f)\<rparr>"
    let ?s = "supported e ?F (fr_path f) ?ant"
    from leaf_undecided [OF child(3)] obtain and' where
      a: "?ant \<notin> ?F" "?ant \<notin> fr_path f" "node_of e ?ant = Some and'" "node_type and' = DERIVED"
      by blast
    have c: "fr_path ?c = insert ?ant (fr_path f)" "fr_nid ?c = ?ant"
      by (simp_all add: make_frame_def Let_def)
    have smaller: "card (dom (map_of (nodes e)) - fr_path ?c) < card (dom (map_of (nodes e)) - fr_path f)"
      using a(2,3) by (intro psubset_card_mono) (auto simp: c finite_dom_map_of)
    have memo: "memo_done ?c ?s m = m"
      using nid a(2) by (cases m) (auto simp: memo_done_def c)
    have "search e (f # ws, [], m) = search e (?c # ?g # ws, [], m)"
      using child nd js by (simp add: search_unfold [of e f] resume_frame_def finish_frame_def)
    also have "\<dots> = search e (?g # ws, [?s], m)"
      using IH [of ?c "?g # ws"] smaller frame_ok_make [of e ?ant] a memo
        pending_make [OF a(3,4,1,2)] by simp
    also have "\<dots> = search e ((if ?s then ?g else next_just ?js f) # ws, [], m)"
      using search_resume [OF frame_ok_ant [OF ok]] by (simp add: next_just_def Let_def)
    also have "\<dots> = search e (ws, [pending e ?F f], memo_done f (pending e ?F f) m)"
    proof (cases ?s)
      case True
      then show ?thesis
        using IH [of ?g ws] frame_ok_ant [OF ok] child(2) pending_holds [OF child(2) True] by simp
    next
      case False
      then show ?thesis
        using IH [of "next_just ?js f" ws] frame_ok_next [OF ok] child(1)
          pending_fails [OF ok child(1,2) False]
        by (simp add: next_just_frame diff_less_mono2)
    qed
    finally show ?thesis .
  qed
qed

end
