(* ===== verification/AtmsCascade.thy ===== *)
theory AtmsCascade
  imports AtmsSearch
begin

text \<open>
  The clients of the proof search: belief evaluation and the deprecation cascade. Both share one memo
  table over many searches; \<open>memo_ok\<close> is the invariant that makes the sharing sound.
\<close>

section \<open>The contract of the search\<close>

text \<open>Every memo entry is the truth about support outside \<open>F\<close>, and \<open>F\<close> itself is recorded as failed.\<close>

definition memo_ok :: "ATMSEngine \<Rightarrow> string set \<Rightarrow> memo option \<Rightarrow> bool" where
  "memo_ok e F m =
     (m \<noteq> None \<and> F \<subseteq> failed m \<and> (\<forall>n v. memo_lookup m n = Some v \<longrightarrow> v = supported e F {} n))"

lemma memo_ok_same_support: "memo_ok e F m \<Longrightarrow> same_support e e' \<Longrightarrow> memo_ok e' F m"
  using same_support_eq by (auto simp: memo_ok_def)

lemma memo_ok_failed:
  assumes "memo_ok e F m"
  shows "supported e (failed m) {} n = supported e F {} n"
  using assms by (intro supported_failed_eq) (auto simp: memo_ok_def failed_def)

lemma memo_ok_update:
  assumes "memo_ok e F (Some t)" and "v = supported e F {} n"
  shows "memo_ok e F (Some (t(n \<mapsto> v)))"
proof -
  have "n \<notin> F" if v using assms(2) that by (auto dest: supported_known)
  with assms show ?thesis by (auto simp: memo_ok_def failed_def memo_lookup_def)
qed

lemma leaf_root:
  assumes "leaf e m n {} = (True, v)" and ok: "memo_ok e F m"
  shows "v = supported e F {} n"
proof (cases "memo_lookup m n")
  case (Some w)
  with ok have "w = supported e F {} n" by (auto simp: memo_ok_def)
  with Some assms(1) show ?thesis by (auto simp: leaf_def split: if_splits)
next
  case None
  then have "n \<notin> failed m" by (simp add: failed_def)
  moreover from None assms(1) have "leaf_node e n {} = (True, v)" by (simp add: leaf_def)
  ultimately have "v = supported e (failed m) {} n"
    by (auto simp: leaf_node_def elim: supportedE intro: supported.intros
        split: option.splits ATMSNodeType.splits if_splits)
  then show ?thesis by (simp add: memo_ok_failed [OF ok])
qed

text \<open>The search returns on every input; from a sound memo table it decides support and keeps it sound.\<close>

lemma search_root:
  assumes "leaf e m n P = (False, v)"
  shows "is_node_provably_valid e n P m =
    Some (supported e (failed m) P n,
          memo_done (make_frame e n (insert n P)) (supported e (failed m) P n) m)"
proof -
  from leaf_undecided [OF assms] obtain nd where
    nd: "n \<notin> failed m" "n \<notin> P" "node_of e n = Some nd" "node_type nd = DERIVED" by blast
  let ?f = "make_frame e n (insert n P)"
  have "search e ([?f], [], m) =
      search e ([], [supported e (failed m) P n], memo_done ?f (supported e (failed m) P n) m)"
    using search_frame [OF frame_ok_make, of e n P "[]" m] pending_make [OF nd(3,4,1,2)] nd(3)
    by simp
  also have "\<dots> = Some ([], [supported e (failed m) P n], memo_done ?f (supported e (failed m) P n) m)"
    unfolding search_def by (rule while_option_done) (simp add: search_running_def)
  finally show ?thesis using assms by (simp add: is_node_provably_valid_def)
qed

lemma check_contract:
  assumes ok: "memo_ok e F m"
  shows "\<exists>m'. is_node_provably_valid e n {} m = Some (supported e F {} n, m') \<and> memo_ok e F m'"
proof -
  obtain t where t: "m = Some t" using ok by (auto simp: memo_ok_def)
  obtain b v where lf: "leaf e m n {} = (b, v)" by fastforce
  show ?thesis
  proof (cases b)
    case True
    with lf leaf_root [OF _ ok] ok show ?thesis by (auto simp: is_node_provably_valid_def)
  next
    case False
    with lf have "leaf e m n {} = (False, v)" by simp
    from search_root [OF this] have "is_node_provably_valid e n {} m =
        Some (supported e F {} n, Some (t(n \<mapsto> supported e F {} n)))"
      by (simp add: memo_ok_failed [OF ok [unfolded t]] memo_done_def make_frame_def Let_def t)
    with memo_ok_update [of e F t] ok t show ?thesis by auto
  qed
qed

lemma search_total: "is_node_provably_valid e n P m \<noteq> None"
proof -
  obtain b v where lf: "leaf e m n P = (b, v)" by fastforce
  then show ?thesis
    by (cases b) (simp_all add: search_root, simp add: is_node_provably_valid_def)
qed


text \<open>Evaluation and cascade only write \<open>is_valid\<close>: the rest of the engine is framed.\<close>

definition same_frame :: "ATMSEngine \<Rightarrow> ATMSEngine \<Rightarrow> bool" where
  "same_frame e e' = (dependents e' = dependents e \<and> contradictions e' = contradictions e \<and>
     namespace_id e' = namespace_id e \<and> dict_keys (nodes e') = dict_keys (nodes e))"

lemma same_frame_refl [simp]: "same_frame e e"
  by (simp add: same_frame_def)

lemma same_frame_trans: "same_frame e e' \<Longrightarrow> same_frame e' e'' \<Longrightarrow> same_frame e e''"
  by (simp add: same_frame_def)

lemma same_frame_put: "node_of e n = Some nd \<Longrightarrow> same_frame e (put_node n nd' e)"
  by (simp add: same_frame_def dict_set_keys_present domI dom_map_of_conv_image_fst [symmetric])

section \<open>Belief evaluation\<close>

definition revalued :: "ATMSEngine \<Rightarrow> string \<Rightarrow> ATMSNode \<Rightarrow> ATMSNode" where
  "revalued e n nd =
     nd\<lparr>is_valid := (case node_type nd of DERIVED \<Rightarrow> believed e n | PREMISE \<Rightarrow> True | ASSUMPTION \<Rightarrow> is_valid nd)\<rparr>"

lemma revalued_idem [simp]: "revalued e n (revalued e n nd) = revalued e n nd"
  by (cases "node_type nd") (simp_all add: revalued_def)

lemma evaluate_nodes_spec:
  assumes "memo_ok e {} m" and "same_support e0 e"
  shows "\<exists>e' m'. evaluate_nodes e m ns = Some (e', m') \<and>
    (\<forall>n. node_of e' n = (if n \<in> set ns then map_option (revalued e0 n) (node_of e n) else node_of e n)) \<and>
    same_frame e e'"
  using assms
proof (induction ns arbitrary: e m)
  case (Cons n ns)
  have bel: "supported e {} {} n = believed e0 n"
    using same_support_eq [OF Cons.prems(2)] by (simp add: believed_def)
  show ?case
  proof (cases "node_of e n")
    case None
    from Cons.IH [OF Cons.prems] obtain e' m' where ev: "evaluate_nodes e m ns = Some (e', m')"
      and look: "\<And>k. node_of e' k =
          (if k \<in> set ns then map_option (revalued e0 k) (node_of e k) else node_of e k)"
      and rest: "same_frame e e'"
      by blast
    from None look [of n] have "node_of e' n = None" by simp
    with None ev look rest show ?thesis by auto
  next
    case (Some nd)
    define e1 where "e1 = put_node n (revalued e0 n nd) e"
    have same: "same_support e e1"
      unfolding e1_def by (rule same_support_put [OF Some]) (auto simp: revalued_def)
    have step: "\<exists>m1. evaluate_nodes e m (n # ns) = evaluate_nodes e1 m1 ns \<and> memo_ok e {} m1"
    proof (cases "node_type nd")
      case DERIVED
      from check_contract [OF Cons.prems(1), of n] obtain m' where
        "is_node_provably_valid e n {} m = Some (believed e0 n, m')" "memo_ok e {} m'"
        by (auto simp: bel)
      with Some DERIVED show ?thesis by (auto simp: e1_def revalued_def)
    next
      case PREMISE
      with Some Cons.prems(1) show ?thesis by (auto simp: e1_def revalued_def)
    next
      case ASSUMPTION
      have "e1 = e" using Some ASSUMPTION by (cases e) (simp add: e1_def revalued_def update_triv)
      with Some ASSUMPTION Cons.prems(1) show ?thesis by auto
    qed
    then obtain m1 where m1: "evaluate_nodes e m (n # ns) = evaluate_nodes e1 m1 ns" "memo_ok e {} m1"
      by blast
    from Cons.IH [OF memo_ok_same_support [OF m1(2) same] same_support_trans [OF Cons.prems(2) same]]
    show ?thesis unfolding m1(1) using same_frame_put [OF Some, of "revalued e0 n nd"]
      by (auto simp: e1_def Some intro: same_frame_trans)
  qed
qed auto

lemma evaluate_belief_states_spec:
  "\<exists>e'. evaluate_belief_states e = Some e' \<and> same_frame e e' \<and>
     map_of (nodes e') = (\<lambda>n. map_option (revalued e n) (node_of e n))"
proof -
  have "memo_ok e {} (Some Map.empty)" by (simp add: memo_ok_def memo_lookup_def)
  from evaluate_nodes_spec [OF this same_support_refl, of "dict_keys (nodes e)"]
  obtain e' m' where "evaluate_nodes e (Some Map.empty) (dict_keys (nodes e)) = Some (e', m')"
    and look: "\<And>n. node_of e' n = (if n \<in> set (dict_keys (nodes e))
          then map_option (revalued e n) (node_of e n) else node_of e n)"
    and "same_frame e e'"
    by blast
  moreover have "node_of e n = None" if "n \<notin> set (dict_keys (nodes e))" for n
    using that by (simp add: map_of_eq_None_iff)
  then have "map_of (nodes e') = (\<lambda>n. map_option (revalued e n) (node_of e n))"
    by (auto simp: look fun_eq_iff)
  ultimately show ?thesis by (auto simp: evaluate_belief_states_def)
qed

section \<open>The deprecation cascade\<close>

text \<open>
  \<open>falls e F c\<close>: \<open>c\<close> is a derived node that is flagged valid although it has no support outside \<open>F\<close>.
  \<open>struck e V\<close> is the node table of \<open>e\<close> with the nodes of \<open>V\<close> flagged invalid.
\<close>

definition falls :: "ATMSEngine \<Rightarrow> (string \<Rightarrow> bool) \<Rightarrow> string \<Rightarrow> bool" where
  "falls e S c = (\<exists>nd. node_of e c = Some nd \<and> node_type nd = DERIVED \<and> is_valid nd \<and> \<not> S c)"

definition struck :: "ATMSEngine \<Rightarrow> string set \<Rightarrow> string \<Rightarrow> ATMSNode option" where
  "struck e V n =
     (if n \<in> V then map_option (\<lambda>nd. nd\<lparr>is_valid := False\<rparr>) (node_of e n) else node_of e n)"

definition deps :: "ATMSEngine \<Rightarrow> string \<Rightarrow> string set" where
  "deps e n = set (dict_getd (dependents e) n [])"

lemma scan_children_spec:
  assumes "memo_ok e F m"
  shows "\<exists>m' W'. scan_children e m W cs = Some (m', W') \<and> memo_ok e F m' \<and>
    set W' = set W \<union> {c \<in> set cs. falls e (supported e F {}) c}"
  using assms
proof (induction cs arbitrary: m W)
  case (Cons c cs)
  show ?case
  proof (cases "\<exists>nd. node_of e c = Some nd \<and> node_type nd = DERIVED \<and> is_valid nd")
    case True
    from check_contract [OF Cons.prems, of c] obtain m1 where
      m1: "is_node_provably_valid e c {} m = Some (supported e F {} c, m1)" "memo_ok e F m1" by blast
    let ?W = "if supported e F {} c then W else c # W"
    have "scan_children e m W (c # cs) = scan_children e m1 ?W cs"
      using True m1(1) by auto
    with Cons.IH [OF m1(2), of ?W] True show ?thesis by (auto simp: falls_def)
  next
    case False
    then have "scan_children e m W (c # cs) = scan_children e m W cs"
      by (auto split: option.splits)
    with Cons.IH [OF Cons.prems, of W] False show ?thesis by (auto simp: falls_def)
  qed
qed auto

text \<open>
  The loop invariant, for a cascade that strikes the nodes of \<open>F\<close> first: \<open>S\<close> is support outside \<open>F\<close>,
  \<open>V\<close> the visited nodes and \<open>W\<close> the worklist.
\<close>

definition cascade_inv ::
    "ATMSEngine \<Rightarrow> string set \<Rightarrow> (string \<Rightarrow> bool) \<Rightarrow> ATMSEngine \<Rightarrow> memo option \<Rightarrow> string set \<Rightarrow> string list \<Rightarrow> bool" where
  "cascade_inv e0 F S e m V W =
     (F \<subseteq> V \<and> map_of (nodes e) = struck e0 V \<and> same_frame e0 e \<and>
      memo_ok e F m \<and> S = supported e F {} \<and>
      (\<forall>n \<in> (V \<union> set W) - F. falls e0 S n) \<and>
      (\<forall>v \<in> V. \<forall>c \<in> deps e0 v. falls e0 S c \<longrightarrow> c \<in> V \<union> set W) \<and>
      V \<union> set W \<subseteq> {n. \<exists>f\<in>F. (\<lambda>a c. c \<in> deps e0 a)\<^sup>*\<^sup>* f n})"

lemma cascade_inv_visited:
  assumes "cascade_inv e0 F S e m V (n # W)" and "n \<in> V"
  shows "cascade_inv e0 F S e m V W"
  using assms unfolding cascade_inv_def by auto

text \<open>Visiting a new node: it is struck, and its fallen dependents join the worklist.\<close>

lemma cascade_step:
  assumes inv: "cascade_inv e0 F S e m V (n # W)" and new: "n \<notin> V"
  shows "\<exists>nd e1 m1 W1. node_of e0 n = Some nd \<and>
    propagate_loop e m V {k \<in> V. node_valid e0 k} (n # W) =
      propagate_loop e1 m1 (insert n V) {k \<in> insert n V. node_valid e0 k} W1 \<and>
    cascade_inv e0 F S e1 m1 (insert n V) W1"
proof -
  from inv have F: "F \<subseteq> V" and tab: "map_of (nodes e) = struck e0 V" and frame: "same_frame e0 e"
    and memo: "memo_ok e F m" and S: "S = supported e F {}"
    and fall: "\<And>k. k \<in> (V \<union> set (n # W)) - F \<Longrightarrow> falls e0 S k"
    and closed: "\<And>v c. v \<in> V \<Longrightarrow> c \<in> deps e0 v \<Longrightarrow> falls e0 S c \<Longrightarrow> c \<in> V \<union> set (n # W)"
    and reach: "V \<union> set (n # W) \<subseteq> {k. \<exists>f\<in>F. (\<lambda>a c. c \<in> deps e0 a)\<^sup>*\<^sup>* f k}"
    unfolding cascade_inv_def by auto
  from F new fall [of n] obtain nd where nd: "node_of e0 n = Some nd" "node_type nd = DERIVED"
    "is_valid nd" "\<not> S n" by (auto simp: falls_def)
  have ndn: "node_of e n = Some nd" using tab new nd(1) by (simp add: struck_def)
  obtain t where t: "m = Some t" using memo by (auto simp: memo_ok_def)
  define e1 where "e1 = put_node n (nd\<lparr>is_valid := False\<rparr>) e"
  have same: "same_support e e1" unfolding e1_def
    by (rule same_support_put [OF ndn]) (auto simp: nd(2))
  have S1: "S = supported e1 F {}" using same_support_eq [OF same] by (simp add: S fun_eq_iff)
  have "memo_ok e F (Some (t(n \<mapsto> False)))"
    using memo_ok_update [of e F t False n] memo nd(4) by (simp add: t S)
  then have memo1: "memo_ok e1 F (Some (t(n \<mapsto> False)))"
    using same by (rule memo_ok_same_support)
  have tab1: "map_of (nodes e1) = struck e0 (insert n V)"
    using tab nd(1) by (auto simp: e1_def struck_def fun_eq_iff)
  have deps1: "dict_getd (dependents e1) n [] = dict_getd (dependents e0) n []"
    using frame by (simp add: e1_def same_frame_def)
  from scan_children_spec [OF memo1, of W "dict_getd (dependents e1) n []"] obtain m1 W1 where
    scan: "scan_children e1 (Some (t(n \<mapsto> False))) W (dict_getd (dependents e1) n []) = Some (m1, W1)"
    and memo2: "memo_ok e1 F m1"
    and W1: "set W1 = set W \<union> {c \<in> deps e0 n. falls e1 S c}"
    by (auto simp: deps_def deps1 S1)
  have falls1: "falls e1 S c = (falls e0 S c \<and> c \<notin> insert n V)" for c
    using tab1 by (auto simp: falls_def struck_def split: if_splits)
  have "propagate_loop e m V {k \<in> V. node_valid e0 k} (n # W) =
      propagate_loop e1 m1 (insert n V) {k \<in> insert n V. node_valid e0 k} W1"
  proof -
    have "insert n {k \<in> V. node_valid e0 k} = {k \<in> insert n V. node_valid e0 k}"
      using nd by (auto simp: node_valid_def)
    then show ?thesis
      using new ndn nd(2,3) scan
      by (simp add: propagate_loop.simps [of e "Some t" V _ "n # W"] deprecate_def t e1_def [symmetric])
  qed
  moreover have "cascade_inv e0 F S e1 m1 (insert n V) W1"
    unfolding cascade_inv_def
  proof (intro conjI ballI impI)
    show "same_frame e0 e1"
      using same_frame_trans [OF frame same_frame_put [OF ndn]] by (simp add: e1_def)
    show "falls e0 S k" if "k \<in> (insert n V \<union> set W1) - F" for k
      using that fall [of k] W1 falls1 by auto
    show "c \<in> insert n V \<union> set W1" if "v \<in> insert n V" "c \<in> deps e0 v" "falls e0 S c" for v c
      using that closed [of v c] W1 falls1 by auto
    have "\<exists>f\<in>F. (\<lambda>a c. c \<in> deps e0 a)\<^sup>*\<^sup>* f c" if "c \<in> deps e0 n" for c
      using reach that by (auto intro: rtranclp.rtrancl_into_rtrancl)
    then show "insert n V \<union> set W1 \<subseteq> {k. \<exists>f\<in>F. (\<lambda>a c. c \<in> deps e0 a)\<^sup>*\<^sup>* f k}"
      using reach W1 by auto
  qed (use F tab1 memo2 S1 in auto)
  ultimately show ?thesis using nd(1) by blast
qed

lemma cascade_run:
  assumes "cascade_inv e0 F S e m V W"
  shows "\<exists>e' m' V'. propagate_loop e m V {k \<in> V. node_valid e0 k} W =
      Some (e', {k \<in> V'. node_valid e0 k}) \<and> cascade_inv e0 F S e' m' V' []"
  using assms
proof (induction "(V, W)" arbitrary: e m V W rule: wf_induct_rule
    [OF wf_measures [of "[\<lambda>(V, W). card (dom (map_of (nodes e0)) - V), \<lambda>(V, W). length W]"]])
  case (1 V W)
  show ?case
  proof (cases W)
    case Nil
    with "1.prems" show ?thesis by (auto simp: propagate_loop.simps)
  next
    case (Cons n rest)
    show ?thesis
    proof (cases "n \<in> V")
      case True
      then have "propagate_loop e m V {k \<in> V. node_valid e0 k} W =
          propagate_loop e m V {k \<in> V. node_valid e0 k} rest"
        by (simp add: Cons propagate_loop.simps [of e m V _ "n # rest"])
      moreover have "cascade_inv e0 F S e m V rest"
        using cascade_inv_visited "1.prems" True by (simp add: Cons)
      ultimately show ?thesis using "1.hyps" [of V rest e m] by (simp add: Cons)
    next
      case False
      from cascade_step [OF "1.prems" [unfolded Cons] False] obtain nd e1 m1 W1 where
        nd: "node_of e0 n = Some nd" and step: "propagate_loop e m V {k \<in> V. node_valid e0 k} (n # rest) =
          propagate_loop e1 m1 (insert n V) {k \<in> insert n V. node_valid e0 k} W1"
        and inv: "cascade_inv e0 F S e1 m1 (insert n V) W1" by blast
      have "card (dom (map_of (nodes e0)) - insert n V) < card (dom (map_of (nodes e0)) - V)"
        using nd False by (intro psubset_card_mono) (auto simp: finite_dom_map_of)
      then show ?thesis using "1.hyps" [of "insert n V" W1 e1 m1] inv step by (simp add: Cons)
    qed
  qed
qed

text \<open>A cascade from a node that is not a premise: the first visit strikes it and establishes the invariant.\<close>

lemma propagate_spec:
  assumes nd: "node_of e s = Some nd" and type: "node_type nd \<noteq> PREMISE"
  shows "\<exists>e' m V S. propagate_deprecation e s = Some (e', {k \<in> V. node_valid e k}) \<and>
    cascade_inv e {s} S e' m V []"
proof -
  define e1 where "e1 = put_node s (nd\<lparr>is_valid := False\<rparr>) e"
  let ?t = "[s \<mapsto> False]" and ?S = "supported e1 {s} {}"
  have memo: "memo_ok e1 {s} (Some ?t)"
    by (auto simp: memo_ok_def failed_def memo_lookup_def dest: supported_known)
  have tab: "map_of (nodes e1) = struck e {s}"
    using nd by (auto simp: e1_def struck_def fun_eq_iff)
  from scan_children_spec [OF memo, of "[]" "dict_getd (dependents e1) s []"] obtain m1 W1 where
    scan: "scan_children e1 (Some ?t) [] (dict_getd (dependents e1) s []) = Some (m1, W1)"
    and memo1: "memo_ok e1 {s} m1" and W1: "set W1 = {c \<in> deps e s. falls e1 ?S c}"
    by (auto simp: deps_def e1_def)
  have falls1: "falls e1 ?S c = (falls e ?S c \<and> c \<noteq> s)" for c
    using tab by (auto simp: falls_def struck_def split: if_splits)
  have inv: "cascade_inv e {s} ?S e1 m1 {s} W1"
    unfolding cascade_inv_def
    using tab memo1 same_frame_put [OF nd, of "nd\<lparr>is_valid := False\<rparr>"] W1 falls1 by (auto simp: e1_def)
  have "propagate_deprecation e s = propagate_loop e1 m1 {s} {k \<in> {s}. node_valid e k} W1"
  proof -
    have "{k. k = s \<and> node_valid e k} = (if is_valid nd then {s} else {})"
      using nd by (auto simp: node_valid_def)
    then show ?thesis
      using nd type scan
      by (simp add: propagate_deprecation_def propagate_loop.simps [of e _ _ _ "[s]"]
          deprecate_def e1_def [symmetric])
  qed
  with cascade_run [OF inv] show ?thesis by auto
qed

definition index_complete :: "ATMSEngine \<Rightarrow> bool" where
  "index_complete e = (\<forall>n nd. node_of e n = Some nd \<longrightarrow>
     (\<forall>j\<in>set (justifications nd). \<forall>a\<in>set (antecedents j). n \<in> deps e a))"

definition beliefs_agree :: "ATMSEngine \<Rightarrow> bool" where
  "beliefs_agree e = (\<forall>n nd. node_of e n = Some nd \<longrightarrow> node_type nd = DERIVED \<longrightarrow>
     is_valid nd = believed e n)"

lemma struck_supported:
  assumes "map_of (nodes e') = struck e V" and "supported e' F P n"
  shows "supported e F P n"
  using assms(2)
proof (induction rule: supported.induct)
  case (supp_premise n nd)
  with assms(1) show ?case by (auto simp: struck_def intro: supported.supp_premise split: if_splits)
next
  case (supp_assumption n nd)
  with assms(1) show ?case by (auto simp: struck_def intro: supported.supp_assumption split: if_splits)
next
  case (supp_derived n nd j)
  then obtain nd0 where "node_of e n = Some nd0" "node_type nd0 = DERIVED"
      "justifications nd0 = justifications nd"
    using assms(1) by (auto simp: struck_def split: if_splits)
  with supp_derived show ?case by (intro supported.supp_derived [of e n nd0 F P j]) auto
qed

text \<open>Every believed node that the strike leaves without support is reached through the index.\<close>

lemma cascade_complete:
  assumes inv: "cascade_inv e {s} S e' m V []" and idx: "index_complete e" and agree: "beliefs_agree e"
    and "supported e {} {} n" and "\<not> S n"
  shows "n \<in> V"
proof -
  from inv have s: "s \<in> V" and tab: "map_of (nodes e') = struck e V"
    and S: "S = supported e' {s} {}"
    and closed: "\<And>v c. v \<in> V \<Longrightarrow> c \<in> deps e v \<Longrightarrow> falls e S c \<Longrightarrow> c \<in> V"
    unfolding cascade_inv_def by auto
  have same: "k \<notin> V \<Longrightarrow> node_of e' k = node_of e k" for k using tab by (simp add: struck_def)
  show ?thesis using assms(4,5)
  proof (induction rule: supported.induct)
    case (supp_premise n nd)
    then show ?case using same [of n] s S by (metis singletonD supported.supp_premise)
  next
    case (supp_assumption n nd)
    then show ?case using same [of n] s S by (metis singletonD supported.supp_assumption)
  next
    case (supp_derived n nd j)
    show ?case
    proof (rule ccontr)
      assume n: "n \<notin> V"
      with s have ns: "n \<notin> {s}" by auto
      obtain a where a: "a \<in> set (antecedents j)" "\<not> S a"
        using supp_derived supported.supp_derived [of e' n nd "{s}" "{}" j] same [OF n] ns S by auto
      then have "a \<in> V" by (rule supp_derived.IH)
      moreover have "n \<in> deps e a"
        using idx supp_derived.hyps a(1) by (auto simp: index_complete_def)
      moreover have "falls e S n"
      proof -
        have "believed e n"
          unfolding believed_def by (rule supported.supp_derived) (use supp_derived.hyps in auto)
        with agree supp_derived show ?thesis by (auto simp: falls_def beliefs_agree_def)
      qed
      ultimately show False using closed n by blast
    qed
  qed
qed

lemma cascade_valid:
  assumes "cascade_inv e F S e' m V []"
  shows "node_valid e' n = (node_valid e n \<and> n \<notin> V)"
  using assms by (auto simp: cascade_inv_def node_valid_def struck_def split: option.splits if_splits)

lemma cascade_agree:
  assumes inv: "cascade_inv e {s} S e' m V []" and idx: "index_complete e" and agree: "beliefs_agree e"
    and nd: "node_of e s = Some nd" and type: "node_type nd = ASSUMPTION"
  shows "beliefs_agree e'"
  unfolding beliefs_agree_def
proof (intro allI impI)
  fix n ndn
  assume n': "node_of e' n = Some ndn" and der': "node_type ndn = DERIVED"
  from inv have s: "s \<in> V" and tab: "map_of (nodes e') = struck e V" and S: "S = supported e' {s} {}"
    and fall: "\<And>k. k \<in> V \<Longrightarrow> k \<noteq> s \<Longrightarrow> \<not> S k"
    unfolding cascade_inv_def falls_def by auto
  from n' der' tab obtain ndo where n: "node_of e n = Some ndo" and der: "node_type ndo = DERIVED"
    by (auto simp: struck_def split: if_splits)
  have ns: "n \<noteq> s" using n der nd type by auto
  have "node_of e' s = Some (nd\<lparr>is_valid := False\<rparr>)" using tab s nd by (simp add: struck_def)
  then have "\<not> supported e' {} {} s" using type by (auto elim: supportedE)
  then have bel: "believed e' n = S n"
    unfolding believed_def S by (intro supported_failed_eq [symmetric]) auto
  have "is_valid ndn = node_valid e' n" using n' by (simp add: node_valid_def)
  also have "\<dots> = (believed e n \<and> n \<notin> V)"
    using cascade_valid [OF inv, of n] agree n der by (auto simp: node_valid_def beliefs_agree_def)
  also have "\<dots> = S n"
  proof
    assume "believed e n \<and> n \<notin> V"
    then show "S n" using cascade_complete [OF inv idx agree] by (auto simp: believed_def)
  next
    assume Sn: "S n"
    then have "supported e {s} {} n" unfolding S by (rule struck_supported [OF tab])
    then have "believed e n"
      unfolding believed_def by (rule supported_antimono) auto
    with fall ns Sn show "believed e n \<and> n \<notin> V" by blast
  qed
  finally show "is_valid ndn = believed e' n" by (simp add: bel)
qed

section \<open>Properties\<close>




text \<open>C8: Evaluating all belief states returns, and sets the flag of every derived node to whether it
  has a well-founded derivation from the premises and the valid assumptions, the flag of every premise
  to true, and leaves assumptions, justifications and the dependency index alone.\<close>

theorem evaluate_belief_states_correct:
  "\<exists>e'. evaluate_belief_states e = Some e' \<and> same_frame e e' \<and>
     map_of (nodes e') = (\<lambda>n. map_option (revalued e n) (node_of e n))"
  by (rule evaluate_belief_states_spec)

text \<open>C1: Retracting an assumption: from an engine whose flags agree with well-founded support, the
  cascade returns, flags the assumption invalid, reports exactly the nodes whose flag went from valid to
  invalid, and leaves every derived node's flag equal to its well-founded support again.\<close>

theorem invalidate_assumption_correct:
  assumes "index_complete e" and "beliefs_agree e"
    and "node_of e s = Some nd" and "node_type nd = ASSUMPTION"
  shows "\<exists>e' C. invalidate_assumption e s = Some (e', C) \<and> \<not> node_valid e' s \<and>
    beliefs_agree e' \<and> C = {n. node_valid e n \<and> \<not> node_valid e' n}"
proof -
  from propagate_spec [OF assms(3)] assms(4) obtain e' m V S where
    run: "propagate_deprecation e s = Some (e', {k \<in> V. node_valid e k})"
    and inv: "cascade_inv e {s} S e' m V []" by auto
  moreover have "invalidate_assumption e s = propagate_deprecation e s"
    using assms(3,4) by (simp add: invalidate_assumption_def)
  moreover have "s \<in> V" using inv by (simp add: cascade_inv_def)
  ultimately show ?thesis
    using cascade_agree [OF inv assms] cascade_valid [OF inv] by auto
qed

definition diamond_engine :: ATMSEngine where
  "diamond_engine =
     add_justification (add_justification (add_justification (new_engine None)
       ''b'' [''a''] []) ''c'' [''b''] []) ''c'' [''p''] []"

lemma diamond_nodes: "nodes diamond_engine =
   [(''b'', \<lparr>node_id = ''b'', node_type = DERIVED, is_valid = True,
       justifications = [\<lparr>consequent = ''b'', antecedents = [''a''], description = []\<rparr>]\<rparr>),
    (''a'', \<lparr>node_id = ''a'', node_type = ASSUMPTION, is_valid = True, justifications = []\<rparr>),
    (''c'', \<lparr>node_id = ''c'', node_type = DERIVED, is_valid = True,
       justifications = [\<lparr>consequent = ''c'', antecedents = [''b''], description = []\<rparr>,
         \<lparr>consequent = ''c'', antecedents = [''p''], description = []\<rparr>]\<rparr>),
    (''p'', \<lparr>node_id = ''p'', node_type = ASSUMPTION, is_valid = True, justifications = []\<rparr>)]"
  by code_simp

lemma diamond_dependents: "dependents diamond_engine =
   [(''a'', [''b'']), (''b'', [''c'']), (''p'', [''c''])]"
  by code_simp

lemma diamond_index: "index_complete diamond_engine"
  unfolding index_complete_def deps_def diamond_nodes diamond_dependents
  by (auto simp: dict_getd_def split: if_splits)

lemma diamond_agree: "beliefs_agree diamond_engine"
proof -
  have "supported_within 3 diamond_engine {} {} ''b''" and "supported_within 3 diamond_engine {} {} ''c''"
    by (simp_all add: numeral_3_eq_3 diamond_nodes)
  then have "believed diamond_engine ''b''" and "believed diamond_engine ''c''"
    unfolding believed_def by (blast intro: supported_within_sound)+
  then show ?thesis unfolding beliefs_agree_def by (auto simp: diamond_nodes split: if_splits)
qed

theorem invalidate_assumption_correct_witness:
  "\<exists>e' C. invalidate_assumption diamond_engine ''a'' = Some (e', C) \<and> \<not> node_valid e' ''a'' \<and>
    beliefs_agree e' \<and> C = {n. node_valid diamond_engine n \<and> \<not> node_valid e' n}"
  by (rule invalidate_assumption_correct [OF diamond_index diamond_agree, of _
        "\<lparr>node_id = ''a'', node_type = ASSUMPTION, is_valid = True, justifications = []\<rparr>"])
     (simp_all add: diamond_nodes)

text \<open>A cascade forced from any node that is not a premise (derived nodes included) returns, never
  makes an invalid node valid, reports exactly the flags that went from valid to invalid, and every other
  node it strikes is a derived node left without support once the start node fails.\<close>

theorem propagate_deprecation_sound:
  assumes "node_of e s = Some nd" and "node_type nd \<noteq> PREMISE"
  shows "\<exists>e' C. propagate_deprecation e s = Some (e', C) \<and>
    C = {n. node_valid e n \<and> \<not> node_valid e' n} \<and> \<not> node_valid e' s \<and>
    {n. node_valid e' n} \<subseteq> {n. node_valid e n} \<and>
    C - {s} \<subseteq> {n. falls e (supported e' {s} {}) n}"
proof -
  from propagate_spec [OF assms] obtain e' m V S where
    run: "propagate_deprecation e s = Some (e', {k \<in> V. node_valid e k})"
    and inv: "cascade_inv e {s} S e' m V []" by auto
  have "s \<in> V" and S: "S = supported e' {s} {}" and "\<And>n. n \<in> V - {s} \<Longrightarrow> falls e S n"
    using inv by (auto simp: cascade_inv_def)
  then have "{k \<in> V. node_valid e k} - {s} \<subseteq> {n. falls e (supported e' {s} {}) n}" by auto
  with run \<open>s \<in> V\<close> show ?thesis
    using cascade_valid [OF inv] by auto
qed

theorem propagate_deprecation_sound_witness:
  "\<exists>e' C. propagate_deprecation diamond_engine ''b'' = Some (e', C) \<and>
    C = {n. node_valid diamond_engine n \<and> \<not> node_valid e' n} \<and> \<not> node_valid e' ''b'' \<and>
    {n. node_valid e' n} \<subseteq> {n. node_valid diamond_engine n} \<and>
    C - {''b''} \<subseteq> {n. falls diamond_engine (supported e' {''b''} {}) n}"
  by (rule propagate_deprecation_sound, simp add: diamond_nodes, simp)

text \<open>Called directly on a valid premise of an engine whose flags agree with support, the cascade
  changes nothing but still reports the premise as affected.\<close>

theorem propagate_premise_reported:
  assumes "beliefs_agree e" and "node_of e p = Some nd" and "node_type nd = PREMISE" and "is_valid nd"
  shows "propagate_deprecation e p = Some (e, {p})"
proof -
  have "memo_ok e {} (Some Map.empty)" by (simp add: memo_ok_def memo_lookup_def)
  moreover have "\<not> falls e (supported e {} {}) c" for c
    using assms(1) by (auto simp: falls_def beliefs_agree_def believed_def)
  ultimately obtain m' where
    "scan_children e (Some Map.empty) [] (dict_getd (dependents e) p []) = Some (m', [])"
    using scan_children_spec [of e "{}" "Some Map.empty" "[]" "dict_getd (dependents e) p []"] by auto
  with assms show ?thesis
    by (simp add: propagate_deprecation_def propagate_loop.simps deprecate_def)
qed

theorem propagate_premise_reported_witness:
  "propagate_deprecation (register_node (new_engine None) ''p'' PREMISE True) ''p'' =
     Some (register_node (new_engine None) ''p'' PREMISE True, {''p''})"
  by (rule propagate_premise_reported)
     (auto simp: beliefs_agree_def register_node_def new_engine_def split: if_splits)

end
