(* ===== verification/AtmsMachine.thy ===== *)
theory AtmsMachine
  imports AtmsCascade
begin

text \<open>
  The ATMS engine as a state machine: every public operation of \<open>ATMSEngine\<close> is a step, and the
  well-formedness invariant (dependency index complete, keys and identifiers agree, antecedents
  registered) holds in every reachable engine. Cascades return on every engine, well formed or not.
\<close>

section \<open>Totality of the cascade\<close>

definition skeleton :: "ATMSEngine \<Rightarrow> string \<Rightarrow> (string \<times> ATMSNodeType \<times> Justification list) option" where
  "skeleton e n = map_option (\<lambda>nd. (node_id nd, node_type nd, justifications nd)) (node_of e n)"

definition only_flags :: "ATMSEngine \<Rightarrow> ATMSEngine \<Rightarrow> bool" where
  "only_flags e e' = (same_frame e e' \<and> skeleton e' = skeleton e)"

lemma only_flags_refl [simp]: "only_flags e e"
  by (simp add: only_flags_def)

lemma only_flags_trans: "only_flags e e' \<Longrightarrow> only_flags e' e'' \<Longrightarrow> only_flags e e''"
  by (auto simp: only_flags_def intro: same_frame_trans)

lemma only_flags_put:
  "node_of e n = Some nd \<Longrightarrow> only_flags e (put_node n (nd\<lparr>is_valid := v\<rparr>) e)"
  by (auto simp: only_flags_def skeleton_def fun_eq_iff intro: same_frame_put)

lemma only_flags_dom:
  assumes "only_flags e e'"
  shows "dom (map_of (nodes e')) = dom (map_of (nodes e))"
proof -
  have "set (map fst (nodes e')) = set (map fst (nodes e))"
    using assms by (simp add: only_flags_def same_frame_def)
  then show ?thesis by (simp add: dom_map_of_conv_image_fst)
qed

lemma deprecate_flags:
  "node_of e n = Some nd \<Longrightarrow> only_flags e (fst (deprecate e t n nd))"
  by (simp add: deprecate_def only_flags_put)

lemma scan_children_total: "scan_children e m W cs \<noteq> None"
proof (induction cs arbitrary: m W)
  case (Cons c cs)
  obtain ok m' where "is_node_provably_valid e c {} m = Some (ok, m')"
    using search_total [of e c "{}" m] by auto
  with Cons.IH show ?case by (auto split: option.split)
qed simp

lemma propagate_loop_total:
  "\<exists>e' C'. propagate_loop e m V C W = Some (e', C') \<and> only_flags e e'"
proof (induction "(e, V, W)" arbitrary: e m V C W rule: wf_induct_rule
    [OF wf_measures [of "[\<lambda>(e, V, W). card (dom (map_of (nodes e)) - V), \<lambda>(e, V, W). length W]"]])
  case (1 e V W)
  show ?case
  proof (cases W)
    case Nil
    then show ?thesis by (simp add: propagate_loop.simps)
  next
    case (Cons n rest)
    consider (old) "n \<in> V" | (missing) "n \<notin> V" "node_of e n = None"
      | (new) nd where "n \<notin> V" "node_of e n = Some nd" by (cases "node_of e n") auto
    then show ?thesis
    proof cases
      case old
      then show ?thesis using "1.hyps" [of e V rest m C]
        by (simp add: Cons propagate_loop.simps [of e m V C "n # rest"])
    next
      case missing
      have "dom (map_of (nodes e)) - insert n V = dom (map_of (nodes e)) - V"
        using missing by auto
      then show ?thesis using "1.hyps" [of e "insert n V" rest m C] missing
        by (simp add: Cons propagate_loop.simps [of e m V C "n # rest"])
    next
      case (new nd)
      let ?t = "case m of None \<Rightarrow> Map.empty | Some t \<Rightarrow> t"
      obtain e1 t1 where dep: "deprecate e ?t n nd = (e1, t1)" by fastforce
      have fl: "only_flags e e1" using deprecate_flags [OF new(2), of ?t] by (simp add: dep)
      obtain m1 W1 where scan:
        "scan_children e1 (Some t1) rest (dict_getd (dependents e1) n []) = Some (m1, W1)"
        using scan_children_total [of e1 "Some t1" rest "dict_getd (dependents e1) n []"] by auto
      have "card (dom (map_of (nodes e1)) - insert n V) < card (dom (map_of (nodes e)) - V)"
        using new by (intro psubset_card_mono) (auto simp: only_flags_dom [OF fl] finite_dom_map_of)
      then show ?thesis
        using "1.hyps" [of e1 "insert n V" W1 m1 "if is_valid nd then insert n C else C"]
          new dep scan fl only_flags_trans
        by (auto simp: Cons propagate_loop.simps [of e m V C "n # rest"])
    qed
  qed
qed

lemma propagate_total: "\<exists>e' C. propagate_deprecation e n = Some (e', C) \<and> only_flags e e'"
  unfolding propagate_deprecation_def by (rule propagate_loop_total)

lemma invalidate_total: "\<exists>e' C. invalidate_assumption e n = Some (e', C) \<and> only_flags e e'"
  using propagate_total [of e n] by (auto simp: invalidate_assumption_def split: option.splits)

lemma evaluate_flags: "evaluate_belief_states e = Some e' \<Longrightarrow> only_flags e e'"
  using evaluate_belief_states_spec [of e]
  by (auto simp: only_flags_def skeleton_def revalued_def fun_eq_iff option.map_comp comp_def)

section \<open>Well-formedness\<close>

definition node_ok :: "ATMSEngine \<Rightarrow> string \<Rightarrow> ATMSNode \<Rightarrow> bool" where
  "node_ok e n nd = (node_id nd = n \<and>
     (\<forall>j\<in>set (justifications nd). consequent j = n \<and> distinct (antecedents j) \<and>
        (\<forall>a\<in>set (antecedents j). node_of e a \<noteq> None \<and> n \<in> deps e a)))"

definition wf_engine :: "ATMSEngine \<Rightarrow> bool" where
  "wf_engine e = (distinct (dict_keys (nodes e)) \<and> (\<forall>n nd. node_of e n = Some nd \<longrightarrow> node_ok e n nd))"

lemma wf_engine_index: "wf_engine e \<Longrightarrow> index_complete e"
  by (auto simp: wf_engine_def node_ok_def index_complete_def)

lemma wf_new_engine [wf_intros]: "wf_engine (new_engine ns)"
  by (simp add: wf_engine_def new_engine_def)

lemma node_ok_mono:
  assumes "node_ok e n nd" and "\<And>k. node_of e k \<noteq> None \<Longrightarrow> node_of e' k \<noteq> None"
    and "\<And>k. deps e k \<subseteq> deps e' k"
  shows "node_ok e' n nd"
  using assms by (force simp: node_ok_def)

lemma wf_only_flags:
  assumes wf: "wf_engine e" and fl: "only_flags e e'"
  shows "wf_engine e'"
proof -
  from fl have keys: "dict_keys (nodes e') = dict_keys (nodes e)" and deps: "deps e' = deps e"
    and skel: "skeleton e' = skeleton e"
    by (auto simp: only_flags_def same_frame_def deps_def)
  have "node_ok e' n nd'" if nd': "node_of e' n = Some nd'" for n nd'
  proof -
    from fun_cong [OF skel, of n] nd' obtain nd where nd: "node_of e n = Some nd"
      "node_id nd = node_id nd'" "justifications nd = justifications nd'"
      by (cases "node_of e n") (auto simp: skeleton_def)
    have "node_of e k \<noteq> None \<longleftrightarrow> node_of e' k \<noteq> None" for k
      using fun_cong [OF skel, of k]
      by (cases "node_of e k"; cases "node_of e' k") (simp_all add: skeleton_def)
    with wf nd show ?thesis by (auto simp: wf_engine_def node_ok_def deps)
  qed
  with wf keys show ?thesis by (auto simp: wf_engine_def)
qed

lemma wf_register_node [wf_intros]:
  assumes "wf_engine e"
  shows "wf_engine (register_node e n ntype valid)"
proof -
  let ?e = "register_node e n ntype valid"
  have deps: "deps ?e = deps e"
    by (auto simp: register_node_def deps_def split: option.splits)
  have keys: "distinct (dict_keys (nodes ?e))"
    using assms by (auto simp: wf_engine_def register_node_def split: option.splits)
  have "node_ok ?e k nd" if "node_of ?e k = Some nd" for k nd
  proof (cases "k = n")
    case True
    with that assms show ?thesis
      by (auto simp: register_node_def node_ok_def wf_engine_def deps_def split: option.splits if_splits)
  next
    case False
    with that have "node_of e k = Some nd" by (auto simp: register_node_def split: option.splits)
    with assms have "node_ok e k nd" by (simp add: wf_engine_def)
    then show ?thesis
      by (rule node_ok_mono) (auto simp: deps, auto simp: register_node_def split: option.splits)
  qed
  with keys show ?thesis by (simp add: wf_engine_def)
qed

lemma wf_ensure_node [wf_intros]: "wf_engine e \<Longrightarrow> wf_engine (ensure_node ntype n e)"
  by (simp add: ensure_node_def wf_register_node)

lemma wf_fold_ensure [wf_intros]: "wf_engine e \<Longrightarrow> wf_engine (fold (ensure_node ntype) ns e)"
  by (induction ns arbitrary: e) (auto intro: wf_ensure_node)

lemma ensure_present: "node_of (ensure_node ntype n e) k = None \<longleftrightarrow> k \<noteq> n \<and> node_of e k = None"
  by (auto simp: ensure_node_def register_node_def split: option.splits)

lemma fold_ensure_present:
  "node_of (fold (ensure_node ntype) ns e) k = None \<longleftrightarrow> k \<notin> set ns \<and> node_of e k = None"
  by (induction ns arbitrary: e) (simp_all add: ensure_present conj_ac)

lemma add_dependent_nodes [simp]: "nodes (fold (add_dependent c) ants e) = nodes e"
  by (induction ants arbitrary: e) (auto simp: add_dependent_def)

lemma deps_add_dependent: "deps (add_dependent c a e) k = (if k = a then insert c (deps e a) else deps e k)"
  by (simp add: deps_def add_dependent_def)

lemma deps_fold_add_dependent:
  "deps (fold (add_dependent c) ants e) k = (if k \<in> set ants then insert c (deps e k) else deps e k)"
  by (induction ants arbitrary: e) (auto simp: deps_add_dependent)

lemma wf_add_justification [wf_intros]:
  assumes wf: "wf_engine e"
  shows "wf_engine (add_justification e c ants descr)"
proof -
  define e2 where "e2 = fold (ensure_node ASSUMPTION) ants (ensure_node DERIVED c e)"
  have wf2: "wf_engine e2" unfolding e2_def by (intro wf_intros wf)
  have present: "node_of e2 k \<noteq> None" if "k \<in> set ants \<or> k = c" for k
    using that unfolding e2_def fold_ensure_present ensure_present by blast
  obtain nd where nd: "node_of e2 c = Some nd" using present [of c] by auto
  define nd' where "nd' = nd\<lparr>justifications := justifications nd @
      [\<lparr>consequent = c, antecedents = remdups ants, description = descr\<rparr>]\<rparr>"
  define e' where "e' = fold (add_dependent c) ants (put_node c nd' e2)"
  have eq: "add_justification e c ants descr = e'"
    using nd by (simp add: add_justification_def e'_def nd'_def Let_def e2_def)
  have look: "node_of e' k = (if k = c then Some nd' else node_of e2 k)" for k
    by (simp add: e'_def)
  have deps': "deps e' k = (if k \<in> set ants then insert c (deps e2 k) else deps e2 k)" for k
    unfolding e'_def deps_fold_add_dependent by (simp add: deps_def)
  have mono: "node_ok e' k ndk" if "node_ok e2 k ndk" for k ndk
    using that by (rule node_ok_mono) (auto simp: look deps')
  have old: "node_ok e' c nd" using mono [of c nd] wf2 nd by (simp add: wf_engine_def)
  have new: "node_of e' a \<noteq> None \<and> c \<in> deps e' a" if "a \<in> set ants" for a
    using that present [of a] by (simp add: look deps')
  have "node_ok e' c nd'"
    using old new unfolding node_ok_def nd'_def by simp
  moreover have "distinct (dict_keys (nodes e'))"
    using wf2 by (auto simp: e'_def wf_engine_def)
  moreover have "node_ok e' k ndk" if "node_of e2 k = Some ndk" for k ndk
    using that wf2 mono by (simp add: wf_engine_def)
  ultimately show ?thesis
    unfolding eq wf_engine_def by (simp add: look)
qed

section \<open>Retraction and contradictions\<close>

definition retractable :: "ATMSEngine \<Rightarrow> string \<Rightarrow> bool" where
  "retractable e n = (case node_of e n of None \<Rightarrow> True | Some nd \<Rightarrow> node_type nd \<noteq> PREMISE)"

definition flipped :: "ATMSEngine \<Rightarrow> ATMSEngine \<Rightarrow> string set" where
  "flipped e e' = {n. node_valid e n \<and> \<not> node_valid e' n}"

lemma flipped_refl [simp]: "flipped e e = {}"
  by (auto simp: flipped_def)

lemma invalidate_effect:
  obtains e' where "invalidate_assumption e n = Some (e', flipped e e')" and "only_flags e e'"
    and "\<And>k. node_valid e' k \<Longrightarrow> node_valid e k" and "retractable e n \<Longrightarrow> \<not> node_valid e' n"
proof (cases "node_of e n")
  case None
  then show ?thesis by (intro that [of e]) (auto simp: invalidate_assumption_def node_valid_def)
next
  case (Some nd)
  show ?thesis
  proof (cases "node_type nd = PREMISE")
    case True
    with Some show ?thesis
      by (intro that [of e]) (auto simp: invalidate_assumption_def retractable_def)
  next
    case False
    from propagate_spec [OF Some this] obtain e' m V S where
      run: "propagate_deprecation e n = Some (e', {k \<in> V. node_valid e k})"
      and inv: "cascade_inv e {n} S e' m V []" by auto
    have "n \<in> V" using inv by (simp add: cascade_inv_def)
    moreover have "only_flags e e'" using propagate_total [of e n] run by auto
    moreover have "{k \<in> V. node_valid e k} = flipped e e'"
      using cascade_valid [OF inv] by (auto simp: flipped_def)
    ultimately show ?thesis
      using run Some False cascade_valid [OF inv]
      by (intro that [of e']) (auto simp: invalidate_assumption_def)
  qed
qed

lemma only_flags_retractable:
  assumes "only_flags e e'"
  shows "retractable e' n = retractable e n"
proof -
  have "skeleton e' n = skeleton e n" using assms by (simp add: only_flags_def)
  then show ?thesis
    by (cases "node_of e n"; cases "node_of e' n") (auto simp: skeleton_def retractable_def)
qed

lemma retractable_ensure [simp]: "ntype \<noteq> PREMISE \<Longrightarrow> retractable (ensure_node ntype k e) n = retractable e n"
  by (auto simp: ensure_node_def register_node_def retractable_def)

lemma retractable_fold_ensure [simp]:
  "ntype \<noteq> PREMISE \<Longrightarrow> retractable (fold (ensure_node ntype) ks e) n = retractable e n"
  by (induction ks arbitrary: e) auto

lemma retractable_contradictions [simp]: "retractable (e\<lparr>contradictions := cs\<rparr>) n = retractable e n"
  by (simp add: retractable_def)

lemma retractable_add_justification [simp]:
  "retractable (add_justification e c ants descr) n = retractable e n"
proof -
  let ?e2 = "fold (ensure_node ASSUMPTION) ants (ensure_node DERIVED c e)"
  have "retractable (add_justification e c ants descr) n = retractable ?e2 n"
    unfolding add_justification_def Let_def
    by (cases "node_of ?e2 c") (simp_all add: retractable_def)
  then show ?thesis by simp
qed

lemma ensure_contradictions [simp]: "contradictions (ensure_node ntype k e) = contradictions e"
  by (simp add: ensure_node_def register_node_def split: option.split)

lemma fold_ensure_contradictions [simp]:
  "contradictions (fold (ensure_node ntype) ks e) = contradictions e"
  by (induction ks arbitrary: e) auto

lemma fold_dependent_contradictions [simp]:
  "contradictions (fold (add_dependent c) ants e) = contradictions e"
  by (induction ants arbitrary: e) (auto simp: add_dependent_def)

lemma add_justification_contradictions [simp]:
  "contradictions (add_justification e c ants descr) = contradictions e"
  by (simp add: add_justification_def Let_def split: option.split)

lemma wf_contradictions [wf_intros]: "wf_engine e \<Longrightarrow> wf_engine (e\<lparr>contradictions := cs\<rparr>)"
  by (auto simp: wf_engine_def node_ok_def deps_def)

definition with_contradiction :: "ATMSEngine \<Rightarrow> string \<Rightarrow> string \<Rightarrow> ATMSEngine" where
  "with_contradiction e a b =
     add_justification (e\<lparr>contradictions := contradictions e @ [(a, b)]\<rparr>) ''FALSE''
       (remdups [a, b]) ''Contradiction''"

definition resolvable :: "ATMSEngine \<Rightarrow> string \<Rightarrow> string \<Rightarrow> string \<Rightarrow> bool" where
  "resolvable e a b strategy =
     (strategy = ''invalidate_a'' \<and> retractable e a \<or> strategy = ''invalidate_b'' \<and> retractable e b \<or>
      strategy = ''invalidate_both'' \<and> (retractable e a \<or> retractable e b))"

lemma wf_with_contradiction [wf_intros]: "wf_engine e \<Longrightarrow> wf_engine (with_contradiction e a b)"
  unfolding with_contradiction_def by (intro wf_intros)

lemma flipped_trans:
  assumes "\<And>k. node_valid e' k \<Longrightarrow> node_valid e k" and "\<And>k. node_valid e'' k \<Longrightarrow> node_valid e' k"
  shows "flipped e e' \<union> flipped e' e'' = flipped e e''"
  using assms by (auto simp: flipped_def)

lemma register_contradiction_effect:
  obtains e' where "register_contradiction e a b strategy =
      Some (e', flipped (with_contradiction e a b) e')"
    and "only_flags (with_contradiction e a b) e'"
    and "resolvable e a b strategy \<Longrightarrow> \<not> (node_valid e' a \<and> node_valid e' b)"
proof -
  define e2 where "e2 = with_contradiction e a b"
  have ret: "retractable e2 n = retractable e n" for n by (simp add: e2_def with_contradiction_def)
  have eq: "register_contradiction e a b strategy =
     (if node_valid e2 a \<and> node_valid e2 b then
           (if strategy = ''invalidate_a'' then invalidate_assumption e2 a
            else if strategy = ''invalidate_b'' then invalidate_assumption e2 b
            else if strategy = ''invalidate_both'' then
              Option.bind (invalidate_assumption e2 a) (\<lambda>(e3, c1).
                Option.bind (invalidate_assumption e3 b) (\<lambda>(e4, c2). Some (e4, c1 \<union> c2)))
            else Some (e2, {}))
         else Some (e2, {}))"
    by (simp only: register_contradiction_def Let_def e2_def with_contradiction_def)
  consider (skip) "\<not> (node_valid e2 a \<and> node_valid e2 b) \<or>
      strategy \<notin> {''invalidate_a'', ''invalidate_b'', ''invalidate_both''}"
    | (one) n where "node_valid e2 a \<and> node_valid e2 b" "n = a \<and> strategy = ''invalidate_a'' \<or>
        n = b \<and> strategy = ''invalidate_b''"
    | (both) "node_valid e2 a \<and> node_valid e2 b" "strategy = ''invalidate_both''" by auto
  then show ?thesis
  proof cases
    case skip
    then show ?thesis
      by (intro that [of e2]) (auto simp: eq e2_def [symmetric] resolvable_def)
  next
    case one
    obtain e' where "invalidate_assumption e2 n = Some (e', flipped e2 e')" "only_flags e2 e'"
      and "\<And>k. node_valid e' k \<Longrightarrow> node_valid e2 k" and "retractable e2 n \<Longrightarrow> \<not> node_valid e' n"
      by (rule invalidate_effect [of e2 n]) blast
    with one show ?thesis
      by (intro that [of e']) (auto simp: eq e2_def [symmetric] resolvable_def ret)
  next
    case both
    obtain e3 where e3: "invalidate_assumption e2 a = Some (e3, flipped e2 e3)" "only_flags e2 e3"
      and mono3: "\<And>k. node_valid e3 k \<Longrightarrow> node_valid e2 k" and fell3: "retractable e2 a \<Longrightarrow> \<not> node_valid e3 a"
      by (rule invalidate_effect [of e2 a]) blast
    obtain e4 where e4: "invalidate_assumption e3 b = Some (e4, flipped e3 e4)" "only_flags e3 e4"
      and mono4: "\<And>k. node_valid e4 k \<Longrightarrow> node_valid e3 k" and fell4: "retractable e3 b \<Longrightarrow> \<not> node_valid e4 b"
      by (rule invalidate_effect [of e3 b]) blast
    have "\<not> (node_valid e4 a \<and> node_valid e4 b)" if "resolvable e a b strategy"
      using that both(2) fell3 fell4 mono4 [of a] only_flags_retractable [OF e3(2), of b]
      by (auto simp: resolvable_def ret)
    moreover have "flipped e2 e3 \<union> flipped e3 e4 = flipped e2 e4"
      by (rule flipped_trans) (fact mono3, fact mono4)
    then have "register_contradiction e a b strategy = Some (e4, flipped e2 e4)"
      unfolding eq using both e3 e4 by simp
    ultimately show ?thesis
      using only_flags_trans [OF e3(2) e4(2)] by (intro that [of e4]) (auto simp: e2_def)
  qed
qed

section \<open>The engine as a state machine\<close>

inductive atms_step :: "ATMSEngine \<Rightarrow> ATMSEngine \<Rightarrow> bool" where
  step_register: "atms_step e (register_node e n ntype valid)"
| step_justify: "atms_step e (add_justification e c ants descr)"
| step_propagate: "propagate_deprecation e n = Some (e', C) \<Longrightarrow> atms_step e e'"
| step_invalidate: "invalidate_assumption e n = Some (e', C) \<Longrightarrow> atms_step e e'"
| step_contradict: "register_contradiction e a b strategy = Some (e', C) \<Longrightarrow> atms_step e e'"
| step_evaluate: "evaluate_belief_states e = Some e' \<Longrightarrow> atms_step e e'"

definition atms_init :: "ATMSEngine \<Rightarrow> bool" where
  "atms_init e = (e = new_engine (namespace_id e))"

lemma wf_atms_step: "atms_step e e' \<Longrightarrow> wf_engine e \<Longrightarrow> wf_engine e'"
proof (induction rule: atms_step.induct)
  case (step_propagate e n e' C)
  then show ?case using propagate_total [of e n] by (auto intro: wf_only_flags)
next
  case (step_invalidate e n e' C)
  then show ?case using invalidate_total [of e n] by (auto intro: wf_only_flags)
next
  case (step_contradict e a b strategy e' C)
  obtain f where "register_contradiction e a b strategy = Some (f, flipped (with_contradiction e a b) f)"
    and "only_flags (with_contradiction e a b) f" by (rule register_contradiction_effect) blast
  with step_contradict show ?case by (auto intro: wf_only_flags wf_with_contradiction)
qed (auto intro: wf_intros evaluate_flags wf_only_flags)

interpretation atms: invariant_machine atms_init atms_step wf_engine
proof
  show "wf_engine e" if "atms_init e" for e
    using that wf_new_engine [of "namespace_id e"] by (simp add: atms_init_def)
  show "wf_engine e'" if "wf_engine e" and "atms_step e e'" for e e'
    using that by (rule wf_atms_step [rotated])
qed

section \<open>Properties\<close>

text \<open>C9: Every engine that the public operations can build, in any order and number, is well formed:
  node keys are unique and agree with the node identifiers, every antecedent of a justification is a
  registered node, and the reverse dependency index contains the consequent under each antecedent.\<close>

theorem reachable_engine_wf: "reachable_from atms_init atms_step e \<Longrightarrow> wf_engine e"
  by (rule atms.reachable_inv)

theorem reachable_engine_wf_witness: "wf_engine (register_node (new_engine None) ''p'' PREMISE True)"
proof (rule reachable_engine_wf)
  have "reachable_from atms_init atms_step (new_engine None)"
    by (rule reach_init) (simp add: atms_init_def new_engine_def)
  then show "reachable_from atms_init atms_step (register_node (new_engine None) ''p'' PREMISE True)"
    by (rule reach_step) (rule step_register)
qed

text \<open>C11: Termination of the cascade: on every engine and every identifier, registered or not and
  whatever cycles the justifications form, deprecation and retraction return, and they change nothing
  but validity flags.\<close>

theorem cascade_terminates:
  "(\<exists>e' C. propagate_deprecation e n = Some (e', C) \<and> only_flags e e') \<and>
   (\<exists>e' C. invalidate_assumption e n = Some (e', C) \<and> only_flags e e')"
  using propagate_total invalidate_total by blast

text \<open>C10: Registering a contradiction returns, records the pair, keeps the engine well formed and
  reports exactly the nodes whose flag fell; when the strategy names a node that is not a premise, the
  two nodes are not both valid afterwards.\<close>

theorem register_contradiction_correct:
  assumes "wf_engine e"
  shows "\<exists>e'. register_contradiction e a b strategy =
      Some (e', flipped (with_contradiction e a b) e') \<and> wf_engine e' \<and>
    contradictions e' = contradictions e @ [(a, b)] \<and>
    (resolvable e a b strategy \<longrightarrow> \<not> (node_valid e' a \<and> node_valid e' b))"
proof -
  obtain e' where e': "register_contradiction e a b strategy =
      Some (e', flipped (with_contradiction e a b) e')" "only_flags (with_contradiction e a b) e'"
    "resolvable e a b strategy \<Longrightarrow> \<not> (node_valid e' a \<and> node_valid e' b)"
    by (rule register_contradiction_effect) blast
  have "contradictions (with_contradiction e a b) = contradictions e @ [(a, b)]"
    by (simp add: with_contradiction_def)
  with e'(2) have "contradictions e' = contradictions e @ [(a, b)]"
    by (simp add: only_flags_def same_frame_def)
  with e' show ?thesis
    using wf_only_flags [OF wf_with_contradiction [OF assms] e'(2)] by auto
qed

theorem register_contradiction_correct_witness:
  "\<exists>e'. register_contradiction (new_engine None) ''a'' ''b'' ''invalidate_a'' =
      Some (e', flipped (with_contradiction (new_engine None) ''a'' ''b'') e') \<and> wf_engine e' \<and>
    contradictions e' = [(''a'', ''b'')] \<and> \<not> (node_valid e' ''a'' \<and> node_valid e' ''b'')"
proof -
  have "resolvable (new_engine None) ''a'' ''b'' ''invalidate_a''" by code_simp
  moreover have "contradictions (new_engine None) = []" by code_simp
  ultimately show ?thesis
    using register_contradiction_correct [OF wf_new_engine [of None], of "''a''" "''b''" "''invalidate_a''"]
    by simp
qed

end
