(* ===== verification/Traversal.thy ===== *)
theory Traversal
  imports Prelude
begin

text \<open>
  The two graph traversals that the causal components repeat with different edge functions: the
  breadth-first walk with a queue and a visited set, and the enumeration of simple paths with an
  explicit stack. They are parameterised by the expansion of a node, a list of pairs of an edge and the
  node it leads to. The locale \<open>finite_expansion\<close> states what a client must provide (finitely many nodes,
  the end point determined by the edge) and proves both loops terminating and exact.
\<close>

section \<open>The loops\<close>

text \<open>The state of the walk: queue, visited set, and the result in the order of insertion.\<close>

type_synonym 'n walk = "'n list \<times> 'n set \<times> 'n list"

definition visit :: "'n \<Rightarrow> 'n walk \<Rightarrow> 'n walk" where
  "visit nxt w = (case w of (queue, visited, result) \<Rightarrow>
     if nxt \<notin> visited then (queue @ [nxt], insert nxt visited, result @ [nxt])
     else (queue, visited, result))"

fun walk_step :: "('n \<Rightarrow> 'n list) \<Rightarrow> 'n walk \<Rightarrow> 'n walk" where
  "walk_step succ ([], visited, result) = ([], visited, result)"
| "walk_step succ (current # queue, visited, result) =
     fold visit (succ current) (queue, visited, result)"

definition walk_from :: "('n \<Rightarrow> 'n list) \<Rightarrow> 'n \<Rightarrow> 'n list option" where
  "walk_from succ start =
     map_option (\<lambda>(queue, visited, result). result)
       (while_option (\<lambda>(queue, visited, result). queue \<noteq> []) (walk_step succ) ([start], {start}, []))"

text \<open>
  The state of the enumeration: the stack (top first) of triples of the current node, the edges
  taken and the nodes on the path, and the paths found so far.
\<close>

type_synonym ('n, 'e) path_item = "'n \<times> 'e list \<times> 'n set"

definition push_steps :: "('e \<times> 'n) list \<Rightarrow> 'e list \<Rightarrow> 'n set \<Rightarrow> ('n, 'e) path_item list" where
  "push_steps steps path_edges path_nodes =
     rev (map (\<lambda>(edge, nxt). (nxt, path_edges @ [edge], insert nxt path_nodes))
            (filter (\<lambda>(edge, nxt). nxt \<notin> path_nodes) steps))"

fun path_step ::
    "('n \<Rightarrow> ('e \<times> 'n) list) \<Rightarrow> 'n \<Rightarrow> int \<Rightarrow> ('n, 'e) path_item list \<times> 'e list list \<Rightarrow>
       ('n, 'e) path_item list \<times> 'e list list" where
  "path_step expand target max_depth ([], results) = ([], results)"
| "path_step expand target max_depth ((current, path_edges, path_nodes) # stack, results) =
     (if current = target then (stack, results @ [path_edges])
      else if int (length path_edges) \<ge> max_depth then (stack, results)
      else (push_steps (expand current) path_edges path_nodes @ stack, results))"

definition path_run ::
    "('n \<Rightarrow> ('e \<times> 'n) list) \<Rightarrow> 'n \<Rightarrow> int \<Rightarrow> ('n, 'e) path_item list \<times> 'e list list \<Rightarrow>
       (('n, 'e) path_item list \<times> 'e list list) option" where
  "path_run expand target max_depth =
     while_option (\<lambda>(stack, results). stack \<noteq> []) (path_step expand target max_depth)"

definition paths_from ::
    "('n \<Rightarrow> ('e \<times> 'n) list) \<Rightarrow> 'n \<Rightarrow> 'n \<Rightarrow> int \<Rightarrow> 'e list list option" where
  "paths_from expand source target max_depth =
     map_option snd (path_run expand target max_depth ([(source, [], {source})], []))"

section \<open>Single iterations\<close>

lemma path_run_done [simp]: "path_run expand t d ([], res) = Some ([], res)"
  by (simp add: path_run_def while_option_done)

lemma path_run_step:
  "path_run expand t d (it # st, res) = path_run expand t d (path_step expand t d (it # st, res))"
  unfolding path_run_def by (rule while_option_step) simp

lemma visit_fold:
  "\<exists>new. fold visit xs (q, v, r) = (q @ new, v \<union> set xs, r @ new) \<and> distinct new \<and>
     set new = set xs - v"
proof (induction xs arbitrary: q v r)
  case (Cons x xs)
  show ?case
  proof (cases "x \<in> v")
    case True
    then show ?thesis using Cons [of q v r] by (auto simp: visit_def)
  next
    case False
    obtain new where "fold visit xs (q @ [x], insert x v, r @ [x]) =
        ((q @ [x]) @ new, insert x v \<union> set xs, (r @ [x]) @ new)"
      "distinct new" "set new = set xs - insert x v"
      using Cons by blast
    moreover from this False have "set (x # new) = set (x # xs) - v" and "distinct (x # new)"
      by auto
    moreover have "visit x (q, v, r) = (q @ [x], insert x v, r @ [x])"
      using False by (simp add: visit_def)
    ultimately show ?thesis by (intro exI [of _ "x # new"]) simp
  qed
qed simp

section \<open>Finite expansions\<close>

locale finite_expansion =
  fixes expand :: "'n \<Rightarrow> ('e \<times> 'n) list"
    and nxt :: "'e \<Rightarrow> 'n"
    and universe :: "'n set"
  assumes finite_universe: "finite universe"
    and expand_universe: "(e, n) \<in> set (expand x) \<Longrightarrow> n \<in> universe"
    and expand_nxt: "(e, n) \<in> set (expand x) \<Longrightarrow> n = nxt e"
begin

definition succ :: "'n \<Rightarrow> 'n list" where
  "succ x = map snd (expand x)"

definition arc :: "'n \<Rightarrow> 'n \<Rightarrow> bool" where
  "arc x y = (y \<in> set (succ x))"

lemma arc_iff: "arc x y \<longleftrightarrow> (\<exists>e. (e, y) \<in> set (expand x))"
  by (force simp: arc_def succ_def)

definition walk_inv :: "'n \<Rightarrow> 'n walk \<Rightarrow> bool" where
  "walk_inv s w = (case w of (q, v, r) \<Rightarrow>
     set q \<subseteq> v \<and> v = insert s (set r) \<and> s \<notin> set r \<and> distinct r \<and> v \<subseteq> insert s universe \<and>
     v \<subseteq> {t. arc\<^sup>*\<^sup>* s t} \<and> (\<forall>x\<in>v - set q. set (succ x) \<subseteq> v))"

definition walk_measure :: "'n \<Rightarrow> 'n walk \<Rightarrow> nat" where
  "walk_measure s w = (case w of (q, v, r) \<Rightarrow> 2 * card (insert s universe - v) + length q)"

lemma walk_step_inv:
  assumes "walk_inv s (x # q, v, r)"
  shows "walk_inv s (walk_step succ (x # q, v, r)) \<and>
    walk_measure s (walk_step succ (x # q, v, r)) < walk_measure s (x # q, v, r)"
proof -
  obtain new where fold: "fold visit (succ x) (q, v, r) = (q @ new, v \<union> set (succ x), r @ new)"
    and new: "distinct new" "set new = set (succ x) - v"
    using visit_fold [of "succ x" q v r] by blast
  have univ: "set (succ x) \<subseteq> universe" by (auto simp: succ_def expand_universe)
  have reach: "arc\<^sup>*\<^sup>* s t" if "t \<in> set (succ x)" for t
    using that assms by (auto simp: walk_inv_def arc_def intro: rtranclp.rtrancl_into_rtrancl)
  have "walk_inv s (q @ new, v \<union> set (succ x), r @ new)"
    using assms new univ reach unfolding walk_inv_def by auto
  moreover have "card (insert s universe - v) =
      card (insert s universe - (v \<union> set (succ x))) + length new"
  proof -
    have "insert s universe - v = (insert s universe - (v \<union> set (succ x))) \<union> set new"
      using univ new by auto
    moreover have "card ((insert s universe - (v \<union> set (succ x))) \<union> set new) =
        card (insert s universe - (v \<union> set (succ x))) + card (set new)"
      using new finite_universe by (intro card_Un_disjoint) auto
    ultimately show ?thesis using distinct_card [OF new(1)] by presburger
  qed
  ultimately show ?thesis by (simp add: fold walk_measure_def)
qed

lemma walk_from_exact:
  "\<exists>r. walk_from succ s = Some r \<and> distinct r \<and> set r = {t. arc\<^sup>*\<^sup>* s t} - {s}"
proof -
  let ?b = "\<lambda>(q, v, r). q \<noteq> []"
  have "\<exists>w. while_option ?b (walk_step succ) ([s], {s}, []) = Some w \<and> walk_inv s w \<and> \<not> ?b w"
  proof (rule while_option_total [where m = "walk_measure s"])
    show "walk_inv s ([s], {s}, [])" by (simp add: walk_inv_def)
  next
    fix w assume "walk_inv s w" and "?b w"
    then obtain x q v r where "w = (x # q, v, r)" and "walk_inv s (x # q, v, r)"
      by (cases w) (auto simp: neq_Nil_conv)
    then show "walk_inv s (walk_step succ w) \<and> walk_measure s (walk_step succ w) < walk_measure s w"
      using walk_step_inv [of s x q v r] by simp
  qed
  then obtain q v r where run: "while_option ?b (walk_step succ) ([s], {s}, []) = Some (q, v, r)"
    and inv: "walk_inv s (q, v, r)" and q: "q = []" by auto
  have "t \<in> v" if "arc\<^sup>*\<^sup>* s t" for t
    using that inv q by (induction rule: rtranclp_induct) (auto simp: walk_inv_def arc_def)
  then have "v = {t. arc\<^sup>*\<^sup>* s t}" using inv by (auto simp: walk_inv_def)
  then show ?thesis using run inv by (auto simp: walk_from_def walk_inv_def)
qed

subsection \<open>Simple paths\<close>

fun chain :: "'n \<Rightarrow> 'e list \<Rightarrow> bool" where
  "chain x [] = True"
| "chain x (e # p) = ((e, nxt e) \<in> set (expand x) \<and> chain (nxt e) p)"

definition simple_path :: "'n \<Rightarrow> 'e list \<Rightarrow> 'n \<Rightarrow> bool" where
  "simple_path s p t = (chain s p \<and> distinct (s # map nxt p) \<and> last (s # map nxt p) = t)"

text \<open>Continuations of a partial path: the target may only be met at the end.\<close>

definition extends :: "'n \<Rightarrow> int \<Rightarrow> ('n, 'e) path_item \<Rightarrow> 'e list \<Rightarrow> bool" where
  "extends target d it q = (case it of (x, p, seen) \<Rightarrow>
     chain x q \<and> distinct (map nxt q) \<and> set (map nxt q) \<inter> seen = {} \<and>
     last (x # map nxt q) = target \<and> target \<notin> set (butlast (x # map nxt q)) \<and>
     (q \<noteq> [] \<longrightarrow> int (length p + length q) \<le> d))"

definition explored :: "'n \<Rightarrow> int \<Rightarrow> ('n, 'e) path_item list \<Rightarrow> bool" where
  "explored target d its = (\<exists>ps. set ps = (\<Union>it\<in>set its. {fst (snd it) @ q |q. extends target d it q}) \<and>
     (\<forall>rest res. path_run expand target d (its @ rest, res) =
        path_run expand target d (rest, res @ ps)))"

lemma explored_list: "(\<And>it. it \<in> set its \<Longrightarrow> explored target d [it]) \<Longrightarrow> explored target d its"
proof (induction its)
  case Nil
  show ?case unfolding explored_def by (rule exI [of _ "[]"]) simp
next
  case (Cons it its)
  then have "explored target d [it]" and "explored target d its" by auto
  then obtain ps qs where
    "set ps = {fst (snd it) @ q |q. extends target d it q}"
    "set qs = (\<Union>it\<in>set its. {fst (snd it) @ q |q. extends target d it q})"
    "\<And>rest res. path_run expand target d (it # rest, res) =
        path_run expand target d (rest, res @ ps)"
    "\<And>rest res. path_run expand target d (its @ rest, res) =
        path_run expand target d (rest, res @ qs)"
    unfolding explored_def by auto
  then show ?case unfolding explored_def by (intro exI [of _ "ps @ qs"]) auto
qed

lemma extends_at_target: "extends target d (target, p, seen) q \<longleftrightarrow> q = []"
  by (cases q) (auto simp: extends_def)

lemma extends_too_deep:
  "x \<noteq> target \<Longrightarrow> int (length p) \<ge> d \<Longrightarrow> \<not> extends target d (x, p, seen) q"
  by (cases q) (auto simp: extends_def)

lemma extends_step:
  assumes "x \<noteq> target" and "int (length p) < d"
  shows "extends target d (x, p, seen) q \<longleftrightarrow> (\<exists>e q'. q = e # q' \<and> (e, nxt e) \<in> set (expand x) \<and>
     nxt e \<notin> seen \<and> extends target d (nxt e, p @ [e], insert (nxt e) seen) q')"
  using assms by (cases q) (auto simp: extends_def)

lemma push_steps_set:
  "set (push_steps (expand x) p seen) =
     {(nxt e, p @ [e], insert (nxt e) seen) |e. (e, nxt e) \<in> set (expand x) \<and> nxt e \<notin> seen}"
  using expand_nxt by (force simp: push_steps_def)

lemma steps_Union:
  "(\<Union>it\<in>{(f e, p @ [e], g e) |e. A e \<and> B e}. {fst (snd it) @ q |q. E it q}) =
     {p @ q |q. \<exists>e q'. q = e # q' \<and> A e \<and> B e \<and> E (f e, p @ [e], g e) q'}" (is "?L = ?R")
proof
  show "?L \<subseteq> ?R" by auto
  show "?R \<subseteq> ?L"
  proof
    fix z assume "z \<in> ?R"
    then obtain e q where "z = p @ e # q" "A e" "B e" "E (f e, p @ [e], g e) q" by blast
    then show "z \<in> ?L" by (intro UN_I [of "(f e, p @ [e], g e)"]) auto
  qed
qed

lemma explored_item: "explored target d [(x, p, seen)]"
proof (induction "card (universe - seen)" arbitrary: x p seen rule: less_induct)
  case less
  consider (hit) "x = target" | (deep) "x \<noteq> target" "int (length p) \<ge> d"
    | (go) "x \<noteq> target" "int (length p) < d" by fastforce
  then show ?case
  proof cases
    case hit
    then show ?thesis unfolding explored_def
      by (intro exI [of _ "[p]"]) (auto simp: path_run_step extends_at_target)
  next
    case deep
    then show ?thesis unfolding explored_def
      by (intro exI [of _ "[]"]) (auto simp: path_run_step extends_too_deep)
  next
    case go
    have "explored target d (push_steps (expand x) p seen)"
    proof (rule explored_list)
      fix it assume "it \<in> set (push_steps (expand x) p seen)"
      then obtain e where it: "it = (nxt e, p @ [e], insert (nxt e) seen)"
        and e: "(e, nxt e) \<in> set (expand x)" "nxt e \<notin> seen" by (auto simp: push_steps_set)
      have "universe - insert (nxt e) seen \<subset> universe - seen"
        using expand_universe [OF e(1)] e(2) by auto
      then show "explored target d [it]"
        unfolding it by (intro less psubset_card_mono) (auto simp: finite_universe)
    qed
    then obtain ps where ps: "set ps = (\<Union>it\<in>set (push_steps (expand x) p seen).
        {fst (snd it) @ q |q. extends target d it q})"
      and run: "\<And>rest res. path_run expand target d (push_steps (expand x) p seen @ rest, res) =
          path_run expand target d (rest, res @ ps)"
      unfolding explored_def by blast
    have "set ps = {p @ q |q. extends target d (x, p, seen) q}"
      unfolding ps push_steps_set extends_step [OF go] by (rule steps_Union)
    with go show ?thesis unfolding explored_def
      by (intro exI [of _ ps]) (auto simp: path_run_step run)
  qed
qed

lemma extends_root:
  assumes "s \<noteq> t"
  shows "extends t d (s, [], {s}) q \<longleftrightarrow> simple_path s q t \<and> int (length q) \<le> d"
proof -
  define N where "N = map nxt q"
  have early: "t \<notin> set (butlast (s # N))" if "distinct (s # N)" "last (s # N) = t"
    using that by (metis append_butlast_last_id distinct_append disjoint_iff list.distinct(1)
        list.set_intros(1))
  have "q \<noteq> []" if "last (s # N) = t" using that assms by (auto simp: N_def)
  then have "extends t d (s, [], {s}) q \<longleftrightarrow> chain s q \<and> distinct (s # N) \<and> last (s # N) = t \<and>
      t \<notin> set (butlast (s # N)) \<and> int (length q) \<le> d"
    unfolding extends_def prod.case N_def [symmetric] by auto
  with early show ?thesis unfolding simple_path_def N_def [symmetric] by blast
qed

lemma paths_from_exact:
  assumes "s \<noteq> t"
  shows "\<exists>ps. paths_from expand s t d = Some ps \<and>
    set ps = {p. simple_path s p t \<and> int (length p) \<le> d}"
proof -
  obtain ps where ps: "set ps = {q. extends t d (s, [], {s}) q}"
    and run: "path_run expand t d ([(s, [], {s})], []) = Some ([], ps)"
    using explored_item [of t d s "[]" "{s}"] unfolding explored_def by fastforce
  then show ?thesis by (simp add: paths_from_def extends_root [OF assms])
qed

lemma simple_path_arc:
  assumes "simple_path s p t"
  shows "arc\<^sup>*\<^sup>* s t"
proof -
  have "arc\<^sup>*\<^sup>* s (last (s # map nxt p))" if "chain s p" for s
    using that
  proof (induction p arbitrary: s)
    case (Cons e p)
    then have "arc s (nxt e)" by (force simp: arc_def succ_def)
    with Cons show ?case by (auto simp: converse_rtranclp_into_rtranclp split: if_splits)
  qed simp
  with assms show ?thesis by (auto simp: simple_path_def)
qed

lemma arc_path: "arc x y \<Longrightarrow> \<exists>e. (e, nxt e) \<in> set (expand x) \<and> nxt e = y"
  using expand_nxt by (force simp: arc_def succ_def)

lemma chain_suffix: "chain s (p @ q) \<longleftrightarrow> chain s p \<and> chain (last (s # map nxt p)) q"
  by (induction p arbitrary: s) auto

lemma reachable_simple_path:
  assumes "arc\<^sup>*\<^sup>* s t"
  shows "\<exists>p. simple_path s p t"
  using assms
proof (induction rule: converse_rtranclp_induct)
  case base
  then show ?case by (intro exI [of _ "[]"]) (simp add: simple_path_def)
next
  case (step x y)
  then obtain e p where e: "(e, nxt e) \<in> set (expand x)" "nxt e = y" and p: "simple_path y p t"
    using arc_path by blast
  show ?case
  proof (cases "x \<in> set (y # map nxt p)")
    case False
    with e p have "simple_path x (e # p) t" by (auto simp: simple_path_def)
    then show ?thesis by blast
  next
    case True
    then have "x \<in> nxt ` set (e # p)" using e by auto
    then obtain f us vs where split: "e # p = us @ f # vs" and f: "nxt f = x"
      using split_list by (metis imageE)
    have "chain x (e # p)" and dist: "distinct (map nxt (e # p))"
      and last: "last (map nxt (e # p)) = t"
      using e p by (auto simp: simple_path_def)
    then have "chain x vs" "distinct (x # map nxt vs)" "last (x # map nxt vs) = t"
      unfolding split chain_suffix by (auto simp: f)
    then show ?thesis by (auto simp: simple_path_def)
  qed
qed

lemma simple_path_length:
  assumes "simple_path s p t"
  shows "length p \<le> card universe"
proof -
  have "set (map nxt p) \<subseteq> universe" if "chain s p" for s
    using that by (induction p arbitrary: s) (auto dest: expand_universe)
  then have "card (set (map nxt p)) \<le> card universe"
    using assms finite_universe by (intro card_mono) (auto simp: simple_path_def)
  with assms show ?thesis by (simp add: simple_path_def distinct_card del: set_map)
qed

end

end
