(* ===== verification/CausalGraph.thy ===== *)
theory CausalGraph
  imports Complex_Main Traversal "HOL-Library.List_Lexorder" "HOL-Library.Char_ord" "HOL-Library.Product_Lexorder"
begin

text \<open>
  The causal topology graph of \<open>nce/causal/correlation.py\<close> (class \<open>CausalGraph\<close>): construction from
  rows, the direction-agnostic traversals, the failure propagation that follows edge types, path
  enumeration, and the intervention operator \<open>mutilate\<close>. Confidences and times are idealised as real
  numbers; a time stamp is its POSIX time, naive stamps read as UTC as the code does.
\<close>

section \<open>Data\<close>

definition FORWARD_FAILURE_TYPES :: "string set" where
  "FORWARD_FAILURE_TYPES = {''connected_to'', ''host_application''}"

definition REVERSE_FAILURE_TYPES :: "string set" where
  "REVERSE_FAILURE_TYPES = {''depends_on'', ''powered_by''}"

record CausalNode =
  cnode_id :: string
  cnode_type :: string
  cnode_namespace :: string

record CausalEdge =
  source_node_id :: string
  target_node_id :: string
  edge_type :: string
  confidence_score :: real
  decay_coefficient :: real
  last_verified :: "real option"

record CausalGraph =
  gnodes :: "(string, CausalNode) dict"
  outgoing :: "(string, CausalEdge list) dict"
  incoming :: "(string, CausalEdge list) dict"

text \<open>A row of \<open>topology_graph\<close> as the queries select it.\<close>

record topology_row =
  row_source :: string
  row_source_type :: string
  row_target :: string
  row_target_type :: string
  row_edge_type :: string
  row_confidence :: real
  row_decay :: real
  row_last_verified :: "real option"

abbreviation forward_edge :: "CausalEdge \<Rightarrow> bool" where
  "forward_edge e \<equiv> edge_type e \<in> FORWARD_FAILURE_TYPES"

abbreviation reverse_edge :: "CausalEdge \<Rightarrow> bool" where
  "reverse_edge e \<equiv> edge_type e \<in> REVERSE_FAILURE_TYPES"

lemma not_forward_and_reverse: "forward_edge e \<Longrightarrow> \<not> reverse_edge e"
  by (auto simp: FORWARD_FAILURE_TYPES_def REVERSE_FAILURE_TYPES_def)

section \<open>Construction\<close>

definition append_at :: "'k \<Rightarrow> 'v \<Rightarrow> ('k, 'v list) dict \<Rightarrow> ('k, 'v list) dict" where
  "append_at k v d = dict_set k (dict_getd d k [] @ [v]) d"

definition row_edge :: "topology_row \<Rightarrow> CausalEdge" where
  "row_edge row = \<lparr>source_node_id = row_source row, target_node_id = row_target row,
     edge_type = row_edge_type row, confidence_score = row_confidence row,
     decay_coefficient = row_decay row, last_verified = row_last_verified row\<rparr>"

definition collect_types ::
    "topology_row \<Rightarrow> (string, string) dict \<times> (string, string) dict \<Rightarrow>
       (string, string) dict \<times> (string, string) dict" where
  "collect_types row ts = (case ts of (source_types, target_types) \<Rightarrow>
     let source_types' = dict_set (row_source row) (row_source_type row) source_types
     in (source_types',
         if dict_get source_types' (row_target row) = None
         then dict_set (row_target row) (row_target_type row) target_types else target_types))"

definition graph_of_edges :: "(string, CausalNode) dict \<Rightarrow> CausalEdge list \<Rightarrow> CausalGraph" where
  "graph_of_edges ns es = \<lparr>gnodes = ns,
     outgoing = fold (\<lambda>e. append_at (source_node_id e) e) es [],
     incoming = fold (\<lambda>e. append_at (target_node_id e) e) es []\<rparr>"

definition from_rows :: "topology_row list \<Rightarrow> string \<Rightarrow> CausalGraph" where
  "from_rows rows ns =
     (let (source_types, target_types) = fold collect_types rows ([], []);
          merged_types = fold (\<lambda>(n, t). dict_set n t) source_types target_types;
          nodes = map (\<lambda>(n, t). (n, \<lparr>cnode_id = n, cnode_type = t, cnode_namespace = ns\<rparr>)) merged_types
      in graph_of_edges nodes (map row_edge rows))"

section \<open>Accessors\<close>

definition get_node :: "CausalGraph \<Rightarrow> string \<Rightarrow> CausalNode option" where
  "get_node g n = dict_get (gnodes g) n"

definition outgoing_edges :: "CausalGraph \<Rightarrow> string \<Rightarrow> CausalEdge list" where
  "outgoing_edges g n = dict_getd (outgoing g) n []"

definition incoming_edges :: "CausalGraph \<Rightarrow> string \<Rightarrow> CausalEdge list" where
  "incoming_edges g n = dict_getd (incoming g) n []"

section \<open>Traversals\<close>

definition out_steps :: "CausalGraph \<Rightarrow> string \<Rightarrow> (CausalEdge \<times> string) list" where
  "out_steps g c = map (\<lambda>e. (e, target_node_id e)) (sort_key target_node_id (outgoing_edges g c))"

definition in_steps :: "CausalGraph \<Rightarrow> string \<Rightarrow> (CausalEdge \<times> string) list" where
  "in_steps g c = map (\<lambda>e. (e, source_node_id e)) (sort_key source_node_id (incoming_edges g c))"

definition causal_steps :: "CausalGraph \<Rightarrow> string \<Rightarrow> (CausalEdge \<times> string) list" where
  "causal_steps g c =
     filter (\<lambda>(e, n). forward_edge e) (out_steps g c) @ filter (\<lambda>(e, n). reverse_edge e) (in_steps g c)"

definition descendants :: "CausalGraph \<Rightarrow> string \<Rightarrow> string list option" where
  "descendants g n = walk_from (\<lambda>c. map snd (out_steps g c)) n"

definition ancestors :: "CausalGraph \<Rightarrow> string \<Rightarrow> string list option" where
  "ancestors g n = walk_from (\<lambda>c. map snd (in_steps g c)) n"

definition impacted_by :: "CausalGraph \<Rightarrow> string \<Rightarrow> string list option" where
  "impacted_by g failed_node = walk_from (\<lambda>c. map snd (causal_steps g c)) failed_node"

definition find_all_paths :: "CausalGraph \<Rightarrow> string \<Rightarrow> string \<Rightarrow> int \<Rightarrow> CausalEdge list list option" where
  "find_all_paths g source target max_depth =
     (if source = target then Some []
      else map_option (sort_key (\<lambda>p. (length p, map target_node_id p)))
             (paths_from (out_steps g) source target max_depth))"

definition find_all_causal_paths ::
    "CausalGraph \<Rightarrow> string \<Rightarrow> string \<Rightarrow> int \<Rightarrow> CausalEdge list list option" where
  "find_all_causal_paths g source target max_depth =
     (if source = target then Some []
      else map_option
             (sort_key (\<lambda>p. (length p, map (\<lambda>e. (source_node_id e, target_node_id e)) p)))
             (paths_from (causal_steps g) source target max_depth))"

section \<open>Intervention\<close>

definition severed :: "string \<Rightarrow> CausalEdge \<Rightarrow> bool" where
  "severed x e = (forward_edge e \<and> target_node_id e = x \<or> reverse_edge e \<and> source_node_id e = x)"

definition edge_items :: "CausalGraph \<Rightarrow> (string \<times> CausalEdge) list" where
  "edge_items g = concat (map (\<lambda>(src, es). map (Pair src) es) (outgoing g))"

definition mutilate :: "CausalGraph \<Rightarrow> string \<Rightarrow> CausalGraph" where
  "mutilate g x =
     (let kept = filter (\<lambda>(src, e). \<not> severed x e) (edge_items g)
      in \<lparr>gnodes = gnodes g,
          outgoing = fold (\<lambda>(src, e). append_at src e) kept [],
          incoming = fold (\<lambda>(src, e). append_at (target_node_id e) e) kept []\<rparr>)"

section \<open>Well-formed graphs\<close>

definition edge_in :: "CausalGraph \<Rightarrow> CausalEdge \<Rightarrow> bool" where
  "edge_in g e = (e \<in> set (outgoing_edges g (source_node_id e)))"

definition wf_graph :: "CausalGraph \<Rightarrow> bool" where
  "wf_graph g = (distinct (dict_keys (outgoing g)) \<and>
     (\<forall>n. \<forall>e\<in>set (outgoing_edges g n). source_node_id e = n) \<and>
     (\<forall>n. \<forall>e\<in>set (incoming_edges g n). target_node_id e = n) \<and>
     (\<forall>e. edge_in g e \<longleftrightarrow> e \<in> set (incoming_edges g (target_node_id e))) \<and>
     (\<forall>e. edge_in g e \<longrightarrow> get_node g (source_node_id e) \<noteq> None \<and> get_node g (target_node_id e) \<noteq> None))"

text \<open>Failure of \<open>x\<close> reaches \<open>y\<close> in one hop.\<close>

definition causes :: "CausalGraph \<Rightarrow> string \<Rightarrow> string \<Rightarrow> bool" where
  "causes g x y = (\<exists>e. edge_in g e \<and>
     (forward_edge e \<and> source_node_id e = x \<and> target_node_id e = y \<or>
      reverse_edge e \<and> target_node_id e = x \<and> source_node_id e = y))"

lemma append_at_getd: "dict_getd (append_at k v d) k' [] = dict_getd d k' [] @ (if k' = k then [v] else [])"
  by (auto simp: append_at_def)

lemma fold_append_at_getd:
  "dict_getd (fold (\<lambda>x. append_at (key x) (val x)) xs d) k [] =
     dict_getd d k [] @ map val (filter (\<lambda>x. key x = k) xs)"
  by (induction xs arbitrary: d) (auto simp: append_at_getd)

lemma fold_append_at_distinct:
  "distinct (dict_keys d) \<Longrightarrow> distinct (dict_keys (fold (\<lambda>x. append_at (key x) (val x)) xs d))"
  by (induction xs arbitrary: d) (auto simp: append_at_def)

lemma dict_getd_mem: "e \<in> set (dict_getd d k []) \<Longrightarrow> \<exists>es. (k, es) \<in> set d \<and> e \<in> set es"
  by (cases "dict_get d k") (auto simp: dict_getd_def dest: map_of_SomeD)

lemma dict_getd_of_mem: "distinct (dict_keys d) \<Longrightarrow> (k, es) \<in> set d \<Longrightarrow> dict_getd d k v = es"
  by (simp add: dict_getd_def)

subsection \<open>Construction gives well-formed graphs\<close>

lemma graph_of_edges_out [simp]:
  "outgoing_edges (graph_of_edges ns es) n = filter (\<lambda>e. source_node_id e = n) es"
  using fold_append_at_getd [of source_node_id "\<lambda>e. e" es "[]" n]
  by (simp add: graph_of_edges_def outgoing_edges_def)

lemma graph_of_edges_in [simp]:
  "incoming_edges (graph_of_edges ns es) n = filter (\<lambda>e. target_node_id e = n) es"
  using fold_append_at_getd [of target_node_id "\<lambda>e. e" es "[]" n]
  by (simp add: graph_of_edges_def incoming_edges_def)

lemma edge_in_graph_of_edges [simp]: "edge_in (graph_of_edges ns es) e \<longleftrightarrow> e \<in> set es"
  by (simp add: edge_in_def)

lemma wf_graph_of_edges:
  assumes "\<And>e. e \<in> set es \<Longrightarrow> dict_get ns (source_node_id e) \<noteq> None \<and> dict_get ns (target_node_id e) \<noteq> None"
  shows "wf_graph (graph_of_edges ns es)"
proof -
  have "distinct (dict_keys (outgoing (graph_of_edges ns es)))"
    using fold_append_at_distinct [of "[]" source_node_id "\<lambda>e. e" es] by (simp add: graph_of_edges_def)
  moreover have "get_node (graph_of_edges ns es) = dict_get ns"
    by (auto simp: get_node_def graph_of_edges_def)
  ultimately show ?thesis using assms by (simp add: wf_graph_def)
qed

text \<open>
  Type of a node over the rows read so far: the last row with the node as source decides; failing
  that, the last row with it as target.
\<close>

definition source_type_of :: "topology_row list \<Rightarrow> string \<Rightarrow> string option" where
  "source_type_of rows n = map_of (rev (map (\<lambda>r. (row_source r, row_source_type r)) rows)) n"

definition target_type_of :: "topology_row list \<Rightarrow> string \<Rightarrow> string option" where
  "target_type_of rows n = map_of (rev (map (\<lambda>r. (row_target r, row_target_type r)) rows)) n"

definition types_ok :: "topology_row list \<Rightarrow> (string, string) dict \<times> (string, string) dict \<Rightarrow> bool" where
  "types_ok rows ts = (case ts of (source_types, target_types) \<Rightarrow>
     dict_get source_types = source_type_of rows \<and>
     distinct (dict_keys source_types) \<and> distinct (dict_keys target_types) \<and>
     (\<forall>n. source_type_of rows n = None \<longrightarrow> dict_get target_types n = target_type_of rows n))"

lemma types_ok_step: "types_ok rows ts \<Longrightarrow> types_ok (rows @ [row]) (collect_types row ts)"
  by (auto simp: types_ok_def collect_types_def source_type_of_def target_type_of_def Let_def
      fun_eq_iff split: prod.splits if_splits)

lemma types_ok_fold: "types_ok done ts \<Longrightarrow> types_ok (done @ rows) (fold collect_types rows ts)"
proof (induction rows arbitrary: "done" ts)
  case (Cons row rows)
  then show ?case using types_ok_step [of "done" ts row] Cons.IH [of "done @ [row]"] by simp
qed simp

lemma map_of_fold_dict_set:
  "distinct (dict_keys kvs) \<Longrightarrow> map_of (fold (\<lambda>(n, t). dict_set n t) kvs d) = map_of d ++ map_of kvs"
proof (induction kvs arbitrary: d)
  case (Cons kv kvs)
  obtain k v where kv: "kv = (k, v)" by fastforce
  with Cons.prems have "k \<notin> dom (map_of kvs)" by (auto simp: dom_map_of_conv_image_fst)
  with Cons show ?case by (auto simp: kv map_add_def fun_eq_iff split: option.split)
qed simp

lemma map_of_nodes: "map_of (map (\<lambda>(n, t). (n, f n t)) ts) n = map_option (f n) (map_of ts n)"
  by (induction ts) auto

lemma from_rows_node:
  "get_node (from_rows rows ns) n =
     map_option (\<lambda>t. \<lparr>cnode_id = n, cnode_type = t, cnode_namespace = ns\<rparr>)
       (case source_type_of rows n of Some t \<Rightarrow> Some t | None \<Rightarrow> target_type_of rows n)"
proof -
  obtain st tt where fold: "fold collect_types rows ([], []) = (st, tt)" by fastforce
  have "types_ok [] ([], [])" by (simp add: types_ok_def source_type_of_def target_type_of_def fun_eq_iff)
  from types_ok_fold [OF this, of rows] have "types_ok rows (st, tt)" by (simp add: fold)
  then have "map_of (fold (\<lambda>(n, t). dict_set n t) st tt) n =
      (case source_type_of rows n of Some t \<Rightarrow> Some t | None \<Rightarrow> target_type_of rows n)"
    by (auto simp: types_ok_def map_of_fold_dict_set map_add_def split: option.split)
  then show ?thesis
    unfolding from_rows_def fold Let_def prod.case get_node_def graph_of_edges_def
    by (simp add: map_of_nodes)
qed

lemma from_rows_shape: "\<exists>nodes. from_rows rows ns = graph_of_edges nodes (map row_edge rows)"
  by (auto simp: from_rows_def Let_def split: prod.split)

lemma map_of_rev_mem: "r \<in> set rows \<Longrightarrow> map_of (rev (map (\<lambda>r. (key r, val r)) rows)) (key r) \<noteq> None"
  by (simp add: map_of_eq_None_iff image_comp comp_def del: not_None_eq)

lemma wf_from_rows: "wf_graph (from_rows rows ns)"
proof -
  obtain nodes where shape: "from_rows rows ns = graph_of_edges nodes (map row_edge rows)"
    using from_rows_shape by blast
  have node: "dict_get nodes n = get_node (from_rows rows ns) n" for n
    by (simp add: shape get_node_def graph_of_edges_def)
  have "get_node (from_rows rows ns) (row_source r) \<noteq> None" if "r \<in> set rows" for r
    using map_of_rev_mem [OF that, of row_source row_source_type]
    unfolding from_rows_node source_type_of_def by (auto split: option.splits)
  moreover have "get_node (from_rows rows ns) (row_target r) \<noteq> None" if "r \<in> set rows" for r
    using map_of_rev_mem [OF that, of row_target row_target_type]
    unfolding from_rows_node target_type_of_def by (auto split: option.splits)
  ultimately show ?thesis
    unfolding shape by (intro wf_graph_of_edges) (auto simp: row_edge_def node shape)
qed

section \<open>The traversals are exact\<close>

definition edge_ends :: "CausalGraph \<Rightarrow> string set" where
  "edge_ends g = (\<Union>(k, es)\<in>set (outgoing g) \<union> set (incoming g).
     source_node_id ` set es \<union> target_node_id ` set es)"

text \<open>The node an edge leads to when a failure is followed along it.\<close>

definition edge_dst :: "CausalEdge \<Rightarrow> string" where
  "edge_dst e = (if reverse_edge e then source_node_id e else target_node_id e)"

lemma finite_edge_ends: "finite (edge_ends g)"
  by (auto simp: edge_ends_def)

lemma edge_ends_out: "e \<in> set (outgoing_edges g n) \<Longrightarrow> source_node_id e \<in> edge_ends g \<and> target_node_id e \<in> edge_ends g"
  using dict_getd_mem [of e "outgoing g" n] by (force simp: edge_ends_def outgoing_edges_def)

lemma edge_ends_in: "e \<in> set (incoming_edges g n) \<Longrightarrow> source_node_id e \<in> edge_ends g \<and> target_node_id e \<in> edge_ends g"
  using dict_getd_mem [of e "incoming g" n] by (force simp: edge_ends_def incoming_edges_def)

lemma set_out_steps: "(e, n) \<in> set (out_steps g c) \<longleftrightarrow> e \<in> set (outgoing_edges g c) \<and> n = target_node_id e"
  by (auto simp: out_steps_def)

lemma set_in_steps: "(e, n) \<in> set (in_steps g c) \<longleftrightarrow> e \<in> set (incoming_edges g c) \<and> n = source_node_id e"
  by (auto simp: in_steps_def)

lemma set_causal_steps:
  "(e, n) \<in> set (causal_steps g c) \<longleftrightarrow>
     forward_edge e \<and> e \<in> set (outgoing_edges g c) \<and> n = target_node_id e \<or>
     reverse_edge e \<and> e \<in> set (incoming_edges g c) \<and> n = source_node_id e"
  by (auto simp: causal_steps_def set_out_steps set_in_steps)

interpretation down: finite_expansion "out_steps g" target_node_id "edge_ends g" for g
  by unfold_locales (auto simp: finite_edge_ends set_out_steps dest: edge_ends_out)

interpretation up: finite_expansion "in_steps g" source_node_id "edge_ends g" for g
  by unfold_locales (auto simp: finite_edge_ends set_in_steps dest: edge_ends_in)

interpretation causal: finite_expansion "causal_steps g" edge_dst "edge_ends g" for g
  by unfold_locales
    (auto simp: finite_edge_ends set_causal_steps edge_dst_def not_forward_and_reverse
      dest: edge_ends_in edge_ends_out)

lemma wf_out_iff: "wf_graph g \<Longrightarrow> e \<in> set (outgoing_edges g n) \<longleftrightarrow> edge_in g e \<and> source_node_id e = n"
  unfolding wf_graph_def edge_in_def by metis

lemma wf_in_iff: "wf_graph g \<Longrightarrow> e \<in> set (incoming_edges g n) \<longleftrightarrow> edge_in g e \<and> target_node_id e = n"
  unfolding wf_graph_def by metis

definition linked :: "CausalGraph \<Rightarrow> string \<Rightarrow> string \<Rightarrow> bool" where
  "linked g x y = (\<exists>e. edge_in g e \<and> source_node_id e = x \<and> target_node_id e = y)"

lemma arc_down: "wf_graph g \<Longrightarrow> down.arc g = linked g"
  by (intro ext) (auto simp: down.arc_iff linked_def set_out_steps wf_out_iff)

lemma arc_up: "wf_graph g \<Longrightarrow> up.arc g = (linked g)\<inverse>\<inverse>"
  by (intro ext) (auto simp: up.arc_iff linked_def set_in_steps wf_in_iff)

lemma arc_causal: "wf_graph g \<Longrightarrow> causal.arc g = causes g"
  by (intro ext) (auto simp: causal.arc_iff causes_def set_causal_steps wf_in_iff wf_out_iff)

lemma descendants_exact:
  "wf_graph g \<Longrightarrow> \<exists>r. descendants g n = Some r \<and> distinct r \<and> set r = {t. (linked g)\<^sup>*\<^sup>* n t} - {n}"
  using down.walk_from_exact [of g n] by (simp add: descendants_def down.succ_def [abs_def] arc_down)

lemma ancestors_exact:
  "wf_graph g \<Longrightarrow> \<exists>r. ancestors g n = Some r \<and> distinct r \<and> set r = {t. (linked g)\<^sup>*\<^sup>* t n} - {n}"
  using up.walk_from_exact [of g n]
  by (simp add: ancestors_def up.succ_def [abs_def] arc_up rtranclp_conversep)

lemma impacted_exact:
  "wf_graph g \<Longrightarrow> \<exists>r. impacted_by g x = Some r \<and> distinct r \<and> set r = {y. (causes g)\<^sup>*\<^sup>* x y} - {x}"
  using causal.walk_from_exact [of g x] by (simp add: impacted_by_def causal.succ_def [abs_def] arc_causal)

subsection \<open>Causal paths\<close>

text \<open>
  A causal path: each edge starts where the previous one led (forward edges are taken from source to
  target, reverse edges from target to source), and no node repeats.
\<close>

fun causal_chain :: "CausalGraph \<Rightarrow> string \<Rightarrow> CausalEdge list \<Rightarrow> bool" where
  "causal_chain g x [] = True"
| "causal_chain g x (e # p) =
     (edge_in g e \<and> (forward_edge e \<and> source_node_id e = x \<or> reverse_edge e \<and> target_node_id e = x) \<and>
      causal_chain g (edge_dst e) p)"

definition causal_path :: "CausalGraph \<Rightarrow> string \<Rightarrow> CausalEdge list \<Rightarrow> string \<Rightarrow> bool" where
  "causal_path g s p t =
     (causal_chain g s p \<and> distinct (s # map edge_dst p) \<and> last (s # map edge_dst p) = t)"

lemma chain_causal: "wf_graph g \<Longrightarrow> causal.chain g x p = causal_chain g x p"
  by (induction p arbitrary: x)
    (auto simp: set_causal_steps wf_in_iff wf_out_iff edge_dst_def not_forward_and_reverse)

lemma simple_path_causal: "wf_graph g \<Longrightarrow> causal.simple_path g s p t = causal_path g s p t"
  by (simp add: causal.simple_path_def causal_path_def chain_causal)

lemma causal_paths_exact:
  assumes "wf_graph g" and "s \<noteq> t"
  shows "\<exists>ps. find_all_causal_paths g s t d = Some ps \<and>
    set ps = {p. causal_path g s p t \<and> int (length p) \<le> d} \<and> sorted (map length ps)"
proof -
  obtain ps where ps: "paths_from (causal_steps g) s t d = Some ps"
    "set ps = {p. causal_path g s p t \<and> int (length p) \<le> d}"
    using causal.paths_from_exact [OF assms(2), of g d] by (auto simp: simple_path_causal [OF assms(1)])
  let ?key = "\<lambda>p. (length p, map (\<lambda>e. (source_node_id e, target_node_id e)) p)"
  have "sorted (map ?key (sort_key ?key ps))" by (rule sorted_sort_key)
  then have "sorted_wrt (\<lambda>p q. ?key p \<le> ?key q) (sort_key ?key ps)"
    by (simp add: sorted_wrt_map sorted_map)
  then have "sorted (map length (sort_key ?key ps))"
    by (auto simp: sorted_wrt_map less_eq_prod_simp elim: sorted_wrt_mono_rel [rotated])
  with ps assms(2) show ?thesis by (simp add: find_all_causal_paths_def)
qed

lemma causal_path_exists:
  "wf_graph g \<Longrightarrow> (\<exists>p. causal_path g s p t) \<longleftrightarrow> (causes g)\<^sup>*\<^sup>* s t"
  using causal.reachable_simple_path [of g s t] causal.simple_path_arc [of g s _ t]
  by (auto simp: arc_causal simple_path_causal)

lemma causal_path_length: "wf_graph g \<Longrightarrow> causal_path g s p t \<Longrightarrow> length p \<le> card (edge_ends g)"
  using causal.simple_path_length [of g s p t] by (simp add: simple_path_causal)

section \<open>Intervention\<close>

lemma set_edge_items:
  assumes "wf_graph g"
  shows "(src, e) \<in> set (edge_items g) \<longleftrightarrow> edge_in g e \<and> source_node_id e = src"
proof -
  have "(src, e) \<in> set (edge_items g) \<longleftrightarrow> (\<exists>es. (src, es) \<in> set (outgoing g) \<and> e \<in> set es)"
    by (auto simp: edge_items_def)
  also have "\<dots> \<longleftrightarrow> e \<in> set (outgoing_edges g src)"
    using assms dict_getd_of_mem [of "outgoing g" src _ "[]"] dict_getd_mem [of e "outgoing g" src]
    by (auto simp: outgoing_edges_def wf_graph_def)
  finally show ?thesis by (simp add: wf_out_iff [OF assms])
qed

lemma mutilate_lists:
  "outgoing_edges (mutilate g x) n =
     map snd (filter (\<lambda>p. fst p = n) (filter (\<lambda>p. \<not> severed x (snd p)) (edge_items g)))"
  "incoming_edges (mutilate g x) n =
     map snd (filter (\<lambda>p. target_node_id (snd p) = n) (filter (\<lambda>p. \<not> severed x (snd p)) (edge_items g)))"
  "distinct (dict_keys (outgoing (mutilate g x)))"
  using fold_append_at_getd [of fst snd "filter (\<lambda>p. \<not> severed x (snd p)) (edge_items g)" "[]" n]
    fold_append_at_getd [of "\<lambda>p. target_node_id (snd p)" snd
      "filter (\<lambda>p. \<not> severed x (snd p)) (edge_items g)" "[]" n]
    fold_append_at_distinct [of "[]" fst snd "filter (\<lambda>p. \<not> severed x (snd p)) (edge_items g)"]
  by (simp_all add: mutilate_def outgoing_edges_def incoming_edges_def Let_def
      case_prod_unfold del: filter_filter)

lemma mutilate_out:
  "wf_graph g \<Longrightarrow> e \<in> set (outgoing_edges (mutilate g x) n) \<longleftrightarrow>
     edge_in g e \<and> source_node_id e = n \<and> \<not> severed x e"
  by (auto simp: mutilate_lists image_iff Bex_def set_edge_items)

lemma mutilate_in:
  "wf_graph g \<Longrightarrow> e \<in> set (incoming_edges (mutilate g x) n) \<longleftrightarrow>
     edge_in g e \<and> target_node_id e = n \<and> \<not> severed x e"
  by (auto simp: mutilate_lists image_iff Bex_def set_edge_items)

lemma edge_in_mutilate: "wf_graph g \<Longrightarrow> edge_in (mutilate g x) e \<longleftrightarrow> edge_in g e \<and> \<not> severed x e"
  by (simp add: edge_in_def mutilate_out)

lemma wf_mutilate:
  assumes "wf_graph g"
  shows "wf_graph (mutilate g x)"
proof -
  have "get_node (mutilate g x) = get_node g"
    by (auto simp: get_node_def mutilate_def Let_def)
  with assms show ?thesis
    by (simp add: wf_graph_def [of "mutilate g x"] mutilate_out mutilate_in edge_in_mutilate
        mutilate_lists(3)) (simp add: wf_graph_def)
qed

lemma causes_mutilate: "wf_graph g \<Longrightarrow> causes (mutilate g x) a b \<longleftrightarrow> causes g a b \<and> b \<noteq> x"
  using not_forward_and_reverse by (auto simp: causes_def edge_in_mutilate severed_def)

lemma causes_mutilate_star:
  assumes "wf_graph g"
  shows "(causes (mutilate g x))\<^sup>*\<^sup>* x y \<longleftrightarrow> (causes g)\<^sup>*\<^sup>* x y"
proof
  show "(causes g)\<^sup>*\<^sup>* x y" if "(causes (mutilate g x))\<^sup>*\<^sup>* x y"
    using that by (rule rtranclp_mono [THEN predicate2D, rotated]) (auto simp: causes_mutilate [OF assms])
  show "(causes (mutilate g x))\<^sup>*\<^sup>* x y" if "(causes g)\<^sup>*\<^sup>* x y"
    using that
  proof (induction rule: rtranclp_induct)
    case (step y z)
    then show ?case
      by (cases "z = x") (auto simp: causes_mutilate [OF assms] intro: rtranclp.rtrancl_into_rtrancl)
  qed simp
qed

section \<open>Properties\<close>

text \<open>A power unit feeding a switch, a server that depends on the switch, and a service on the server.\<close>

definition sample_row :: "string \<Rightarrow> string \<Rightarrow> string \<Rightarrow> topology_row" where
  "sample_row s ty t = \<lparr>row_source = s, row_source_type = ''device'', row_target = t,
     row_target_type = ''service'', row_edge_type = ty, row_confidence = 1 / 2, row_decay = 0,
     row_last_verified = None\<rparr>"

definition sample_graph :: CausalGraph where
  "sample_graph = from_rows [sample_row ''pdu'' ''connected_to'' ''sw'',
     sample_row ''srv'' ''depends_on'' ''sw'', sample_row ''srv'' ''host_application'' ''app''] ''ns''"

lemma wf_sample_graph: "wf_graph sample_graph"
  unfolding sample_graph_def by (rule wf_from_rows)

text \<open>A graph built from any list of rows is well formed (both adjacency indexes hold exactly the rows'
  edges, all end points are nodes), holds one edge per row, and types each node by the last row that has it
  as source, falling back to the last row that has it as target.\<close>

theorem from_rows_correct:
  "wf_graph (from_rows rows ns) \<and>
   (\<forall>e. edge_in (from_rows rows ns) e \<longleftrightarrow> e \<in> row_edge ` set rows) \<and>
   map_option cnode_type (get_node (from_rows rows ns) n) =
     (case source_type_of rows n of Some t \<Rightarrow> Some t | None \<Rightarrow> target_type_of rows n)"
proof (intro conjI allI)
  show "edge_in (from_rows rows ns) e \<longleftrightarrow> e \<in> row_edge ` set rows" for e
    using from_rows_shape [of rows ns] by auto
  show "map_option cnode_type (get_node (from_rows rows ns) n) =
     (case source_type_of rows n of Some t \<Rightarrow> Some t | None \<Rightarrow> target_type_of rows n)"
    by (simp add: from_rows_node option.map_comp comp_def option.map_ident)
qed (rule wf_from_rows)

text \<open>C4: Failure propagation terminates on every graph, cyclic ones included, and returns exactly the
  nodes other than the failed one that a chain of typed hops reaches (forward types from source to target,
  reverse types from target to source), each once.\<close>

theorem impacted_by_correct:
  assumes "wf_graph g"
  shows "\<exists>r. impacted_by g x = Some r \<and> distinct r \<and> set r = {y. (causes g)\<^sup>*\<^sup>* x y} - {x}"
  using assms by (rule impacted_exact)

theorem impacted_by_correct_witness:
  "\<exists>r. impacted_by sample_graph ''pdu'' = Some r \<and> distinct r \<and>
     set r = {y. (causes sample_graph)\<^sup>*\<^sup>* ''pdu'' y} - {''pdu''}"
  by (rule impacted_by_correct [OF wf_sample_graph])

text \<open>The two structural walks terminate and are dual: a node is a descendant of another exactly when
  that one is its ancestor.\<close>

theorem descendants_ancestors_dual:
  assumes "wf_graph g"
  shows "\<exists>ds as. descendants g a = Some ds \<and> ancestors g b = Some as \<and> (b \<in> set ds \<longleftrightarrow> a \<in> set as)"
  using descendants_exact [OF assms, of a] ancestors_exact [OF assms, of b] by auto

theorem descendants_ancestors_dual_witness:
  "\<exists>ds as. descendants sample_graph ''srv'' = Some ds \<and> ancestors sample_graph ''app'' = Some as \<and>
     (''app'' \<in> set ds \<longleftrightarrow> ''srv'' \<in> set as)"
  by (rule descendants_ancestors_dual [OF wf_sample_graph])

text \<open>C7: Path enumeration terminates and returns exactly the causal paths (typed hops, no repeated node)
  of at most \<open>max_depth\<close> edges, shortest first; with the depth bound at the number of end points no causal
  path is missed, and one exists for every impacted node.\<close>

theorem find_all_causal_paths_correct:
  assumes "wf_graph g" and "s \<noteq> t"
  shows "\<exists>ps. find_all_causal_paths g s t d = Some ps \<and>
    set ps = {p. causal_path g s p t \<and> int (length p) \<le> d} \<and> sorted (map length ps) \<and>
    (int (card (edge_ends g)) \<le> d \<longrightarrow> (ps \<noteq> [] \<longleftrightarrow> (causes g)\<^sup>*\<^sup>* s t))"
proof -
  obtain ps where ps: "find_all_causal_paths g s t d = Some ps"
    "set ps = {p. causal_path g s p t \<and> int (length p) \<le> d}" "sorted (map length ps)"
    using causal_paths_exact [OF assms] by blast
  have "ps \<noteq> [] \<longleftrightarrow> (\<exists>p. causal_path g s p t)" if "int (card (edge_ends g)) \<le> d"
    using ps(2) causal_path_length [OF assms(1), of s _ t] that by (force simp flip: set_empty)
  with ps causal_path_exists [OF assms(1), of s t] show ?thesis by blast
qed

theorem find_all_causal_paths_correct_witness:
  "\<exists>ps. find_all_causal_paths sample_graph ''pdu'' ''app'' 10 = Some ps \<and>
    set ps = {p. causal_path sample_graph ''pdu'' p ''app'' \<and> int (length p) \<le> 10} \<and> sorted (map length ps)"
  using find_all_causal_paths_correct [OF wf_sample_graph, of "''pdu''" "''app''" 10] by auto

text \<open>C6: The intervention operator keeps the graph well formed, removes every cause of the intervened node
  and no other causal hop, so that the node's own impact is unchanged.\<close>

theorem mutilate_correct:
  assumes "wf_graph g"
  shows "wf_graph (mutilate g x) \<and> (\<forall>a b. causes (mutilate g x) a b \<longleftrightarrow> causes g a b \<and> b \<noteq> x) \<and>
    (\<exists>r r'. impacted_by g x = Some r \<and> impacted_by (mutilate g x) x = Some r' \<and> set r' = set r)"
  using impacted_exact [OF assms, of x] impacted_exact [OF wf_mutilate [OF assms], of x x]
    wf_mutilate [OF assms] by (auto simp: causes_mutilate causes_mutilate_star assms)

theorem mutilate_correct_witness:
  "wf_graph (mutilate sample_graph ''sw'') \<and>
    (\<forall>a b. causes (mutilate sample_graph ''sw'') a b \<longleftrightarrow> causes sample_graph a b \<and> b \<noteq> ''sw'') \<and>
    (\<exists>r r'. impacted_by sample_graph ''sw'' = Some r \<and>
       impacted_by (mutilate sample_graph ''sw'') ''sw'' = Some r' \<and> set r' = set r)"
  by (rule mutilate_correct [OF wf_sample_graph])

end
