(* ===== verification/AtmsCausal.thy ===== *)
theory AtmsCausal
  imports AtmsMachine CausalGraph
begin

text \<open>
  The bridge from the causal graph to the truth maintenance system (\<open>build_atms_from_causal_graph\<close> and
  \<open>evaluate_atms_intervention\<close> of \<open>nce/atms.py\<close>): topology edges become justifications, and a failed
  node becomes a forced retraction. The two components decide the same question, which nodes a failure
  takes down, by different algorithms; the theorem shows that they agree on every graph, cyclic ones
  included.
\<close>

section \<open>Translation\<close>

definition add_dependency ::
    "string \<Rightarrow> string \<Rightarrow> (string, string list) dict \<Rightarrow> string + (string, string list) dict" where
  "add_dependency k v d =
     (case dict_get d k of
        None \<Rightarrow> Inl ''KeyError''
      | Some s \<Rightarrow> Inr (dict_set k (set_add v s) d))"

fun gather_dependencies ::
    "CausalEdge list \<Rightarrow> (string, string list) dict \<Rightarrow> string + (string, string list) dict" where
  "gather_dependencies [] d = Inr d"
| "gather_dependencies (edge # es) d =
     (if forward_edge edge then
        (case add_dependency (target_node_id edge) (source_node_id edge) d of
           Inl err \<Rightarrow> Inl err | Inr d' \<Rightarrow> gather_dependencies es d')
      else if reverse_edge edge then
        (case add_dependency (source_node_id edge) (target_node_id edge) d of
           Inl err \<Rightarrow> Inl err | Inr d' \<Rightarrow> gather_dependencies es d')
      else gather_dependencies es d)"

definition register_causal_node ::
    "(string, string list) dict \<Rightarrow> string \<Rightarrow> ATMSEngine \<Rightarrow> ATMSEngine" where
  "register_causal_node d nid e =
     (let ants = dict_getd d nid []
      in if ants \<noteq> [] then
           add_justification (register_node e nid DERIVED True) nid ants ''Causal dependency''
         else register_node e nid ASSUMPTION True)"

text \<open>\<open>order\<close> is the iteration order of the frozen set of node identifiers.\<close>

definition build_atms_from_causal_graph :: "string list \<Rightarrow> CausalGraph \<Rightarrow> string + ATMSEngine" where
  "build_atms_from_causal_graph order g =
     (let ns_id = (case gnodes g of [] \<Rightarrow> None | (n, node) # _ \<Rightarrow> Some (cnode_namespace node))
      in case gather_dependencies (map snd (edge_items g)) (map (\<lambda>n. (n, [])) order) of
           Inl err \<Rightarrow> Inl err
         | Inr d \<Rightarrow> Inr (fold (register_causal_node d) order (new_engine ns_id)))"

fun intervene :: "ATMSEngine \<Rightarrow> string set \<Rightarrow> string list \<Rightarrow> (ATMSEngine \<times> string set) option" where
  "intervene e cascade [] = Some (e, cascade)"
| "intervene e cascade (nid # targets) =
     Option.bind (invalidate_assumption e nid) (\<lambda>(e1, c1).
       if node_of e1 nid \<noteq> None then
         Option.bind (propagate_deprecation e1 nid) (\<lambda>(e2, c2).
           intervene e2 (cascade \<union> c1 \<union> c2) targets)
       else intervene e1 (cascade \<union> c1) targets)"

definition evaluate_atms_intervention ::
    "string list \<Rightarrow> CausalGraph \<Rightarrow> string list \<Rightarrow> (string + string set) option" where
  "evaluate_atms_intervention order g targets =
     (case build_atms_from_causal_graph order g of
        Inl err \<Rightarrow> Some (Inl err)
      | Inr atms \<Rightarrow> map_option (\<lambda>(e, cascade). Inr cascade) (intervene atms {} targets))"

section \<open>The dependency table\<close>

definition hop :: "CausalEdge \<Rightarrow> string \<Rightarrow> string \<Rightarrow> bool" where
  "hop e x y = (forward_edge e \<and> source_node_id e = x \<and> target_node_id e = y \<or>
     reverse_edge e \<and> target_node_id e = x \<and> source_node_id e = y)"

lemma add_dependency_known:
  "dict_get d k = Some s \<Longrightarrow> add_dependency k v d = Inr (dict_set k (set_add v s) d)"
  by (simp add: add_dependency_def)

lemma gather_spec:
  "\<forall>e\<in>set es. \<forall>x y. hop e x y \<longrightarrow> dict_get d y \<noteq> None \<Longrightarrow>
   \<exists>d'. gather_dependencies es d = Inr d' \<and>
     (\<forall>y. set (dict_getd d' y []) = set (dict_getd d y []) \<union> {x. \<exists>e\<in>set es. hop e x y})"
proof (induction es arbitrary: d)
  case (Cons edge es)
  consider (skip) "\<not> forward_edge edge" "\<not> reverse_edge edge"
    | (link) x y where "hop edge x y"
        "gather_dependencies (edge # es) d =
          (case add_dependency y x d of Inl err \<Rightarrow> Inl err | Inr d' \<Rightarrow> gather_dependencies es d')"
    by (cases "forward_edge edge"; cases "reverse_edge edge") (auto simp: hop_def)
  then show ?case
  proof cases
    case skip
    then have "\<not> hop edge x y" for x y by (simp add: hop_def)
    moreover have "\<exists>d'. gather_dependencies es d = Inr d' \<and>
        (\<forall>y. set (dict_getd d' y []) = set (dict_getd d y []) \<union> {x. \<exists>e\<in>set es. hop e x y})"
      using Cons.prems by (intro Cons.IH) simp
    ultimately show ?thesis using skip by simp
  next
    case (link x y)
    have uniq: "hop edge x' y' \<longleftrightarrow> x' = x \<and> y' = y" for x' y'
      using link(1) not_forward_and_reverse [of edge] by (auto simp: hop_def)
    have "dict_get d y \<noteq> None" using Cons.prems link(1) by simp
    then obtain s where s: "dict_get d y = Some s" by blast
    let ?d = "dict_set y (set_add x s) d"
    have "\<forall>e\<in>set es. \<forall>x y. hop e x y \<longrightarrow> dict_get ?d y \<noteq> None" using Cons.prems by auto
    from Cons.IH [OF this] obtain d' where d': "gather_dependencies es ?d = Inr d'"
      "\<And>z. set (dict_getd d' z []) = set (dict_getd ?d z []) \<union> {x. \<exists>e\<in>set es. hop e x z}" by blast
    have "set (dict_getd d y []) = set s" using s by (simp add: dict_getd_def)
    then have "set (dict_getd d' z []) = set (dict_getd d z []) \<union> {x. \<exists>e\<in>set (edge # es). hop e x z}" for z
      using d'(2) [of z] by (auto simp: uniq)
    with link(2) d'(1) s show ?thesis by (simp add: add_dependency_known)
  qed
qed simp

lemma causes_hop: "wf_graph g \<Longrightarrow> causes g x y \<longleftrightarrow> (\<exists>e\<in>set (map snd (edge_items g)). hop e x y)"
  unfolding causes_def hop_def using set_edge_items [of g] by (force simp: Bex_def)

lemma getd_const: "dict_getd (map (\<lambda>n. (n, [])) ns) y [] = []"
  by (induction ns) (auto simp: dict_getd_def)

section \<open>The built engine\<close>

lemma fold_ensure_lookup:
  "node_of (fold (ensure_node T) ns e) k =
     (if node_of e k = None \<and> k \<in> set ns
      then Some \<lparr>node_id = k, node_type = T, is_valid = True, justifications = []\<rparr> else node_of e k)"
  by (induction ns arbitrary: e) (auto simp: ensure_node_def register_node_def)

lemma deps_register [simp]: "deps (register_node e n T v) = deps e"
  by (auto simp: deps_def register_node_def split: option.split)

lemma deps_fold_ensure [simp]: "deps (fold (ensure_node T) ns e) = deps e"
  by (induction ns arbitrary: e) (auto simp: ensure_node_def)

lemma deps_put [simp]: "deps (put_node n nd e) = deps e"
  by (auto simp: deps_def)

lemma add_justification_known:
  assumes "node_of e c = Some nd"
  shows "node_of (add_justification e c ants descr) k =
      (if k = c then Some (nd\<lparr>justifications := justifications nd @
          [\<lparr>consequent = c, antecedents = remdups ants, description = descr\<rparr>]\<rparr>)
       else if node_of e k = None \<and> k \<in> set ants
       then Some \<lparr>node_id = k, node_type = ASSUMPTION, is_valid = True, justifications = []\<rparr>
       else node_of e k)"
    and "deps (add_justification e c ants descr) k =
      (if k \<in> set ants then insert c (deps e k) else deps e k)"
proof -
  let ?e2 = "fold (ensure_node ASSUMPTION) ants e"
  have e1: "ensure_node DERIVED c e = e" using assms by (simp add: ensure_node_def)
  have c: "node_of ?e2 c = Some nd" using assms by (simp add: fold_ensure_lookup)
  show "node_of (add_justification e c ants descr) k =
      (if k = c then Some (nd\<lparr>justifications := justifications nd @
          [\<lparr>consequent = c, antecedents = remdups ants, description = descr\<rparr>]\<rparr>)
       else if node_of e k = None \<and> k \<in> set ants
       then Some \<lparr>node_id = k, node_type = ASSUMPTION, is_valid = True, justifications = []\<rparr>
       else node_of e k)"
    using c by (simp add: add_justification_def Let_def e1 fold_ensure_lookup)
  show "deps (add_justification e c ants descr) k =
      (if k \<in> set ants then insert c (deps e k) else deps e k)"
    using c by (simp add: add_justification_def Let_def e1 deps_fold_add_dependent)
qed

definition causal_node :: "(string, string list) dict \<Rightarrow> string \<Rightarrow> ATMSNode" where
  "causal_node d n = (let ants = dict_getd d n [] in
     \<lparr>node_id = n, node_type = (if ants = [] then ASSUMPTION else DERIVED), is_valid = True,
      justifications = (if ants = [] then []
        else [\<lparr>consequent = n, antecedents = remdups ants, description = ''Causal dependency''\<rparr>])\<rparr>)"

definition fresh_node :: "string \<Rightarrow> ATMSNode" where
  "fresh_node n = \<lparr>node_id = n, node_type = ASSUMPTION, is_valid = True, justifications = []\<rparr>"

text \<open>State of the registration loop after the nodes \<open>P\<close>.\<close>

definition registered :: "(string, string list) dict \<Rightarrow> string set \<Rightarrow> ATMSEngine \<Rightarrow> bool" where
  "registered d P e =
     ((\<forall>n\<in>P. node_of e n = Some (causal_node d n)) \<and>
      (\<forall>n. n \<notin> P \<longrightarrow> node_of e n = (if \<exists>c\<in>P. n \<in> set (dict_getd d c []) then Some (fresh_node n) else None)) \<and>
      (\<forall>a. deps e a = {c \<in> P. a \<in> set (dict_getd d c [])}))"

lemma registered_step:
  assumes "registered d P e" and "n \<notin> P"
  shows "registered d (insert n P) (register_causal_node d n e)"
proof -
  let ?T = "if dict_getd d n [] = [] then ASSUMPTION else DERIVED"
  have old: "node_of e n = None \<or> node_of e n = Some (fresh_node n)"
    using assms by (auto simp: registered_def)
  have reg: "node_of (register_node e n ?T True) k =
      (if k = n then Some \<lparr>node_id = n, node_type = ?T, is_valid = True, justifications = []\<rparr> else node_of e k)" for k
    using old by (auto simp: register_node_def fresh_node_def)
  show ?thesis
  proof (cases "dict_getd d n [] = []")
    case True
    with assms reg show ?thesis
      by (auto simp: registered_def register_causal_node_def causal_node_def)
  next
    case False
    let ?e1 = "register_node e n DERIVED True"
    have e1: "node_of ?e1 n = Some \<lparr>node_id = n, node_type = DERIVED, is_valid = True, justifications = []\<rparr>"
      and other: "\<And>k. k \<noteq> n \<Longrightarrow> node_of ?e1 k = node_of e k" using reg False by auto
    note known = add_justification_known [OF e1]
    from assms False show ?thesis
      unfolding registered_def register_causal_node_def Let_def
      by (auto simp: known causal_node_def Let_def fresh_node_def other)
  qed
qed

lemma registered_fold:
  "registered d P e \<Longrightarrow> distinct ns \<Longrightarrow> set ns \<inter> P = {} \<Longrightarrow>
     registered d (P \<union> set ns) (fold (register_causal_node d) ns e)"
proof (induction ns arbitrary: P e)
  case (Cons n ns)
  then have "registered d (insert n P) (register_causal_node d n e)" by (intro registered_step) auto
  with Cons.IH [of "insert n P"] Cons.prems show ?case by auto
qed simp

text \<open>
  \<open>mirrors g e I\<close>: the engine has the graph's nodes, each supported by the conjunction of its causes,
  and exactly the nodes of \<open>I\<close> are flagged invalid.
\<close>

definition mirrors :: "CausalGraph \<Rightarrow> ATMSEngine \<Rightarrow> string set \<Rightarrow> bool" where
  "mirrors g e I =
     ((\<forall>n. node_of e n = None \<longleftrightarrow> get_node g n = None) \<and>
      (\<forall>n nd. node_of e n = Some nd \<longrightarrow> is_valid nd = (n \<notin> I) \<and> node_type nd \<noteq> PREMISE \<and>
         (node_type nd = DERIVED \<longleftrightarrow> (\<exists>x. causes g x n)) \<and>
         (\<forall>j\<in>set (justifications nd). set (antecedents j) = {x. causes g x n})) \<and>
      (\<forall>a. deps e a = {c. causes g a c}))"

lemma build_mirrors:
  assumes wf: "wf_graph g" and order: "distinct order" "set order = {n. get_node g n \<noteq> None}"
  shows "\<exists>e. build_atms_from_causal_graph order g = Inr e \<and> mirrors g e {}"
proof -
  let ?d0 = "map (\<lambda>n. (n, [])) order" and ?es = "map snd (edge_items g)"
  have node: "get_node g x \<noteq> None \<and> get_node g y \<noteq> None" if "causes g x y" for x y
    using that wf unfolding causes_def wf_graph_def by metis
  have "dict_get ?d0 y \<noteq> None" if "e \<in> set ?es" "hop e x y" for e x y
  proof -
    have "causes g x y" using that causes_hop [OF wf] by blast
    with node have "y \<in> set order" using order by blast
    then show ?thesis by (simp add: map_of_eq_None_iff image_image del: not_None_eq)
  qed
  then have "\<forall>e\<in>set ?es. \<forall>x y. hop e x y \<longrightarrow> dict_get ?d0 y \<noteq> None" by blast
  from gather_spec [OF this] obtain d where gather: "gather_dependencies ?es ?d0 = Inr d"
    "\<And>y. set (dict_getd d y []) = set (dict_getd ?d0 y []) \<union> {x. \<exists>e\<in>set ?es. hop e x y}" by blast
  then have d: "gather_dependencies ?es ?d0 = Inr d" "\<And>y. set (dict_getd d y []) = {x. causes g x y}"
    unfolding getd_const causes_hop [OF wf] by simp_all
  let ?e = "fold (register_causal_node d) order (new_engine
    (case gnodes g of [] \<Rightarrow> None | (n, node) # _ \<Rightarrow> Some (cnode_namespace node)))"
  have "registered d {} (new_engine ns)" for ns
    by (simp add: registered_def new_engine_def deps_def dict_getd_def)
  from registered_fold [OF this order(1)] have reg: "registered d (set order) ?e" by simp
  have empty: "dict_getd d n [] = [] \<longleftrightarrow> \<not> (\<exists>x. causes g x n)" for n
    using d(2) [of n] by (metis Collect_empty_eq set_empty)
  have "mirrors g ?e {}"
    unfolding mirrors_def
  proof (intro conjI allI impI)
    have dom: "node_of ?e n = (if n \<in> set order then Some (causal_node d n) else None)" for n
      using reg node order(2) unfolding registered_def d(2) by auto
    show "node_of ?e n = None \<longleftrightarrow> get_node g n = None" for n using dom [of n] order(2) by simp
    fix n nd assume "node_of ?e n = Some nd"
    then have nd: "nd = causal_node d n" by (simp add: dom split: if_splits)
    show "is_valid nd = (n \<notin> {})" "node_type nd \<noteq> PREMISE" "node_type nd = DERIVED \<longleftrightarrow> (\<exists>x. causes g x n)"
      by (auto simp: nd causal_node_def Let_def empty)
    show "\<forall>j\<in>set (justifications nd). set (antecedents j) = {x. causes g x n}"
      by (auto simp: nd causal_node_def Let_def d(2))
  next
    show "deps ?e a = {c. causes g a c}" for a
      using reg node order(2) unfolding registered_def d(2) by auto
  qed
  with d(1) show ?thesis by (simp add: build_atms_from_causal_graph_def Let_def)
qed

section \<open>A cascade on a mirrored graph\<close>

definition failure_set :: "CausalGraph \<Rightarrow> string \<Rightarrow> string set" where
  "failure_set g x = {y. (causes g)\<^sup>*\<^sup>* x y}"

definition causes_closed :: "CausalGraph \<Rightarrow> string set \<Rightarrow> bool" where
  "causes_closed g I = (\<forall>x y. x \<in> I \<longrightarrow> causes g x y \<longrightarrow> y \<in> I)"

lemma wf_causes_node: "wf_graph g \<Longrightarrow> causes g x y \<Longrightarrow> get_node g y \<noteq> None"
  unfolding causes_def wf_graph_def by metis

lemma mirrors_derived: "mirrors g e I \<Longrightarrow> causes g a c \<Longrightarrow> node_of e c = Some nd \<Longrightarrow> node_type nd = DERIVED"
  unfolding mirrors_def by blast

lemma mirrors_unsupported:
  assumes mir: "mirrors g e I" and tab: "map_of (nodes e') = struck e V" and "s \<in> V"
    and step: "causes g a c" and bad: "a \<in> F \<or> \<not> supported e' F {} a"
  shows "\<not> supported e' F {} c"
proof
  assume "supported e' F {} c"
  then show False
  proof (cases rule: supported.cases)
    case (supp_derived nd j)
    then obtain nd0 where "node_of e c = Some nd0" "justifications nd0 = justifications nd"
      using tab by (auto simp: struck_def split: if_splits)
    then have "a \<in> set (antecedents j)" using mir step supp_derived by (auto simp: mirrors_def)
    then have "supported e' F {} a" using supp_derived by blast
    with bad show False by (auto dest: supported_known)
  next
    case (supp_premise nd)
    then show False using mir tab by (auto simp: mirrors_def struck_def split: if_splits)
  next
    case (supp_assumption nd)
    then obtain nd0 where "node_of e c = Some nd0" "node_type nd0 = ASSUMPTION"
      using tab by (auto simp: struck_def split: if_splits)
    then show False using mirrors_derived [OF mir step, of nd0] by simp
  qed
qed

lemma mirrors_cascade:
  assumes wf: "wf_graph g" and mir: "mirrors g e I" and closed: "causes_closed g I"
    and known: "get_node g s \<noteq> None"
  shows "\<exists>e'. propagate_deprecation e s = Some (e', failure_set g s - I) \<and> mirrors g e' (I \<union> failure_set g s)"
proof -
  obtain nd where nd: "node_of e s = Some nd" "node_type nd \<noteq> PREMISE"
    using mir known unfolding mirrors_def by (metis not_None_eq)
  from propagate_spec [OF this] obtain e' m V S where
    run: "propagate_deprecation e s = Some (e', {k \<in> V. node_valid e k})"
    and inv: "cascade_inv e {s} S e' m V []" by blast
  have deps: "deps e a = {c. causes g a c}" for a using mir by (simp add: mirrors_def)
  from inv have sV: "s \<in> V" and tab: "map_of (nodes e') = struck e V" and frame: "same_frame e e'"
    and S: "S = supported e' {s} {}"
    and fall: "\<And>n. n \<in> V \<Longrightarrow> n \<noteq> s \<Longrightarrow> falls e S n"
    and nxt: "\<And>v c. v \<in> V \<Longrightarrow> causes g v c \<Longrightarrow> falls e S c \<Longrightarrow> c \<in> V"
    and reach: "V \<subseteq> failure_set g s"
    unfolding cascade_inv_def failure_set_def by (auto simp: deps)
  have valid: "node_valid e n \<longleftrightarrow> get_node g n \<noteq> None \<and> n \<notin> I" for n
  proof (cases "node_of e n")
    case None
    then have "get_node g n = None" using mir by (simp add: mirrors_def)
    with None show ?thesis by (simp add: node_valid_def)
  next
    case (Some nd)
    then have "get_node g n \<noteq> None" and "is_valid nd = (n \<notin> I)"
      using mir unfolding mirrors_def by (metis option.distinct(1), blast)
    with Some show ?thesis by (simp add: node_valid_def)
  qed
  have "y \<in> V \<union> I" if "(causes g)\<^sup>*\<^sup>* s y" for y
    using that
  proof (induction rule: rtranclp_induct)
    case base
    show ?case using sV by simp
  next
    case (step a c)
    show ?case
    proof (cases "c \<in> I \<or> a \<in> I")
      case True
      then show ?thesis using closed step(2) by (auto simp: causes_closed_def)
    next
      case False
      then have "a \<in> V" using step by blast
      then have "a \<in> {s} \<or> \<not> supported e' {s} {} a" using fall by (auto simp: falls_def S)
      then have "\<not> S c" unfolding S by (rule mirrors_unsupported [OF mir tab sV step(2)])
      moreover have "node_valid e c" using False valid wf_causes_node [OF wf step(2)] by blast
      ultimately have "falls e S c"
        using mir step(2) by (auto simp: falls_def node_valid_def mirrors_def split: option.splits)
      then show ?thesis using nxt \<open>a \<in> V\<close> step(2) by blast
    qed
  qed
  then have cover: "failure_set g s \<subseteq> V \<union> I" by (auto simp: failure_set_def)
  have "get_node g n \<noteq> None" if "n \<in> failure_set g s" for n
    using that known wf_causes_node [OF wf] unfolding failure_set_def
    by (metis mem_Collect_eq rtranclp.cases)
  then have "{k \<in> V. node_valid e k} = failure_set g s - I"
    using cover reach valid by auto
  moreover have "mirrors g e' (I \<union> failure_set g s)"
  proof -
    have "n \<notin> I \<and> n \<notin> V \<longleftrightarrow> n \<notin> I \<union> failure_set g s" for n using cover reach by blast
    moreover have "deps e' = deps e" using frame by (simp add: same_frame_def deps_def fun_eq_iff)
    ultimately show ?thesis
      using mir unfolding mirrors_def tab struck_def
      by (auto simp: split: if_splits)
  qed
  ultimately show ?thesis using run by auto
qed

section \<open>Interventions\<close>

definition failure_sets :: "CausalGraph \<Rightarrow> string list \<Rightarrow> string set" where
  "failure_sets g targets = (\<Union>t\<in>{t \<in> set targets. get_node g t \<noteq> None}. failure_set g t)"

lemma failure_set_closed: "causes_closed g I \<Longrightarrow> causes_closed g (I \<union> failure_set g t)"
  by (auto simp: causes_closed_def failure_set_def intro: rtranclp.rtrancl_into_rtrancl)

lemma failure_set_self [simp]: "x \<in> failure_set g x"
  by (simp add: failure_set_def)

lemma intervene_spec:
  assumes wf: "wf_graph g"
  shows "mirrors g e I \<Longrightarrow> causes_closed g I \<Longrightarrow>
    \<exists>e'. intervene e I targets = Some (e', I \<union> failure_sets g targets)"
proof (induction targets arbitrary: e I)
  case Nil
  then show ?case by (simp add: failure_sets_def)
next
  case (Cons t targets)
  note mir = Cons.prems(1) and closed = Cons.prems(2)
  show ?case
  proof (cases "get_node g t = None")
    case True
    then have "node_of e t = None" using mir by (simp add: mirrors_def)
    then have "intervene e I (t # targets) = intervene e I targets" by (simp add: invalidate_assumption_def)
    moreover have "failure_sets g (t # targets) = failure_sets g targets"
      using True by (auto simp: failure_sets_def)
    ultimately show ?thesis using Cons.IH [OF mir closed] by simp
  next
    case False
    let ?I = "I \<union> failure_set g t"
    have closed': "causes_closed g ?I" using closed by (rule failure_set_closed)
    obtain e1 where e1: "propagate_deprecation e t = Some (e1, failure_set g t - I)" "mirrors g e1 ?I"
      using mirrors_cascade [OF wf mir closed False] by blast
    obtain e2 where "propagate_deprecation e1 t = Some (e2, failure_set g t - ?I)"
      "mirrors g e2 (?I \<union> failure_set g t)"
      using mirrors_cascade [OF wf e1(2) closed' False] by blast
    then have e2: "propagate_deprecation e1 t = Some (e2, {})" "mirrors g e2 ?I"
      by (simp_all add: Diff_eq_empty_iff [THEN iffD2] Un_absorb2 Un_assoc)
    have known: "node_of e' t \<noteq> None" if "mirrors g e' J" for e' J
      using that False by (simp add: mirrors_def)
    have "invalidate_assumption e t = propagate_deprecation e t"
      using known [OF mir] mir by (auto simp: invalidate_assumption_def mirrors_def)
    then have "intervene e I (t # targets) = intervene e2 (I \<union> (failure_set g t - I)) targets"
      using e1 e2 known [OF e1(2)] by simp
    moreover have "I \<union> (failure_set g t - I) = ?I" by blast
    moreover obtain e3 where "intervene e2 ?I targets = Some (e3, ?I \<union> failure_sets g targets)"
      using Cons.IH [OF e2(2) closed'] by blast
    moreover have "failure_sets g (t # targets) = failure_set g t \<union> failure_sets g targets"
      using False by (auto simp: failure_sets_def)
    ultimately show ?thesis by (simp add: Un_assoc)
  qed
qed

lemma atms_intervention_exact:
  assumes wf: "wf_graph g" and order: "distinct order" "set order = {n. get_node g n \<noteq> None}"
  shows "evaluate_atms_intervention order g targets = Some (Inr (failure_sets g targets))"
proof -
  obtain e where e: "build_atms_from_causal_graph order g = Inr e" "mirrors g e {}"
    using build_mirrors [OF wf order] by blast
  obtain e' where "intervene e {} targets = Some (e', {} \<union> failure_sets g targets)"
    using intervene_spec [OF wf e(2), of targets] by (auto simp: causes_closed_def)
  then show ?thesis by (simp add: evaluate_atms_intervention_def e(1))
qed

end
