(* ===== verification/DoCalculus.thy ===== *)
theory DoCalculus
  imports CausalGraph
begin

text \<open>
  The probability model and the intervention evaluator of \<open>nce/causal/correlation.py\<close>: edge decay,
  path confidence, combination of independent paths, \<open>DoCalculusEngine.evaluate\<close> and the search for
  confounding paths. A result of \<open>None\<close> would mean that a traversal does not return; the theorems show
  that this never happens. The log calls are left out.
\<close>

section \<open>Confidence\<close>

definition TOPOLOGY_EDGE_STABILITY_DAYS :: real where
  "TOPOLOGY_EDGE_STABILITY_DAYS = 90"

definition MIN_CONFIDENCE :: real where
  "MIN_CONFIDENCE = 1 / 1000"

definition decayed_confidence :: "real \<Rightarrow> CausalEdge \<Rightarrow> real" where
  "decayed_confidence now e =
     (case last_verified e of
        None \<Rightarrow> max MIN_CONFIDENCE (confidence_score e)
      | Some lv \<Rightarrow>
          let elapsed_days = (now - lv) / 86400;
              decay = (if decay_coefficient e > 0 \<and> decay_coefficient e \<noteq> 1 / 1000
                       then exp (- decay_coefficient e * elapsed_days)
                       else exp (- elapsed_days / TOPOLOGY_EDGE_STABILITY_DAYS));
              raw = confidence_score e * decay
          in max MIN_CONFIDENCE (min 1 raw))"

definition path_confidence :: "real \<Rightarrow> CausalEdge list \<Rightarrow> real" where
  "path_confidence now path =
     (if path = [] then 0 else fold (\<lambda>e r. r * decayed_confidence now e) path 1)"

definition combine_path_probabilities :: "real list \<Rightarrow> real" where
  "combine_path_probabilities ps = (if ps = [] then 0 else 1 - fold (\<lambda>p r. r * (1 - p)) ps 1)"

section \<open>Results\<close>

record ImpactScore =
  score_node :: string
  score_type :: string
  impact_probability :: real
  hop_distance :: nat
  paths_count :: nat

record ConfoundingPath =
  intervention_node :: string
  sink :: string
  cpath :: "string list"
  raw_confidence :: real

record InterventionResult =
  intervention_node_id :: string
  intervention_state :: string
  directly_impacted :: "ImpactScore list"
  transitively_impacted :: "ImpactScore list"
  confounding_paths :: "ConfoundingPath list"
  probability_matrix :: "(string, real) dict"
  truncated_targets :: "string list"

section \<open>Evaluation\<close>

definition node_type_in :: "CausalGraph \<Rightarrow> CausalGraph \<Rightarrow> string \<Rightarrow> string" where
  "node_type_in m g t =
     (case get_node m t of
        Some n \<Rightarrow> cnode_type n
      | None \<Rightarrow> (case get_node g t of Some n \<Rightarrow> cnode_type n | None \<Rightarrow> ''unknown''))"

type_synonym scoring = "(string, real) dict \<times> (string, ImpactScore) dict \<times> string list"

text \<open>One iteration of the loop over the impacted nodes, and the loop.\<close>

definition score_target ::
    "CausalGraph \<Rightarrow> CausalGraph \<Rightarrow> string \<Rightarrow> real \<Rightarrow> string \<Rightarrow> CausalEdge list list \<Rightarrow> scoring \<Rightarrow> scoring" where
  "score_target m g x now t paths acc = (case acc of (matrix, scores, truncated) \<Rightarrow>
     if paths = [] then (matrix, scores, truncated @ [t])
     else let prob = combine_path_probabilities (map (path_confidence now) paths)
          in (dict_set t prob matrix,
              dict_set t \<lparr>score_node = t, score_type = node_type_in m g t, impact_probability = prob,
                          hop_distance = Min (set (map length paths)), paths_count = length paths\<rparr> scores,
              truncated))"

fun score_targets ::
    "CausalGraph \<Rightarrow> CausalGraph \<Rightarrow> string \<Rightarrow> int \<Rightarrow> real \<Rightarrow> string list \<Rightarrow> scoring \<Rightarrow> scoring option" where
  "score_targets m g x d now [] acc = Some acc"
| "score_targets m g x d now (t # ts) acc =
     Option.bind (find_all_causal_paths m x t d)
       (\<lambda>paths. score_targets m g x d now ts (score_target m g x now t paths acc))"

definition direct_children :: "CausalGraph \<Rightarrow> string \<Rightarrow> string set" where
  "direct_children m x =
     target_node_id ` set (filter forward_edge (outgoing_edges m x)) \<union>
     source_node_id ` set (filter reverse_edge (incoming_edges m x))"

definition by_probability :: "ImpactScore list \<Rightarrow> ImpactScore list" where
  "by_probability = sort_key (\<lambda>s. (- impact_probability s, score_node s))"

definition causal_parents :: "CausalGraph \<Rightarrow> string \<Rightarrow> string list" where
  "causal_parents g x =
     remdups (map source_node_id (filter forward_edge (incoming_edges g x)) @
              map target_node_id (filter reverse_edge (outgoing_edges g x)))"

definition confounders_via ::
    "real \<Rightarrow> string \<Rightarrow> string \<Rightarrow> string \<Rightarrow> CausalEdge list list \<Rightarrow> ConfoundingPath list" where
  "confounders_via now x parent t paths =
     map (\<lambda>p. \<lparr>intervention_node = x, sink = t, cpath = parent # map edge_dst p,
               raw_confidence = path_confidence now p\<rparr>)
       (filter (\<lambda>p. path_confidence now p > 1 / 100) (take 3 paths))"

definition confounders_of_parent ::
    "CausalGraph \<Rightarrow> string \<Rightarrow> string list \<Rightarrow> int \<Rightarrow> real \<Rightarrow> string \<Rightarrow> ConfoundingPath list option" where
  "confounders_of_parent g x impacted d now parent =
     Option.bind (impacted_by g parent)
       (\<lambda>parent_impacted.
          let confounded_targets = filter (\<lambda>t. t \<notin> set impacted \<and> t \<noteq> x) parent_impacted
          in map_option concat (those (map (\<lambda>t. map_option (confounders_via now x parent t)
               (find_all_causal_paths g parent t d)) (sort confounded_targets))))"

definition find_confounding_paths ::
    "CausalGraph \<Rightarrow> string \<Rightarrow> string list \<Rightarrow> int \<Rightarrow> real \<Rightarrow> ConfoundingPath list option" where
  "find_confounding_paths g x impacted d now =
     map_option (\<lambda>cs. sort_key (\<lambda>c. (sink c, length (cpath c), - raw_confidence c)) (concat cs))
       (those (map (confounders_of_parent g x impacted d now) (sort (causal_parents g x))))"

definition evaluate ::
    "CausalGraph \<Rightarrow> string \<Rightarrow> string \<Rightarrow> int \<Rightarrow> real \<Rightarrow> (string + InterventionResult) option" where
  "evaluate g x state d now =
     (if get_node g x = None then Some (Inl ''KeyError'')
      else let m = mutilate g x in
        Option.bind (impacted_by m x) (\<lambda>impacted.
        Option.bind (score_targets m g x d now (sort impacted) ([], [], [])) (\<lambda>(matrix, scores, truncated).
        Option.bind (find_confounding_paths g x impacted d now) (\<lambda>confounding.
          Some (Inr \<lparr>intervention_node_id = x, intervention_state = state,
            directly_impacted = by_probability (map snd (filter (\<lambda>(n, s). n \<in> direct_children m x) scores)),
            transitively_impacted = by_probability (map snd (filter (\<lambda>(n, s). n \<notin> direct_children m x) scores)),
            confounding_paths = confounding, probability_matrix = matrix,
            truncated_targets = sort (remdups truncated)\<rparr>)))))"

section \<open>Probabilities\<close>








section \<open>The evaluator in closed form\<close>

definition paths_of :: "CausalGraph \<Rightarrow> string \<Rightarrow> int \<Rightarrow> string \<Rightarrow> CausalEdge list list" where
  "paths_of m x d t = (case find_all_causal_paths m x t d of None \<Rightarrow> [] | Some ps \<Rightarrow> ps)"

definition impact_of :: "CausalGraph \<Rightarrow> string \<Rightarrow> int \<Rightarrow> real \<Rightarrow> string \<Rightarrow> real" where
  "impact_of m x d now t = combine_path_probabilities (map (path_confidence now) (paths_of m x d t))"

definition score_of :: "CausalGraph \<Rightarrow> CausalGraph \<Rightarrow> string \<Rightarrow> int \<Rightarrow> real \<Rightarrow> string \<Rightarrow> ImpactScore" where
  "score_of m g x d now t =
     \<lparr>score_node = t, score_type = node_type_in m g t, impact_probability = impact_of m x d now t,
      hop_distance = Min (set (map length (paths_of m x d t))), paths_count = length (paths_of m x d t)\<rparr>"

lemma paths_of_find: "wf_graph m \<Longrightarrow> x \<noteq> t \<Longrightarrow> find_all_causal_paths m x t d = Some (paths_of m x d t)"
  using causal_paths_exact [of m x t d] by (auto simp: paths_of_def)

lemma set_paths_of:
  "wf_graph m \<Longrightarrow> x \<noteq> t \<Longrightarrow> set (paths_of m x d t) = {p. causal_path m x p t \<and> int (length p) \<le> d}"
proof -
  assume "wf_graph m" and "x \<noteq> t"
  then obtain ps where "find_all_causal_paths m x t d = Some ps"
    and "set ps = {p. causal_path m x p t \<and> int (length p) \<le> d}" using causal_paths_exact [of m x t d] by blast
  then show ?thesis by (simp only: paths_of_def option.case)
qed

lemma dict_set_fresh: "k \<notin> fst ` set d \<Longrightarrow> AList.update k v d = d @ [(k, v)]"
  by (induction d) auto

lemma score_targets_closed:
  assumes "wf_graph m"
  shows "x \<notin> set ts \<Longrightarrow> distinct ts \<Longrightarrow> set ts \<inter> fst ` set M = {} \<Longrightarrow> set ts \<inter> fst ` set S = {} \<Longrightarrow>
    score_targets m g x d now ts (M, S, T) =
     Some (M @ map (\<lambda>t. (t, impact_of m x d now t)) (filter (\<lambda>t. paths_of m x d t \<noteq> []) ts),
           S @ map (\<lambda>t. (t, score_of m g x d now t)) (filter (\<lambda>t. paths_of m x d t \<noteq> []) ts),
           T @ filter (\<lambda>t. paths_of m x d t = []) ts)"
proof (induction ts arbitrary: M S T)
  case (Cons t ts)
  then have find: "find_all_causal_paths m x t d = Some (paths_of m x d t)"
    by (intro paths_of_find assms) auto
  show ?case
  proof (cases "paths_of m x d t = []")
    case True
    then show ?thesis using Cons by (simp add: find score_target_def)
  next
    case False
    let ?M = "M @ [(t, impact_of m x d now t)]" and ?S = "S @ [(t, score_of m g x d now t)]"
    have "score_target m g x now t (paths_of m x d t) (M, S, T) = (?M, ?S, T)"
      using False Cons.prems
      by (simp add: score_target_def Let_def dict_set_fresh impact_of_def score_of_def)
    moreover have "set ts \<inter> fst ` set ?M = {}" "set ts \<inter> fst ` set ?S = {}"
      using Cons.prems by auto
    ultimately show ?thesis
      using Cons.IH [of ?M ?S T] Cons.prems False by (simp add: find)
  qed
qed simp

lemma those_map: "(\<And>x. x \<in> set xs \<Longrightarrow> f x = Some (h x)) \<Longrightarrow> those (map f xs) = Some (map h xs)"
  by (induction xs) auto

definition backdoor :: "CausalGraph \<Rightarrow> string \<Rightarrow> string list \<Rightarrow> int \<Rightarrow> real \<Rightarrow> ConfoundingPath \<Rightarrow> bool" where
  "backdoor g x impacted d now c = (\<exists>parent p. causes g parent x \<and> causal_path g parent p (sink c) \<and>
     int (length p) \<le> d \<and> cpath c = parent # map edge_dst p \<and> intervention_node c = x \<and>
     raw_confidence c = path_confidence now p \<and> 1 / 100 < raw_confidence c \<and>
     sink c \<notin> insert x (set impacted))"

lemma set_causal_parents: "wf_graph g \<Longrightarrow> set (causal_parents g x) = {p. causes g p x}"
  by (auto simp: causal_parents_def causes_def wf_in_iff wf_out_iff)

lemma confounders_via_sound:
  assumes "wf_graph g" and "causes g parent x" and "parent \<noteq> t" and "t \<notin> insert x (set impacted)"
    and "c \<in> set (confounders_via now x parent t (paths_of g parent d t))"
  shows "backdoor g x impacted d now c"
proof -
  obtain p where p: "p \<in> set (paths_of g parent d t)" "1 / 100 < path_confidence now p"
    and c: "c = \<lparr>intervention_node = x, sink = t, cpath = parent # map edge_dst p,
               raw_confidence = path_confidence now p\<rparr>"
    using assms(5) by (auto simp: confounders_via_def dest: in_set_takeD)
  with assms show ?thesis
    unfolding backdoor_def set_paths_of [OF assms(1,3)] c
    by (intro exI [of _ parent] exI [of _ p]) auto
qed

lemma confounders_of_parent_total:
  assumes wf: "wf_graph g" and parent: "causes g parent x"
  shows "\<exists>cs. confounders_of_parent g x impacted d now parent = Some cs \<and>
    (\<forall>c\<in>set cs. backdoor g x impacted d now c)"
proof -
  obtain r where r: "impacted_by g parent = Some r" "parent \<notin> set r"
    using impacted_exact [OF wf, of parent] by auto
  let ?ts = "sort (filter (\<lambda>t. t \<notin> set impacted \<and> t \<noteq> x) r)"
  let ?f = "\<lambda>t. map_option (confounders_via now x parent t) (find_all_causal_paths g parent t d)"
  have find: "?f t = Some (confounders_via now x parent t (paths_of g parent d t))" if "t \<in> set ?ts" for t
    using that r(2) by (subst paths_of_find [OF wf]) auto
  have "confounders_of_parent g x impacted d now parent =
      Some (concat (map (\<lambda>t. confounders_via now x parent t (paths_of g parent d t)) ?ts))"
    unfolding confounders_of_parent_def Let_def r(1) bind.simps by (simp only: those_map [OF find] option.map)
  moreover have "backdoor g x impacted d now c"
    if "t \<in> set ?ts" and "c \<in> set (confounders_via now x parent t (paths_of g parent d t))" for t c
    using that r(2) by (intro confounders_via_sound [OF wf parent]) auto
  ultimately show ?thesis by auto
qed

lemma find_confounding_paths_total:
  assumes "wf_graph g"
  shows "\<exists>cs. find_confounding_paths g x impacted d now = Some cs \<and> (\<forall>c\<in>set cs. backdoor g x impacted d now c)"
proof -
  let ?f = "confounders_of_parent g x impacted d now" and ?ps = "sort (causal_parents g x)"
  have total: "\<exists>cs. ?f p = Some cs \<and> (\<forall>c\<in>set cs. backdoor g x impacted d now c)" if "p \<in> set ?ps" for p
    using that assms by (intro confounders_of_parent_total) (auto simp: set_causal_parents)
  then obtain h where h: "\<And>p. p \<in> set ?ps \<Longrightarrow> ?f p = Some (h p)"
    and sound: "\<And>p c. p \<in> set ?ps \<Longrightarrow> c \<in> set (h p) \<Longrightarrow> backdoor g x impacted d now c"
    by metis
  have "those (map ?f ?ps) = Some (map h ?ps)" using h by (rule those_map)
  then show ?thesis using sound by (auto simp: find_confounding_paths_def)
qed

lemma direct_children_causes: "wf_graph m \<Longrightarrow> direct_children m x = {y. causes m x y}"
  by (auto simp: direct_children_def causes_def wf_in_iff wf_out_iff)

lemma evaluate_closed:
  assumes wf: "wf_graph g" and known: "get_node g x \<noteq> None"
  obtains ts cs where "distinct ts" and "set ts = {y. (causes g)\<^sup>*\<^sup>* x y} - {x}"
    and "\<forall>c\<in>set cs. backdoor g x ts d now c"
    and "let m = mutilate g x; hit = filter (\<lambda>t. paths_of m x d t \<noteq> []) (sort ts) in
      evaluate g x state d now = Some (Inr \<lparr>intervention_node_id = x, intervention_state = state,
       directly_impacted = by_probability (map (score_of m g x d now) (filter (causes m x) hit)),
       transitively_impacted = by_probability (map (score_of m g x d now) (filter (\<lambda>t. \<not> causes m x t) hit)),
       confounding_paths = cs, probability_matrix = map (\<lambda>t. (t, impact_of m x d now t)) hit,
       truncated_targets = filter (\<lambda>t. paths_of m x d t = []) (sort ts)\<rparr>)"
proof -
  let ?m = "mutilate g x"
  have wfm: "wf_graph ?m" using wf by (rule wf_mutilate)
  obtain ts where ts: "impacted_by ?m x = Some ts" "distinct ts" "set ts = {y. (causes g)\<^sup>*\<^sup>* x y} - {x}"
    using impacted_exact [OF wfm, of x] by (auto simp: causes_mutilate_star [OF wf])
  obtain cs where cs: "find_confounding_paths g x ts d now = Some cs" "\<forall>c\<in>set cs. backdoor g x ts d now c"
    using find_confounding_paths_total [OF wf] by blast
  have ev: "score_targets ?m g x d now (sort ts) ([], [], []) =
     Some (map (\<lambda>t. (t, impact_of ?m x d now t)) (filter (\<lambda>t. paths_of ?m x d t \<noteq> []) (sort ts)),
           map (\<lambda>t. (t, score_of ?m g x d now t)) (filter (\<lambda>t. paths_of ?m x d t \<noteq> []) (sort ts)),
           filter (\<lambda>t. paths_of ?m x d t = []) (sort ts))"
    using ts by (subst score_targets_closed [OF wfm]) auto
  have trunc: "sort (remdups (filter (\<lambda>t. paths_of ?m x d t = []) (sort ts))) =
      filter (\<lambda>t. paths_of ?m x d t = []) (sort ts)"
    using ts(2) by (simp add: distinct_remdups_id sorted_sort_id sorted_filter [of "\<lambda>t. t", simplified])
  show ?thesis
    using that [OF ts(2,3) cs(2)] known
    by (simp add: evaluate_def Let_def ts(1) ev cs(1) trunc direct_children_causes [OF wfm]
        filter_map comp_def)
qed

section \<open>Reading the result\<close>







section \<open>Properties\<close>

lemma sample_pdu: "get_node sample_graph ''pdu'' \<noteq> None"
  by (simp add: sample_graph_def from_rows_node source_type_of_def sample_row_def)


text \<open>C5: Evaluating an intervention on a known node of a well-formed graph returns a result. The nodes with
  a probability are exactly those that a causal path of at most the depth bound reaches in the mutilated
  graph; each has the combined probability of all those paths; the remaining impacted nodes, and only
  they, are listed as truncated; an unknown node is a \<open>KeyError\<close>.\<close>

theorem evaluate_correct:
  assumes "wf_graph g"
  shows "(get_node g x = None \<longrightarrow> evaluate g x state d now = Some (Inl ''KeyError'')) \<and>
    (get_node g x \<noteq> None \<longrightarrow> (\<exists>res. evaluate g x state d now = Some (Inr res) \<and>
      fst ` set (probability_matrix res) =
        {y. y \<noteq> x \<and> (\<exists>p. causal_path (mutilate g x) x p y \<and> int (length p) \<le> d)} \<and>
      (\<forall>(y, p)\<in>set (probability_matrix res). p = impact_of (mutilate g x) x d now y) \<and>
      fst ` set (probability_matrix res) \<union> set (truncated_targets res) = {y. (causes g)\<^sup>*\<^sup>* x y} - {x} \<and>
      fst ` set (probability_matrix res) \<inter> set (truncated_targets res) = {}))"
proof (intro conjI impI)
  assume known: "get_node g x \<noteq> None"
  let ?m = "mutilate g x"
  have wfm: "wf_graph ?m" using assms by (rule wf_mutilate)
  obtain ts cs where ts: "set ts = {y. (causes g)\<^sup>*\<^sup>* x y} - {x}"
    and ev: "let m = ?m; hit = filter (\<lambda>t. paths_of m x d t \<noteq> []) (sort ts) in
      evaluate g x state d now = Some (Inr \<lparr>intervention_node_id = x, intervention_state = state,
       directly_impacted = by_probability (map (score_of m g x d now) (filter (causes m x) hit)),
       transitively_impacted = by_probability (map (score_of m g x d now) (filter (\<lambda>t. \<not> causes m x t) hit)),
       confounding_paths = cs, probability_matrix = map (\<lambda>t. (t, impact_of m x d now t)) hit,
       truncated_targets = filter (\<lambda>t. paths_of m x d t = []) (sort ts)\<rparr>)"
    by (rule evaluate_closed [OF assms known]) blast
  have "paths_of ?m x d y \<noteq> [] \<longleftrightarrow> (\<exists>p. causal_path ?m x p y \<and> int (length p) \<le> d)" if "y \<noteq> x" for y
    using set_paths_of [OF wfm, of x y d] that by (force simp flip: set_empty)
  moreover have "y \<in> set ts" if "causal_path ?m x p y" "y \<noteq> x" for y p
    using that ts causal_path_exists [OF wfm, of x y] causes_mutilate_star [OF assms, of x y] by auto
  ultimately have "{t \<in> set ts. paths_of ?m x d t \<noteq> []} =
      {y. y \<noteq> x \<and> (\<exists>p. causal_path ?m x p y \<and> int (length p) \<le> d)}" using ts by blast
  then show "\<exists>res. evaluate g x state d now = Some (Inr res) \<and>
      fst ` set (probability_matrix res) = {y. y \<noteq> x \<and> (\<exists>p. causal_path ?m x p y \<and> int (length p) \<le> d)} \<and>
      (\<forall>(y, p)\<in>set (probability_matrix res). p = impact_of ?m x d now y) \<and>
      fst ` set (probability_matrix res) \<union> set (truncated_targets res) = {y. (causes g)\<^sup>*\<^sup>* x y} - {x} \<and>
      fst ` set (probability_matrix res) \<inter> set (truncated_targets res) = {}"
    using ev ts by (auto simp: Let_def image_image)
qed (simp add: evaluate_def)


theorem evaluate_correct_witness:
  "\<exists>res. evaluate sample_graph ''pdu'' ''failed'' 10 0 = Some (Inr res) \<and>
    fst ` set (probability_matrix res) \<union> set (truncated_targets res) =
      {y. (causes sample_graph)\<^sup>*\<^sup>* ''pdu'' y} - {''pdu''}"
proof -
  note evaluate_correct [OF wf_sample_graph, of "''pdu''" "''failed''" 10 0, THEN conjunct2, THEN mp, OF sample_pdu]
  then show ?thesis by (elim exE conjE) (intro exI conjI)
qed


text \<open>Every reported confounding path is a backdoor path of the observed graph: it starts at a cause of
  the intervened node, follows typed hops within the depth bound to a node that the intervention itself does
  not impact, and its confidence is the product along the path and above the reporting threshold.\<close>

theorem evaluate_confounders:
  assumes "wf_graph g" and "get_node g x \<noteq> None"
  shows "\<exists>res impacted. evaluate g x state d now = Some (Inr res) \<and>
    set impacted = {y. (causes g)\<^sup>*\<^sup>* x y} - {x} \<and>
    (\<forall>c\<in>set (confounding_paths res). backdoor g x impacted d now c)"
proof (rule evaluate_closed [OF assms, of d now state])
  fix ts cs
  assume "set ts = {y. (causes g)\<^sup>*\<^sup>* x y} - {x}" and cs: "\<forall>c\<in>set cs. backdoor g x ts d now c"
    and ev: "let m = mutilate g x; hit = filter (\<lambda>t. paths_of m x d t \<noteq> []) (sort ts) in
      evaluate g x state d now = Some (Inr \<lparr>intervention_node_id = x, intervention_state = state,
       directly_impacted = by_probability (map (score_of m g x d now) (filter (causes m x) hit)),
       transitively_impacted = by_probability (map (score_of m g x d now) (filter (\<lambda>t. \<not> causes m x t) hit)),
       confounding_paths = cs, probability_matrix = map (\<lambda>t. (t, impact_of m x d now t)) hit,
       truncated_targets = filter (\<lambda>t. paths_of m x d t = []) (sort ts)\<rparr>)"
  then show ?thesis by (simp add: Let_def) (intro exI [of _ ts], simp)
qed

theorem evaluate_confounders_witness:
  "\<exists>res impacted. evaluate sample_graph ''pdu'' ''failed'' 10 0 = Some (Inr res) \<and>
    set impacted = {y. (causes sample_graph)\<^sup>*\<^sup>* ''pdu'' y} - {''pdu''} \<and>
    (\<forall>c\<in>set (confounding_paths res). backdoor sample_graph ''pdu'' impacted 10 0 c)"
  by (rule evaluate_confounders [OF wf_sample_graph sample_pdu])

end
