(* ===== verification/Chrono.thy ===== *)
theory Chrono
  imports DoCalculus
begin

text \<open>
  Counterfactual branches of the timeline (\<open>nce/causal/chrono.py\<close>), the time stamp validation they use
  (\<open>parse_as_of\<close> of \<open>nce/temporal.py\<close>) and the loading of the causal graph under a branch
  (\<open>CausalGraph.load_from_db\<close>, \<open>evaluate_intervention\<close>). Parameters stand for what the code obtains
  elsewhere: \<open>fromiso\<close> for \<open>datetime.fromisoformat\<close> followed by the normalisation to UTC, \<open>parse_uuid\<close> for the
  \<open>uuid.UUID\<close> constructor, \<open>fresh_ns\<close> for \<open>uuid.uuid4()\<close>, \<open>now\<close> for the clock, and the two fetch functions
  for the database queries.
\<close>

section \<open>Time stamps\<close>

definition ABSOLUTE_MAX_LOOKBACK_DAYS :: int where
  "ABSOLUTE_MAX_LOOKBACK_DAYS = 3650"

definition assert_not_future :: "real \<Rightarrow> real \<Rightarrow> bool \<Rightarrow> string + unit" where
  "assert_not_future dt now allow_skew =
     (if dt > now + (if allow_skew then 5 else 0) then Inl ''ValueError'' else Inr ())"

definition enforce_lookback_boundary :: "int \<Rightarrow> real \<Rightarrow> real \<Rightarrow> string + unit" where
  "enforce_lookback_boundary max_days dt now =
     (if max_days \<le> 0 then Inr ()
      else let cutoff = now - real_of_int (min max_days ABSOLUTE_MAX_LOOKBACK_DAYS) * 86400
           in if dt < cutoff then Inl ''ValueError'' else Inr ())"

text \<open>Called without \<open>_now\<close>, as the chrono module does: the clock is read and five seconds of skew allowed.\<close>

definition parse_as_of :: "(string \<Rightarrow> real option) \<Rightarrow> int \<Rightarrow> real \<Rightarrow> string \<Rightarrow> string + real" where
  "parse_as_of fromiso max_days now raw =
     (case fromiso raw of
        None \<Rightarrow> Inl ''ValueError''
      | Some dt \<Rightarrow>
          (case assert_not_future dt now True of
             Inl err \<Rightarrow> Inl err
           | Inr _ \<Rightarrow>
               (case enforce_lookback_boundary max_days dt now of
                  Inl err \<Rightarrow> Inl err
                | Inr _ \<Rightarrow> Inr dt)))"

section \<open>Hypothetical states\<close>

datatype stamp = Stamp real | StampText string

datatype namespace_value = Uuid string | UuidText string

record node_data =
  nd_type :: "string option"
  nd_namespace :: "namespace_value option"

record edge_data =
  ed_source :: "string option"
  ed_target :: "string option"
  ed_type :: "string option"
  ed_confidence :: "real option"
  ed_decay :: "real option"
  ed_last_verified :: "stamp option"

record hypothetical =
  del_nodes :: "string list"
  del_edges :: "(string \<times> string) list"
  node_overrides :: "(string, node_data) dict"
  edge_overrides :: "edge_data list"

record chrono_env =
  env_iso :: "string \<Rightarrow> real option"
  env_uuid :: "string \<Rightarrow> string option"
  env_fresh_ns :: string
  env_now :: real
  env_max_days :: int

definition fallback_namespace :: "chrono_env \<Rightarrow> CausalGraph \<Rightarrow> string" where
  "fallback_namespace env g =
     (case gnodes g of [] \<Rightarrow> env_fresh_ns env | (n, node) # _ \<Rightarrow> cnode_namespace node)"

definition delete_node :: "string \<Rightarrow> CausalGraph \<Rightarrow> CausalGraph" where
  "delete_node nid g = g\<lparr>gnodes := AList.delete nid (gnodes g),
     outgoing := AList.delete nid (outgoing g), incoming := AList.delete nid (incoming g)\<rparr>"

definition clean_deleted :: "string set \<Rightarrow> CausalGraph \<Rightarrow> CausalGraph" where
  "clean_deleted D g =
     (let keep = filter (\<lambda>e. source_node_id e \<notin> D \<and> target_node_id e \<notin> D)
      in g\<lparr>outgoing := map (\<lambda>(k, es). (k, keep es)) (outgoing g),
           incoming := map (\<lambda>(k, es). (k, keep es)) (incoming g)\<rparr>)"

text \<open>The two comprehensions that drop the edges between a pair of nodes, on the keys that exist.\<close>

definition drop_pair :: "string \<Rightarrow> string \<Rightarrow> CausalGraph \<Rightarrow> CausalGraph" where
  "drop_pair src tgt g = g\<lparr>
     outgoing := (case dict_get (outgoing g) src of None \<Rightarrow> outgoing g
        | Some es \<Rightarrow> dict_set src (filter (\<lambda>e. target_node_id e \<noteq> tgt) es) (outgoing g)),
     incoming := (case dict_get (incoming g) tgt of None \<Rightarrow> incoming g
        | Some es \<Rightarrow> dict_set tgt (filter (\<lambda>e. source_node_id e \<noteq> src) es) (incoming g))\<rparr>"

definition apply_deletions :: "hypothetical \<Rightarrow> CausalGraph \<Rightarrow> CausalGraph" where
  "apply_deletions h g =
     fold (\<lambda>(src, tgt). drop_pair src tgt) (del_edges h)
       (clean_deleted (set (del_nodes h)) (fold delete_node (del_nodes h) g))"

definition override_node ::
    "chrono_env \<Rightarrow> string \<Rightarrow> string set \<Rightarrow> string \<times> node_data \<Rightarrow> CausalGraph \<Rightarrow> CausalGraph" where
  "override_node env fallback D nd g = (case nd of (nid, node_data) \<Rightarrow>
     if nid \<in> D then g
     else let existing = dict_get (gnodes g) nid;
              ntype = (case nd_type node_data of Some t \<Rightarrow> t
                 | None \<Rightarrow> (case existing of Some n \<Rightarrow> cnode_type n | None \<Rightarrow> ''device''));
              ns_id = (case nd_namespace node_data of
                   Some (Uuid u) \<Rightarrow> u
                 | Some (UuidText s) \<Rightarrow> (case env_uuid env s of Some u \<Rightarrow> u | None \<Rightarrow> fallback)
                 | None \<Rightarrow> (case existing of Some n \<Rightarrow> cnode_namespace n | None \<Rightarrow> fallback))
          in g\<lparr>gnodes := dict_set nid \<lparr>cnode_id = nid, cnode_type = ntype, cnode_namespace = ns_id\<rparr> (gnodes g)\<rparr>)"

definition override_stamp :: "chrono_env \<Rightarrow> stamp option \<Rightarrow> real option" where
  "override_stamp env s =
     (case s of
        None \<Rightarrow> None
      | Some (Stamp t) \<Rightarrow> Some t
      | Some (StampText raw) \<Rightarrow>
          (case parse_as_of (env_iso env) (env_max_days env) (env_now env) raw of
             Inl err \<Rightarrow> None | Inr t \<Rightarrow> Some t))"

definition override_edge_value :: "chrono_env \<Rightarrow> string \<Rightarrow> string \<Rightarrow> edge_data \<Rightarrow> CausalEdge" where
  "override_edge_value env src tgt ed = \<lparr>source_node_id = src, target_node_id = tgt,
     edge_type = (case ed_type ed of Some t \<Rightarrow> t | None \<Rightarrow> ''connected_to''),
     confidence_score = (case ed_confidence ed of Some c \<Rightarrow> c | None \<Rightarrow> 1),
     decay_coefficient = (case ed_decay ed of Some c \<Rightarrow> c | None \<Rightarrow> 1 / 1000),
     last_verified = override_stamp env (ed_last_verified ed)\<rparr>"

definition ensure_graph_node :: "string \<Rightarrow> string \<Rightarrow> string \<Rightarrow> CausalGraph \<Rightarrow> CausalGraph" where
  "ensure_graph_node ntype fallback nid g =
     (if dict_get (gnodes g) nid = None
      then g\<lparr>gnodes := dict_set nid \<lparr>cnode_id = nid, cnode_type = ntype, cnode_namespace = fallback\<rparr> (gnodes g)\<rparr>
      else g)"

definition put_edge :: "string \<Rightarrow> CausalEdge \<Rightarrow> CausalGraph \<Rightarrow> CausalGraph" where
  "put_edge fallback e g =
     (let src = source_node_id e; tgt = target_node_id e;
          g1 = g\<lparr>outgoing := dict_setdefault src [] (outgoing g), incoming := dict_setdefault tgt [] (incoming g)\<rparr>;
          g2 = drop_pair src tgt g1;
          g3 = g2\<lparr>outgoing := append_at src e (outgoing g2), incoming := append_at tgt e (incoming g2)\<rparr>
      in ensure_graph_node ''service'' fallback tgt (ensure_graph_node ''device'' fallback src g3))"

fun override_edges ::
    "chrono_env \<Rightarrow> string \<Rightarrow> hypothetical \<Rightarrow> edge_data list \<Rightarrow> CausalGraph \<Rightarrow> string + CausalGraph" where
  "override_edges env fallback h [] g = Inr g"
| "override_edges env fallback h (ed # eds) g =
     (case (ed_source ed, ed_target ed) of
        (Some src, Some tgt) \<Rightarrow>
          if src \<in> set (del_nodes h) \<or> tgt \<in> set (del_nodes h) \<or> (src, tgt) \<in> set (del_edges h)
          then override_edges env fallback h eds g
          else override_edges env fallback h eds (put_edge fallback (override_edge_value env src tgt ed) g)
      | _ \<Rightarrow> Inl ''KeyError'')"

definition apply_hypothetical_states :: "chrono_env \<Rightarrow> CausalGraph \<Rightarrow> hypothetical \<Rightarrow> string + CausalGraph" where
  "apply_hypothetical_states env g h =
     (let fallback = fallback_namespace env g;
          g1 = apply_deletions h g;
          g2 = fold (override_node env fallback (set (del_nodes h))) (node_overrides h) g1
      in override_edges env fallback h (edge_overrides h) g2)"

section \<open>Branches\<close>

record branch =
  branch_time :: real
  branch_states :: hypothetical

definition branch_target :: "chrono_env \<Rightarrow> stamp \<Rightarrow> string + real" where
  "branch_target env target =
     (case target of Stamp t \<Rightarrow> Inr t
      | StampText raw \<Rightarrow> parse_as_of (env_iso env) (env_max_days env) (env_now env) raw)"

text \<open>
  The context manager around a body. The body sees the context variable and may return or raise; on the
  way out the variable is reset to what it was on entry.
\<close>

definition branch_timeline ::
    "chrono_env \<Rightarrow> stamp \<Rightarrow> hypothetical \<Rightarrow> (branch option \<Rightarrow> (string + 'a) \<times> branch option) \<Rightarrow>
       branch option \<Rightarrow> (string + 'a) \<times> branch option" where
  "branch_timeline env target h body var =
     (if var \<noteq> None then (Inl ''RuntimeError'', var)
      else case branch_target env target of
             Inl err \<Rightarrow> (Inl err, var)
           | Inr dt \<Rightarrow>
               (case body (Some \<lparr>branch_time = dt, branch_states = h\<rparr>) of (res, _) \<Rightarrow> (res, var)))"

definition load_from_db ::
    "chrono_env \<Rightarrow> (string \<Rightarrow> real \<Rightarrow> topology_row list) \<Rightarrow> (string \<Rightarrow> bool \<Rightarrow> topology_row list) \<Rightarrow>
       branch option \<Rightarrow> string \<Rightarrow> bool \<Rightarrow> string + CausalGraph" where
  "load_from_db env fetch_at fetch_active var ns active_only =
     (case var of
        Some b \<Rightarrow> apply_hypothetical_states env (from_rows (fetch_at ns (branch_time b)) ns) (branch_states b)
      | None \<Rightarrow> Inr (from_rows (fetch_active ns active_only) ns))"

definition evaluate_intervention ::
    "chrono_env \<Rightarrow> (string \<Rightarrow> real \<Rightarrow> topology_row list) \<Rightarrow> (string \<Rightarrow> bool \<Rightarrow> topology_row list) \<Rightarrow>
       branch option \<Rightarrow> string \<Rightarrow> string \<Rightarrow> string \<Rightarrow> int \<Rightarrow> (string + InterventionResult) option" where
  "evaluate_intervention env fetch_at fetch_active var ns x state max_path_depth =
     (case load_from_db env fetch_at fetch_active var ns True of
        Inl err \<Rightarrow> Some (Inl err)
      | Inr g \<Rightarrow> evaluate g x state max_path_depth (env_now env))"

section \<open>Deletions\<close>

lemma getd_delete: "dict_getd (AList.delete k d) k' v = (if k' = k then v else dict_getd d k' v)"
  by (simp add: dict_getd_def delete_conv')

lemma getd_map_values:
  "f [] = [] \<Longrightarrow> dict_getd (map (\<lambda>(k, es). (k, f es)) d) k [] = f (dict_getd d k [])"
  by (induction d) (auto simp: dict_getd_def)

lemma keys_map_values: "dict_keys (map (\<lambda>(k, es). (k, f es)) d) = dict_keys d"
  by (induction d) auto

lemma delete_node_edges [simp]:
  "outgoing_edges (delete_node n g) k = (if k = n then [] else outgoing_edges g k)"
  "incoming_edges (delete_node n g) k = (if k = n then [] else incoming_edges g k)"
  "get_node (delete_node n g) k = (if k = n then None else get_node g k)"
  "distinct (dict_keys (outgoing g)) \<Longrightarrow> distinct (dict_keys (outgoing (delete_node n g)))"
  by (simp_all add: delete_node_def outgoing_edges_def incoming_edges_def get_node_def getd_delete
      delete_conv' distinct_delete)

lemma delete_nodes_edges [simp]:
  "outgoing_edges (fold delete_node ns g) k = (if k \<in> set ns then [] else outgoing_edges g k)"
  "incoming_edges (fold delete_node ns g) k = (if k \<in> set ns then [] else incoming_edges g k)"
  "get_node (fold delete_node ns g) k = (if k \<in> set ns then None else get_node g k)"
  "distinct (dict_keys (outgoing g)) \<Longrightarrow> distinct (dict_keys (outgoing (fold delete_node ns g)))"
  by (induction ns arbitrary: g) auto

lemma clean_deleted_edges [simp]:
  "outgoing_edges (clean_deleted D g) k =
     filter (\<lambda>e. source_node_id e \<notin> D \<and> target_node_id e \<notin> D) (outgoing_edges g k)"
  "incoming_edges (clean_deleted D g) k =
     filter (\<lambda>e. source_node_id e \<notin> D \<and> target_node_id e \<notin> D) (incoming_edges g k)"
  "get_node (clean_deleted D g) k = get_node g k"
  "dict_keys (outgoing (clean_deleted D g)) = dict_keys (outgoing g)"
  by (simp_all add: clean_deleted_def Let_def outgoing_edges_def incoming_edges_def get_node_def
      getd_map_values keys_map_values del: map_map)

lemma drop_pair_edges [simp]:
  "outgoing_edges (drop_pair s t g) k =
     (if k = s then filter (\<lambda>e. target_node_id e \<noteq> t) (outgoing_edges g k) else outgoing_edges g k)"
  "incoming_edges (drop_pair s t g) k =
     (if k = t then filter (\<lambda>e. source_node_id e \<noteq> s) (incoming_edges g k) else incoming_edges g k)"
  "get_node (drop_pair s t g) k = get_node g k"
  "distinct (dict_keys (outgoing g)) \<Longrightarrow> distinct (dict_keys (outgoing (drop_pair s t g)))"
  by (auto simp: drop_pair_def outgoing_edges_def incoming_edges_def get_node_def dict_getd_def
      split: option.splits)

definition holds_edges :: "CausalGraph \<Rightarrow> (CausalEdge \<Rightarrow> bool) \<Rightarrow> bool" where
  "holds_edges g E = (distinct (dict_keys (outgoing g)) \<and>
     (\<forall>n e. e \<in> set (outgoing_edges g n) \<longleftrightarrow> E e \<and> source_node_id e = n) \<and>
     (\<forall>n e. e \<in> set (incoming_edges g n) \<longleftrightarrow> E e \<and> target_node_id e = n))"

lemma wf_holds_edges: "wf_graph g \<Longrightarrow> holds_edges g (edge_in g)"
  by (simp add: holds_edges_def wf_out_iff wf_in_iff) (simp add: wf_graph_def)

lemma holds_edges_in: "holds_edges g E \<Longrightarrow> edge_in g e = E e"
  by (simp add: holds_edges_def edge_in_def)

lemma holds_edges_wf:
  "holds_edges g E \<Longrightarrow>
   (\<forall>e. E e \<longrightarrow> get_node g (source_node_id e) \<noteq> None \<and> get_node g (target_node_id e) \<noteq> None) \<Longrightarrow> wf_graph g"
  by (simp add: wf_graph_def holds_edges_in) (simp add: holds_edges_def)

lemma holds_edges_drop:
  "holds_edges g E \<Longrightarrow>
   holds_edges (drop_pair s t g) (\<lambda>e. E e \<and> (source_node_id e, target_node_id e) \<noteq> (s, t))"
  by (auto simp: holds_edges_def)

lemma holds_edges_drops:
  "holds_edges g E \<Longrightarrow> holds_edges (fold (\<lambda>(s, t). drop_pair s t) ps g)
     (\<lambda>e. E e \<and> (source_node_id e, target_node_id e) \<notin> set ps)"
proof (induction ps arbitrary: g E)
  case (Cons p ps)
  obtain s t where p: "p = (s, t)" by fastforce
  from Cons.IH [OF holds_edges_drop [OF Cons.prems, of s t]] show ?case
    by (simp add: p conj_ac)
qed simp

definition survives :: "hypothetical \<Rightarrow> CausalEdge \<Rightarrow> bool" where
  "survives h e = (source_node_id e \<notin> set (del_nodes h) \<and> target_node_id e \<notin> set (del_nodes h) \<and>
     (source_node_id e, target_node_id e) \<notin> set (del_edges h))"

lemma get_node_drops [simp]: "get_node (fold (\<lambda>(s, t). drop_pair s t) ps g) k = get_node g k"
  by (induction ps arbitrary: g) (auto split: prod.split)

lemma apply_deletions_edges:
  assumes "holds_edges g E"
  shows "holds_edges (apply_deletions h g) (\<lambda>e. E e \<and> survives h e)"
    and "get_node (apply_deletions h g) k = (if k \<in> set (del_nodes h) then None else get_node g k)"
proof -
  let ?D = "set (del_nodes h)" and ?g = "clean_deleted (set (del_nodes h)) (fold delete_node (del_nodes h) g)"
  have "holds_edges ?g (\<lambda>e. E e \<and> source_node_id e \<notin> ?D \<and> target_node_id e \<notin> ?D)"
    using assms by (auto simp: holds_edges_def)
  from holds_edges_drops [OF this, of "del_edges h"]
  show "holds_edges (apply_deletions h g) (\<lambda>e. E e \<and> survives h e)"
    by (simp add: apply_deletions_def survives_def conj_ac)
  show "get_node (apply_deletions h g) k = (if k \<in> ?D then None else get_node g k)"
    by (simp add: apply_deletions_def)
qed

section \<open>Overrides\<close>

lemma override_node_edges [simp]:
  "outgoing_edges (override_node env f D nd g) k = outgoing_edges g k"
  "incoming_edges (override_node env f D nd g) k = incoming_edges g k"
  "outgoing (override_node env f D nd g) = outgoing g"
  by (auto simp: override_node_def outgoing_edges_def incoming_edges_def Let_def split: prod.split)

lemma override_nodes_edges [simp]:
  "outgoing_edges (fold (override_node env f D) nds g) k = outgoing_edges g k"
  "incoming_edges (fold (override_node env f D) nds g) k = incoming_edges g k"
  "outgoing (fold (override_node env f D) nds g) = outgoing g"
  by (induction nds arbitrary: g) auto

lemma override_node_node:
  "get_node (override_node env f D nd g) k = None \<longleftrightarrow> get_node g k = None \<and> (k \<in> D \<or> k \<noteq> fst nd)"
  by (auto simp: override_node_def get_node_def Let_def split: prod.split)

lemma override_nodes_node:
  "get_node (fold (override_node env f D) nds g) k = None \<longleftrightarrow>
     get_node g k = None \<and> (k \<in> D \<or> k \<notin> fst ` set nds)"
  by (induction nds arbitrary: g) (auto simp: override_node_node)

lemma ensure_graph_node_edges [simp]:
  "outgoing_edges (ensure_graph_node T f n g) k = outgoing_edges g k"
  "incoming_edges (ensure_graph_node T f n g) k = incoming_edges g k"
  "outgoing (ensure_graph_node T f n g) = outgoing g"
  "get_node (ensure_graph_node T f n g) k = None \<longleftrightarrow> get_node g k = None \<and> k \<noteq> n"
  by (auto simp: ensure_graph_node_def outgoing_edges_def incoming_edges_def get_node_def)

lemma getd_setdefault [simp]: "dict_getd (dict_setdefault k [] d) k' [] = dict_getd d k' []"
  by (auto simp: dict_getd_def split: option.split)

lemma distinct_setdefault: "distinct (dict_keys d) \<Longrightarrow> distinct (dict_keys (dict_setdefault k v d))"
  by (auto simp: dict_setdefault_def map_of_eq_None_iff)

lemma put_edge_edges:
  "outgoing_edges (put_edge f e g) k = (if k = source_node_id e
     then filter (\<lambda>e'. target_node_id e' \<noteq> target_node_id e) (outgoing_edges g k) @ [e] else outgoing_edges g k)"
  "incoming_edges (put_edge f e g) k = (if k = target_node_id e
     then filter (\<lambda>e'. source_node_id e' \<noteq> source_node_id e) (incoming_edges g k) @ [e] else incoming_edges g k)"
  "get_node (put_edge f e g) k = None \<longleftrightarrow>
     get_node g k = None \<and> k \<noteq> source_node_id e \<and> k \<noteq> target_node_id e"
  "distinct (dict_keys (outgoing g)) \<Longrightarrow> distinct (dict_keys (outgoing (put_edge f e g)))"
proof -
  define g1 where "g1 = g\<lparr>outgoing := dict_setdefault (source_node_id e) [] (outgoing g),
     incoming := dict_setdefault (target_node_id e) [] (incoming g)\<rparr>"
  define g2 where "g2 = drop_pair (source_node_id e) (target_node_id e) g1"
  define g3 where "g3 = g2\<lparr>outgoing := append_at (source_node_id e) e (outgoing g2),
     incoming := append_at (target_node_id e) e (incoming g2)\<rparr>"
  have put: "put_edge f e g = ensure_graph_node ''service'' f (target_node_id e)
      (ensure_graph_node ''device'' f (source_node_id e) g3)"
    by (simp add: put_edge_def Let_def g1_def g2_def g3_def)
  have g1: "outgoing_edges g1 k = outgoing_edges g k" "incoming_edges g1 k = incoming_edges g k"
    "get_node g1 k = get_node g k" for k
    by (simp_all add: g1_def outgoing_edges_def incoming_edges_def get_node_def)
  have g3: "outgoing_edges g3 k = outgoing_edges g2 k @ (if k = source_node_id e then [e] else [])"
    "incoming_edges g3 k = incoming_edges g2 k @ (if k = target_node_id e then [e] else [])"
    "get_node g3 k = get_node g2 k" for k
    by (simp_all add: g3_def outgoing_edges_def incoming_edges_def get_node_def append_at_getd)
  show "outgoing_edges (put_edge f e g) k = (if k = source_node_id e
     then filter (\<lambda>e'. target_node_id e' \<noteq> target_node_id e) (outgoing_edges g k) @ [e] else outgoing_edges g k)"
    "incoming_edges (put_edge f e g) k = (if k = target_node_id e
     then filter (\<lambda>e'. source_node_id e' \<noteq> source_node_id e) (incoming_edges g k) @ [e] else incoming_edges g k)"
    "get_node (put_edge f e g) k = None \<longleftrightarrow>
     get_node g k = None \<and> k \<noteq> source_node_id e \<and> k \<noteq> target_node_id e"
    by (auto simp: put g3 g2_def g1)
  show "distinct (dict_keys (outgoing (put_edge f e g)))" if "distinct (dict_keys (outgoing g))"
  proof -
    have "distinct (dict_keys (outgoing g1))" using distinct_setdefault [OF that] by (simp add: g1_def)
    then have "distinct (dict_keys (outgoing g2))" unfolding g2_def by (rule drop_pair_edges(4))
    then show ?thesis by (auto simp: put g3_def append_at_def)
  qed
qed

text \<open>The last override for a pair of nodes wins.\<close>

fun winner :: "chrono_env \<Rightarrow> edge_data list \<Rightarrow> string \<Rightarrow> string \<Rightarrow> CausalEdge option" where
  "winner env [] s t = None"
| "winner env (ed # eds) s t =
     (case winner env eds s t of
        Some e \<Rightarrow> Some e
      | None \<Rightarrow> if ed_source ed = Some s \<and> ed_target ed = Some t
          then Some (override_edge_value env s t ed) else None)"

definition hypothetical_edge :: "chrono_env \<Rightarrow> hypothetical \<Rightarrow> edge_data list \<Rightarrow> (CausalEdge \<Rightarrow> bool) \<Rightarrow> CausalEdge \<Rightarrow> bool" where
  "hypothetical_edge env h eds E e = (survives h e \<and>
     (case winner env eds (source_node_id e) (target_node_id e) of Some e' \<Rightarrow> e = e' | None \<Rightarrow> E e))"

definition edges_anchored :: "hypothetical \<Rightarrow> CausalGraph \<Rightarrow> (CausalEdge \<Rightarrow> bool) \<Rightarrow> bool" where
  "edges_anchored h g E = (holds_edges g E \<and> (\<forall>e. E e \<longrightarrow> survives h e \<and>
      get_node g (source_node_id e) \<noteq> None \<and> get_node g (target_node_id e) \<noteq> None) \<and>
     (\<forall>n\<in>set (del_nodes h). get_node g n = None))"

lemma override_edge_value_ends [simp]:
  "source_node_id (override_edge_value env s t ed) = s" "target_node_id (override_edge_value env s t ed) = t"
  by (simp_all add: override_edge_value_def)

lemma put_edge_anchored:
  assumes "edges_anchored h g E" and "survives h e"
  shows "edges_anchored h (put_edge f e g)
     (\<lambda>e'. e' = e \<or> E e' \<and> (source_node_id e', target_node_id e') \<noteq> (source_node_id e, target_node_id e))"
proof -
  have "holds_edges (put_edge f e g)
     (\<lambda>e'. e' = e \<or> E e' \<and> (source_node_id e', target_node_id e') \<noteq> (source_node_id e, target_node_id e))"
    using assms(1) unfolding edges_anchored_def holds_edges_def
    by (auto simp: put_edge_edges)
  then show ?thesis
    using assms unfolding edges_anchored_def
    by (auto simp: put_edge_edges survives_def simp del: not_None_eq)
qed

lemma override_edges_spec:
  assumes "override_edges env f h eds g = Inr g'" and "edges_anchored h g E"
  shows "edges_anchored h g' (hypothetical_edge env h eds E) \<and>
    (\<forall>n. get_node g n \<noteq> None \<longrightarrow> get_node g' n \<noteq> None)"
  using assms
proof (induction eds arbitrary: g E)
  case Nil
  then have "hypothetical_edge env h [] E = E"
    by (auto simp: hypothetical_edge_def edges_anchored_def)
  with Nil show ?case by simp
next
  case (Cons ed eds)
  then obtain s t where ends: "ed_source ed = Some s" "ed_target ed = Some t"
    by (auto split: option.splits)
  let ?e = "override_edge_value env s t ed"
  show ?case
  proof (cases "survives h ?e")
    case False
    then have skip: "override_edges env f h eds g = Inr g'"
      using Cons.prems(1) by (auto simp: ends survives_def)
    have "hypothetical_edge env h (ed # eds) E = hypothetical_edge env h eds E"
      using False by (auto simp: hypothetical_edge_def ends survives_def fun_eq_iff split: option.splits)
    with Cons.IH [OF skip Cons.prems(2)] show ?thesis by simp
  next
    case True
    let ?E = "\<lambda>e'. e' = ?e \<or> E e' \<and> (source_node_id e', target_node_id e') \<noteq> (source_node_id ?e, target_node_id ?e)"
    have go: "override_edges env f h eds (put_edge f ?e g) = Inr g'"
      using Cons.prems(1) True by (auto simp: ends survives_def)
    have "hypothetical_edge env h (ed # eds) E = hypothetical_edge env h eds ?E"
      by (auto simp: hypothetical_edge_def ends fun_eq_iff split: option.splits)
    with Cons.IH [OF go put_edge_anchored [OF Cons.prems(2) True]] show ?thesis
      by (auto simp: put_edge_edges simp del: not_None_eq)
  qed
qed

section \<open>Properties\<close>

text \<open>Applying hypothetical states to a well-formed graph gives a well-formed graph: deleted nodes are
  gone with all their edges, an edge is present exactly when it is not deleted and is either the last override
  for its pair of nodes or an untouched edge of the base graph, and no surviving node is lost.\<close>

theorem apply_hypothetical_states_correct:
  assumes "wf_graph g" and "apply_hypothetical_states env g h = Inr g'"
  shows "wf_graph g' \<and> (\<forall>e. edge_in g' e \<longleftrightarrow> hypothetical_edge env h (edge_overrides h) (edge_in g) e) \<and>
    (\<forall>n\<in>set (del_nodes h). get_node g' n = None) \<and>
    (\<forall>n. n \<notin> set (del_nodes h) \<and> get_node g n \<noteq> None \<longrightarrow> get_node g' n \<noteq> None)"
proof -
  define f where "f = fallback_namespace env g"
  define g2 where "g2 = fold (override_node env f (set (del_nodes h))) (node_overrides h) (apply_deletions h g)"
  let ?E = "\<lambda>e. edge_in g e \<and> survives h e"
  have run: "override_edges env f h (edge_overrides h) g2 = Inr g'"
    using assms(2) by (simp add: apply_hypothetical_states_def Let_def f_def g2_def)
  note del = apply_deletions_edges [OF wf_holds_edges [OF assms(1)], of h]
  have "holds_edges g2 ?E" using del(1) by (simp add: holds_edges_def g2_def)
  moreover have node: "get_node g2 n = None \<longleftrightarrow> (n \<in> set (del_nodes h) \<or>
      get_node g n = None \<and> n \<notin> fst ` set (node_overrides h))" for n
    unfolding g2_def override_nodes_node del(2) by auto
  ultimately have "edges_anchored h g2 ?E"
    using assms(1) by (auto simp: edges_anchored_def wf_graph_def survives_def simp del: not_None_eq)
  from override_edges_spec [OF run this] have
    anchored: "edges_anchored h g' (hypothetical_edge env h (edge_overrides h) ?E)"
    and keep: "\<And>n. get_node g2 n \<noteq> None \<Longrightarrow> get_node g' n \<noteq> None" by auto
  have "hypothetical_edge env h (edge_overrides h) ?E = hypothetical_edge env h (edge_overrides h) (edge_in g)"
    by (auto simp: hypothetical_edge_def fun_eq_iff split: option.split)
  with anchored have holds: "holds_edges g' (hypothetical_edge env h (edge_overrides h) (edge_in g))"
    and ends: "\<And>e. hypothetical_edge env h (edge_overrides h) (edge_in g) e \<Longrightarrow>
      get_node g' (source_node_id e) \<noteq> None \<and> get_node g' (target_node_id e) \<noteq> None"
    and gone: "\<forall>n\<in>set (del_nodes h). get_node g' n = None"
    by (auto simp: edges_anchored_def simp del: not_None_eq)
  have "wf_graph g'" using holds ends by (intro holds_edges_wf) auto
  with gone show ?thesis using holds_edges_in [OF holds] node keep by (auto simp del: not_None_eq)
qed

definition sample_env :: chrono_env where
  "sample_env = \<lparr>env_iso = (\<lambda>s. if s = ''old'' then Some 0 else None), env_uuid = (\<lambda>s. Some s),
     env_fresh_ns = ''fresh'', env_now = 86400 * 1000, env_max_days = 90\<rparr>"

definition sample_edge_data :: "string \<Rightarrow> string \<Rightarrow> edge_data" where
  "sample_edge_data s t = \<lparr>ed_source = Some s, ed_target = Some t, ed_type = Some ''powered_by'',
     ed_confidence = Some 1, ed_decay = None, ed_last_verified = None\<rparr>"

definition sample_hypothetical :: hypothetical where
  "sample_hypothetical = \<lparr>del_nodes = [''app''], del_edges = [(''srv'', ''sw'')], node_overrides = [],
     edge_overrides = [sample_edge_data ''srv'' ''pdu'', sample_edge_data ''app'' ''srv'']\<rparr>"

theorem apply_hypothetical_states_correct_witness:
  "\<exists>g'. apply_hypothetical_states sample_env sample_graph sample_hypothetical = Inr g' \<and> wf_graph g' \<and>
     get_node g' ''app'' = None"
proof -
  have run: "\<exists>g'. override_edges env f sample_hypothetical (edge_overrides sample_hypothetical) g2 = Inr g'"
    for env f g2 by (simp add: sample_hypothetical_def sample_edge_data_def)
  then obtain g' where g': "apply_hypothetical_states sample_env sample_graph sample_hypothetical = Inr g'"
    unfolding apply_hypothetical_states_def Let_def using run by blast
  have "''app'' \<in> set (del_nodes sample_hypothetical)" by (simp add: sample_hypothetical_def)
  then show ?thesis
    using g' apply_hypothetical_states_correct [OF wf_sample_graph g'] by blast
qed

text \<open>A counterfactual branch is confined to its scope: the context variable is always back to its value on
  entry, a branch opened inside another is rejected, and a graph loaded inside sees the rows valid at the
  target time with the hypothetical states applied.\<close>

theorem branch_timeline_scoped:
  "snd (branch_timeline env target h body var) = var \<and>
   (branch_target env target = Inr dt \<longrightarrow>
     branch_timeline env target h (branch_timeline env target' h' body') None = (Inl ''RuntimeError'', None) \<and>
     branch_timeline env target h (\<lambda>v. (load_from_db env fetch_at fetch_active v ns act, v)) None =
       (apply_hypothetical_states env (from_rows (fetch_at ns dt) ns) h, None))"
  by (simp add: branch_timeline_def load_from_db_def split: sum.split prod.split)

theorem branch_timeline_scoped_witness:
  "branch_timeline sample_env (Stamp 0) sample_hypothetical
     (\<lambda>v. (load_from_db sample_env (\<lambda>ns t. []) (\<lambda>ns a. []) v ''ns'' True, v)) None =
   (apply_hypothetical_states sample_env (from_rows [] ''ns'') sample_hypothetical, None)"
  using branch_timeline_scoped [of sample_env "Stamp 0" sample_hypothetical
      "\<lambda>v. (Inr (), v)" None 0 "Stamp 0" sample_hypothetical "\<lambda>v. (Inr (), v)" "\<lambda>ns t. []" "\<lambda>ns a. []" "''ns''" True]
  by (simp add: branch_target_def)

text \<open>A verification time given as text and older than the look-back window is dropped rather than used, so
  an override verified too long ago counts with its full confidence, while the same time given as a time
  stamp decays it.\<close>

theorem stale_override_undecayed:
  assumes "env_iso env raw = Some lv" and "0 < env_max_days env"
    and "lv < env_now env - real_of_int (min (env_max_days env) ABSOLUTE_MAX_LOOKBACK_DAYS) * 86400"
    and "ed_confidence ed = Some c" and "1 / 1000 < c" and "c \<le> 1" and "ed_decay ed = None"
  shows "decayed_confidence (env_now env)
      (override_edge_value env s t (ed\<lparr>ed_last_verified := Some (StampText raw)\<rparr>)) = c \<and>
    decayed_confidence (env_now env)
      (override_edge_value env s t (ed\<lparr>ed_last_verified := Some (Stamp lv)\<rparr>)) < c"
proof -
  define X where "X = exp (- ((env_now env - lv) / 86400) / TOPOLOGY_EDGE_STABILITY_DAYS)"
  have "0 < real_of_int (min (env_max_days env) ABSOLUTE_MAX_LOOKBACK_DAYS)"
    using assms(2) by (simp add: ABSOLUTE_MAX_LOOKBACK_DAYS_def)
  then have "lv < env_now env" using assms(3) by linarith
  then have "X < 1" by (simp add: X_def TOPOLOGY_EDGE_STABILITY_DAYS_def)
  then have "c * X < c" using assms(5) by simp
  then have "max MIN_CONFIDENCE (min 1 (c * X)) < c" and "max MIN_CONFIDENCE c = c"
    using assms(5,6) by (simp_all only: MIN_CONFIDENCE_def max_less_iff_conj min_less_iff_disj) simp
  moreover have "decayed_confidence (env_now env)
      (override_edge_value env s t (ed\<lparr>ed_last_verified := Some (Stamp lv)\<rparr>)) = max MIN_CONFIDENCE (min 1 (c * X))"
    using assms(4,7) by (simp add: override_edge_value_def override_stamp_def decayed_confidence_def X_def Let_def)
  moreover have "decayed_confidence (env_now env)
      (override_edge_value env s t (ed\<lparr>ed_last_verified := Some (StampText raw)\<rparr>)) = max MIN_CONFIDENCE c"
    using assms \<open>lv < env_now env\<close>
    by (simp add: override_edge_value_def override_stamp_def parse_as_of_def assert_not_future_def
        enforce_lookback_boundary_def decayed_confidence_def Let_def)
  ultimately show ?thesis by simp
qed

theorem stale_override_undecayed_witness:
  "decayed_confidence (env_now sample_env) (override_edge_value sample_env ''a'' ''b''
     ((sample_edge_data ''a'' ''b'')\<lparr>ed_last_verified := Some (StampText ''old'')\<rparr>)) = 1 \<and>
   decayed_confidence (env_now sample_env) (override_edge_value sample_env ''a'' ''b''
     ((sample_edge_data ''a'' ''b'')\<lparr>ed_last_verified := Some (Stamp 0)\<rparr>)) < 1"
  by (rule stale_override_undecayed)
    (simp_all add: sample_env_def sample_edge_data_def ABSOLUTE_MAX_LOOKBACK_DAYS_def)

end
