(* ===== verification/Retry.thy ===== *)
theory Retry
  imports Complex_Main Prelude
begin

text \<open>
  What the provider layer and the HTTP layer share: full jitter, and the interface of the \<open>tenacity\<close>
  retry loop. The loop itself is a parameter of both clients; \<open>retry_contract\<close> states its documented
  behaviour (an attempt that returns or raises a non-retryable exception ends the loop with that
  outcome, at most the given number of attempts is made, and stopping after a retryable exception
  raises a \<open>RetryError\<close> that carries it), and \<open>retry_plain\<close> is an instance.
\<close>

section \<open>Jitter\<close>

text \<open>\<open>int\<close> of a float truncates towards zero.\<close>

definition py_int :: "real \<Rightarrow> int" where
  "py_int x = (if x \<ge> 0 then \<lfloor>x\<rfloor> else \<lceil>x\<rceil>)"

text \<open>\<open>random.uniform(a, b)\<close> is \<open>a + (b - a) * r\<close> for a draw \<open>r\<close> of the unit interval.\<close>

definition uniform :: "real \<Rightarrow> real \<Rightarrow> real \<Rightarrow> real" where
  "uniform r a b = a + (b - a) * r"

definition jittered :: "real \<Rightarrow> int \<Rightarrow> int" where
  "jittered r cap = max 1 (py_int (uniform r 0 (real_of_int (max 1 cap))))"

lemma py_int_mono_bound: "0 \<le> x \<Longrightarrow> x \<le> real_of_int m \<Longrightarrow> 0 \<le> py_int x \<and> py_int x \<le> m"
  by (simp add: py_int_def floor_le_iff)

lemma jittered_bounds:
  assumes "0 \<le> r" and "r \<le> 1"
  shows "1 \<le> jittered r cap \<and> jittered r cap \<le> max 1 cap"
proof -
  have "0 \<le> uniform r 0 (real_of_int (max 1 cap)) \<and> uniform r 0 (real_of_int (max 1 cap)) \<le> real_of_int (max 1 cap)"
    using assms by (simp add: uniform_def mult_left_le)
  then show ?thesis using py_int_mono_bound [of "uniform r 0 (real_of_int (max 1 cap))" "max 1 cap"]
    by (auto simp: jittered_def)
qed

section \<open>The retry loop\<close>

datatype ('x, 'a) retry_outcome = Returned 'a | Raised 'x | RetryError "'x option" nat

type_synonym ('x, 'a, 's) operation = "'s \<Rightarrow> ('x + 'a) \<times> 's"

type_synonym ('x, 'a, 's) retrying =
  "nat \<Rightarrow> ('x \<Rightarrow> bool) \<Rightarrow> ('x, 'a, 's) operation \<Rightarrow> 's \<Rightarrow> ('x, 'a) retry_outcome \<times> 's"

text \<open>\<open>failing p op k s s'\<close>: the first \<open>k\<close> attempts from \<open>s\<close> raise retryable exceptions and end in \<open>s'\<close>.\<close>

fun failing :: "('x \<Rightarrow> bool) \<Rightarrow> ('x, 'a, 's) operation \<Rightarrow> nat \<Rightarrow> 's \<Rightarrow> 's \<Rightarrow> bool" where
  "failing p op 0 s s' = (s' = s)"
| "failing p op (Suc k) s s' =
     (case op s of (Inl x, s1) \<Rightarrow> p x \<and> failing p op k s1 s' | (Inr v, s1) \<Rightarrow> False)"

definition loop_ends_at ::
    "nat \<Rightarrow> ('x \<Rightarrow> bool) \<Rightarrow> ('x, 'a, 's) operation \<Rightarrow> nat \<Rightarrow> 's \<Rightarrow> ('x, 'a) retry_outcome \<times> 's \<Rightarrow> bool" where
  "loop_ends_at count p op k s r = (\<exists>s1 s2. failing p op k s s1 \<and>
     ((\<exists>v. op s1 = (Inr v, s2) \<and> r = (Returned v, s2)) \<or>
      (\<exists>x. op s1 = (Inl x, s2) \<and> \<not> p x \<and> r = (Raised x, s2)) \<or>
      (\<exists>x. op s1 = (Inl x, s2) \<and> p x \<and> r = (RetryError (Some x) count, s2))))"

definition loop_ends ::
    "('x \<Rightarrow> bool) \<Rightarrow> ('x, 'a, 's) operation \<Rightarrow> nat \<Rightarrow> 's \<Rightarrow> ('x, 'a) retry_outcome \<times> 's \<Rightarrow> bool" where
  "loop_ends p op k s r = loop_ends_at (Suc k) p op k s r"

definition retry_contract :: "('x, 'a, 's) retrying \<Rightarrow> bool" where
  "retry_contract R = (\<forall>n p op s. 0 < n \<longrightarrow> (\<exists>k<n. loop_ends p op k s (R n p op s)))"

fun retry_from :: "nat \<Rightarrow> nat \<Rightarrow> ('x \<Rightarrow> bool) \<Rightarrow> ('x, 'a, 's) operation \<Rightarrow> 's \<Rightarrow> ('x, 'a) retry_outcome \<times> 's" where
  "retry_from k 0 p op s = (RetryError None k, s)"
| "retry_from k (Suc n) p op s =
     (case op s of
        (Inr v, s') \<Rightarrow> (Returned v, s')
      | (Inl x, s') \<Rightarrow>
          if \<not> p x then (Raised x, s')
          else if n = 0 then (RetryError (Some x) (Suc k), s')
          else retry_from (Suc k) n p op s')"

definition retry_plain :: "('x, 'a, 's) retrying" where
  "retry_plain n p op s = retry_from 0 n p op s"

lemma loop_ends_at_step:
  "op s = (Inl x, s') \<Longrightarrow> p x \<Longrightarrow> loop_ends_at count p op k s' r \<Longrightarrow> loop_ends_at count p op (Suc k) s r"
  unfolding loop_ends_at_def by simp

lemma loop_ends_at_now:
  assumes "op s = (out, s')" and "r = (case out of Inr v \<Rightarrow> (Returned v, s')
    | Inl x \<Rightarrow> if p x then (RetryError (Some x) count, s') else (Raised x, s'))"
  shows "loop_ends_at count p op 0 s r"
  unfolding loop_ends_at_def by (rule exI [of _ s], rule exI [of _ s']) (use assms in \<open>cases out; simp\<close>)

lemma retry_from_spec: "\<exists>k<Suc n. loop_ends_at (Suc (m + k)) p op k s (retry_from m (Suc n) p op s)"
proof (induction n arbitrary: m s)
  case 0
  obtain out s' where out: "op s = (out, s')" by fastforce
  have "loop_ends_at (Suc (m + 0)) p op 0 s (retry_from m (Suc 0) p op s)"
    by (rule loop_ends_at_now [of op s out s', OF out]) (simp add: out split: sum.split)
  then show ?case by blast
next
  case (Suc n)
  obtain out s' where out: "op s = (out, s')" by fastforce
  show ?case
  proof (cases "\<exists>x. out = Inl x \<and> p x")
    case False
    then have "loop_ends_at (Suc (m + 0)) p op 0 s (retry_from m (Suc (Suc n)) p op s)"
      by (intro loop_ends_at_now [of op s out s', OF out]) (auto simp: out split: sum.split)
    then show ?thesis by blast
  next
    case True
    then obtain x where x: "op s = (Inl x, s')" "p x" using out by auto
    obtain k where k: "k < Suc n" "loop_ends_at (Suc (Suc m + k)) p op k s' (retry_from (Suc m) (Suc n) p op s')"
      using Suc.IH [of "Suc m" s'] by blast
    have "retry_from m (Suc (Suc n)) p op s = retry_from (Suc m) (Suc n) p op s'" using x by simp
    then show ?thesis
      using loop_ends_at_step [of op s, OF x k(2)] k(1) by (intro exI [of _ "Suc k"]) simp
  qed
qed

lemma retry_plain_contract: "retry_contract retry_plain"
  unfolding retry_contract_def retry_plain_def loop_ends_def
proof (intro allI impI)
  fix n p op s
  assume "0 < (n :: nat)"
  then obtain m where n: "n = Suc m" by (cases n) auto
  from retry_from_spec [of m 0 p op s]
  show "\<exists>k<n. loop_ends_at (Suc k) p op k s (retry_from 0 n p op s)" unfolding n add_0 .
qed

end
