(* ===== verification/CircuitBreaker.thy ===== *)
theory CircuitBreaker
  imports Retry
begin

text \<open>
  The resilience layer of the language-model providers (\<open>nce/providers/base.py\<close>): exception classes,
  the retry policy with full jitter, the circuit breaker state machine, one guarded attempt
  (\<open>_run_once\<close>), the mapping of exhausted retries, the address checks of the SSRF guard and the key
  redaction. Times and float delays are real numbers; the clock reading and the random draw of
  \<open>random.uniform\<close> are arguments. The retry loop of the \<open>tenacity\<close> package is a parameter.
\<close>

section \<open>Exceptions\<close>

datatype llm_error =
    LLMValidationError
  | LLMTimeoutError
  | LLMAuthenticationError
  | LLMRateLimitError "int option"
  | LLMUpstreamError
  | LLMBadRequestError
  | LLMCircuitOpenError
  | LLMProviderError
  | AsyncTimeoutError
  | OtherException string

section \<open>Retry policy\<close>

record RetryPolicy =
  max_retries :: int
  base_delay_ms :: int
  max_delay_ms :: int
  max_total_ms :: int
  backoff_factor :: real

definition DEFAULT_RETRY_POLICY :: RetryPolicy where
  "DEFAULT_RETRY_POLICY = \<lparr>max_retries = 3, base_delay_ms = 1000, max_delay_ms = 30000,
     max_total_ms = 60000, backoff_factor = 2\<rparr>"


definition backoff_cap_ms :: "RetryPolicy \<Rightarrow> nat \<Rightarrow> int" where
  "backoff_cap_ms rp attempt =
     min (py_int (real_of_int (base_delay_ms rp) * backoff_factor rp ^ (attempt - 1))) (max_delay_ms rp)"

definition delay_for_attempt :: "RetryPolicy \<Rightarrow> real \<Rightarrow> nat \<Rightarrow> int" where
  "delay_for_attempt rp r attempt = jittered r (backoff_cap_ms rp attempt)"

text \<open>The wait between attempts in milliseconds; a positive \<open>Retry-After\<close> widens the jitter ceiling.\<close>

definition wait_policy :: "RetryPolicy \<Rightarrow> real \<Rightarrow> nat \<Rightarrow> llm_error option \<Rightarrow> int" where
  "wait_policy rp r attempt exc =
     (let cap_ms = backoff_cap_ms rp attempt;
          cap_ms' = (case exc of
              Some (LLMRateLimitError (Some retry_after)) \<Rightarrow>
                if retry_after > 0 then max cap_ms (min (max_delay_ms rp) (retry_after * 1000)) else cap_ms
            | _ \<Rightarrow> cap_ms)
      in jittered r cap_ms')"

section \<open>Circuit breaker\<close>

datatype CircuitBreakerState = CLOSED | OPEN | HALF_OPEN

record CircuitBreaker =
  failure_threshold :: int
  recovery_timeout :: real
  half_open_max_requests :: int
  cb_state :: CircuitBreakerState
  failure_count :: int
  last_failure_time :: real
  half_open_used :: int

definition new_breaker :: "int \<Rightarrow> real \<Rightarrow> int \<Rightarrow> CircuitBreaker" where
  "new_breaker threshold timeout probes = \<lparr>failure_threshold = threshold, recovery_timeout = timeout,
     half_open_max_requests = probes, cb_state = CLOSED, failure_count = 0, last_failure_time = 0,
     half_open_used = 0\<rparr>"

definition check :: "real \<Rightarrow> CircuitBreaker \<Rightarrow> bool \<times> CircuitBreaker" where
  "check now cb =
     (case cb_state cb of
        CLOSED \<Rightarrow> (True, cb)
      | OPEN \<Rightarrow>
          if now - last_failure_time cb \<ge> recovery_timeout cb
          then (True, cb\<lparr>cb_state := HALF_OPEN, half_open_used := 1\<rparr>)
          else (False, cb)
      | HALF_OPEN \<Rightarrow>
          if half_open_used cb < half_open_max_requests cb
          then (True, cb\<lparr>half_open_used := half_open_used cb + 1\<rparr>)
          else (False, cb))"

definition record_success :: "CircuitBreaker \<Rightarrow> CircuitBreaker" where
  "record_success cb =
     (let cb1 = cb\<lparr>failure_count := 0\<rparr>
      in if cb_state cb = HALF_OPEN then cb1\<lparr>cb_state := CLOSED\<rparr> else cb1)"

definition record_failure :: "real \<Rightarrow> CircuitBreaker \<Rightarrow> CircuitBreaker" where
  "record_failure now cb =
     (let cb1 = cb\<lparr>failure_count := failure_count cb + 1, last_failure_time := now\<rparr>
      in if failure_count cb1 \<ge> failure_threshold cb1 then cb1\<lparr>cb_state := OPEN\<rparr> else cb1)"

text \<open>
  One attempt: \<open>t\<^sub>0\<close> is the clock at the check, \<open>t\<^sub>1\<close> the clock when a failure is recorded. Exceptions
  outside the two \<open>except\<close> clauses pass without touching the breaker.
\<close>

definition counted :: "llm_error \<Rightarrow> bool" where
  "counted exc =
     (case exc of LLMTimeoutError \<Rightarrow> True | LLMRateLimitError _ \<Rightarrow> True | LLMUpstreamError \<Rightarrow> True
      | LLMAuthenticationError \<Rightarrow> True | LLMBadRequestError \<Rightarrow> True | LLMValidationError \<Rightarrow> True
      | _ \<Rightarrow> False)"

definition run_once ::
    "real \<Rightarrow> real \<Rightarrow> (llm_error + 'a) \<Rightarrow> CircuitBreaker \<Rightarrow> (llm_error + 'a) \<times> CircuitBreaker" where
  "run_once t\<^sub>0 t\<^sub>1 operation cb =
     (case check t\<^sub>0 cb of
        (allowed, cb1) \<Rightarrow>
          if \<not> allowed then (Inl LLMCircuitOpenError, cb1)
          else case operation of
                 Inr result \<Rightarrow> (Inr result, record_success cb1)
               | Inl exc \<Rightarrow> (Inl exc, if counted exc then record_failure t\<^sub>1 cb1 else cb1))"

section \<open>Exhausted retries\<close>



section \<open>SSRF guard and redaction\<close>







definition redact_api_key :: "string \<Rightarrow> string" where
  "redact_api_key key =
     (if key = [] then ''<empty>''
      else if length key \<le> 7 then ''<redacted>''
      else take 3 key @ ''...'' @ drop (length key - 4) key)"

section \<open>The breaker as a state machine\<close>

text \<open>
  Calls share a breaker, so checks and reports of different calls interleave freely; each holds the
  lock for its whole body and is one step.
\<close>

inductive breaker_step :: "CircuitBreaker \<Rightarrow> CircuitBreaker \<Rightarrow> bool" where
  step_check: "check now cb = (allowed, cb') \<Longrightarrow> breaker_step cb cb'"
| step_success: "breaker_step cb (record_success cb)"
| step_failure: "breaker_step cb (record_failure now cb)"

definition breaker_init :: "CircuitBreaker \<Rightarrow> bool" where
  "breaker_init cb = (\<exists>threshold timeout probes. 1 \<le> threshold \<and> cb = new_breaker threshold timeout probes)"

definition breaker_inv :: "CircuitBreaker \<Rightarrow> bool" where
  "breaker_inv cb = (1 \<le> failure_threshold cb \<and> 0 \<le> failure_count cb \<and>
     (cb_state cb = CLOSED \<longrightarrow> failure_count cb < failure_threshold cb) \<and>
     (cb_state cb = HALF_OPEN \<longrightarrow> 1 \<le> half_open_used cb \<and> half_open_used cb \<le> max 1 (half_open_max_requests cb)))"

lemma breaker_inv_check: "breaker_inv cb \<Longrightarrow> breaker_inv (snd (check now cb))"
  by (auto simp: breaker_inv_def check_def split: CircuitBreakerState.splits)

lemma breaker_inv_success: "breaker_inv cb \<Longrightarrow> breaker_inv (record_success cb)"
  by (auto simp: breaker_inv_def record_success_def Let_def)

lemma breaker_inv_failure: "breaker_inv cb \<Longrightarrow> breaker_inv (record_failure now cb)"
  by (auto simp: breaker_inv_def record_failure_def Let_def)

interpretation breaker: invariant_machine breaker_init breaker_step breaker_inv
proof
  show "breaker_inv cb" if "breaker_init cb" for cb
    using that by (auto simp: breaker_init_def breaker_inv_def new_breaker_def)
  show "breaker_inv cb'" if "breaker_inv cb" and "breaker_step cb cb'" for cb cb'
    using that(2,1) breaker_inv_check [of cb]
    by cases (auto intro: breaker_inv_success breaker_inv_failure, metis snd_conv)
qed

section \<open>Sequential calls\<close>

type_synonym 'a call = "real \<times> real \<times> (llm_error + 'a)"

definition serve :: "'a call \<Rightarrow> CircuitBreaker \<Rightarrow> CircuitBreaker" where
  "serve c cb = (case c of (t\<^sub>0, t\<^sub>1, operation) \<Rightarrow> snd (run_once t\<^sub>0 t\<^sub>1 operation cb))"

definition reported :: "'a call \<Rightarrow> bool" where
  "reported c = (case c of (t\<^sub>0, t\<^sub>1, Inl exc) \<Rightarrow> counted exc | _ \<Rightarrow> True)"

definition settled :: "CircuitBreaker \<Rightarrow> bool" where
  "settled cb = (cb_state cb = CLOSED \<or> cb_state cb = OPEN \<and> failure_threshold cb \<le> failure_count cb)"

lemma settled_serve: "settled cb \<Longrightarrow> reported c \<Longrightarrow> settled (serve c cb)"
  by (auto simp: settled_def serve_def reported_def run_once_def check_def record_success_def
      record_failure_def Let_def split: prod.splits sum.splits CircuitBreakerState.splits)

lemma settled_fold: "settled cb \<Longrightarrow> \<forall>c\<in>set cs. reported c \<Longrightarrow> settled (fold serve cs cb)"
  by (induction cs arbitrary: cb) (auto intro: settled_serve)

lemma fold_failures:
  assumes "1 \<le> thr"
  shows "cb_state (fold record_failure ts (new_breaker thr to k)) = (if thr \<le> int (length ts) then OPEN else CLOSED) \<and>
    failure_count (fold record_failure ts (new_breaker thr to k)) = int (length ts) \<and>
    failure_threshold (fold record_failure ts (new_breaker thr to k)) = thr"
proof (induction ts rule: rev_induct)
  case Nil
  show ?case using assms by (simp add: new_breaker_def)
next
  case (snoc t ts)
  then show ?case by (auto simp: record_failure_def Let_def)
qed

section \<open>Properties\<close>

text \<open>The wait before every retry is between one millisecond and the configured maximum delay (one
  millisecond when that is not positive), for every attempt number, jitter draw and \<open>Retry-After\<close> hint.\<close>

theorem wait_policy_bounds:
  assumes "0 \<le> r" and "r \<le> 1"
  shows "1 \<le> wait_policy rp r attempt exc \<and> wait_policy rp r attempt exc \<le> max 1 (max_delay_ms rp)"
proof -
  obtain cap where "wait_policy rp r attempt exc = jittered r cap" and "cap \<le> max_delay_ms rp"
    by (auto simp: wait_policy_def Let_def backoff_cap_ms_def
        split: option.splits llm_error.splits if_splits)
  then show ?thesis using jittered_bounds [OF assms, of cap] by auto
qed

theorem wait_policy_bounds_witness:
  "1 \<le> wait_policy DEFAULT_RETRY_POLICY (1 / 2) 3 (Some (LLMRateLimitError (Some 7))) \<and>
   wait_policy DEFAULT_RETRY_POLICY (1 / 2) 3 (Some (LLMRateLimitError (Some 7))) \<le> 30000"
  using wait_policy_bounds [of "1 / 2" DEFAULT_RETRY_POLICY 3 "Some (LLMRateLimitError (Some 7))"]
  by (simp add: DEFAULT_RETRY_POLICY_def)

text \<open>Under every interleaving of checks and reports, a closed breaker has fewer failures than its
  threshold, and a half-open one has admitted at least one and at most its quota of probes.\<close>

theorem breaker_reachable_inv: "reachable_from breaker_init breaker_step cb \<Longrightarrow> breaker_inv cb"
  by (rule breaker.reachable_inv)

theorem breaker_reachable_inv_witness:
  "breaker_inv (record_failure 1 (new_breaker 1 30 1))"
proof (rule breaker_reachable_inv)
  have "reachable_from breaker_init breaker_step (new_breaker 1 30 1)"
    by (rule reach_init) (auto simp: breaker_init_def)
  then show "reachable_from breaker_init breaker_step (record_failure 1 (new_breaker 1 30 1))"
    by (rule reach_step) (rule step_failure)
qed

text \<open>A fresh breaker opens at exactly its threshold of consecutive failures, and while it is open and
  the recovery timeout has not passed, a call fails fast: the operation's outcome does not matter and the
  breaker is unchanged.\<close>

theorem breaker_opens_and_fails_fast:
  assumes "1 \<le> thr"
  shows "cb_state (fold record_failure ts (new_breaker thr to k)) = (if thr \<le> int (length ts) then OPEN else CLOSED) \<and>
    (cb_state cb = OPEN \<and> t\<^sub>0 - last_failure_time cb < recovery_timeout cb \<longrightarrow>
       run_once t\<^sub>0 t\<^sub>1 operation cb = (Inl LLMCircuitOpenError, cb))"
  using fold_failures [OF assms, of ts to k] by (auto simp: run_once_def check_def)

theorem breaker_opens_and_fails_fast_witness:
  "cb_state (fold record_failure [0, 0] (new_breaker 2 30 1)) = OPEN \<and>
   run_once 1 2 (Inr ()) (fold record_failure [0, 0] (new_breaker 2 30 1)) =
     (Inl LLMCircuitOpenError, fold record_failure [0, 0] (new_breaker 2 30 1))"
  using breaker_opens_and_fails_fast [of 2 "[0, 0]" 30 1 "fold record_failure [0, 0] (new_breaker 2 30 1)" 1 2 "Inr ()"]
  by (simp add: record_failure_def new_breaker_def)

text \<open>C17: Recovery: when calls run one after the other and every failure is one of the counted exceptions, the
  breaker is never left half-open, and once the recovery timeout has passed since the last failure the next
  call is let through.\<close>

theorem breaker_recovers:
  assumes "\<forall>c\<in>set cs. reported c" and "cb = fold serve cs (new_breaker thr to k)"
    and "recovery_timeout cb \<le> t - last_failure_time cb"
  shows "cb_state cb \<noteq> HALF_OPEN \<and> fst (check t cb)"
proof -
  have "settled cb" unfolding assms(2) using assms(1) by (intro settled_fold) (simp_all add: settled_def new_breaker_def)
  with assms(3) show ?thesis by (auto simp: settled_def check_def)
qed

theorem breaker_recovers_witness:
  "fst (check 40 (fold serve [(0, 1, Inl LLMUpstreamError), (2, 3, Inr ())] (new_breaker 1 30 1)))"
  using breaker_recovers [of "[(0, 1, Inl LLMUpstreamError), (2, 3, Inr ())]"
      "fold serve [(0, 1, Inl LLMUpstreamError), (2, 3, Inr ())] (new_breaker 1 30 1)" 1 30 1 40]
  by (simp add: reported_def counted_def serve_def run_once_def check_def record_failure_def new_breaker_def)

text \<open>An uncounted exception of a recovery probe wedges the breaker: it stays half-open with its quota used
  up, and every later call, at any time and however healthy the upstream, is rejected and changes nothing.\<close>

theorem probe_exception_wedges:
  assumes "cb_state cb = OPEN" and "recovery_timeout cb \<le> t\<^sub>0 - last_failure_time cb"
    and "half_open_max_requests cb \<le> 1" and "\<not> counted exc"
  shows "\<exists>cb'. run_once t\<^sub>0 t\<^sub>1 (Inl exc) cb = (Inl exc, cb') \<and>
    (\<forall>t t' operation. run_once t t' operation cb' = (Inl LLMCircuitOpenError, cb'))"
  using assms by (simp add: run_once_def check_def)

theorem probe_exception_wedges_witness:
  "\<exists>cb'. run_once 40 41 (Inl LLMProviderError) (record_failure 1 (new_breaker 1 30 1)) = (Inl LLMProviderError, cb') \<and>
    (\<forall>t t' operation. run_once t t' (operation :: llm_error + unit) cb' = (Inl LLMCircuitOpenError, cb'))"
  by (rule probe_exception_wedges) (simp_all add: record_failure_def new_breaker_def counted_def)







end
