(* ===== verification/HttpResilience.thy ===== *)
theory HttpResilience
  imports Retry
begin

text \<open>
  Outbound HTTP calls (\<open>nce/http_resilience.py\<close>): the classification of responses and transport
  failures, the parsing of \<open>Retry-After\<close>, the validation of the retry configuration and the translation of
  what the retry loop raises. Exceptions carry what callers branch on (class, status, retry hint, attempt
  count); their message texts, the metrics and the log calls are left out. \<open>parse_date\<close> stands for
  \<open>parsedate_to_datetime\<close> followed by the subtraction of the clock, in seconds.
\<close>

section \<open>Exceptions\<close>

datatype api_error =
    ExternalAPITransientError "int option" "int option"
  | ExternalAPIClientError "int option"
  | ExternalAPIRetriesExhaustedError api_error nat "int option"
  | OtherError string

text \<open>The transient error carries its status and the retry hint, the others their status.\<close>

fun status_of :: "api_error \<Rightarrow> int option" where
  "status_of (ExternalAPITransientError status hint) = status"
| "status_of (ExternalAPIClientError status) = status"
| "status_of (ExternalAPIRetriesExhaustedError err attempts status) = status"
| "status_of (OtherError s) = None"

definition exhausted_error :: "api_error \<Rightarrow> nat \<Rightarrow> api_error" where
  "exhausted_error last_error attempts = ExternalAPIRetriesExhaustedError last_error attempts (status_of last_error)"

definition is_transient :: "api_error \<Rightarrow> bool" where
  "is_transient exc = (case exc of ExternalAPITransientError _ _ \<Rightarrow> True | _ \<Rightarrow> False)"

lemma is_transient_iff: "is_transient e \<longleftrightarrow> (\<exists>status hint. e = ExternalAPITransientError status hint)"
  by (cases e) (auto simp: is_transient_def)

section \<open>Waiting\<close>

definition http_backoff_cap_ms :: "nat \<Rightarrow> int \<Rightarrow> int \<Rightarrow> real \<Rightarrow> int" where
  "http_backoff_cap_ms attempt base_delay_ms max_delay_ms backoff_factor =
     min (py_int (real_of_int base_delay_ms * backoff_factor ^ (attempt - 1))) max_delay_ms"

definition wait_seconds_policy :: "int \<Rightarrow> int \<Rightarrow> real \<Rightarrow> real \<Rightarrow> nat \<Rightarrow> api_error option \<Rightarrow> real" where
  "wait_seconds_policy base_delay_ms max_delay_ms backoff_factor r attempt exc =
     (let cap_ms = http_backoff_cap_ms attempt base_delay_ms max_delay_ms backoff_factor;
          cap_ms' = (case exc of
              Some (ExternalAPITransientError status (Some retry_after_s)) \<Rightarrow>
                max cap_ms (min max_delay_ms (retry_after_s * 1000))
            | _ \<Rightarrow> cap_ms)
      in real_of_int (jittered r cap_ms') / 1000)"

section \<open>Retry-After\<close>

text \<open>Python's \<open>int(str)\<close> on ASCII text: an optional sign, digits, single underscores between digits.\<close>

definition is_digit :: "char \<Rightarrow> bool" where
  "is_digit c = (let n = of_char c :: nat in 48 \<le> n \<and> n \<le> 57)"

fun parse_digits :: "int \<Rightarrow> string \<Rightarrow> int option" where
  "parse_digits acc [] = Some acc"
| "parse_digits acc (c # cs) =
     (if is_digit c then parse_digits (acc * 10 + (of_char c - 48)) cs
      else if c = CHR ''_'' then
        (case cs of [] \<Rightarrow> None
         | d # ds \<Rightarrow> if is_digit d then parse_digits (acc * 10 + (of_char d - 48)) ds else None)
      else None)"

definition parse_int :: "string \<Rightarrow> int option" where
  "parse_int s =
     (case strip s of
        [] \<Rightarrow> None
      | c # cs \<Rightarrow>
          if c = CHR ''-'' \<or> c = CHR ''+'' then
            (case cs of
               [] \<Rightarrow> None
             | d # _ \<Rightarrow> if is_digit d
                 then map_option (\<lambda>n. if c = CHR ''-'' then - n else n) (parse_digits 0 cs) else None)
          else if is_digit c then parse_digits 0 (c # cs) else None)"

definition parse_retry_after :: "(string \<Rightarrow> real option) \<Rightarrow> string option \<Rightarrow> int option" where
  "parse_retry_after parse_date value =
     (case value of
        None \<Rightarrow> None
      | Some v \<Rightarrow>
          if v = [] then None
          else let v' = strip v
               in case parse_int v' of
                    Some n \<Rightarrow> Some (max 0 n)
                  | None \<Rightarrow> map_option (\<lambda>delta. max 0 (py_int delta)) (parse_date v'))"

section \<open>Classification\<close>

record http_response =
  status_code :: int
  retry_after_header :: "string option"
  json_body :: "string option"

text \<open>What the client call yields: a response, a timeout, another transport error, or something else.\<close>

datatype client_result = Response http_response | TimeoutException | RequestError | ClientRaised string

definition is_success :: "http_response \<Rightarrow> bool" where
  "is_success resp = (200 \<le> status_code resp \<and> status_code resp \<le> 299)"

definition classify_httpx_response :: "(string \<Rightarrow> real option) \<Rightarrow> http_response \<Rightarrow> api_error + unit" where
  "classify_httpx_response parse_date resp =
     (if status_code resp = 429
      then Inl (ExternalAPITransientError (Some 429) (parse_retry_after parse_date (retry_after_header resp)))
      else if status_code resp \<ge> 500 then Inl (ExternalAPITransientError (Some (status_code resp)) None)
      else if \<not> is_success resp then Inl (ExternalAPIClientError (Some (status_code resp)))
      else Inr ())"

definition http_once :: "(string \<Rightarrow> real option) \<Rightarrow> client_result \<Rightarrow> api_error + http_response" where
  "http_once parse_date r =
     (case r of
        TimeoutException \<Rightarrow> Inl (ExternalAPITransientError None None)
      | RequestError \<Rightarrow> Inl (ExternalAPITransientError None None)
      | ClientRaised s \<Rightarrow> Inl (OtherError s)
      | Response resp \<Rightarrow>
          (case classify_httpx_response parse_date resp of Inl err \<Rightarrow> Inl err | Inr _ \<Rightarrow> Inr resp))"

definition json_once :: "(string \<Rightarrow> real option) \<Rightarrow> client_result \<Rightarrow> api_error + string" where
  "json_once parse_date r =
     (case http_once parse_date r of
        Inl err \<Rightarrow> Inl err
      | Inr resp \<Rightarrow>
          (case json_body resp of
             Some j \<Rightarrow> Inr j
           | None \<Rightarrow> Inl (ExternalAPIClientError (Some (status_code resp)))))"

section \<open>Execution\<close>

record retry_config =
  cfg_max_retries :: int
  cfg_base_delay_ms :: int
  cfg_max_delay_ms :: int
  cfg_max_total_ms :: int
  cfg_backoff_factor :: real

definition default_config :: retry_config where
  "default_config = \<lparr>cfg_max_retries = 3, cfg_base_delay_ms = 1000, cfg_max_delay_ms = 30000,
     cfg_max_total_ms = 60000, cfg_backoff_factor = 2\<rparr>"

definition valid_config :: "string \<Rightarrow> retry_config \<Rightarrow> bool" where
  "valid_config name c = (\<not> cfg_max_retries c < 0 \<and> \<not> cfg_base_delay_ms c < 1 \<and>
     \<not> cfg_max_delay_ms c < cfg_base_delay_ms c \<and> \<not> cfg_max_total_ms c < 1 \<and>
     \<not> cfg_backoff_factor c < 1 \<and> \<not> length name > 128)"

definition execute_http_with_retry ::
    "(api_error, 'a, 's) retrying \<Rightarrow> string \<Rightarrow> retry_config \<Rightarrow> (api_error, 'a, 's) operation \<Rightarrow> 's \<Rightarrow>
       (api_error + 'a) \<times> 's" where
  "execute_http_with_retry retrying name c operation s =
     (if \<not> valid_config name c then (Inl (OtherError ''ValueError''), s)
      else case retrying (nat (cfg_max_retries c + 1)) is_transient operation s of
             (Returned v, s') \<Rightarrow> (Inr v, s')
           | (Raised exc, s') \<Rightarrow> (Inl exc, s')
           | (RetryError None attempts, s') \<Rightarrow> (Inl (exhausted_error (OtherError ''RuntimeError'') attempts), s')
           | (RetryError (Some (ExternalAPIClientError status)) attempts, s') \<Rightarrow>
               (Inl (ExternalAPIClientError status), s')
           | (RetryError (Some (ExternalAPIRetriesExhaustedError err n status)) attempts, s') \<Rightarrow>
               (Inl (ExternalAPIRetriesExhaustedError err n status), s')
           | (RetryError (Some last_exc) attempts, s') \<Rightarrow> (Inl (exhausted_error last_exc attempts), s'))"

text \<open>The clients: each attempt consults the environment \<open>client\<close> for its result.\<close>

definition request_with_retry ::
    "(api_error, http_response, 's) retrying \<Rightarrow> (string \<Rightarrow> real option) \<Rightarrow> string \<Rightarrow> retry_config \<Rightarrow>
       ('s \<Rightarrow> client_result \<times> 's) \<Rightarrow> 's \<Rightarrow> (api_error + http_response) \<times> 's" where
  "request_with_retry retrying parse_date name c client =
     execute_http_with_retry retrying name c (\<lambda>s. case client s of (r, s') \<Rightarrow> (http_once parse_date r, s'))"

text \<open>The synchronous client repeats the checks, the attempt and the loop in its own body.\<close>

definition request_with_retry_sync ::
    "(api_error, http_response, 's) retrying \<Rightarrow> (string \<Rightarrow> real option) \<Rightarrow> string \<Rightarrow> retry_config \<Rightarrow>
       ('s \<Rightarrow> client_result \<times> 's) \<Rightarrow> 's \<Rightarrow> (api_error + http_response) \<times> 's" where
  "request_with_retry_sync retrying parse_date name c client s =
     (if cfg_max_retries c < 0 then (Inl (OtherError ''ValueError''), s)
      else if cfg_base_delay_ms c < 1 then (Inl (OtherError ''ValueError''), s)
      else if cfg_max_delay_ms c < cfg_base_delay_ms c then (Inl (OtherError ''ValueError''), s)
      else if cfg_max_total_ms c < 1 then (Inl (OtherError ''ValueError''), s)
      else if cfg_backoff_factor c < 1 then (Inl (OtherError ''ValueError''), s)
      else if length name > 128 then (Inl (OtherError ''ValueError''), s)
      else let once = (\<lambda>s. case client s of
               (Response resp, s') \<Rightarrow>
                 (case classify_httpx_response parse_date resp of Inl e \<Rightarrow> (Inl e, s') | Inr _ \<Rightarrow> (Inr resp, s'))
             | (TimeoutException, s') \<Rightarrow> (Inl (ExternalAPITransientError None None), s')
             | (RequestError, s') \<Rightarrow> (Inl (ExternalAPITransientError None None), s')
             | (ClientRaised e, s') \<Rightarrow> (Inl (OtherError e), s'))
           in case retrying (nat (cfg_max_retries c + 1)) is_transient once s of
             (Returned resp, s') \<Rightarrow> (Inr resp, s')
           | (Raised exc, s') \<Rightarrow> (Inl exc, s')
           | (RetryError None attempts, s') \<Rightarrow> (Inl (exhausted_error (OtherError ''RuntimeError'') attempts), s')
           | (RetryError (Some last_exc) attempts, s') \<Rightarrow>
               (case last_exc of
                  ExternalAPIClientError _ \<Rightarrow> (Inl last_exc, s')
                | ExternalAPIRetriesExhaustedError _ _ _ \<Rightarrow> (Inl last_exc, s')
                | _ \<Rightarrow> (Inl (exhausted_error last_exc attempts), s')))"

definition oauth_token_post_form ::
    "(api_error, string, 's) retrying \<Rightarrow> (string \<Rightarrow> real option) \<Rightarrow> string \<Rightarrow>
       ('s \<Rightarrow> client_result \<times> 's) \<Rightarrow> 's \<Rightarrow> (api_error + string) \<times> 's" where
  "oauth_token_post_form retrying parse_date operation client =
     execute_http_with_retry retrying operation default_config
       (\<lambda>s. case client s of (r, s') \<Rightarrow> (json_once parse_date r, s'))"

definition post_json_with_retry ::
    "(api_error, string, 's) retrying \<Rightarrow> (string \<Rightarrow> real option) \<Rightarrow> string \<Rightarrow>
       ('s \<Rightarrow> client_result \<times> 's) \<Rightarrow> 's \<Rightarrow> (api_error + string) \<times> 's" where
  "post_json_with_retry retrying parse_date operation client =
     execute_http_with_retry retrying operation default_config
       (\<lambda>s. case client s of (r, s') \<Rightarrow> (json_once parse_date r, s'))"

section \<open>Lemmas\<close>

definition http_caller_sees :: "(api_error, 'a) retry_outcome \<Rightarrow> api_error + 'a" where
  "http_caller_sees r = (case r of
      Returned v \<Rightarrow> Inr v
    | Raised x \<Rightarrow> Inl x
    | RetryError x n \<Rightarrow> Inl (exhausted_error (case x of None \<Rightarrow> OtherError ''RuntimeError'' | Some e \<Rightarrow> e) n))"

lemma execute_http_outcomes:
  assumes "retry_contract retrying" and "valid_config name c"
  shows "\<exists>k r s'. int k \<le> cfg_max_retries c \<and> loop_ends is_transient operation k s (r, s') \<and>
    execute_http_with_retry retrying name c operation s = (http_caller_sees r, s')"
proof -
  let ?n = "nat (cfg_max_retries c + 1)"
  have "0 < ?n" using assms(2) by (simp add: valid_config_def)
  with assms(1) obtain k where k: "k < ?n" "loop_ends is_transient operation k s (retrying ?n is_transient operation s)"
    unfolding retry_contract_def by blast
  obtain r s' where r: "retrying ?n is_transient operation s = (r, s')" by fastforce
  have le: "int k \<le> cfg_max_retries c" using k(1) by auto
  have "execute_http_with_retry retrying name c operation s = (http_caller_sees r, s')"
  proof (cases r)
    case (RetryError x n)
    then obtain status hint where "x = Some (ExternalAPITransientError status hint)"
      using k(2) by (auto simp: r loop_ends_def loop_ends_at_def is_transient_iff)
    with RetryError assms(2) show ?thesis
      by (simp add: execute_http_with_retry_def http_caller_sees_def r)
  qed (use assms(2) in \<open>simp_all add: execute_http_with_retry_def http_caller_sees_def r\<close>)
  with le k(2) r show ?thesis by auto
qed

section \<open>Properties\<close>

text \<open>A response is accepted exactly when its status is 200 to 299; 429 and 5xx are transient and carry the
  status, a 429 additionally the non-negative \<open>Retry-After\<close> hint if the header is understood; every other
  status is a client error that is not retried.\<close>

theorem classify_response_total:
  "(classify_httpx_response pd resp = Inr () \<longleftrightarrow> 200 \<le> status_code resp \<and> status_code resp \<le> 299) \<and>
   ((\<exists>e. classify_httpx_response pd resp = Inl e \<and> is_transient e) \<longleftrightarrow> status_code resp = 429 \<or> 500 \<le> status_code resp) \<and>
   (\<forall>e. classify_httpx_response pd resp = Inl e \<longrightarrow> status_of e = Some (status_code resp)) \<and>
   (\<forall>s h. classify_httpx_response pd resp = Inl (ExternalAPITransientError s (Some h)) \<longrightarrow> 0 \<le> h \<and> status_code resp = 429)"
proof -
  have "0 \<le> h" if "parse_retry_after pd v = Some h" for v h
    using that by (auto simp: parse_retry_after_def Let_def split: option.splits if_splits)
  then show ?thesis by (auto simp: classify_httpx_response_def is_success_def is_transient_def)
qed

theorem classify_response_total_witness:
  "classify_httpx_response (\<lambda>s. None) \<lparr>status_code = 429, retry_after_header = Some ''12'', json_body = None\<rparr> =
     Inl (ExternalAPITransientError (Some 429) (Some 12)) \<and> 0 \<le> (12 :: int)"
  using classify_response_total [of "\<lambda>s. None" "\<lparr>status_code = 429, retry_after_header = Some ''12'', json_body = None\<rparr>"]
  by (simp add: classify_httpx_response_def parse_retry_after_def parse_int_def strip_def is_space_def
      is_digit_def Let_def)

text \<open>The wait between HTTP attempts is positive and at most the maximum delay, whatever the attempt, the
  jitter draw and the \<open>Retry-After\<close> hint, for every configuration the validation accepts.\<close>

theorem http_wait_bounded:
  assumes "valid_config name c" and "0 \<le> r" and "r \<le> 1"
  shows "0 < wait_seconds_policy (cfg_base_delay_ms c) (cfg_max_delay_ms c) (cfg_backoff_factor c) r attempt exc \<and>
    wait_seconds_policy (cfg_base_delay_ms c) (cfg_max_delay_ms c) (cfg_backoff_factor c) r attempt exc \<le>
      real_of_int (cfg_max_delay_ms c) / 1000"
proof -
  obtain cap where cap: "wait_seconds_policy (cfg_base_delay_ms c) (cfg_max_delay_ms c) (cfg_backoff_factor c) r attempt exc =
      real_of_int (jittered r cap) / 1000" "cap \<le> cfg_max_delay_ms c"
    by (auto simp: wait_seconds_policy_def Let_def http_backoff_cap_ms_def split: option.splits api_error.splits)
  moreover have "1 \<le> cfg_max_delay_ms c" using assms(1) by (simp add: valid_config_def)
  ultimately have "1 \<le> jittered r cap" "jittered r cap \<le> cfg_max_delay_ms c"
    using jittered_bounds [OF assms(2,3), of cap] by auto
  with cap(1) show ?thesis by simp
qed

theorem http_wait_bounded_witness:
  "0 < wait_seconds_policy 1000 30000 2 1 4 None \<and> wait_seconds_policy 1000 30000 2 1 4 None \<le> 30"
  using http_wait_bounded [of "''op''" default_config 1 4 None] by (simp add: default_config_def valid_config_def)

lemma request_with_retry_sync_eq:
  "request_with_retry_sync retrying pd name c client s = request_with_retry retrying pd name c client s"
proof -
  have once: "(\<lambda>s. case client s of
               (Response resp, s') \<Rightarrow>
                 (case classify_httpx_response pd resp of Inl e \<Rightarrow> (Inl e, s') | Inr _ \<Rightarrow> (Inr resp, s'))
             | (TimeoutException, s') \<Rightarrow> (Inl (ExternalAPITransientError None None), s')
             | (RequestError, s') \<Rightarrow> (Inl (ExternalAPITransientError None None), s')
             | (ClientRaised e, s') \<Rightarrow> (Inl (OtherError e), s')) =
    (\<lambda>s. case client s of (r, s') \<Rightarrow> (http_once pd r, s'))"
    by (auto simp: fun_eq_iff http_once_def split: prod.splits client_result.splits sum.splits)
  show ?thesis
    unfolding request_with_retry_sync_def request_with_retry_def execute_http_with_retry_def once Let_def
    by (auto simp: valid_config_def split: prod.splits retry_outcome.splits option.splits api_error.splits)
qed

text \<open>An HTTP request under retry, through the asynchronous and the synchronous client alike: an invalid configuration is refused without contacting the server;
  otherwise at most one attempt more than the retry budget is made, all but the last fail transiently, a
  non-transient failure stops the loop and reaches the caller unchanged, and an exhausted budget is reported with
  the last error, its status and the number of attempts.\<close>

theorem request_with_retry_outcomes:
  assumes "retry_contract retrying"
  shows "(\<not> valid_config name c \<longrightarrow>
      request_with_retry retrying pd name c client s = (Inl (OtherError ''ValueError''), s)) \<and>
    (valid_config name c \<longrightarrow> (\<exists>k r s'. int k \<le> cfg_max_retries c \<and>
      loop_ends is_transient (\<lambda>s. case client s of (r, s') \<Rightarrow> (http_once pd r, s')) k s (r, s') \<and>
      request_with_retry retrying pd name c client s = (http_caller_sees r, s'))) \<and>
    request_with_retry_sync retrying pd name c client s = request_with_retry retrying pd name c client s"
  using execute_http_outcomes [OF assms, of name c "\<lambda>s. case client s of (r, s') \<Rightarrow> (http_once pd r, s')" s]
  unfolding request_with_retry_sync_eq unfolding request_with_retry_def
  by (auto simp: execute_http_with_retry_def)

theorem request_with_retry_outcomes_witness:
  "\<exists>k r s'. int k \<le> 3 \<and>
     loop_ends is_transient (\<lambda>s. case (TimeoutException, s + 1 :: nat) of (r, s') \<Rightarrow> (http_once (\<lambda>x. None) r, s')) k 0 (r, s') \<and>
     request_with_retry retry_plain (\<lambda>x. None) ''op'' default_config (\<lambda>s. (TimeoutException, s + 1 :: nat)) 0 =
       (http_caller_sees r, s')"
  using request_with_retry_outcomes [OF retry_plain_contract, of "''op''" default_config "\<lambda>x. None"
      "\<lambda>s. (TimeoutException, s + 1 :: nat)" 0]
  by (simp add: default_config_def valid_config_def)

end
