(* ===== verification/ToolGovernance.thy ===== *)
theory ToolGovernance
  imports Complex_Main Prelude
begin

text \<open>
  The last-known-good cache of disabled tools (\<open>nce/tool_governance.py\<close>). A fetch from Redis is an
  argument: \<open>Some names\<close> when it succeeds, \<open>None\<close> when there is no client or Redis raises. The monotonic
  clock is read before a possible fetch (\<open>t\<^sub>1\<close>) and after it (\<open>t\<^sub>2\<close>).
\<close>

section \<open>Model\<close>

record governance_cfg =
  stale_ok_sec :: real
  stale_hard_sec :: real
  is_prod :: bool

record ToolGovernanceCache =
  snapshot :: "string set option"
  fetched_at :: "real option"
  degraded_total :: nat

datatype governance_error = GovernanceUnavailable

definition new_cache :: ToolGovernanceCache where
  "new_cache = \<lparr>snapshot = None, fetched_at = None, degraded_total = 0\<rparr>"

definition initialized :: "ToolGovernanceCache \<Rightarrow> bool" where
  "initialized c = (snapshot c \<noteq> None)"

text \<open>\<open>None\<close> is the infinite age of a cache that was never filled.\<close>

definition age :: "real \<Rightarrow> ToolGovernanceCache \<Rightarrow> real option" where
  "age now c = map_option (\<lambda>f. now - f) (fetched_at c)"

definition age_below :: "real option \<Rightarrow> real \<Rightarrow> bool" where
  "age_below a bound = (case a of None \<Rightarrow> False | Some x \<Rightarrow> x < bound)"

definition age_at_most :: "real option \<Rightarrow> real \<Rightarrow> bool" where
  "age_at_most a bound = (case a of None \<Rightarrow> False | Some x \<Rightarrow> x \<le> bound)"

definition store :: "real \<Rightarrow> string set \<Rightarrow> ToolGovernanceCache \<Rightarrow> ToolGovernanceCache" where
  "store now names c = c\<lparr>snapshot := Some names, fetched_at := Some now\<rparr>"

definition warm :: "real \<Rightarrow> string set option \<Rightarrow> ToolGovernanceCache \<Rightarrow> bool \<times> ToolGovernanceCache" where
  "warm now fetch c = (case fetch of None \<Rightarrow> (False, c) | Some names \<Rightarrow> (True, store now names c))"

definition serve_degraded ::
    "governance_cfg \<Rightarrow> real \<Rightarrow> string \<Rightarrow> ToolGovernanceCache \<Rightarrow> (governance_error + bool) \<times> ToolGovernanceCache" where
  "serve_degraded cfg now name c =
     (case snapshot c of
        Some names \<Rightarrow>
          if age_at_most (age now c) (stale_hard_sec cfg) then (Inr (name \<in> names), c)
          else (Inl GovernanceUnavailable, c\<lparr>degraded_total := degraded_total c + 1\<rparr>)
      | None \<Rightarrow>
          (if is_prod cfg then Inl GovernanceUnavailable else Inr False,
           c\<lparr>degraded_total := degraded_total c + 1\<rparr>))"

definition is_disabled ::
    "governance_cfg \<Rightarrow> real \<Rightarrow> real \<Rightarrow> string set option \<Rightarrow> string \<Rightarrow> ToolGovernanceCache \<Rightarrow>
       (governance_error + bool) \<times> ToolGovernanceCache" where
  "is_disabled cfg t\<^sub>1 t\<^sub>2 fetch name c =
     (if initialized c \<and> age_below (age t\<^sub>1 c) (stale_ok_sec cfg)
      then (Inr (case snapshot c of None \<Rightarrow> False | Some names \<Rightarrow> name \<in> names), c)
      else case fetch of
             None \<Rightarrow> serve_degraded cfg t\<^sub>2 name c
           | Some names \<Rightarrow> (Inr (name \<in> names), store t\<^sub>2 names c))"

section \<open>The cache against the registry\<close>

text \<open>
  \<open>reg t\<close> is the set of disabled tools in Redis at time \<open>t\<close>, as administrators change it. A state is the
  cache with the latest clock reading; calls from the two dispatch surfaces come in any order.
\<close>

inductive governance_step ::
    "governance_cfg \<Rightarrow> (real \<Rightarrow> string set) \<Rightarrow> ToolGovernanceCache \<times> real \<Rightarrow> ToolGovernanceCache \<times> real \<Rightarrow> bool"
  for cfg :: governance_cfg and reg :: "real \<Rightarrow> string set" where
  step_warm: "now \<le> t \<Longrightarrow> fetch \<in> {None, Some (reg t)} \<Longrightarrow>
     governance_step cfg reg (c, now) (snd (warm t fetch c), t)"
| step_is_disabled: "now \<le> t\<^sub>1 \<Longrightarrow> t\<^sub>1 \<le> t\<^sub>2 \<Longrightarrow> fetch \<in> {None, Some (reg t\<^sub>2)} \<Longrightarrow>
     governance_step cfg reg (c, now) (snd (is_disabled cfg t\<^sub>1 t\<^sub>2 fetch name c), t\<^sub>2)"


definition mirrors_registry :: "(real \<Rightarrow> string set) \<Rightarrow> ToolGovernanceCache \<times> real \<Rightarrow> bool" where
  "mirrors_registry reg s = (case s of (c, now) \<Rightarrow>
     (case (snapshot c, fetched_at c) of
        (None, None) \<Rightarrow> True
      | (Some names, Some f) \<Rightarrow> names = reg f \<and> f \<le> now
      | _ \<Rightarrow> False))"

lemma mirrors_degraded [simp]: "mirrors_registry reg (c\<lparr>degraded_total := d\<rparr>, now) = mirrors_registry reg (c, now)"
  by (simp add: mirrors_registry_def split: option.split)

lemma mirrors_store [simp]: "mirrors_registry reg (store t (reg t) c, t)"
  by (simp add: mirrors_registry_def store_def)



section \<open>Properties\<close>



text \<open>Cold boot fails closed: before the first successful fetch, a call in production that cannot reach Redis
  raises \<open>GovernanceUnavailable\<close> and counts a degraded decision, and the same holds for an initialised cache past
  the hard limit; a reachable Redis gives the live answer and is remembered.\<close>

theorem governance_fails_closed:
  assumes "is_prod cfg" and "stale_ok_sec cfg \<le> stale_hard_sec cfg" and "t\<^sub>1 \<le> t\<^sub>2"
    and "fetched_at c = None \<and> snapshot c = None \<or> fetched_at c = Some f \<and> stale_hard_sec cfg < t\<^sub>1 - f"
  shows "is_disabled cfg t\<^sub>1 t\<^sub>2 None name c =
      (Inl GovernanceUnavailable, c\<lparr>degraded_total := degraded_total c + 1\<rparr>) \<and>
    is_disabled cfg t\<^sub>1 t\<^sub>2 (Some names) name c = (Inr (name \<in> names), store t\<^sub>2 names c)"
  using assms by (auto simp: is_disabled_def initialized_def serve_degraded_def age_def age_below_def
      age_at_most_def split: option.split)

theorem governance_fails_closed_witness:
  "is_disabled \<lparr>stale_ok_sec = 10, stale_hard_sec = 100, is_prod = True\<rparr> 0 1 None ''t'' new_cache =
     (Inl GovernanceUnavailable, new_cache\<lparr>degraded_total := degraded_total new_cache + 1\<rparr>)"
  by (rule governance_fails_closed [THEN conjunct1]) (simp_all add: new_cache_def)

end
