(* ===== verification/Governor.thy ===== *)
theory Governor
  imports Complex_Main Prelude
begin

text \<open>
  The autonomy gate: the pure policy of \<open>nce/autonomy/policy.py\<close> and the \<open>@governed\<close> decorator of
  \<open>nce/autonomy/governor.py\<close> around a mutating handler. The database is a record of the three tables that
  the decorator touches; a call runs in a transaction that its caller commits when it returns and rolls
  back when it raises. The arguments of a call are resolved into a record, Redis answers are a datatype,
  and the JSON rendering of the parameters is left out. Policy inputs are real numbers; the reasons of a
  decision are a list of gates instead of formatted text.
\<close>

section \<open>Policy\<close>

definition RISK_FLAGS_FORCE_CONFIRM :: "string set" where
  "RISK_FLAGS_FORCE_CONFIRM = {''flagship'', ''first_of_kind'', ''regulated''}"

datatype gate =
    ConfidenceBelowMinimum real real
  | BlastRadiusExceeded int int
  | RiskFlags "string list"
  | ValueOverCeiling real real
  | VolumeOverCap real real
  | CounterpartyNotAllowed string

record PolicyDecision =
  requires_confirm :: bool
  reason :: "gate list"

record policy_input =
  pi_value :: "real option"
  pi_volume_state :: "real option"
  pi_counterparty :: "string option"
  pi_risk_flags :: "string list option"
  pi_confidence :: "real option"
  pi_blast_radius_count :: "int option"

record policy_config =
  pc_value_ceiling :: "real option"
  pc_volume_rate_cap :: "real option"
  pc_allowlist :: "string list option"
  pc_min_confidence :: "real option"
  pc_max_blast_radius :: "int option"

definition confidence_gate :: "policy_config \<Rightarrow> policy_input \<Rightarrow> gate list" where
  "confidence_gate c i =
     (case (pc_min_confidence c, pi_confidence i) of
        (Some m, Some x) \<Rightarrow> if x < m then [ConfidenceBelowMinimum x m] else []
      | _ \<Rightarrow> [])"

definition blast_gate :: "policy_config \<Rightarrow> policy_input \<Rightarrow> gate list" where
  "blast_gate c i =
     (case (pc_max_blast_radius c, pi_blast_radius_count i) of
        (Some m, Some n) \<Rightarrow> if n > m then [BlastRadiusExceeded n m] else []
      | _ \<Rightarrow> [])"

definition risk_gate :: "policy_input \<Rightarrow> gate list" where
  "risk_gate i =
     (case pi_risk_flags i of
        None \<Rightarrow> []
      | Some flags \<Rightarrow>
          (let fired = filter (\<lambda>f. f \<in> RISK_FLAGS_FORCE_CONFIRM) flags
           in if fired \<noteq> [] then [RiskFlags fired] else []))"

definition value_gate :: "policy_config \<Rightarrow> policy_input \<Rightarrow> gate list" where
  "value_gate c i =
     (case (pi_value i, pc_value_ceiling c) of
        (Some v, Some m) \<Rightarrow> if v > m then [ValueOverCeiling v m] else []
      | _ \<Rightarrow> [])"

definition volume_gate :: "policy_config \<Rightarrow> policy_input \<Rightarrow> gate list" where
  "volume_gate c i =
     (case (pi_volume_state i, pc_volume_rate_cap c) of
        (Some v, Some m) \<Rightarrow> if v > m then [VolumeOverCap v m] else []
      | _ \<Rightarrow> [])"

definition counterparty_gate :: "policy_config \<Rightarrow> policy_input \<Rightarrow> gate list" where
  "counterparty_gate c i =
     (case (pi_counterparty i, pc_allowlist c) of
        (Some p, Some allowed) \<Rightarrow>
          if length allowed > 0 \<and> p \<notin> set allowed then [CounterpartyNotAllowed p] else []
      | _ \<Rightarrow> [])"

definition evaluate_policy :: "policy_config \<Rightarrow> policy_input \<Rightarrow> PolicyDecision" where
  "evaluate_policy c i =
     (if confidence_gate c i \<noteq> [] then \<lparr>requires_confirm = True, reason = confidence_gate c i\<rparr>
      else if blast_gate c i \<noteq> [] then \<lparr>requires_confirm = True, reason = blast_gate c i\<rparr>
      else let reasons = risk_gate i @ value_gate c i @ volume_gate c i @ counterparty_gate c i
           in \<lparr>requires_confirm = (reasons \<noteq> []), reason = reasons\<rparr>)"

section \<open>The tables\<close>

datatype queue_status = Pending | Approved | QExecuted | Rejected

record queue_item =
  qi_id :: nat
  qi_namespace :: string
  qi_action :: string
  qi_key :: string
  qi_status :: queue_status
  qi_reason :: "gate list"

text \<open>
  \<open>idempotency\<close> is \<open>action_idempotency\<close> with its primary key (namespace, key); \<open>audit\<close> the \<open>event_log\<close> entries
  the governor appends; \<open>queue\<close> is \<open>action_approval_queue\<close>.
\<close>

record gov_db =
  idempotency :: "((string \<times> string) \<times> string) list"
  queue :: "queue_item list"
  audit :: "(string \<times> string) list"

datatype gov_error = MissingIdempotencyKeyError | KillSwitchError | GovernanceError | HandlerError string

datatype redis_state = NoClient | Unreachable | DisabledHash "string set"

definition check_kill_switch :: "redis_state \<Rightarrow> string \<Rightarrow> gov_error + unit" where
  "check_kill_switch r action_type =
     (case r of
        NoClient \<Rightarrow> Inr ()
      | Unreachable \<Rightarrow> Inl KillSwitchError
      | DisabledHash disabled \<Rightarrow>
          if action_type \<in> disabled then Inl KillSwitchError
          else if ''*'' \<in> disabled then Inl KillSwitchError
          else Inr ())"

definition idempotency_key_exists :: "gov_db \<Rightarrow> string \<times> string \<Rightarrow> bool" where
  "idempotency_key_exists db k = (map_of (idempotency db) k \<noteq> None)"

text \<open>\<open>None\<close> is the unique violation.\<close>

definition record_idempotency_key :: "gov_db \<Rightarrow> string \<times> string \<Rightarrow> string \<Rightarrow> gov_db option" where
  "record_idempotency_key db k action_type =
     (if map_of (idempotency db) k \<noteq> None then None
      else Some (db\<lparr>idempotency := idempotency db @ [(k, action_type)]\<rparr>))"

definition audit_execution :: "gov_db \<Rightarrow> string \<times> string \<Rightarrow> gov_db" where
  "audit_execution db k = db\<lparr>audit := audit db @ [k]\<rparr>"

definition record_pending_approval ::
    "gov_db \<Rightarrow> string \<Rightarrow> string \<Rightarrow> string \<Rightarrow> gate list \<Rightarrow> nat \<times> gov_db" where
  "record_pending_approval db ns action_type key reasons =
     (case filter (\<lambda>q. qi_namespace q = ns \<and> qi_action q = action_type \<and> qi_key q = key \<and> qi_status q = Pending)
             (queue db) of
        q # _ \<Rightarrow> (qi_id q, db)
      | [] \<Rightarrow>
          (let n = length (queue db)
           in (n, db\<lparr>queue := queue db @ [\<lparr>qi_id = n, qi_namespace = ns, qi_action = action_type, qi_key = key,
                 qi_status = Pending, qi_reason = reasons\<rparr>]\<rparr>)))"

definition mark_approval_queue_executed :: "gov_db \<Rightarrow> string \<Rightarrow> string \<Rightarrow> string \<Rightarrow> gov_db" where
  "mark_approval_queue_executed db ns action_type key =
     db\<lparr>queue := map (\<lambda>q. if qi_namespace q = ns \<and> qi_action q = action_type \<and> qi_key q = key \<and>
            (qi_status q = Pending \<or> qi_status q = Approved) then q\<lparr>qi_status := QExecuted\<rparr> else q) (queue db)\<rparr>"

section \<open>The decorator\<close>

datatype 'r gov_result =
    PendingApproval string string nat "gate list"
  | Executed 'r string
  | AlreadyExecuted string

text \<open>
  A resolved call. \<open>gc_race\<close> says whether another transaction commits the same key between the existence
  check and the insertion; \<open>gc_handler\<close> is the wrapped function on the outside world.
\<close>

record ('w, 'r) gov_call =
  gc_key :: "string option"
  gc_redis :: redis_state
  gc_conn :: bool
  gc_namespace :: "string option"
  gc_in_transaction :: bool
  gc_confirm :: bool
  gc_policy :: policy_input
  gc_race :: bool
  gc_audit_fails :: bool
  gc_handler :: "'w \<Rightarrow> (string + 'r) \<times> 'w"

definition execute_governed ::
    "string \<Rightarrow> ('w, 'r) gov_call \<Rightarrow> string \<Rightarrow> string \<Rightarrow> gov_db \<times> 'w \<Rightarrow> (gov_error + 'r gov_result) \<times> gov_db \<times> 'w" where
  "execute_governed action_type call ns key s = (case s of (db, w) \<Rightarrow>
     if \<not> gc_in_transaction call then (Inl GovernanceError, db, w)
     else if idempotency_key_exists db (ns, key) then (Inr (AlreadyExecuted key), db, w)
     else case (if gc_race call then None else record_idempotency_key db (ns, key) action_type) of
            None \<Rightarrow> (Inr (AlreadyExecuted key), db, w)
          | Some db1 \<Rightarrow>
              (case gc_handler call w of
                 (Inl err, w') \<Rightarrow> (Inl (HandlerError err), db1, w')
               | (Inr r, w') \<Rightarrow>
                   (let db2 = mark_approval_queue_executed db1 ns action_type key
                    in if gc_audit_fails call then (Inl (HandlerError ''append_event''), db2, w')
                       else (Inr (Executed r key), audit_execution db2 (ns, key), w'))))"

definition governed ::
    "string \<Rightarrow> policy_config \<Rightarrow> ('w, 'r) gov_call \<Rightarrow> gov_db \<times> 'w \<Rightarrow> (gov_error + 'r gov_result) \<times> gov_db \<times> 'w" where
  "governed action_type c call s = (case s of (db, w) \<Rightarrow>
     let key = strip (case gc_key call of None \<Rightarrow> [] | Some k \<Rightarrow> k)
     in if key = [] then (Inl MissingIdempotencyKeyError, db, w)
        else case check_kill_switch (gc_redis call) action_type of
               Inl err \<Rightarrow> (Inl err, db, w)
             | Inr _ \<Rightarrow>
                 (case gc_namespace call of
                    None \<Rightarrow> (Inl GovernanceError, db, w)
                  | Some ns \<Rightarrow>
                      if \<not> gc_conn call then (Inl GovernanceError, db, w)
                      else if \<not> gc_in_transaction call then (Inl GovernanceError, db, w)
                      else if idempotency_key_exists db (ns, key) then (Inr (AlreadyExecuted key), db, w)
                      else if \<not> gc_confirm call then
                        (case record_pending_approval db ns action_type key [] of
                           (n, db') \<Rightarrow> (Inr (PendingApproval key action_type n []), db', w))
                      else let policy = evaluate_policy c (gc_policy call)
                           in if requires_confirm policy then
                                (case record_pending_approval db ns action_type key (reason policy) of
                                   (n, db') \<Rightarrow> (Inr (PendingApproval key action_type n (reason policy)), db', w))
                              else execute_governed action_type call ns key (db, w)))"

text \<open>The caller's transaction: commit on return, roll the tables back on an exception.\<close>

definition transact ::
    "string \<Rightarrow> policy_config \<Rightarrow> ('w, 'r) gov_call \<Rightarrow> gov_db \<times> 'w \<Rightarrow> (gov_error + 'r gov_result) \<times> gov_db \<times> 'w" where
  "transact action_type c call s =
     (case governed action_type c call s of
        (Inr r, s') \<Rightarrow> (Inr r, s')
      | (Inl err, db', w') \<Rightarrow> (Inl err, fst s, w'))"

section \<open>The key store interface\<close>

text \<open>
  What exactly-once execution needs of a store: a key that is absent can be recorded and is then
  present, one that is present is refused, and recording leaves the other keys alone.
\<close>

locale key_store =
  fixes has :: "'s \<Rightarrow> 'k \<Rightarrow> bool"
    and put :: "'s \<Rightarrow> 'k \<Rightarrow> 's option"
  assumes put_new: "\<not> has s k \<Longrightarrow> \<exists>s'. put s k = Some s'"
    and put_has: "put s k = Some s' \<Longrightarrow> has s' k' \<longleftrightarrow> k' = k \<or> has s k'"
    and put_dup: "has s k \<Longrightarrow> put s k = None"
begin

lemma put_iff: "put s k \<noteq> None \<longleftrightarrow> \<not> has s k"
  using put_new put_dup by fastforce

lemma put_once: "put s k = Some s' \<Longrightarrow> put s' k = None"
  using put_has put_dup by blast

end

interpretation idem: key_store idempotency_key_exists "\<lambda>db k. record_idempotency_key db k action_type"
  for action_type
  by unfold_locales
    (auto simp: idempotency_key_exists_def record_idempotency_key_def map_add_def split: option.splits if_splits)

section \<open>One call\<close>

definition call_key :: "('w, 'r) gov_call \<Rightarrow> string" where
  "call_key call = strip (case gc_key call of None \<Rightarrow> [] | Some k \<Rightarrow> k)"

text \<open>All gates of the decorator, for a call in namespace \<open>ns\<close>.\<close>

definition cleared :: "string \<Rightarrow> policy_config \<Rightarrow> ('w, 'r) gov_call \<Rightarrow> string \<Rightarrow> gov_db \<Rightarrow> bool" where
  "cleared action_type c call ns db =
     (gc_namespace call = Some ns \<and> gc_conn call \<and> gc_in_transaction call \<and> gc_confirm call \<and>
      call_key call \<noteq> [] \<and> check_kill_switch (gc_redis call) action_type = Inr () \<and>
      \<not> requires_confirm (evaluate_policy c (gc_policy call)) \<and>
      \<not> idempotency_key_exists db (ns, call_key call) \<and> \<not> gc_race call)"

lemma record_pending_idempotency [simp]:
  "idempotency (snd (record_pending_approval db ns a k rs)) = idempotency db"
  "audit (snd (record_pending_approval db ns a k rs)) = audit db"
  by (auto simp: record_pending_approval_def Let_def split: list.split)

lemma mark_executed_tables [simp]:
  "idempotency (mark_approval_queue_executed db ns a k) = idempotency db"
  "audit (mark_approval_queue_executed db ns a k) = audit db"
  by (simp_all add: mark_approval_queue_executed_def)

lemma governed_not_cleared:
  assumes "\<And>ns. \<not> cleared action_type c call ns db"
  shows "snd (snd (governed action_type c call (db, w))) = w"
    and "idempotency (fst (snd (governed action_type c call (db, w)))) = idempotency db"
    and "audit (fst (snd (governed action_type c call (db, w)))) = audit db"
    and "fst (governed action_type c call (db, w)) \<noteq> Inr (Executed r k)"
proof -
  have pend: "fst (snd (case record_pending_approval db ns a k rs of (n, db') \<Rightarrow> (f n, db', w))) =
      snd (record_pending_approval db ns a k rs)" for ns a k rs and f :: "nat \<Rightarrow> gov_error + 'b gov_result"
    by (simp add: split_beta)
  show "snd (snd (governed action_type c call (db, w))) = w"
    "idempotency (fst (snd (governed action_type c call (db, w)))) = idempotency db"
    "audit (fst (snd (governed action_type c call (db, w)))) = audit db"
    "fst (governed action_type c call (db, w)) \<noteq> Inr (Executed r k)"
    using assms
    by (auto simp: governed_def execute_governed_def Let_def pend cleared_def call_key_def [symmetric]
        split: option.split sum.split prod.split)
qed

lemma governed_cleared:
  assumes "cleared action_type c call ns db"
  shows "\<exists>db1. record_idempotency_key db (ns, call_key call) action_type = Some db1 \<and>
    governed action_type c call (db, w) =
      (case gc_handler call w of
         (Inl err, w') \<Rightarrow> (Inl (HandlerError err), db1, w')
       | (Inr r, w') \<Rightarrow>
           if gc_audit_fails call
           then (Inl (HandlerError ''append_event''), mark_approval_queue_executed db1 ns action_type (call_key call), w')
           else (Inr (Executed r (call_key call)),
             audit_execution (mark_approval_queue_executed db1 ns action_type (call_key call)) (ns, call_key call), w'))"
proof -
  obtain db1 where "record_idempotency_key db (ns, call_key call) action_type = Some db1"
    using assms idem.put_new [of db "(ns, call_key call)"] by (auto simp: cleared_def)
  then show ?thesis
    using assms
    by (auto simp: governed_def execute_governed_def Let_def cleared_def call_key_def
        split: sum.split prod.split)
qed

section \<open>The governor as a state machine\<close>

inductive gov_step :: "gov_db \<times> 'w \<Rightarrow> gov_db \<times> 'w \<Rightarrow> bool" where
  gov_call: "transact action_type c (call :: ('w, string) gov_call) s = (res, s') \<Longrightarrow> gov_step s s'"

definition empty_db :: gov_db where
  "empty_db = \<lparr>idempotency = [], queue = [], audit = []\<rparr>"

definition gov_init :: "gov_db \<times> 'w \<Rightarrow> bool" where
  "gov_init s = (fst s = empty_db)"

definition audited :: "gov_db \<times> 'w \<Rightarrow> bool" where
  "audited s = (distinct (audit (fst s)) \<and> audit (fst s) = map fst (idempotency (fst s)))"

lemma transact_gates:
  "((\<forall>ns. \<not> cleared action_type c call ns db) \<longrightarrow>
     (\<exists>res db'. transact action_type c call (db, w) = (res, db', w) \<and> (\<forall>r k. res \<noteq> Inr (Executed r k)) \<and>
        idempotency db' = idempotency db \<and> audit db' = audit db)) \<and>
   (cleared action_type c call ns db \<longrightarrow>
     (case gc_handler call w of
        (Inl err, w') \<Rightarrow> transact action_type c call (db, w) = (Inl (HandlerError err), db, w')
      | (Inr r, w') \<Rightarrow>
          if gc_audit_fails call then transact action_type c call (db, w) = (Inl (HandlerError ''append_event''), db, w')
          else \<exists>db'. transact action_type c call (db, w) = (Inr (Executed r (call_key call)), db', w') \<and>
            idempotency db' = idempotency db @ [((ns, call_key call), action_type)] \<and>
            audit db' = audit db @ [(ns, call_key call)]))"
proof (intro conjI impI)
  assume "\<forall>ns. \<not> cleared action_type c call ns db"
  then show "\<exists>res db'. transact action_type c call (db, w) = (res, db', w) \<and> (\<forall>r k. res \<noteq> Inr (Executed r k)) \<and>
        idempotency db' = idempotency db \<and> audit db' = audit db"
    using governed_not_cleared [of action_type c call db w]
    by (cases "governed action_type c call (db, w)") (auto simp: transact_def split: sum.split)
next
  assume "cleared action_type c call ns db"
  from governed_cleared [OF this, of w] obtain db1 where
    "record_idempotency_key db (ns, call_key call) action_type = Some db1" and
    run: "governed action_type c call (db, w) =
      (case gc_handler call w of
         (Inl err, w') \<Rightarrow> (Inl (HandlerError err), db1, w')
       | (Inr r, w') \<Rightarrow>
           if gc_audit_fails call
           then (Inl (HandlerError ''append_event''), mark_approval_queue_executed db1 ns action_type (call_key call), w')
           else (Inr (Executed r (call_key call)),
             audit_execution (mark_approval_queue_executed db1 ns action_type (call_key call)) (ns, call_key call), w'))"
    by blast
  then have tables: "idempotency db1 = idempotency db @ [((ns, call_key call), action_type)]" "audit db1 = audit db"
    by (auto simp: record_idempotency_key_def split: if_splits)
  show "case gc_handler call w of
        (Inl err, w') \<Rightarrow> transact action_type c call (db, w) = (Inl (HandlerError err), db, w')
      | (Inr r, w') \<Rightarrow>
          if gc_audit_fails call then transact action_type c call (db, w) = (Inl (HandlerError ''append_event''), db, w')
          else \<exists>db'. transact action_type c call (db, w) = (Inr (Executed r (call_key call)), db', w') \<and>
            idempotency db' = idempotency db @ [((ns, call_key call), action_type)] \<and>
            audit db' = audit db @ [(ns, call_key call)]"
    unfolding transact_def run by (auto simp: audit_execution_def tables split: prod.split sum.split)
qed


text \<open>A committed transaction leaves the key table and the audit trail as they are, or extends both by the call's key.\<close>

lemma transact_executed:
  assumes "transact action_type c call (db, w) = (Inr (Executed r key), db', w')"
  shows "\<exists>ns. cleared action_type c call ns db \<and> key = call_key call \<and>
    idempotency db' = idempotency db @ [((ns, call_key call), action_type)] \<and>
    audit db' = audit db @ [(ns, call_key call)]"
proof -
  obtain ns where ns: "cleared action_type c call ns db"
    using assms transact_gates [of action_type c call db w] by auto
  obtain out w2 where out: "gc_handler call w = (out, w2)" by fastforce
  show ?thesis
    using assms ns transact_gates [of action_type c call db w ns]
    by (cases out; cases "gc_audit_fails call") (auto simp: out)
qed

lemma transact_tables:
  assumes "transact action_type c call (db, w) = (res, db', w')"
  shows "idempotency db' = idempotency db \<and> audit db' = audit db \<or>
    (\<exists>ns. cleared action_type c call ns db \<and>
      idempotency db' = idempotency db @ [((ns, call_key call), action_type)] \<and>
      audit db' = audit db @ [(ns, call_key call)])"
proof (cases "\<exists>ns. cleared action_type c call ns db")
  case False
  then show ?thesis using assms transact_gates [of action_type c call db w] by auto
next
  case True
  then obtain ns where ns: "cleared action_type c call ns db" by blast
  obtain out w2 where out: "gc_handler call w = (out, w2)" by fastforce
  show ?thesis
    using assms ns transact_gates [of action_type c call db w ns]
    by (cases out; cases "gc_audit_fails call") (auto simp: out)
qed

lemma audited_step:
  assumes "audited (db, w)" and "transact action_type c call (db, w) = (res, db', w')"
  shows "audited (db', w')"
  using transact_tables [OF assms(2)]
proof (elim disjE exE conjE)
  fix ns
  assume "cleared action_type c call ns db" and tabs:
    "idempotency db' = idempotency db @ [((ns, call_key call), action_type)]"
    "audit db' = audit db @ [(ns, call_key call)]"
  then have "(ns, call_key call) \<notin> fst ` set (idempotency db)"
    by (simp add: cleared_def idempotency_key_exists_def map_of_eq_None_iff)
  with assms(1) tabs show ?thesis by (auto simp: audited_def)
qed (use assms(1) in \<open>auto simp: audited_def\<close>)

lemma recorded_step:
  assumes "idempotency_key_exists db k" and "transact action_type c call (db, w) = (res, db', w')"
  shows "idempotency_key_exists db' k"
  using transact_tables [OF assms(2)] assms(1)
  by (auto simp: idempotency_key_exists_def map_add_def split: option.splits)

interpretation gov: invariant_machine gov_init gov_step audited
proof
  show "audited s" if "gov_init s" for s
    using that by (simp add: gov_init_def audited_def empty_db_def)
  show "audited s'" if "audited s" and "gov_step s s'" for s s'
    using that(2,1) by (cases rule: gov_step.cases) (metis audited_step surj_pair)
qed

interpretation gov_key: invariant_machine "\<lambda>s. idempotency_key_exists (fst s) k" gov_step
    "\<lambda>s. idempotency_key_exists (fst s) k" for k
proof
  show "idempotency_key_exists (fst s') k" if "idempotency_key_exists (fst s) k" and "gov_step s s'" for s s'
    using that(2,1) by (cases rule: gov_step.cases) (metis fst_conv recorded_step surj_pair)
qed

section \<open>Properties\<close>


text \<open>Over any sequence of governed calls of any actions, the audit trail holds exactly the executed keys, in order
  and each once.\<close>

theorem governed_audit_complete: "reachable_from gov_init gov_step s \<Longrightarrow> audited s"
  by (rule gov.reachable_inv)

text \<open>C13: Exactly once: after a call has executed, no later call with the same key in the same namespace, whatever
  action it names and whatever other calls ran in between, reaches its handler or changes the key table.\<close>

theorem governed_exactly_once:
  assumes "transact action_type c call (db, w) = (Inr (Executed r key), db\<^sub>1, w\<^sub>1)" and "gc_namespace call = Some ns"
    and "gov_step\<^sup>*\<^sup>* (db\<^sub>1, w\<^sub>1) (db\<^sub>2, w\<^sub>2)"
    and "gc_namespace call' = Some ns" and "call_key call' = key"
  shows "\<exists>res db'. transact action_type' c' call' (db\<^sub>2, w\<^sub>2) = (res, db', w\<^sub>2) \<and> (\<forall>r k. res \<noteq> Inr (Executed r k)) \<and>
    idempotency db' = idempotency db\<^sub>2"
proof -
  from transact_executed [OF assms(1)] assms(2) have "key = call_key call"
    and "idempotency db\<^sub>1 = idempotency db @ [((ns, key), action_type)]" by (auto simp: cleared_def)
  then have "idempotency_key_exists db\<^sub>1 (ns, key)"
    by (simp add: idempotency_key_exists_def map_add_def split: option.split)
  then have "idempotency_key_exists db\<^sub>2 (ns, key)"
    using gov_key.steps_inv [OF assms(3), of "(ns, key)"] by simp
  then have "\<not> cleared action_type' c' call' ns' db\<^sub>2" for ns'
    using assms(4,5) by (auto simp: cleared_def)
  then show ?thesis
    using governed_not_cleared [of action_type' c' call' db\<^sub>2 w\<^sub>2]
    by (cases "governed action_type' c' call' (db\<^sub>2, w\<^sub>2)") (auto simp: transact_def split: sum.split)
qed

definition open_config :: policy_config where
  "open_config = \<lparr>pc_value_ceiling = Some 100, pc_volume_rate_cap = None, pc_allowlist = None,
     pc_min_confidence = None, pc_max_blast_radius = None\<rparr>"

definition sample_call :: "(nat, string) gov_call" where
  "sample_call = \<lparr>gc_key = Some ''k1'', gc_redis = DisabledHash {}, gc_conn = True, gc_namespace = Some ''ns'',
     gc_in_transaction = True, gc_confirm = True,
     gc_policy = \<lparr>pi_value = Some 50, pi_volume_state = None, pi_counterparty = None, pi_risk_flags = None,
       pi_confidence = None, pi_blast_radius_count = None\<rparr>,
     gc_race = False, gc_audit_fails = False, gc_handler = (\<lambda>w. (Inr ''done'', w + 1))\<rparr>"

lemma sample_cleared: "cleared ''update'' open_config sample_call ''ns'' empty_db"
  by (simp add: cleared_def sample_call_def call_key_def strip_def is_space_def check_kill_switch_def
      evaluate_policy_def confidence_gate_def blast_gate_def risk_gate_def value_gate_def volume_gate_def
      counterparty_gate_def open_config_def idempotency_key_exists_def empty_db_def)

lemma sample_key: "call_key sample_call = ''k1''"
  by (simp add: call_key_def sample_call_def strip_def is_space_def)

lemma sample_run: "gc_handler sample_call w = (Inr ''done'', w + 1)" "\<not> gc_audit_fails sample_call" "audit empty_db = []"
  by (simp_all add: sample_call_def empty_db_def)


theorem governed_audit_complete_witness:
  "audited (snd (transact ''update'' open_config sample_call (empty_db, 0)))"
proof (rule governed_audit_complete)
  have "reachable_from gov_init gov_step (empty_db, 0 :: nat)" by (rule reach_init) (simp add: gov_init_def)
  then show "reachable_from gov_init gov_step (snd (transact ''update'' open_config sample_call (empty_db, 0)))"
    by (rule reach_step) (rule gov_call [OF prod.collapse [symmetric]])
qed

theorem governed_exactly_once_witness:
  "\<exists>db\<^sub>1 res db'. transact ''update'' open_config sample_call (empty_db, 0) = (Inr (Executed ''done'' ''k1''), db\<^sub>1, 1) \<and>
     transact ''other'' open_config sample_call (db\<^sub>1, 1) = (res, db', 1) \<and> (\<forall>r k. res \<noteq> Inr (Executed r k)) \<and>
     idempotency db' = idempotency db\<^sub>1"
proof -
  obtain db\<^sub>1 where run: "transact ''update'' open_config sample_call (empty_db, 0) = (Inr (Executed ''done'' ''k1''), db\<^sub>1, 1)"
    using transact_gates [of "''update''" open_config sample_call empty_db 0 "''ns''", THEN conjunct2, THEN mp,
      OF sample_cleared]
    by (auto simp: sample_key sample_run)
  have "gc_namespace sample_call = Some ''ns''" by (simp add: sample_call_def)
  from governed_exactly_once [OF run this rtranclp.rtrancl_refl this sample_key, of "''other''" open_config] run
  show ?thesis by blast
qed

text \<open>The policy lets an act proceed without a person exactly when every configured gate passes: confidence at
  least the minimum, blast radius, value and volume at most their ceilings, the counterparty on the allowlist if
  there is one, and no risk flag that forces confirmation; the gates are additive, none excuses another.\<close>

theorem policy_allows_exactly:
  "\<not> requires_confirm (evaluate_policy c i) \<longleftrightarrow>
     (\<forall>m x. pc_min_confidence c = Some m \<and> pi_confidence i = Some x \<longrightarrow> m \<le> x) \<and>
     (\<forall>m n. pc_max_blast_radius c = Some m \<and> pi_blast_radius_count i = Some n \<longrightarrow> n \<le> m) \<and>
     (\<forall>m v. pc_value_ceiling c = Some m \<and> pi_value i = Some v \<longrightarrow> v \<le> m) \<and>
     (\<forall>m v. pc_volume_rate_cap c = Some m \<and> pi_volume_state i = Some v \<longrightarrow> v \<le> m) \<and>
     (\<forall>p ps. pi_counterparty i = Some p \<and> pc_allowlist c = Some ps \<and> ps \<noteq> [] \<longrightarrow> p \<in> set ps) \<and>
     (\<forall>fs f. pi_risk_flags i = Some fs \<and> f \<in> set fs \<longrightarrow> f \<notin> RISK_FLAGS_FORCE_CONFIRM)"
proof -
  have "confidence_gate c i = [] \<longleftrightarrow> (\<forall>m x. pc_min_confidence c = Some m \<and> pi_confidence i = Some x \<longrightarrow> m \<le> x)"
    by (auto simp: confidence_gate_def split: option.splits)
  moreover have "blast_gate c i = [] \<longleftrightarrow> (\<forall>m n. pc_max_blast_radius c = Some m \<and> pi_blast_radius_count i = Some n \<longrightarrow> n \<le> m)"
    by (auto simp: blast_gate_def split: option.splits)
  moreover have "value_gate c i = [] \<longleftrightarrow> (\<forall>m v. pc_value_ceiling c = Some m \<and> pi_value i = Some v \<longrightarrow> v \<le> m)"
    by (auto simp: value_gate_def split: option.splits)
  moreover have "volume_gate c i = [] \<longleftrightarrow> (\<forall>m v. pc_volume_rate_cap c = Some m \<and> pi_volume_state i = Some v \<longrightarrow> v \<le> m)"
    by (auto simp: volume_gate_def split: option.splits)
  moreover have "counterparty_gate c i = [] \<longleftrightarrow>
      (\<forall>p ps. pi_counterparty i = Some p \<and> pc_allowlist c = Some ps \<and> ps \<noteq> [] \<longrightarrow> p \<in> set ps)"
    by (auto simp: counterparty_gate_def split: option.splits)
  moreover have "risk_gate i = [] \<longleftrightarrow> (\<forall>fs f. pi_risk_flags i = Some fs \<and> f \<in> set fs \<longrightarrow> f \<notin> RISK_FLAGS_FORCE_CONFIRM)"
    by (auto simp: risk_gate_def Let_def filter_empty_conv split: option.splits)
  moreover have "\<not> requires_confirm (evaluate_policy c i) \<longleftrightarrow> confidence_gate c i = [] \<and> blast_gate c i = [] \<and>
      risk_gate i = [] \<and> value_gate c i = [] \<and> volume_gate c i = [] \<and> counterparty_gate c i = []"
    by (auto simp: evaluate_policy_def Let_def)
  ultimately show ?thesis by argo
qed

theorem policy_allows_exactly_witness:
  "\<not> requires_confirm (evaluate_policy open_config (gc_policy sample_call)) \<and>
   requires_confirm (evaluate_policy open_config ((gc_policy sample_call)\<lparr>pi_risk_flags := Some [''regulated'']\<rparr>))"
proof
  show "\<not> requires_confirm (evaluate_policy open_config (gc_policy sample_call))"
    unfolding policy_allows_exactly by (simp add: open_config_def sample_call_def)
  have "\<not> (\<forall>fs f. pi_risk_flags ((gc_policy sample_call)\<lparr>pi_risk_flags := Some [''regulated'']\<rparr>) = Some fs \<and>
      f \<in> set fs \<longrightarrow> f \<notin> RISK_FLAGS_FORCE_CONFIRM)"
    by (simp add: RISK_FLAGS_FORCE_CONFIRM_def)
  then show "requires_confirm (evaluate_policy open_config ((gc_policy sample_call)\<lparr>pi_risk_flags := Some [''regulated'']\<rparr>))"
    using policy_allows_exactly [of open_config "(gc_policy sample_call)\<lparr>pi_risk_flags := Some [''regulated'']\<rparr>"] by blast
qed

end
