(* ===== verification/EventLog.thy ===== *)
theory EventLog
  imports PyValues EventTypes "HOL-Library.Word" "HOL-Library.List_Lexorder" "HOL-Library.Char_ord"
begin

text \<open>
  The append-only event log (\<^verbatim>\<open>src/nce/event_log.py\<close>): appending a signed event to the hash chain of its
  namespace and verifying signatures and chains. The tables are lists of rows in insertion order and the
  counter of \<open>event_sequences\<close> a dictionary. SHA-256, HMAC, the canonical JSON of the \<open>jcs\<close> package, the
  rendering and parsing of times and floats, the \<open>jsonb\<close> column type and the key store are fields of
  \<open>log_env\<close>. Times are numbers (UTC microseconds), UUIDs their text. Errors of the database other than a
  rejected row are not modelled: they leave \<open>append_event\<close> as exceptions and undo its transaction.
\<close>

section \<open>State\<close>

type_synonym bytes = "8 word list"

datatype log_error =
    EventLogError string
  | InvalidEventTypeError
  | EventLogTimestampError
  | EventLogSequenceError
  | EventLogSigningError
  | DataIntegrityError string
  | LogValueError string
  | PostgresError

text \<open>A row of \<open>event_log\<close>. The column \<open>params\<close> holds the text the \<open>jsonb\<close> type gives back.\<close>

record event_row =
  ev_id :: string
  ev_namespace :: string
  ev_agent :: string
  ev_type :: string
  ev_seq :: int
  ev_occurred_at :: int
  ev_params :: "string option"
  ev_result_summary :: "string option"
  ev_parent :: "string option"
  ev_payload_uri :: "string option"
  ev_payload_hash :: "bytes option"
  ev_signature :: bytes
  ev_key_id :: string
  ev_version :: "int option"
  ev_chain_hash :: "bytes option"
  ev_correlation :: "string option"

record log_db =
  event_log :: "event_row list"
  event_sequences :: "(string, int) dict"
  event_parents :: "(string \<times> string \<times> string) list"
  replay_runs :: "(string, string) dict"

record AppendResult =
  res_event_id :: string
  res_event_seq :: int
  res_occurred_at :: int

text \<open>
  What the code calls outside the module: \<open>active_key\<close> is \<open>None\<close> when the key store raises
  \<open>SigningError\<close>, \<open>jsonb\<close> is \<open>None\<close> on text the column type rejects, \<open>parse_iso\<close> is \<open>None\<close> on text that is
  not a time or has no time zone, \<open>parse_uuid\<close> and \<open>canonical_json\<close> are \<open>None\<close> where they raise.
\<close>

record log_env =
  sha256 :: "bytes \<Rightarrow> bytes"
  hmac :: "bytes \<Rightarrow> bytes \<Rightarrow> bytes"
  canonical_json :: "json \<Rightarrow> bytes option"
  float_repr :: "pyfloat \<Rightarrow> string"
  isoformat :: "int \<Rightarrow> string"
  parse_iso :: "string \<Rightarrow> int option"
  parse_uuid :: "string \<Rightarrow> string option"
  jsonb :: "string \<Rightarrow> string option"
  json_loads :: "string \<Rightarrow> json"
  active_key :: "(string \<times> bytes) option"
  key_by_id :: "string \<Rightarrow> bytes option"

text \<open>The arguments of \<open>append_event\<close>, and what it reads around the call: clocks, a fresh UUID, the context.\<close>

record append_args =
  in_transaction :: bool
  a_namespace :: string
  a_agent :: string
  a_type :: string
  a_params :: "(string, json) dict"
  a_result_summary :: "json option"
  a_parent :: "string option"
  a_parents :: "string list"
  a_payload_uri :: "string option"
  a_payload_hash :: "bytes option"
  a_correlation :: "string option"
  a_event_id :: "string option"
  a_replay_at :: "int option"
  ctx_correlation :: "string option"
  py_now :: int
  db_clock :: int
  fresh_uuid :: string

definition AGENT_ID_MAX_LEN :: nat where
  "AGENT_ID_MAX_LEN = 128"

definition GENESIS_SENTINEL :: bytes where
  "GENESIS_SENTINEL = replicate 32 0"

section \<open>Serialisation\<close>

definition hex_digit :: "nat \<Rightarrow> char" where
  "hex_digit n = (if n < 10 then char_of (48 + n) else char_of (87 + n))"

definition bytes_hex :: "bytes \<Rightarrow> string" where
  "bytes_hex b = concat (map (\<lambda>w. [hex_digit (unat w div 16), hex_digit (unat w mod 16)]) b)"

definition utf8_ascii :: "string \<Rightarrow> bytes" where
  "utf8_ascii s = map (\<lambda>c. word_of_nat (of_char c)) s"

fun join :: "string \<Rightarrow> string list \<Rightarrow> string" where
  "join sep [] = []"
| "join sep [x] = x"
| "join sep (x # y # xs) = x @ sep @ join sep (y # xs)"

text \<open>The string encoder of \<open>json.dumps\<close> with \<open>ensure_ascii\<close>.\<close>

definition escape_char :: "char \<Rightarrow> string" where
  "escape_char c = (let n = of_char c :: nat in
     if c = CHR 0x22 then [CHR 0x5C, CHR 0x22]
     else if c = CHR 0x5C then [CHR 0x5C, CHR 0x5C]
     else if n = 10 then [CHR 0x5C, CHR ''n'']
     else if n = 13 then [CHR 0x5C, CHR ''r'']
     else if n = 9 then [CHR 0x5C, CHR ''t'']
     else if n = 12 then [CHR 0x5C, CHR ''f'']
     else if n = 8 then [CHR 0x5C, CHR ''b'']
     else if 32 \<le> n \<and> n \<le> 126 then [c]
     else [CHR 0x5C, CHR ''u'', CHR ''0'', CHR ''0'', hex_digit (n div 16), hex_digit (n mod 16)])"

definition quote_json :: "string \<Rightarrow> string" where
  "quote_json s = [CHR 0x22] @ concat (map escape_char s) @ [CHR 0x22]"

text \<open>\<open>json.dumps(v, sort_keys=True)\<close>\<close>

fun dumps :: "(pyfloat \<Rightarrow> string) \<Rightarrow> json \<Rightarrow> string" where
  "dumps fr JNull = ''null''"
| "dumps fr (JBool b) = (if b then ''true'' else ''false'')"
| "dumps fr (JInt i) = show_int i"
| "dumps fr (JFloat x) = fr x"
| "dumps fr (JStr s) = quote_json s"
| "dumps fr (JList xs) = ''['' @ join '', '' (map (dumps fr) xs) @ '']''"
| "dumps fr (JDict d) = ''{'' @ join '', '' (map (\<lambda>(k, t). quote_json k @ '': '' @ t)
     (sort_key fst (map (\<lambda>(k, v). (k, dumps fr v)) d))) @ ''}''"

definition serialise_jsonb :: "log_env \<Rightarrow> json option \<Rightarrow> string option" where
  "serialise_jsonb env v = map_option (dumps (float_repr env)) v"

definition opt_field :: "string \<Rightarrow> string option \<Rightarrow> (string, json) dict" where
  "opt_field k v = (case v of None \<Rightarrow> [] | Some s \<Rightarrow> [(k, JStr s)])"

definition build_signing_fields ::
  "string \<Rightarrow> string \<Rightarrow> string \<Rightarrow> string \<Rightarrow> int \<Rightarrow> string \<Rightarrow> json \<Rightarrow> string option \<Rightarrow> string option \<Rightarrow> json" where
  "build_signing_fields event_id ns agent typ seq iso_at params parent prev_hex = JDict
     ([(''event_id'', JStr event_id), (''namespace_id'', JStr ns), (''agent_id'', JStr agent),
       (''event_type'', JStr typ), (''event_seq'', JInt seq), (''occurred_at'', JStr iso_at),
       (''params'', params)]
      @ opt_field ''parent_event_id'' parent @ opt_field ''prev_chain_hash'' prev_hex)"

definition compute_content_hash :: "log_env \<Rightarrow> json \<Rightarrow> bytes" where
  "compute_content_hash env doc = sha256 env (utf8_ascii (dumps (float_repr env) doc))"

definition compute_chain_hash :: "log_env \<Rightarrow> bytes \<Rightarrow> bytes \<Rightarrow> bytes" where
  "compute_chain_hash env content prev = sha256 env (content @ prev)"

definition sign_fields :: "log_env \<Rightarrow> json \<Rightarrow> bytes \<Rightarrow> bytes option" where
  "sign_fields env doc key = map_option (hmac env key) (canonical_json env doc)"

definition verify_fields :: "log_env \<Rightarrow> json \<Rightarrow> bytes \<Rightarrow> bytes \<Rightarrow> bool option" where
  "verify_fields env doc key sig = map_option (\<lambda>computed. computed = sig) (sign_fields env doc key)"

section \<open>Appending\<close>

definition validate_event_payload :: "string \<Rightarrow> string \<Rightarrow> log_error + string" where
  "validate_event_payload typ agent =
     (if typ \<notin> set VALID_EVENT_TYPES then Inl InvalidEventTypeError
      else if strip agent = [] then Inl (LogValueError ''agent_id must not be empty'')
      else if length (strip agent) > AGENT_ID_MAX_LEN then Inl (LogValueError ''agent_id too long'')
      else Inr (strip agent))"

definition validate_event_params :: "string \<Rightarrow> (string, json) dict \<Rightarrow> log_error + unit" where
  "validate_event_params typ params =
     (if \<exists>k \<in> set (dict_getd EVENT_REQUIRED_PARAM_KEYS typ []). k \<notin> set (map fst params)
      then Inl (LogValueError ''missing required param keys'')
      else if \<exists>k \<in> set (dict_getd EVENT_FORBIDDEN_PARAM_KEYS typ []). k \<in> set (map fst params)
      then Inl (LogValueError ''forbidden param keys present'')
      else Inr ())"

text \<open>\<open>s.replace("Z", "+00:00")\<close>\<close>

definition replace_Z :: "string \<Rightarrow> string" where
  "replace_Z s = concat (map (\<lambda>c. if c = CHR ''Z'' then ''+00:00'' else [c]) s)"

definition validate_params_no_backdated_timestamp ::
  "log_env \<Rightarrow> int \<Rightarrow> (string, json) dict \<Rightarrow> log_error + unit" where
  "validate_params_no_backdated_timestamp env now params =
     (case dict_get params ''valid_from'' of
        Some (JStr s) \<Rightarrow>
          (case parse_iso env (replace_Z s) of
             Some ts \<Rightarrow> if ts < now then Inl EventLogTimestampError else Inr ()
           | None \<Rightarrow> Inr ())
      | _ \<Rightarrow> Inr ())"

definition rows_of :: "log_db \<Rightarrow> string \<Rightarrow> event_row list" where
  "rows_of db ns = filter (\<lambda>r. ev_namespace r = ns) (event_log db)"

text \<open>A replayed event keeps its time only in a run that the database knows as deterministic.\<close>

definition resolve_occurred_at :: "log_env \<Rightarrow> append_args \<Rightarrow> log_db \<Rightarrow> int" where
  "resolve_occurred_at env args db =
     (case (a_replay_at args, dict_get (a_params args) ''replay_run_id'') of
        (Some replayed, Some (JStr run)) \<Rightarrow>
          if run \<noteq> [] \<and> Option.bind (parse_uuid env run) (dict_get (replay_runs db)) = Some ''deterministic''
          then replayed else db_clock args
      | _ \<Rightarrow> db_clock args)"

definition next_event_seq :: "string \<Rightarrow> log_db \<Rightarrow> int \<times> log_db" where
  "next_event_seq ns db =
     (let seq = (case dict_get (event_sequences db) ns of None \<Rightarrow> 1 | Some n \<Rightarrow> n + 1)
      in (seq, db\<lparr>event_sequences := dict_set ns seq (event_sequences db)\<rparr>))"

definition chain_hash_or_genesis :: "event_row option \<Rightarrow> bytes" where
  "chain_hash_or_genesis r = (case r of None \<Rightarrow> GENESIS_SENTINEL
     | Some row \<Rightarrow> (case ev_chain_hash row of None \<Rightarrow> GENESIS_SENTINEL | Some h \<Rightarrow> h))"

definition fetch_previous_chain_hash :: "string \<Rightarrow> log_db \<Rightarrow> bytes" where
  "fetch_previous_chain_hash ns db =
     chain_hash_or_genesis (case sort_key (\<lambda>r. - ev_seq r) (rows_of db ns) of [] \<Rightarrow> None | r # _ \<Rightarrow> Some r)"

definition sign_event :: "log_env \<Rightarrow> json \<Rightarrow> log_error + (string \<times> bytes)" where
  "sign_event env doc =
     (case active_key env of
        None \<Rightarrow> Inl EventLogSigningError
      | Some (key_id, raw_key) \<Rightarrow>
          (case sign_fields env doc raw_key of
             None \<Rightarrow> Inl EventLogSigningError
           | Some signature \<Rightarrow> Inr (key_id, signature)))"

text \<open>The row goes into the table unless a primary or unique key is taken.\<close>

definition conflicts :: "event_row \<Rightarrow> event_row \<Rightarrow> bool" where
  "conflicts r s \<longleftrightarrow> ev_occurred_at r = ev_occurred_at s \<and>
     (ev_id r = ev_id s \<or> (ev_namespace r = ev_namespace s \<and> ev_seq r = ev_seq s))"

definition insert_event :: "event_row \<Rightarrow> log_db \<Rightarrow> log_error + (log_db \<times> AppendResult)" where
  "insert_event row db =
     (if \<exists>r \<in> set (event_log db). conflicts row r then Inl EventLogSequenceError
      else Inr (db\<lparr>event_log := event_log db @ [row]\<rparr>,
        \<lparr>res_event_id = ev_id row, res_event_seq = ev_seq row, res_occurred_at = ev_occurred_at row\<rparr>))"

fun insert_parents :: "string \<Rightarrow> string \<Rightarrow> string list \<Rightarrow> log_db \<Rightarrow> log_db" where
  "insert_parents eid ns [] db = db"
| "insert_parents eid ns (p # ps) db = insert_parents eid ns ps
     (if (eid, p) \<in> set (map (\<lambda>(e, q, n). (e, q)) (event_parents db)) then db
      else db\<lparr>event_parents := event_parents db @ [(eid, p, ns)]\<rparr>)"

text \<open>\<open>append_event\<close> after the sequence number is allocated: sign, chain, insert.\<close>

definition primary_parent :: "append_args \<Rightarrow> string option" where
  "primary_parent args = (case a_parent args of Some p \<Rightarrow> Some p
     | None \<Rightarrow> (case a_parents args of [] \<Rightarrow> None | p # _ \<Rightarrow> Some p))"

definition event_uuid :: "append_args \<Rightarrow> string" where
  "event_uuid args = (case a_event_id args of Some i \<Rightarrow> i | None \<Rightarrow> fresh_uuid args)"

definition append_fields :: "log_env \<Rightarrow> append_args \<Rightarrow> string \<Rightarrow> int \<Rightarrow> int \<Rightarrow> bytes \<Rightarrow> json" where
  "append_fields env args agent occurred seq prev =
     build_signing_fields (event_uuid args) (a_namespace args) agent (a_type args) seq (isoformat env occurred)
       (JDict (a_params args)) (primary_parent args) (Some (bytes_hex prev))"

definition stored_json :: "log_env \<Rightarrow> json option \<Rightarrow> log_error + string option" where
  "stored_json env v = (case serialise_jsonb env v of
      None \<Rightarrow> Inr None
    | Some t \<Rightarrow> (case jsonb env t of None \<Rightarrow> Inl PostgresError | Some u \<Rightarrow> Inr (Some u)))"

definition new_event_row ::
  "log_env \<Rightarrow> append_args \<Rightarrow> string \<Rightarrow> int \<Rightarrow> int \<Rightarrow> bytes \<Rightarrow> string \<times> bytes \<Rightarrow> string option \<Rightarrow> string option \<Rightarrow> event_row"
where
  "new_event_row env args agent occurred seq prev keysig params_col summary_col =
     \<lparr>ev_id = event_uuid args, ev_namespace = a_namespace args, ev_agent = agent, ev_type = a_type args,
      ev_seq = seq, ev_occurred_at = occurred, ev_params = params_col, ev_result_summary = summary_col,
      ev_parent = primary_parent args, ev_payload_uri = a_payload_uri args,
      ev_payload_hash = a_payload_hash args, ev_signature = snd keysig, ev_key_id = fst keysig,
      ev_version = Some 2,
      ev_chain_hash = Some (compute_chain_hash env
        (compute_content_hash env (append_fields env args agent occurred seq prev)) prev),
      ev_correlation = (case a_correlation args of Some c \<Rightarrow> Some c | None \<Rightarrow> ctx_correlation args)\<rparr>"

definition sign_and_insert ::
  "log_env \<Rightarrow> append_args \<Rightarrow> string \<Rightarrow> int \<Rightarrow> int \<Rightarrow> log_db \<Rightarrow> log_error + (log_db \<times> AppendResult)" where
  "sign_and_insert env args agent occurred seq db =
     (let prev = fetch_previous_chain_hash (a_namespace args) db
      in and_then (sign_event env (append_fields env args agent occurred seq prev)) (\<lambda>keysig.
         and_then (stored_json env (Some (JDict (a_params args)))) (\<lambda>params_col.
         and_then (stored_json env (a_result_summary args)) (\<lambda>summary_col.
         and_then (insert_event (new_event_row env args agent occurred seq prev keysig params_col summary_col) db)
           (\<lambda>(db', result).
              Inr (insert_parents (res_event_id result) (a_namespace args) (a_parents args) db', result))))))"

text \<open>\<open>append_event\<close>. The state is returned on errors too: only the caller's transaction undoes it.\<close>

definition append_event :: "log_env \<Rightarrow> append_args \<Rightarrow> log_db \<Rightarrow> log_db \<times> (log_error + AppendResult)" where
  "append_event env args db =
     (if \<not> in_transaction args then (db, Inl (EventLogError ''not in a transaction''))
      else case and_then (validate_event_payload (a_type args) (a_agent args)) (\<lambda>agent.
             and_then (validate_event_params (a_type args) (a_params args)) (\<lambda>_.
             and_then (validate_params_no_backdated_timestamp env (py_now args) (a_params args)) (\<lambda>_.
             Inr agent))) of
        Inl e \<Rightarrow> (db, Inl e)
      | Inr agent \<Rightarrow>
          (let occurred = resolve_occurred_at env args db;
               (seq, db1) = next_event_seq (a_namespace args) db
           in case sign_and_insert env args agent occurred seq db1 of
                Inl e \<Rightarrow> (db1, Inl e)
              | Inr (db2, result) \<Rightarrow> (db2, Inr result)))"

text \<open>The transaction of the caller: an exception undoes it.\<close>

definition append_transaction :: "log_env \<Rightarrow> append_args \<Rightarrow> log_db \<Rightarrow> log_db \<times> (log_error + AppendResult)" where
  "append_transaction env args db =
     (case append_event env args db of (db', Inr r) \<Rightarrow> (db', Inr r) | (_, Inl e) \<Rightarrow> (db, Inl e))"

section \<open>Verification\<close>

definition row_params :: "log_env \<Rightarrow> event_row \<Rightarrow> json" where
  "row_params env r = (case ev_params r of None \<Rightarrow> JDict [] | Some t \<Rightarrow> json_loads env t)"

definition row_fields :: "log_env \<Rightarrow> event_row \<Rightarrow> string option \<Rightarrow> json" where
  "row_fields env r prev_hex = build_signing_fields (ev_id r) (ev_namespace r) (ev_agent r) (ev_type r)
     (ev_seq r) (isoformat env (ev_occurred_at r)) (row_params env r) (ev_parent r) prev_hex"

text \<open>The hash of the preceding event, by its sequence number; \<open>None\<close> when there is no such row or hash.\<close>

definition preceding_hash :: "log_db \<Rightarrow> event_row \<Rightarrow> bytes option" where
  "preceding_hash db r =
     (if ev_seq r - 1 \<le> 0 then Some GENESIS_SENTINEL
      else Option.bind (find (\<lambda>s. ev_seq s = ev_seq r - 1) (rows_of db (ev_namespace r))) ev_chain_hash)"

definition signed_fields :: "log_env \<Rightarrow> log_db \<Rightarrow> bytes \<Rightarrow> event_row \<Rightarrow> log_error + json" where
  "signed_fields env db raw_key r =
     (case ev_version r of
        None \<Rightarrow>
          (let doc = row_fields env r (map_option bytes_hex (preceding_hash db r))
           in Inr (if ev_signature r \<noteq> [] \<and> verify_fields env doc raw_key (ev_signature r) = Some True
                   then doc else row_fields env r None))
      | Some v \<Rightarrow>
          if v = 2 then
            (case preceding_hash db r of
               None \<Rightarrow> Inl (DataIntegrityError ''preceding event not found'')
             | Some h \<Rightarrow> Inr (row_fields env r (Some (bytes_hex h))))
          else Inr (row_fields env r None))"

definition verify_event_signature :: "log_env \<Rightarrow> log_db \<Rightarrow> event_row \<Rightarrow> log_error + unit" where
  "verify_event_signature env db r =
     (if ev_key_id r = [] then Inl (DataIntegrityError ''missing signature_key_id'')
      else case key_by_id env (ev_key_id r) of
        None \<Rightarrow> Inl (DataIntegrityError ''failed to retrieve signing key'')
      | Some raw_key \<Rightarrow> and_then (signed_fields env db raw_key r) (\<lambda>doc.
          if ev_signature r = [] then Inl (DataIntegrityError ''missing signature'')
          else case verify_fields env doc raw_key (ev_signature r) of
                 None \<Rightarrow> Inl (DataIntegrityError ''failed to verify'')
               | Some ok \<Rightarrow> if ok then Inr () else Inl (DataIntegrityError ''signature mismatch'')))"

record chain_state =
  cs_prev :: bytes
  cs_first_break :: "int option"
  cs_checked :: int
  cs_last :: int
  cs_hashes :: "(int, bytes) dict"

definition expected_chain_hash :: "log_env \<Rightarrow> bytes \<Rightarrow> event_row \<Rightarrow> bytes" where
  "expected_chain_hash env prev r =
     compute_chain_hash env (compute_content_hash env
       (row_fields env r (if ev_version r = None \<or> ev_version r = Some 2 then Some (bytes_hex prev) else None)))
       prev"

definition verify_row :: "log_env \<Rightarrow> int option \<Rightarrow> event_row \<Rightarrow> chain_state \<Rightarrow> chain_state" where
  "verify_row env anchor_at r st =
     (let expected = expected_chain_hash env (cs_prev st) r
      in \<lparr>cs_prev = expected,
          cs_first_break = (if ev_chain_hash r \<noteq> Some expected \<and> cs_first_break st = None
            then Some (ev_seq r) else cs_first_break st),
          cs_checked = cs_checked st + 1,
          cs_last = ev_seq r,
          cs_hashes = (case anchor_at of
             Some a \<Rightarrow> if ev_seq r \<le> a then dict_set (ev_seq r) expected (cs_hashes st) else cs_hashes st
           | None \<Rightarrow> cs_hashes st)\<rparr>)"

record chain_report =
  cr_valid :: bool
  cr_checked :: int
  cr_first_break :: "int option"
  cr_last_verified_seq :: int
  cr_reason :: "string option"
  cr_anchor_match :: "bool option"
  cr_anchor_seq :: "int option"

definition rows_between :: "log_db \<Rightarrow> string \<Rightarrow> int \<Rightarrow> int option \<Rightarrow> event_row list" where
  "rows_between db ns start_seq end_seq =
     filter (\<lambda>r. case end_seq of None \<Rightarrow> True | Some e \<Rightarrow> ev_seq r \<le> e)
       (sort_key ev_seq (filter (\<lambda>r. start_seq \<le> ev_seq r) (rows_of db ns)))"

definition starting_hash :: "log_db \<Rightarrow> string \<Rightarrow> int \<Rightarrow> bytes" where
  "starting_hash db ns start_seq =
     (if start_seq > 1
      then chain_hash_or_genesis (find (\<lambda>r. ev_seq r = start_seq - 1) (rows_of db ns))
      else GENESIS_SENTINEL)"

definition max_event_seq :: "event_row list \<Rightarrow> int option" where
  "max_event_seq rows = (case rows of [] \<Rightarrow> None | r # rs \<Rightarrow> Some (fold max (map ev_seq rs) (ev_seq r)))"

text \<open>\<open>event_sequences.seq\<close> against \<open>max(event_seq)\<close>, a missing value counting as 0.\<close>

definition counter_mismatch :: "log_db \<Rightarrow> string \<Rightarrow> bool" where
  "counter_mismatch db ns \<longleftrightarrow>
     (case dict_get (event_sequences db) ns of None \<Rightarrow> 0 | Some n \<Rightarrow> n) \<noteq>
     (case max_event_seq (rows_of db ns) of None \<Rightarrow> 0 | Some n \<Rightarrow> n)"

definition verify_merkle_chain ::
  "log_env \<Rightarrow> string \<Rightarrow> int \<Rightarrow> int option \<Rightarrow> bytes option \<Rightarrow> int option \<Rightarrow> log_db \<Rightarrow> log_error + chain_report" where
  "verify_merkle_chain env ns start_seq end_seq anchor anchor_at db =
     (if anchor \<noteq> None \<and> anchor_at = None then Inl (LogValueError ''anchor_seq must be supplied'')
      else
        let st = fold (verify_row env (if anchor \<noteq> None then anchor_at else None))
              (rows_between db ns start_seq end_seq)
              \<lparr>cs_prev = starting_hash db ns start_seq, cs_first_break = None, cs_checked = 0, cs_last = 0,
               cs_hashes = []\<rparr>;
            mismatch = (start_seq = 1 \<and> end_seq = None \<and> counter_mismatch db ns);
            anchored = (case (anchor, anchor_at) of
                (Some h, Some a) \<Rightarrow> Some (dict_get (cs_hashes st) a = Some h) | _ \<Rightarrow> None)
        in Inr \<lparr>cr_valid = (cs_first_break st = None \<and> \<not> mismatch \<and> anchored \<noteq> Some False),
                cr_checked = cs_checked st,
                cr_first_break = cs_first_break st,
                cr_last_verified_seq = cs_last st,
                cr_reason = (if mismatch then Some ''event_sequences counter does not match max(event_seq)'' else None),
                cr_anchor_match = anchored,
                cr_anchor_seq = (if anchored \<noteq> None then anchor_at else None)\<rparr>)"

end
