(* ===== verification/EventLogChain.thy ===== *)
theory EventLogChain
  imports EventLog "HOL-Library.Multiset"
begin

text \<open>
  The guarantees of the event log: what transactions append is gap-free, chained and verifies, with its
  signatures; and an externally anchored head fixes the history below it, whatever is written to the
  tables afterwards.
\<close>

section \<open>Recomputing a chain\<close>

definition row_doc :: "log_env \<Rightarrow> bytes \<Rightarrow> event_row \<Rightarrow> string" where
  "row_doc env prev r = dumps (float_repr env)
     (row_fields env r (if ev_version r = None \<or> ev_version r = Some 2 then Some (bytes_hex prev) else None))"

fun chain_from :: "log_env \<Rightarrow> bytes \<Rightarrow> event_row list \<Rightarrow> bytes" where
  "chain_from env prev [] = prev"
| "chain_from env prev (r # rs) = chain_from env (expected_chain_hash env prev r) rs"

fun chain_linked :: "log_env \<Rightarrow> bytes \<Rightarrow> event_row list \<Rightarrow> bool" where
  "chain_linked env prev [] \<longleftrightarrow> True"
| "chain_linked env prev (r # rs) \<longleftrightarrow>
     ev_chain_hash r = Some (expected_chain_hash env prev r) \<and> chain_linked env (expected_chain_hash env prev r) rs"

text \<open>The documents that a walk over the rows hashes, and everything it passes to SHA-256.\<close>

fun chain_docs :: "log_env \<Rightarrow> bytes \<Rightarrow> event_row list \<Rightarrow> string list" where
  "chain_docs env prev [] = []"
| "chain_docs env prev (r # rs) = row_doc env prev r # chain_docs env (expected_chain_hash env prev r) rs"

fun hashed_inputs :: "log_env \<Rightarrow> bytes \<Rightarrow> event_row list \<Rightarrow> bytes list" where
  "hashed_inputs env prev [] = []"
| "hashed_inputs env prev (r # rs) =
     (let doc = utf8_ascii (row_doc env prev r)
      in doc # (sha256 env doc @ prev) # hashed_inputs env (expected_chain_hash env prev r) rs)"

lemma expected_chain_hash_doc:
  "expected_chain_hash env prev r = sha256 env (sha256 env (utf8_ascii (row_doc env prev r)) @ prev)"
  by (simp add: expected_chain_hash_def compute_chain_hash_def compute_content_hash_def row_doc_def)

lemma chain_from_append [simp]:
  "chain_from env prev (rs @ ss) = chain_from env (chain_from env prev rs) ss"
  by (induction rs arbitrary: prev) simp_all

lemma chain_linked_append [simp]:
  "chain_linked env prev (rs @ ss) \<longleftrightarrow> chain_linked env prev rs \<and> chain_linked env (chain_from env prev rs) ss"
  by (induction rs arbitrary: prev) auto

lemma chain_docs_append [simp]:
  "chain_docs env prev (rs @ ss) = chain_docs env prev rs @ chain_docs env (chain_from env prev rs) ss"
  by (induction rs arbitrary: prev) simp_all

lemma hashed_inputs_append [simp]:
  "hashed_inputs env prev (rs @ ss) = hashed_inputs env prev rs @ hashed_inputs env (chain_from env prev rs) ss"
  by (induction rs arbitrary: prev) (simp_all add: Let_def)

lemma chain_linked_last_hash:
  assumes "chain_linked env prev rs" and "rs \<noteq> []"
  shows "ev_chain_hash (last rs) = Some (chain_from env prev rs)"
  using assms by (induction rs arbitrary: prev) auto

lemma chain_linked_nth_hash:
  assumes "chain_linked env prev rs" and "i < length rs"
  shows "ev_chain_hash (rs ! i) = Some (chain_from env prev (take (Suc i) rs))"
  using assms by (induction rs arbitrary: prev i) (auto simp: nth_Cons split: nat.splits)

section \<open>The verification loop\<close>

definition first_unlinked :: "log_env \<Rightarrow> bytes \<Rightarrow> event_row list \<Rightarrow> int option" where
  "first_unlinked env prev rs =
     map_option (\<lambda>i. ev_seq (rs ! i)) (find (\<lambda>i. \<not> chain_linked env prev (take (Suc i) rs)) [0..<length rs])"

lemma verify_row_fields [simp]:
  "cs_prev (verify_row env a r st) = expected_chain_hash env (cs_prev st) r"
  "cs_first_break (verify_row env a r st) =
     (if ev_chain_hash r \<noteq> Some (expected_chain_hash env (cs_prev st) r) \<and> cs_first_break st = None
      then Some (ev_seq r) else cs_first_break st)"
  "cs_checked (verify_row env a r st) = cs_checked st + 1"
  "cs_last (verify_row env a r st) = ev_seq r"
  "cs_hashes (verify_row env (Some b) r st) =
     (if ev_seq r \<le> b then dict_set (ev_seq r) (expected_chain_hash env (cs_prev st) r) (cs_hashes st)
      else cs_hashes st)"
  by (simp_all add: verify_row_def Let_def)

lemma fold_verify_row_fields:
  "cs_prev (fold (verify_row env a) rs st) = chain_from env (cs_prev st) rs"
  "cs_checked (fold (verify_row env a) rs st) = cs_checked st + int (length rs)"
  "cs_last (fold (verify_row env a) rs st) = (if rs = [] then cs_last st else ev_seq (last rs))"
  by (induction rs arbitrary: st) simp_all

lemma fold_verify_row_break:
  "cs_first_break (fold (verify_row env a) rs st) = None \<longleftrightarrow>
     cs_first_break st = None \<and> chain_linked env (cs_prev st) rs"
  by (induction rs arbitrary: st) auto

text \<open>The recorded hash of a sequence number is the head after the last row with that number.\<close>

lemma fold_verify_row_hashes:
  assumes "sorted (map ev_seq rs)" and "\<exists>r \<in> set rs. ev_seq r = a"
  shows "dict_get (cs_hashes (fold (verify_row env (Some a)) rs st)) a =
    Some (chain_from env (cs_prev st) (filter (\<lambda>r. ev_seq r \<le> a) rs))"
  using assms
proof (induction rs rule: rev_induct)
  case Nil
  then show ?case by simp
next
  case (snoc r rs)
  have sorted: "sorted (map ev_seq rs)" and le: "\<forall>s \<in> set rs. ev_seq s \<le> ev_seq r"
    using snoc.prems(1) by (auto simp: sorted_append)
  show ?case
  proof (cases "ev_seq r = a")
    case True
    have "filter (\<lambda>r. ev_seq r \<le> a) rs = rs" using le True by (intro filter_True) simp
    then show ?thesis using True
      by (simp add: fold_verify_row_fields)
  next
    case False
    then have "\<exists>s \<in> set rs. ev_seq s = a" using snoc.prems(2) by auto
    moreover from this le False have "a < ev_seq r" by force
    ultimately show ?thesis using snoc.IH [OF sorted] by simp
  qed
qed

lemma fold_verify_row_absent:
  assumes "\<forall>r \<in> set rs. ev_seq r \<noteq> a"
  shows "dict_get (cs_hashes (fold (verify_row env (Some a)) rs st)) a = dict_get (cs_hashes st) a"
  using assms by (induction rs arbitrary: st) simp_all

section \<open>An anchored head fixes the history\<close>

lemma utf8_ascii_inj: "utf8_ascii s = utf8_ascii t \<Longrightarrow> s = t"
proof -
  have "inj (\<lambda>c. word_of_nat (of_char c) :: 8 word)"
  proof (rule injI)
    fix c d :: char
    assume eq: "(word_of_nat (of_char c) :: 8 word) = word_of_nat (of_char d)"
    have "unat (word_of_nat (of_char x) :: 8 word) = of_char x" for x :: char
      by (simp add: unat_of_nat)
    then have "(of_char c :: nat) = of_char d" using eq by metis
    then show "c = d" by simp
  qed
  then show "utf8_ascii s = utf8_ascii t \<Longrightarrow> s = t"
    by (simp add: utf8_ascii_def inj_map_eq_map)
qed

lemma chain_determines_docs:
  assumes digest: "\<forall>x. length (sha256 env x) = 32"
    and "inj_on (sha256 env) (set (hashed_inputs env GENESIS_SENTINEL rs) \<union> set (hashed_inputs env GENESIS_SENTINEL rs'))"
    and "\<forall>x \<in> set (hashed_inputs env GENESIS_SENTINEL rs) \<union> set (hashed_inputs env GENESIS_SENTINEL rs').
      sha256 env x \<noteq> GENESIS_SENTINEL"
    and "chain_from env GENESIS_SENTINEL rs = chain_from env GENESIS_SENTINEL rs'"
  shows "chain_docs env GENESIS_SENTINEL rs = chain_docs env GENESIS_SENTINEL rs'"
  using assms(2-4)
proof (induction rs arbitrary: rs' rule: rev_induct)
  case Nil
  then show ?case
    by (cases rs' rule: rev_cases) (auto simp: expected_chain_hash_doc Let_def)
next
  case (snoc r rs)
  show ?case
  proof (cases rs' rule: rev_cases)
    case Nil
    then show ?thesis using snoc.prems by (auto simp: expected_chain_hash_doc Let_def)
  next
    case (snoc ss s)
    let ?p = "chain_from env GENESIS_SENTINEL rs" and ?q = "chain_from env GENESIS_SENTINEL ss"
    let ?d = "utf8_ascii (row_doc env ?p r)" and ?e = "utf8_ascii (row_doc env ?q s)"
    have inj: "inj_on (sha256 env) (set (hashed_inputs env GENESIS_SENTINEL (rs @ [r])) \<union>
        set (hashed_inputs env GENESIS_SENTINEL (ss @ [s])))"
      using snoc.prems(1) snoc by simp
    have "sha256 env (sha256 env ?d @ ?p) = sha256 env (sha256 env ?e @ ?q)"
      using snoc.prems(3) snoc by (simp add: expected_chain_hash_doc)
    then have "sha256 env ?d @ ?p = sha256 env ?e @ ?q"
      by (rule inj_onD [OF inj]) (simp_all add: Let_def)
    then have heads: "sha256 env ?d = sha256 env ?e" "?p = ?q" using digest by auto
    have "?d = ?e" by (rule inj_onD [OF inj heads(1)]) (simp_all add: Let_def)
    then have doc: "row_doc env ?p r = row_doc env ?q s" by (rule utf8_ascii_inj)
    have "chain_docs env GENESIS_SENTINEL rs = chain_docs env GENESIS_SENTINEL ss"
    proof (rule snoc.IH)
      show "inj_on (sha256 env) (set (hashed_inputs env GENESIS_SENTINEL rs) \<union>
          set (hashed_inputs env GENESIS_SENTINEL ss))"
        by (rule inj_on_subset [OF inj]) auto
      show "\<forall>x \<in> set (hashed_inputs env GENESIS_SENTINEL rs) \<union> set (hashed_inputs env GENESIS_SENTINEL ss).
          sha256 env x \<noteq> GENESIS_SENTINEL"
        using snoc.prems(2) snoc by auto
    qed (rule heads(2))
    then show ?thesis using doc snoc by simp
  qed
qed

lemma rows_between_sorted [simp]: "sorted (map ev_seq (rows_between db ns a b))"
  by (simp add: rows_between_def sorted_filter)

lemma rows_between_anchor:
  "filter (\<lambda>r. ev_seq r \<le> k) (rows_between db ns a None) = rows_between db ns a (Some k)"
  by (simp add: rows_between_def)

lemma anchor_match_head:
  assumes "verify_merkle_chain env ns 1 None (Some h) (Some k) db = Inr rep" and "cr_anchor_match rep = Some True"
  shows "chain_from env GENESIS_SENTINEL (rows_between db ns 1 (Some k)) = h"
proof -
  let ?rows = "rows_between db ns 1 None"
  let ?st = "\<lparr>cs_prev = GENESIS_SENTINEL, cs_first_break = None, cs_checked = 0, cs_last = 0, cs_hashes = []\<rparr>"
  have found: "dict_get (cs_hashes (fold (verify_row env (Some k)) ?rows ?st)) k = Some h"
    using assms by (auto simp: verify_merkle_chain_def starting_hash_def Let_def split: if_splits)
  then have "\<exists>r \<in> set ?rows. ev_seq r = k"
    using fold_verify_row_absent [of ?rows k env ?st] by auto
  from fold_verify_row_hashes [OF rows_between_sorted this, of env ?st] found
  show ?thesis by (simp add: rows_between_anchor)
qed

lemma valid_chain_linked:
  assumes "verify_merkle_chain env ns 1 None None None db = Inr rep" and "cr_valid rep"
  shows "chain_linked env GENESIS_SENTINEL (rows_between db ns 1 None)"
  using assms
  by (auto simp: verify_merkle_chain_def starting_hash_def Let_def fold_verify_row_break)

text \<open>C21: An externally anchored head fixes the history below it. If a log verified when the hash of its newest
  event was anchored, and a later verification of any other content of the tables, rewritten rows, recomputed
  hashes, deleted or inserted events included, reports that the anchor matches, then the events up to the
  anchored one carry, one by one, the same signed documents as when the anchor was taken. SHA-256 is assumed
  to give 32 bytes and neither to collide nor to hit the genesis value on the data of these two walks.\<close>

theorem anchored_history_fixed:
  assumes "\<forall>x. length (sha256 env x) = 32"
    and "verify_merkle_chain env ns 1 None None None db = Inr rep" and "cr_valid rep"
    and "rows_between db ns 1 None \<noteq> []"
    and "ev_chain_hash (last (rows_between db ns 1 None)) = Some h"
    and "verify_merkle_chain env ns 1 None (Some h) (Some k) db' = Inr rep'" and "cr_anchor_match rep' = Some True"
    and "inj_on (sha256 env) (set (hashed_inputs env GENESIS_SENTINEL (rows_between db ns 1 None)) \<union>
          set (hashed_inputs env GENESIS_SENTINEL (rows_between db' ns 1 (Some k))))"
    and "\<forall>x \<in> set (hashed_inputs env GENESIS_SENTINEL (rows_between db ns 1 None)) \<union>
          set (hashed_inputs env GENESIS_SENTINEL (rows_between db' ns 1 (Some k))).
          sha256 env x \<noteq> GENESIS_SENTINEL"
  shows "chain_docs env GENESIS_SENTINEL (rows_between db ns 1 None) =
    chain_docs env GENESIS_SENTINEL (rows_between db' ns 1 (Some k))"
proof (rule chain_determines_docs [OF assms(1,8,9)])
  show "chain_from env GENESIS_SENTINEL (rows_between db ns 1 None) =
      chain_from env GENESIS_SENTINEL (rows_between db' ns 1 (Some k))"
    using chain_linked_last_hash [OF valid_chain_linked [OF assms(2,3)] assms(4)] assms(5)
      anchor_match_head [OF assms(6,7)] by simp
qed

section \<open>What transactions append\<close>

definition log_inv :: "log_env \<Rightarrow> log_db \<Rightarrow> bool" where
  "log_inv env db \<longleftrightarrow> (\<forall>ns.
     map ev_seq (rows_of db ns) = map int [1..<length (rows_of db ns) + 1] \<and>
     dict_getd (event_sequences db) ns 0 = int (length (rows_of db ns)) \<and>
     chain_linked env GENESIS_SENTINEL (rows_of db ns) \<and>
     (\<forall>r \<in> set (rows_of db ns). ev_version r = Some 2))"

text \<open>The \<open>jsonb\<close> column gives the parameters back with the same canonical text.\<close>

definition params_stable :: "log_env \<Rightarrow> append_args \<Rightarrow> bool" where
  "params_stable env args \<longleftrightarrow>
     (let text = dumps (float_repr env) (JDict (a_params args)) in
      case jsonb env text of None \<Rightarrow> True | Some t \<Rightarrow> dumps (float_repr env) (json_loads env t) = text)"

lemma log_invD:
  assumes "log_inv env db"
  shows "map ev_seq (rows_of db ns) = map int [1..<length (rows_of db ns) + 1]"
    and "dict_getd (event_sequences db) ns 0 = int (length (rows_of db ns))"
    and "chain_linked env GENESIS_SENTINEL (rows_of db ns)"
    and "\<forall>r \<in> set (rows_of db ns). ev_version r = Some 2"
  using assms by (auto simp: log_inv_def)

lemma dumps_fields_params:
  assumes "dumps fr p = dumps fr q"
  shows "dumps fr (build_signing_fields i ns a t s o' p par h) = dumps fr (build_signing_fields i ns a t s o' q par h)"
  using assms by (simp add: build_signing_fields_def)

lemma seqs_sorted:
  assumes "map ev_seq rs = map int [1..<length rs + 1]"
  shows "sorted (map ev_seq rs)" and "inj_on ev_seq (set rs)" and "i < length rs \<Longrightarrow> ev_seq (rs ! i) = int i + 1"
proof -
  show "sorted (map ev_seq rs)" unfolding assms by (auto simp: sorted_iff_nth_mono simp del: upt_Suc)
  have "distinct (map ev_seq rs)" unfolding assms by (simp add: distinct_map)
  then show "inj_on ev_seq (set rs)" by (simp add: distinct_map)
  show "i < length rs \<Longrightarrow> ev_seq (rs ! i) = int i + 1"
    using arg_cong [OF assms, of "\<lambda>xs. xs ! i"] by (simp del: upt_Suc)
qed

lemma rows_between_all:
  assumes "map ev_seq (rows_of db ns) = map int [1..<length (rows_of db ns) + 1]"
  shows "rows_between db ns 1 None = rows_of db ns"
proof -
  have "filter (\<lambda>r. 1 \<le> ev_seq r) (rows_of db ns) = rows_of db ns"
  proof (rule filter_True)
    have "\<forall>s \<in> set (map ev_seq (rows_of db ns)). 1 \<le> s" unfolding assms by auto
    then show "\<forall>r \<in> set (rows_of db ns). 1 \<le> ev_seq r" by simp
  qed
  then show ?thesis
    by (simp add: rows_between_def sort_key_id_if_sorted [OF seqs_sorted(1) [OF assms]])
qed

lemma previous_hash_is_head:
  assumes "map ev_seq (rows_of db ns) = map int [1..<length (rows_of db ns) + 1]"
    and "chain_linked env GENESIS_SENTINEL (rows_of db ns)"
  shows "fetch_previous_chain_hash ns db = chain_from env GENESIS_SENTINEL (rows_of db ns)"
proof -
  let ?rs = "rows_of db ns"
  have "sort_key (\<lambda>r. - ev_seq r) ?rs = rev ?rs"
  proof (rule sort_key_inj_key_eq)
    show "inj_on (\<lambda>r. - ev_seq r) (set ?rs)" using seqs_sorted(2) [OF assms(1)] by (auto simp: inj_on_def)
    show "sorted (map (\<lambda>r. - ev_seq r) (rev ?rs))"
      using seqs_sorted(1) [OF assms(1)] by (auto simp: sorted_iff_nth_mono rev_nth)
  qed simp
  then show ?thesis using chain_linked_last_hash [OF assms(2)]
    by (cases ?rs rule: rev_cases) (simp_all add: fetch_previous_chain_hash_def chain_hash_or_genesis_def)
qed

text \<open>A successful append adds one row to its namespace, linked to the head, and moves the counter along.\<close>

lemma insert_parents_fields [simp]:
  "event_log (insert_parents eid ns ps db) = event_log db"
  "event_sequences (insert_parents eid ns ps db) = event_sequences db"
  by (induction ps arbitrary: db) auto

lemma and_then_Inr_cases:
  assumes "and_then r f = Inr y" obtains x where "r = Inr x" "f x = Inr y"
  using assms by (auto simp: and_then_eq_Inr)

definition appended_row :: "log_env \<Rightarrow> append_args \<Rightarrow> log_db \<Rightarrow> int \<Rightarrow> event_row \<Rightarrow> bool" where
  "appended_row env args db seq row \<longleftrightarrow>
     (\<exists>agent occurred keysig stored summary_col.
       let prev = fetch_previous_chain_hash (a_namespace args) db in
       row = new_event_row env args agent occurred seq prev keysig (Some stored) summary_col \<and>
       jsonb env (dumps (float_repr env) (JDict (a_params args))) = Some stored \<and>
       sign_event env (append_fields env args agent occurred seq prev) = Inr keysig)"

lemma appended_rowD:
  assumes "appended_row env args db seq row"
  shows "ev_namespace row = a_namespace args" and "ev_seq row = seq" and "ev_version row = Some 2"
  using assms by (auto simp: appended_row_def new_event_row_def Let_def)

lemma rows_of_sequences [simp]: "rows_of (db\<lparr>event_sequences := s\<rparr>) ns = rows_of db ns"
  by (simp add: rows_of_def)

lemma previous_hash_sequences [simp]:
  "fetch_previous_chain_hash ns (db\<lparr>event_sequences := s\<rparr>) = fetch_previous_chain_hash ns db"
  by (simp add: fetch_previous_chain_hash_def)

lemma stored_json_Some:
  assumes "stored_json env (Some v) = Inr c"
  shows "\<exists>t. c = Some t \<and> jsonb env (dumps (float_repr env) v) = Some t"
  using assms by (cases "jsonb env (dumps (float_repr env) v)") (auto simp: stored_json_def serialise_jsonb_def)

lemma sign_and_insert_row:
  assumes "sign_and_insert env args agent occurred seq db = Inr (db', result)"
  shows "\<exists>row. event_log db' = event_log db @ [row] \<and> event_sequences db' = event_sequences db \<and>
    appended_row env args db seq row \<and>
    result = \<lparr>res_event_id = ev_id row, res_event_seq = seq, res_occurred_at = ev_occurred_at row\<rparr>"
proof -
  let ?prev = "fetch_previous_chain_hash (a_namespace args) db"
  obtain keysig params_col summary_col where
    keysig: "sign_event env (append_fields env args agent occurred seq ?prev) = Inr keysig"
    and stored: "stored_json env (Some (JDict (a_params args))) = Inr params_col"
    and db': "event_log db' = event_log db @ [new_event_row env args agent occurred seq ?prev keysig params_col summary_col]"
      "event_sequences db' = event_sequences db"
    and result: "result = \<lparr>res_event_id = event_uuid args, res_event_seq = seq, res_occurred_at = occurred\<rparr>"
    using assms
    by (auto simp: sign_and_insert_def Let_def and_then_eq_Inr insert_event_def new_event_row_def split: if_splits)
  let ?row = "new_event_row env args agent occurred seq ?prev keysig params_col summary_col"
  obtain t where "params_col = Some t" "jsonb env (dumps (float_repr env) (JDict (a_params args))) = Some t"
    using stored_json_Some [OF stored] by blast
  then have "appended_row env args db seq ?row"
    using keysig unfolding appended_row_def Let_def by blast
  with db' result show ?thesis by (intro exI [of _ ?row]) (simp add: new_event_row_def)
qed

lemma append_transaction_cases:
  obtains (failed) e where "append_transaction env args db = (db, Inl e)"
  | (appended) row db' where "append_transaction env args db =
        (db', Inr \<lparr>res_event_id = ev_id row, res_event_seq = ev_seq row, res_occurred_at = ev_occurred_at row\<rparr>)"
      "event_log db' = event_log db @ [row]"
      "event_sequences db' = dict_set (a_namespace args) (ev_seq row) (event_sequences db)"
      "ev_seq row = dict_getd (event_sequences db) (a_namespace args) 0 + 1"
      "appended_row env args db (ev_seq row) row"
proof (cases "append_event env args db")
  case (Pair db' res)
  show thesis
  proof (cases res)
    case (Inl e)
    then show thesis using Pair by (intro failed [of e]) (simp add: append_transaction_def)
  next
    case (Inr result)
    let ?seq = "dict_getd (event_sequences db) (a_namespace args) 0 + 1"
    let ?db1 = "db\<lparr>event_sequences := dict_set (a_namespace args) ?seq (event_sequences db)\<rparr>"
    have alloc: "next_event_seq (a_namespace args) db = (?seq, ?db1)"
      by (simp add: next_event_seq_def dict_getd_def Let_def split: option.splits)
    obtain agent occurred where "sign_and_insert env args agent occurred ?seq ?db1 = Inr (db', result)"
      using Pair Inr alloc by (auto simp: append_event_def Let_def split: if_splits sum.splits)
    from sign_and_insert_row [OF this] obtain row where row: "event_log db' = event_log db @ [row]"
      "event_sequences db' = dict_set (a_namespace args) ?seq (event_sequences db)"
      "appended_row env args ?db1 ?seq row"
      "result = \<lparr>res_event_id = ev_id row, res_event_seq = ?seq, res_occurred_at = ev_occurred_at row\<rparr>"
      by auto
    have seq: "ev_seq row = ?seq" using appended_rowD(2) [OF row(3)] .
    show thesis
    proof (rule appended [of db' row])
      show "append_transaction env args db =
          (db', Inr \<lparr>res_event_id = ev_id row, res_event_seq = ev_seq row, res_occurred_at = ev_occurred_at row\<rparr>)"
        using Pair Inr row(4) seq by (simp add: append_transaction_def)
      show "appended_row env args db (ev_seq row) row" using row(3) seq by (simp add: appended_row_def)
    qed (use row seq in simp_all)
  qed
qed

lemma appended_row_linked:
  assumes "appended_row env args db seq row" and "params_stable env args"
  shows "ev_chain_hash row = Some (expected_chain_hash env (fetch_previous_chain_hash (a_namespace args) db) row)"
proof -
  let ?prev = "fetch_previous_chain_hash (a_namespace args) db"
  obtain agent occurred keysig stored summary_col where
    row: "row = new_event_row env args agent occurred seq ?prev keysig (Some stored) summary_col"
    and stored: "jsonb env (dumps (float_repr env) (JDict (a_params args))) = Some stored"
    using assms(1) by (auto simp: appended_row_def Let_def)
  have "dumps (float_repr env) (append_fields env args agent occurred seq ?prev) =
      dumps (float_repr env) (row_fields env row (Some (bytes_hex ?prev)))"
    using assms(2) stored
    by (auto simp del: dumps.simps simp: row append_fields_def row_fields_def new_event_row_def row_params_def params_stable_def
        intro: dumps_fields_params)
  then show ?thesis
    by (simp add: row expected_chain_hash_def compute_content_hash_def new_event_row_def)
qed

lemma rows_of_appended:
  assumes "event_log db' = event_log db @ [row]"
  shows "rows_of db' ns = rows_of db ns @ (if ev_namespace row = ns then [row] else [])"
  using assms by (simp add: rows_of_def)

lemma log_inv_append:
  assumes "log_inv env db" and "params_stable env args"
  shows "log_inv env (fst (append_transaction env args db))"
proof (cases rule: append_transaction_cases [of env args db])
  case failed
  then show ?thesis using assms(1) by simp
next
  case (appended row db')
  let ?ns = "a_namespace args" and ?n = "length (rows_of db (a_namespace args))"
  have row: "ev_namespace row = ?ns" "ev_version row = Some 2"
    using appended_rowD [OF appended(5)] by simp_all
  have seq: "ev_seq row = int ?n + 1" using appended(4) log_invD(2) [OF assms(1)] by simp
  have "ev_chain_hash row = Some (expected_chain_hash env (chain_from env GENESIS_SENTINEL (rows_of db ?ns)) row)"
    using appended_row_linked [OF appended(5) assms(2)]
      previous_hash_is_head [OF log_invD(1,3) [OF assms(1)]] by simp
  then have "log_inv env db'"
    unfolding log_inv_def using log_invD [OF assms(1)] row seq appended(3)
    by (auto simp: rows_of_appended [OF appended(2)] dict_getd_def simp del: upt_Suc) (simp_all add: upt_Suc_append)
  then show ?thesis using appended(1) by simp
qed

text \<open>The transactions that reach the log, each with the signing key that is active at the time.\<close>

fun run_appends :: "log_env \<Rightarrow> ((string \<times> bytes) option \<times> append_args) list \<Rightarrow> log_db \<Rightarrow> log_db" where
  "run_appends env [] db = db"
| "run_appends env ((key, args) # calls) db =
     run_appends env calls (fst (append_transaction (env\<lparr>active_key := key\<rparr>) args db))"

lemma key_irrelevant [simp]:
  "row_params (env\<lparr>active_key := k\<rparr>) r = row_params env r"
  "row_fields (env\<lparr>active_key := k\<rparr>) r h = row_fields env r h"
  "expected_chain_hash (env\<lparr>active_key := k\<rparr>) prev r = expected_chain_hash env prev r"
  "params_stable (env\<lparr>active_key := k\<rparr>) args = params_stable env args"
proof -
  show params: "row_params (env\<lparr>active_key := k\<rparr>) r = row_params env r" for r
    by (simp add: row_params_def split: option.split)
  show doc: "row_fields (env\<lparr>active_key := k\<rparr>) r h = row_fields env r h" for r h
    by (simp add: row_fields_def params)
  show "expected_chain_hash (env\<lparr>active_key := k\<rparr>) prev r = expected_chain_hash env prev r"
    by (simp add: expected_chain_hash_def compute_chain_hash_def compute_content_hash_def doc)
  show "params_stable (env\<lparr>active_key := k\<rparr>) args = params_stable env args"
    by (simp add: params_stable_def Let_def split: option.split)
qed

lemma chain_from_key [simp]: "chain_from (env\<lparr>active_key := k\<rparr>) prev rs = chain_from env prev rs"
  by (induction rs arbitrary: prev) simp_all

lemma chain_linked_key [simp]: "chain_linked (env\<lparr>active_key := k\<rparr>) prev rs = chain_linked env prev rs"
  by (induction rs arbitrary: prev) simp_all

lemma log_inv_key [simp]: "log_inv (env\<lparr>active_key := k\<rparr>) = log_inv env"
  by (simp add: fun_eq_iff log_inv_def)

lemma log_inv_run:
  assumes "log_inv env db" and "\<forall>(key, args) \<in> set calls. params_stable env args"
  shows "log_inv env (run_appends env calls db)"
  using assms
proof (induction calls arbitrary: db)
  case (Cons call calls)
  obtain key args where call: "call = (key, args)" by (cases call)
  have "log_inv env (fst (append_transaction (env\<lparr>active_key := key\<rparr>) args db))"
    using log_inv_append [of "env\<lparr>active_key := key\<rparr>" db args] Cons.prems call by simp
  then show ?case using Cons.IH Cons.prems(2) call by simp
qed simp

lemma log_inv_empty:
  assumes "event_log db = []" and "event_sequences db = []"
  shows "log_inv env db"
  using assms by (simp add: log_inv_def rows_of_def dict_getd_def)

lemma max_event_seq_inv:
  assumes "map ev_seq rs = map int [1..<length rs + 1]"
  shows "(case max_event_seq rs of None \<Rightarrow> 0 | Some n \<Rightarrow> n) = int (length rs)"
proof (cases rs)
  case (Cons r rest)
  have "fold max (map ev_seq rest) (ev_seq r) = Max (set (map ev_seq rs))"
    using Max.set_eq_fold [of "ev_seq r" "map ev_seq rest"] by (simp add: Cons)
  also have "\<dots> = int (length rs)"
    unfolding assms using Cons by (intro Max_eqI) auto
  finally show ?thesis by (simp add: max_event_seq_def Cons)
qed (simp add: max_event_seq_def)

lemma log_inv_verifies:
  assumes "log_inv env db"
  shows "verify_merkle_chain env ns 1 None None None db = Inr
    \<lparr>cr_valid = True, cr_checked = int (length (rows_of db ns)), cr_first_break = None,
     cr_last_verified_seq = int (length (rows_of db ns)), cr_reason = None, cr_anchor_match = None,
     cr_anchor_seq = None\<rparr>"
proof -
  note inv = log_invD [OF assms, of ns]
  have "\<not> counter_mismatch db ns"
    using max_event_seq_inv [OF inv(1)] inv(2) by (simp add: counter_mismatch_def dict_getd_def)
  moreover have "rows_of db ns \<noteq> [] \<Longrightarrow> ev_seq (last (rows_of db ns)) = int (length (rows_of db ns))"
    using seqs_sorted(3) [OF inv(1), of "length (rows_of db ns) - 1"] by (cases "rows_of db ns" rule: rev_cases) simp_all
  ultimately show ?thesis
    using inv(3)
    by (simp add: verify_merkle_chain_def starting_hash_def rows_between_all [OF inv(1)] Let_def
        fold_verify_row_fields fold_verify_row_break)
qed

text \<open>C22: Whatever sequence of transactions appends to an initially empty log, over any namespaces, with
  failures rolled back and signing keys rotated in between, the events of each namespace are numbered
  1, 2, 3 ... without gaps, and the full verification of each namespace succeeds and covers all of them, as
  long as the database returns the parameters with the same canonical text.\<close>

theorem appended_log_verifies:
  assumes "event_log db = []" and "event_sequences db = []"
    and "\<forall>(key, args) \<in> set calls. params_stable env args"
  shows "let db' = run_appends env calls db; n = length (rows_of db' ns) in
    map ev_seq (rows_of db' ns) = map int [1..<n + 1] \<and>
    verify_merkle_chain env ns 1 None None None db' = Inr
      \<lparr>cr_valid = True, cr_checked = int n, cr_first_break = None, cr_last_verified_seq = int n,
       cr_reason = None, cr_anchor_match = None, cr_anchor_seq = None\<rparr>"
  using log_inv_run [OF log_inv_empty [OF assms(1,2)] assms(3)] log_inv_verifies log_invD(1) by (simp add: Let_def)

section \<open>Signatures\<close>

text \<open>Rows of the log are signed as the verification will check them.\<close>

definition signed_row :: "log_env \<Rightarrow> log_db \<Rightarrow> event_row \<Rightarrow> bool" where
  "signed_row env db r \<longleftrightarrow> verify_event_signature env db r = Inr ()"

lemma preceding_hash_nth:
  assumes "log_inv env db" and "i < length (rows_of db ns)"
  shows "preceding_hash db (rows_of db ns ! i) =
    Some (chain_from env GENESIS_SENTINEL (take i (rows_of db ns)))"
proof -
  let ?rs = "rows_of db ns"
  note inv = log_invD [OF assms(1), of ns]
  have ns: "ev_namespace (?rs ! i) = ns" using nth_mem [OF assms(2)] by (simp add: rows_of_def)
  have seq: "ev_seq (?rs ! i) = int i + 1" using seqs_sorted(3) [OF inv(1) assms(2)] .
  show ?thesis
  proof (cases i)
    case 0
    then show ?thesis using seq by (simp add: preceding_hash_def)
  next
    case (Suc j)
    have "find (\<lambda>s. ev_seq s = 1 + int j) ?rs = Some (?rs ! j)"
      unfolding find_Some_iff using Suc assms(2) seqs_sorted(3) [OF inv(1)] by (intro exI [of _ j]) auto
    moreover have "ev_chain_hash (?rs ! j) = Some (chain_from env GENESIS_SENTINEL (take i ?rs))"
      using chain_linked_nth_hash [OF inv(3), of j] Suc assms(2) by simp
    ultimately show ?thesis using Suc seq ns by (simp add: preceding_hash_def)
  qed
qed

lemma preceding_hash_unchanged:
  assumes "log_inv env db" and "log_inv env db'" and "event_log db' = event_log db @ ext"
    and "r \<in> set (event_log db)"
  shows "preceding_hash db' r = preceding_hash db r"
proof -
  let ?ns = "ev_namespace r"
  have ext: "rows_of db' ?ns = rows_of db ?ns @ filter (\<lambda>s. ev_namespace s = ?ns) ext"
    by (simp add: rows_of_def assms(3))
  have "r \<in> set (rows_of db ?ns)" using assms(4) by (simp add: rows_of_def)
  then obtain i where i: "i < length (rows_of db ?ns)" "rows_of db ?ns ! i = r" by (auto simp: in_set_conv_nth)
  have "rows_of db' ?ns ! i = r" using i ext by (simp add: nth_append)
  then show ?thesis
    using preceding_hash_nth [OF assms(1) i(1)] preceding_hash_nth [OF assms(2), of i ?ns] i ext by simp
qed

text \<open>
  What the signatures rely on: a digest is not empty, canonical JSON does not depend on more than the sorted
  text of a value, and a key that is active can be loaded by its identifier later.
\<close>

definition signing_contract :: "log_env \<Rightarrow> bool" where
  "signing_contract env \<longleftrightarrow> (\<forall>k m. hmac env k m \<noteq> []) \<and>
     (\<forall>v w. dumps (float_repr env) v = dumps (float_repr env) w \<longrightarrow> canonical_json env v = canonical_json env w)"

definition key_kept :: "log_env \<Rightarrow> (string \<times> bytes) option \<Rightarrow> bool" where
  "key_kept env key \<longleftrightarrow> (case key of None \<Rightarrow> True
     | Some (key_id, raw) \<Rightarrow> key_id \<noteq> [] \<and> key_by_id env key_id = Some raw)"

lemma appended_row_signed:
  assumes "signing_contract env" and "key_kept env key" and "params_stable env args"
    and "appended_row (env\<lparr>active_key := key\<rparr>) args db seq row"
    and "preceding_hash db' row = Some (fetch_previous_chain_hash (a_namespace args) db)"
  shows "verify_event_signature env db' row = Inr ()"
proof -
  let ?prev = "fetch_previous_chain_hash (a_namespace args) db"
  obtain agent occurred keysig stored summary_col where
    row: "row = new_event_row (env\<lparr>active_key := key\<rparr>) args agent occurred seq ?prev keysig (Some stored) summary_col"
    and stored: "jsonb env (dumps (float_repr env) (JDict (a_params args))) = Some stored"
    and sig: "sign_event (env\<lparr>active_key := key\<rparr>)
      (append_fields (env\<lparr>active_key := key\<rparr>) args agent occurred seq ?prev) = Inr keysig"
    using assms(4) by (auto simp: appended_row_def Let_def)
  let ?doc = "append_fields env args agent occurred seq ?prev"
  have "dumps (float_repr env) (row_fields env row (Some (bytes_hex ?prev))) = dumps (float_repr env) ?doc"
    using assms(3) stored
    by (auto simp del: dumps.simps simp: row append_fields_def row_fields_def new_event_row_def row_params_def
        params_stable_def intro: dumps_fields_params)
  then have canon: "canonical_json env (row_fields env row (Some (bytes_hex ?prev))) = canonical_json env ?doc"
    using assms(1) unfolding signing_contract_def by blast
  obtain key_id raw c where key: "key = Some (key_id, raw)" "canonical_json env ?doc = Some c"
    "keysig = (key_id, hmac env raw c)"
    using sig by (auto simp: sign_event_def sign_fields_def append_fields_def split: option.splits)
  have "ev_key_id row = key_id" "ev_signature row = hmac env raw c" "ev_version row = Some 2"
    by (simp_all add: row new_event_row_def key(3))
  moreover have "key_id \<noteq> []" "key_by_id env key_id = Some raw" using assms(2) key(1) by (simp_all add: key_kept_def)
  moreover have "hmac env raw c \<noteq> []" using assms(1) by (simp add: signing_contract_def)
  ultimately show ?thesis
    using assms(5) canon key(2)
    by (simp add: verify_event_signature_def signed_fields_def verify_fields_def sign_fields_def)
qed

lemma verify_signature_cong:
  "preceding_hash db' r = preceding_hash db r \<Longrightarrow> verify_event_signature env db' r = verify_event_signature env db r"
  by (simp add: verify_event_signature_def signed_fields_def split: option.split)

lemma preceding_hash_new_row:
  assumes "log_inv env db" and "log_inv env db'" and "event_log db' = event_log db @ [row]"
  shows "preceding_hash db' row = Some (fetch_previous_chain_hash (ev_namespace row) db)"
proof -
  let ?ns = "ev_namespace row" and ?rs = "rows_of db (ev_namespace row)"
  have "rows_of db' ?ns = ?rs @ [row]" using rows_of_appended [OF assms(3)] by simp
  then show ?thesis
    using preceding_hash_nth [OF assms(2), of "length ?rs" ?ns]
      previous_hash_is_head [OF log_invD(1,3) [OF assms(1)], of ?ns] by simp
qed

lemma signed_append:
  assumes "signing_contract env" and "key_kept env key" and "params_stable env args" and "log_inv env db"
    and "\<forall>r \<in> set (event_log db). verify_event_signature env db r = Inr ()"
    and db': "db' = fst (append_transaction (env\<lparr>active_key := key\<rparr>) args db)"
  shows "\<forall>r \<in> set (event_log db'). verify_event_signature env db' r = Inr ()"
proof (cases rule: append_transaction_cases [of "env\<lparr>active_key := key\<rparr>" args db])
  case failed
  then show ?thesis using assms(5) db' by simp
next
  case (appended row db2)
  have eq: "db2 = db'" using appended(1) db' by simp
  have inv: "log_inv env db'"
    using log_inv_append [of "env\<lparr>active_key := key\<rparr>" db args] assms(3,4) db' by simp
  have log: "event_log db' = event_log db @ [row]" using appended(2) eq by simp
  have "preceding_hash db' row = Some (fetch_previous_chain_hash (a_namespace args) db)"
    using preceding_hash_new_row [OF assms(4) inv log] appended_rowD(1) [OF appended(5)] by simp
  from appended_row_signed [OF assms(1-3) appended(5) this]
  have "verify_event_signature env db' row = Inr ()" .
  moreover have "verify_event_signature env db' r = Inr ()" if "r \<in> set (event_log db)" for r
    using verify_signature_cong [OF preceding_hash_unchanged [OF assms(4) inv log that]] assms(5) that by simp
  ultimately show ?thesis by (auto simp: log)
qed

text \<open>C23: Every event that transactions append to an initially empty log passes the verification of its
  signature, over any namespaces and with the signing keys rotated in between, provided that keys stay
  loadable by their identifier and that parameters come back with the same canonical text.\<close>

theorem appended_events_signed:
  assumes "event_log db = []" and "event_sequences db = []" and "signing_contract env"
    and "\<forall>(key, args) \<in> set calls. key_kept env key \<and> params_stable env args"
  shows "\<forall>r \<in> set (event_log (run_appends env calls db)).
    verify_event_signature env (run_appends env calls db) r = Inr ()"
proof -
  have "\<forall>r \<in> set (event_log (run_appends env calls db)).
      verify_event_signature env (run_appends env calls db) r = Inr ()"
    if "log_inv env db" "\<forall>r \<in> set (event_log db). verify_event_signature env db r = Inr ()"
      "\<forall>(key, args) \<in> set calls. key_kept env key \<and> params_stable env args" for db
    using that
  proof (induction calls arbitrary: db)
    case (Cons call calls)
    obtain key args where call: "call = (key, args)" by (cases call)
    let ?db = "fst (append_transaction (env\<lparr>active_key := key\<rparr>) args db)"
    have ok: "key_kept env key" "params_stable env args" using Cons.prems(3) call by auto
    have "log_inv env ?db" using log_inv_append [of "env\<lparr>active_key := key\<rparr>" db args] Cons.prems(1) ok(2) by simp
    moreover have "\<forall>r \<in> set (event_log ?db). verify_event_signature env ?db r = Inr ()"
      using signed_append [OF assms(3) ok Cons.prems(1,2) refl] .
    ultimately show ?case using Cons.IH [of ?db] Cons.prems(3) call by simp
  qed simp
  from this [OF log_inv_empty [OF assms(1,2)] _ assms(4)] show ?thesis using assms(1) by simp
qed

section \<open>A sample log\<close>

text \<open>A stand-in for SHA-256 that tells documents, which begin with a brace, from pairs of digests.\<close>

definition sample_log_env :: log_env where
  "sample_log_env = \<lparr>sha256 = (\<lambda>x. replicate 32 (if take 1 x = [123] then 2 else 1)), hmac = (\<lambda>k m. 7 # k),
     canonical_json = (\<lambda>v. Some (utf8_ascii (dumps (\<lambda>_. ''0.5'') v))), float_repr = (\<lambda>_. ''0.5''),
     isoformat = show_int, parse_iso = (\<lambda>_. None), parse_uuid = Some, jsonb = Some,
     json_loads = (\<lambda>_. JDict []), active_key = Some (''k1'', [5]),
     key_by_id = (\<lambda>i. if i = ''k1'' then Some [5] else None)\<rparr>"

definition sample_append :: append_args where
  "sample_append = \<lparr>in_transaction = True, a_namespace = ''ns'', a_agent = '' agent '',
     a_type = ''project_phase_advanced'', a_params = [], a_result_summary = None, a_parent = None,
     a_parents = [''p1'', ''p2''], a_payload_uri = None, a_payload_hash = None, a_correlation = None,
     a_event_id = None, a_replay_at = None, ctx_correlation = None, py_now = 10, db_clock = 11,
     fresh_uuid = ''e1''\<rparr>"

definition empty_log :: log_db where
  "empty_log = \<lparr>event_log = [], event_sequences = [], event_parents = [], replay_runs = []\<rparr>"

definition sample_event :: event_row where
  "sample_event = \<lparr>ev_id = ''e1'', ev_namespace = ''ns'', ev_agent = ''agent'', ev_type = ''project_phase_advanced'',
     ev_seq = 1, ev_occurred_at = 11, ev_params = Some ''{}'', ev_result_summary = None, ev_parent = Some ''p1'',
     ev_payload_uri = None, ev_payload_hash = None, ev_signature = [7, 5], ev_key_id = ''k1'',
     ev_version = Some 2, ev_chain_hash = Some (replicate 32 1), ev_correlation = None\<rparr>"

definition sample_log :: log_db where
  "sample_log = \<lparr>event_log = [sample_event], event_sequences = [(''ns'', 1)],
     event_parents = [(''e1'', ''p1'', ''ns''), (''e1'', ''p2'', ''ns'')], replay_runs = []\<rparr>"

lemma sample_stable: "params_stable sample_log_env sample_append"
  by (simp add: params_stable_def sample_log_env_def sample_append_def)

lemma sample_contract: "signing_contract sample_log_env"
  by (simp add: signing_contract_def sample_log_env_def)

lemma sample_key_kept: "key_kept sample_log_env (Some (''k1'', [5]))"
  by (simp add: key_kept_def sample_log_env_def)

lemma doc_brace [simp]: "take (Suc 0) (utf8_ascii (dumps fr (JDict d))) = [123]"
  by (simp add: utf8_ascii_def)

lemma sample_hash [simp]:
  "compute_content_hash sample_log_env (JDict d) = replicate 32 2"
  "compute_chain_hash sample_log_env (replicate 32 2) prev = replicate 32 1"
  by (simp_all add: sample_log_env_def compute_content_hash_def compute_chain_hash_def del: dumps.simps)

lemma sample_expected [simp]: "expected_chain_hash sample_log_env prev r = replicate 32 1"
  by (simp add: expected_chain_hash_def row_fields_def build_signing_fields_def)

lemma sample_steps:
  "validate_event_payload (a_type sample_append) (a_agent sample_append) = Inr ''agent''"
  "validate_event_params (a_type sample_append) (a_params sample_append) = Inr ()"
  "validate_params_no_backdated_timestamp sample_log_env now (a_params sample_append) = Inr ()"
  "resolve_occurred_at sample_log_env sample_append db = 11"
  "sign_event sample_log_env doc = Inr (''k1'', [7, 5])"
  "stored_json sample_log_env (Some (JDict (a_params sample_append))) = Inr (Some ''{}'')"
  "stored_json sample_log_env (a_result_summary sample_append) = Inr None"
  "new_event_row sample_log_env sample_append ''agent'' 11 s h (''k1'', [7, 5]) (Some ''{}'') None = sample_event\<lparr>ev_seq := s\<rparr>"
proof -
  have strip: "strip '' agent '' = ''agent''" by code_simp
  have content: "compute_content_hash sample_log_env (append_fields sample_log_env sample_append a t s h) = replicate 32 2"
    for a t s h by (simp add: append_fields_def build_signing_fields_def)
  show "validate_event_payload (a_type sample_append) (a_agent sample_append) = Inr ''agent''"
    by (simp add: validate_event_payload_def strip VALID_EVENT_TYPES_def AGENT_ID_MAX_LEN_def sample_append_def)
  show "validate_event_params (a_type sample_append) (a_params sample_append) = Inr ()"
    by (simp add: validate_event_params_def EVENT_REQUIRED_PARAM_KEYS_def EVENT_FORBIDDEN_PARAM_KEYS_def
        dict_getd_def sample_append_def)
  show "new_event_row sample_log_env sample_append ''agent'' 11 s h (''k1'', [7, 5]) (Some ''{}'') None = sample_event\<lparr>ev_seq := s\<rparr>"
    by (simp add: new_event_row_def content) (simp add: sample_event_def sample_append_def event_uuid_def primary_parent_def)
qed (simp_all add: sample_append_def sample_log_env_def sign_event_def sign_fields_def stored_json_def serialise_jsonb_def
    validate_params_no_backdated_timestamp_def resolve_occurred_at_def)

lemma sample_append_ok:
  assumes "\<forall>r \<in> set (event_log db). ev_occurred_at r \<noteq> 11"
  shows "snd (append_transaction sample_log_env sample_append db) =
    Inr \<lparr>res_event_id = ''e1'', res_event_seq = dict_getd (event_sequences db) ''ns'' 0 + 1, res_occurred_at = 11\<rparr>"
proof -
  let ?seq = "dict_getd (event_sequences db) ''ns'' 0 + 1"
  have call: "in_transaction sample_append" "a_namespace sample_append = ''ns''" by (simp_all add: sample_append_def)
  have "next_event_seq ''ns'' db = (?seq, db\<lparr>event_sequences := dict_set ''ns'' ?seq (event_sequences db)\<rparr>)"
    by (simp add: next_event_seq_def dict_getd_def Let_def split: option.split)
  moreover have "\<not> (\<exists>r \<in> set (event_log db). conflicts (sample_event\<lparr>ev_seq := ?seq\<rparr>) r)"
    using assms by (auto simp: conflicts_def sample_event_def)
  ultimately show ?thesis
    by (simp add: append_transaction_def append_event_def sign_and_insert_def sample_steps call insert_event_def Let_def)
      (simp add: sample_event_def)
qed

text \<open>The same log after its unsigned result summary was rewritten.\<close>

definition rewritten_log :: log_db where
  "rewritten_log = sample_log\<lparr>event_log := [sample_event\<lparr>ev_result_summary := Some ''{}''\<rparr>]\<rparr>"

lemma sample_rows [simp]:
  "rows_of sample_log ''ns'' = [sample_event]"
  "rows_of rewritten_log ''ns'' = [sample_event\<lparr>ev_result_summary := Some ''{}''\<rparr>]"
  by (simp_all add: rows_of_def sample_log_def rewritten_log_def sample_event_def)

lemma sample_between [simp]:
  "rows_between sample_log ''ns'' 1 None = [sample_event]"
  "rows_between rewritten_log ''ns'' 1 None = [sample_event\<lparr>ev_result_summary := Some ''{}''\<rparr>]"
  "rows_between rewritten_log ''ns'' 1 (Some 1) = [sample_event\<lparr>ev_result_summary := Some ''{}''\<rparr>]"
  by (simp_all add: rows_between_def sample_event_def)

lemma sample_verifies:
  "verify_merkle_chain sample_log_env ''ns'' 1 None None None sample_log =
     Inr \<lparr>cr_valid = True, cr_checked = 1, cr_first_break = None, cr_last_verified_seq = 1, cr_reason = None,
          cr_anchor_match = None, cr_anchor_seq = None\<rparr>"
  "verify_merkle_chain sample_log_env ''ns'' 1 None (Some (replicate 32 1)) (Some 1) rewritten_log =
     Inr \<lparr>cr_valid = True, cr_checked = 1, cr_first_break = None, cr_last_verified_seq = 1, cr_reason = None,
          cr_anchor_match = Some True, cr_anchor_seq = Some 1\<rparr>"
  by (simp_all add: verify_merkle_chain_def counter_mismatch_def max_event_seq_def Let_def)
    (simp_all add: sample_event_def sample_log_def rewritten_log_def)

lemma sample_inputs:
  "hashed_inputs sample_log_env GENESIS_SENTINEL [sample_event\<lparr>ev_result_summary := c\<rparr>] =
     hashed_inputs sample_log_env GENESIS_SENTINEL [sample_event]"
  "\<exists>d e. hashed_inputs sample_log_env GENESIS_SENTINEL [sample_event] = [d, e] \<and> sha256 sample_log_env d \<noteq> sha256 sample_log_env e"
  "sha256 sample_log_env x \<noteq> GENESIS_SENTINEL"
  "length (sha256 sample_log_env x) = 32"
proof -
  have doc: "row_doc sample_log_env p (sample_event\<lparr>ev_result_summary := c\<rparr>) = row_doc sample_log_env p sample_event" for p c
    by (simp add: row_doc_def row_fields_def row_params_def)
  show "hashed_inputs sample_log_env GENESIS_SENTINEL [sample_event\<lparr>ev_result_summary := c\<rparr>] =
      hashed_inputs sample_log_env GENESIS_SENTINEL [sample_event]" for c
    by (simp add: doc)
  have "take (Suc 0) (utf8_ascii (row_doc sample_log_env p r)) = [123]" for p r
    by (simp add: row_doc_def row_fields_def build_signing_fields_def del: dumps.simps)
  then show "\<exists>d e. hashed_inputs sample_log_env GENESIS_SENTINEL [sample_event] = [d, e] \<and> sha256 sample_log_env d \<noteq> sha256 sample_log_env e"
    by (simp add: Let_def) (simp add: sample_log_env_def)
qed (simp_all add: sample_log_env_def GENESIS_SENTINEL_def)

theorem anchored_history_fixed_witness:
  "chain_docs sample_log_env GENESIS_SENTINEL (rows_between sample_log ''ns'' 1 None) =
    chain_docs sample_log_env GENESIS_SENTINEL (rows_between rewritten_log ''ns'' 1 (Some 1))"
proof -
  obtain d e where inputs: "hashed_inputs sample_log_env GENESIS_SENTINEL [sample_event] = [d, e]"
    "sha256 sample_log_env d \<noteq> sha256 sample_log_env e"
    using sample_inputs(2) by blast
  have hash: "ev_chain_hash sample_event = Some (replicate 32 1)" by (simp add: sample_event_def)
  show ?thesis
    by (rule anchored_history_fixed [OF _ sample_verifies(1) _ _ _ sample_verifies(2)])
      (use inputs hash in \<open>auto simp: sample_inputs(1,3,4) inj_on_def simp del: hashed_inputs.simps\<close>)
qed

theorem appended_log_verifies_witness:
  "let db' = run_appends sample_log_env [(Some (''k1'', [5]), sample_append)] empty_log; n = length (rows_of db' ''ns'') in
    map ev_seq (rows_of db' ''ns'') = map int [1..<n + 1] \<and>
    verify_merkle_chain sample_log_env ''ns'' 1 None None None db' = Inr
      \<lparr>cr_valid = True, cr_checked = int n, cr_first_break = None, cr_last_verified_seq = int n,
       cr_reason = None, cr_anchor_match = None, cr_anchor_seq = None\<rparr>"
  by (rule appended_log_verifies) (simp_all add: empty_log_def sample_stable)

theorem appended_events_signed_witness:
  "list_all (\<lambda>r. verify_event_signature sample_log_env
      (run_appends sample_log_env [(Some (''k1'', [5]), sample_append)] empty_log) r = Inr ())
    (event_log (run_appends sample_log_env [(Some (''k1'', [5]), sample_append)] empty_log))"
  unfolding list_all_iff
  by (rule appended_events_signed)
    (simp_all add: empty_log_def sample_stable sample_contract sample_key_kept)

end
