(* ===== verification/ChainTick.thy ===== *)
theory ChainTick
  imports EventLogChain
begin

text \<open>
  The periodic verification of the hash chains (\<^verbatim>\<open>_chain_verification_tick\<close> of \<^verbatim>\<open>src/nce/cron.py\<close>): each
  namespace is verified from a bounded depth and a failure is recorded as an event. The lock, the alerts and
  the log lines are not modelled. The theorems state what the tick and the full verification see of a log
  whose newest events were deleted.
\<close>

section \<open>The tick\<close>

text \<open>\<open>params ->> key\<close>: the text of a field of a \<open>jsonb\<close> object, \<open>None\<close> for SQL NULL.\<close>

definition json_text :: "log_env \<Rightarrow> json \<Rightarrow> string \<Rightarrow> string option" where
  "json_text env v key = (case v of
      JDict d \<Rightarrow> (case dict_get d key of
          None \<Rightarrow> None | Some JNull \<Rightarrow> None | Some (JStr s) \<Rightarrow> Some s | Some w \<Rightarrow> Some (dumps (float_repr env) w))
    | _ \<Rightarrow> None)"

definition show_break :: "int option \<Rightarrow> string" where
  "show_break b = (case b of None \<Rightarrow> ''None'' | Some n \<Rightarrow> show_int n)"

definition already_recorded :: "log_env \<Rightarrow> log_db \<Rightarrow> string \<Rightarrow> int option \<Rightarrow> bool" where
  "already_recorded env db ns b \<longleftrightarrow> (\<exists>r \<in> set (rows_of db ns).
     ev_type r = ''chain_verification_failed'' \<and>
     json_text env (row_params env r) ''first_break'' = Some (show_break b))"

definition start_of_depth :: "int \<Rightarrow> string \<Rightarrow> log_db \<Rightarrow> int" where
  "start_of_depth depth ns db =
     (if depth > 0
      then max 1 ((case max_event_seq (rows_of db ns) of None \<Rightarrow> 0 | Some n \<Rightarrow> n) - depth + 1)
      else 1)"

text \<open>The event that records a failure; \<open>ctx\<close> supplies the clocks, the fresh UUID and the correlation.\<close>

definition failure_event :: "append_args \<Rightarrow> string \<Rightarrow> chain_report \<Rightarrow> append_args" where
  "failure_event ctx ns res = ctx\<lparr>in_transaction := True, a_namespace := ns, a_agent := ''cron.chain_verify'',
     a_type := ''chain_verification_failed'',
     a_params := [(''first_break'', (case cr_first_break res of None \<Rightarrow> JNull | Some n \<Rightarrow> JInt n)),
       (''reason'', JStr (case cr_reason res of
          Some reason \<Rightarrow> reason | None \<Rightarrow> ''Merkle chain signature or hash mismatch''))],
     a_result_summary := None, a_parent := None, a_parents := [], a_payload_uri := None, a_payload_hash := None,
     a_correlation := None, a_event_id := None, a_replay_at := None\<rparr>"

text \<open>Which errors of \<open>append_event\<close> the tick catches: the log's own exceptions are not among them.\<close>

definition tick_catches :: "log_error \<Rightarrow> bool" where
  "tick_catches e = (case e of LogValueError _ \<Rightarrow> True | PostgresError \<Rightarrow> True | _ \<Rightarrow> False)"

definition tick_namespace ::
  "log_env \<Rightarrow> int \<Rightarrow> append_args \<Rightarrow> string \<Rightarrow> log_db \<Rightarrow> log_db \<times> (log_error + bool)" where
  "tick_namespace env depth ctx ns db =
     (case verify_merkle_chain env ns (start_of_depth depth ns db) None None None db of
        Inl e \<Rightarrow> (db, if tick_catches e then Inr False else Inl e)
      | Inr res \<Rightarrow>
          if cr_valid res then (db, Inr True)
          else if already_recorded env db ns (cr_first_break res) then (db, Inr False)
          else case append_transaction env (failure_event ctx ns res) db of
                 (db', Inr _) \<Rightarrow> (db', Inr False)
               | (db', Inl e) \<Rightarrow> (db', if tick_catches e then Inr False else Inl e))"

text \<open>The result is the value of the gauge, or the exception that left the tick before it was set.\<close>

fun chain_verification_tick ::
  "log_env \<Rightarrow> int \<Rightarrow> append_args \<Rightarrow> string list \<Rightarrow> bool \<Rightarrow> log_db \<Rightarrow> log_db \<times> (log_error + bool)" where
  "chain_verification_tick env depth ctx [] all_valid db = (db, Inr all_valid)"
| "chain_verification_tick env depth ctx (ns # nss) all_valid db =
     (case tick_namespace env depth ctx ns db of
        (db', Inl e) \<Rightarrow> (db', Inl e)
      | (db', Inr ok) \<Rightarrow> chain_verification_tick env depth ctx nss (all_valid \<and> ok) db')"

section \<open>A truncated log\<close>

text \<open>Rows of a namespace above a sequence number are deleted; the counter is left alone.\<close>

definition truncate_log :: "string \<Rightarrow> nat \<Rightarrow> log_db \<Rightarrow> log_db" where
  "truncate_log ns m db = db\<lparr>event_log := filter (\<lambda>r. ev_namespace r = ns \<longrightarrow> ev_seq r \<le> int m) (event_log db)\<rparr>"

lemma truncate_log_counter [simp]: "event_sequences (truncate_log ns m db) = event_sequences db"
  by (simp add: truncate_log_def)

lemma append_success:
  assumes "append_transaction env args db = (db', Inr res)"
  shows "\<exists>row. event_log db' = event_log db @ [row] \<and>
    event_sequences db' = dict_set (a_namespace args) (ev_seq row) (event_sequences db) \<and>
    ev_seq row = dict_getd (event_sequences db) (a_namespace args) 0 + 1 \<and>
    appended_row env args db (ev_seq row) row"
proof (cases rule: append_transaction_cases [of env args db])
  case failed
  then show ?thesis using assms by simp
next
  case (appended row db2)
  have "db2 = db'" using appended(1) assms by simp
  then show ?thesis using appended(2-5) by blast
qed

lemma filter_seqs:
  assumes "map ev_seq rs = map int [1..<length rs + 1]"
  shows "filter (\<lambda>r. ev_seq r \<le> int m) rs = take m rs"
    and "filter (\<lambda>r. int m < ev_seq r) rs = drop m rs"
proof -
  have seq: "ev_seq (rs ! i) = int i + 1" if "i < length rs" for i using seqs_sorted(3) [OF assms that] .
  have low: "ev_seq r \<le> int m" if "r \<in> set (take m rs)" for r
    using that seq by (auto simp: in_set_conv_nth)
  have high: "int m < ev_seq r" if "r \<in> set (drop m rs)" for r
    using that seq by (auto simp: in_set_conv_nth)
  have "filter P rs = filter P (take m rs) @ filter P (drop m rs)" for P
    by (metis append_take_drop_id filter_append)
  moreover have "filter (\<lambda>r. ev_seq r \<le> int m) (take m rs) = take m rs"
    "filter (\<lambda>r. int m < ev_seq r) (drop m rs) = drop m rs"
    using low high by (simp_all add: filter_id_conv)
  moreover have "filter (\<lambda>r. ev_seq r \<le> int m) (drop m rs) = []" "filter (\<lambda>r. int m < ev_seq r) (take m rs) = []"
    using low high by (simp_all add: filter_empty_conv not_le not_less)
  ultimately show "filter (\<lambda>r. ev_seq r \<le> int m) rs = take m rs" "filter (\<lambda>r. int m < ev_seq r) rs = drop m rs"
    by simp_all
qed

lemma rows_of_truncate:
  assumes "log_inv env db"
  shows "rows_of (truncate_log ns m db) ns = take m (rows_of db ns)"
proof -
  have "rows_of (truncate_log ns m db) ns = filter (\<lambda>r. ev_seq r \<le> int m) (rows_of db ns)"
    by (auto simp: rows_of_def truncate_log_def intro: filter_cong)
  then show ?thesis using filter_seqs(1) [OF log_invD(1) [OF assms]] by simp
qed

lemma seqs_take:
  assumes "map ev_seq rs = map int [1..<length rs + 1]"
  shows "map ev_seq (take m rs) = map int [1..<length (take m rs) + 1]"
proof -
  have "map ev_seq (take m rs) = take m (map int [1..<length rs + 1])" by (simp add: take_map [symmetric] assms)
  then show ?thesis by (simp add: take_map min_def del: upt_Suc)
qed

lemma find_seq:
  assumes "map ev_seq rs = map int [1..<length rs + 1]" and "j < length rs"
  shows "find (\<lambda>r. ev_seq r = int j + 1) rs = Some (rs ! j)"
  unfolding find_Some_iff using assms(2) seqs_sorted(3) [OF assms(1)] by (intro exI [of _ j]) auto

lemma fold_max_last:
  fixes x y :: int
  assumes "x \<le> y" and "\<forall>s \<in> set ss. s \<le> y"
  shows "max y (fold max ss x) = y"
  using assms by (induction ss arbitrary: x) simp_all

text \<open>The periodic check does not see that the newest events were deleted from a long log: when more
  events than the verification depth remain, the tick reports the truncated chain as valid and records
  nothing, although the sequence counter still tells how many events there were.\<close>

theorem truncated_log_passes:
  assumes "log_inv env db" and "0 < depth" and "depth < m" and "m < length (rows_of db ns)"
  shows "tick_namespace env (int depth) ctx ns (truncate_log ns m db) = (truncate_log ns m db, Inr True) \<and>
    counter_mismatch (truncate_log ns m db) ns"
proof -
  let ?db = "truncate_log ns m db" and ?rs = "take m (rows_of db ns)" and ?k = "m - depth"
  note inv = log_invD [OF assms(1), of ns]
  have rows: "rows_of ?db ns = ?rs" using rows_of_truncate [OF assms(1)] .
  have len: "length ?rs = m" using assms(4) by simp
  have seqs: "map ev_seq ?rs = map int [1..<length ?rs + 1]" using seqs_take [OF inv(1)] .
  have links: "chain_linked env GENESIS_SENTINEL ?rs"
    using inv(3) by (metis append_take_drop_id chain_linked_append)
  have top: "(case max_event_seq ?rs of None \<Rightarrow> 0 | Some n \<Rightarrow> n) = int m" using max_event_seq_inv [OF seqs] len by simp
  have start: "start_of_depth (int depth) ns ?db = int ?k + 1"
    using assms(2,3) by (simp add: start_of_depth_def rows top of_nat_diff)
  have "filter (\<lambda>r. int ?k + 1 \<le> ev_seq r) ?rs = drop ?k ?rs"
    using filter_seqs(2) [OF seqs, of ?k] by (simp only: add1_zle_eq)
  moreover have "sorted (map ev_seq (drop ?k ?rs))"
    using seqs_sorted(1) [OF seqs] by (simp add: drop_map [symmetric] sorted_wrt_drop)
  ultimately have between: "rows_between ?db ns (int ?k + 1) None = drop ?k ?rs"
    by (simp add: rows_between_def rows sort_key_id_if_sorted)
  have "find (\<lambda>r. ev_seq r = int ?k) ?rs = Some (?rs ! (?k - 1))"
    using find_seq [OF seqs, of "?k - 1"] assms(2,3) len by (simp add: of_nat_diff)
  moreover have "ev_chain_hash (?rs ! (?k - 1)) = Some (chain_from env GENESIS_SENTINEL (take ?k ?rs))"
    using chain_linked_nth_hash [OF links, of "?k - 1"] assms(2,3) len by (simp add: Suc_diff_Suc)
  ultimately have start_hash: "starting_hash ?db ns (int ?k + 1) = chain_from env GENESIS_SENTINEL (take ?k ?rs)"
    using assms(2,3) by (simp add: starting_hash_def rows chain_hash_or_genesis_def)
  have "chain_linked env (chain_from env GENESIS_SENTINEL (take ?k ?rs)) (drop ?k ?rs)"
    using links by (metis append_take_drop_id chain_linked_append)
  moreover have "int ?k + 1 \<noteq> 1" using assms(3) by simp
  ultimately have "\<exists>res. verify_merkle_chain env ns (int ?k + 1) None None None ?db = Inr res \<and> cr_valid res"
    using start_hash between by (simp add: verify_merkle_chain_def Let_def fold_verify_row_break)
  moreover have "counter_mismatch ?db ns"
    using inv(2) top assms(4) by (simp add: counter_mismatch_def rows dict_getd_def)
  ultimately show ?thesis by (auto simp: tick_namespace_def start)
qed

text \<open>One more event hides a truncation for good: when the newest events of a namespace are deleted and any
  event is appended afterwards, the full verification reports a valid chain, although sequence numbers are
  missing from it.\<close>

theorem truncation_masked:
  assumes "log_inv env db" and "m < length (rows_of db ns)"
    and "append_transaction env args (truncate_log ns m db) = (db', Inr res)"
    and "a_namespace args = ns" and "params_stable env args"
  shows "\<exists>rep. verify_merkle_chain env ns 1 None None None db' = Inr rep \<and> cr_valid rep \<and>
    cr_checked rep = int m + 1 \<and> cr_last_verified_seq rep = int (length (rows_of db ns)) + 1"
proof -
  let ?t = "truncate_log ns m db" and ?rs = "take m (rows_of db ns)" and ?n = "length (rows_of db ns)"
  note inv = log_invD [OF assms(1), of ns]
  have rows: "rows_of ?t ns = ?rs" using rows_of_truncate [OF assms(1)] .
  have seqs: "map ev_seq ?rs = map int [1..<length ?rs + 1]" using seqs_take [OF inv(1)] .
  have links: "chain_linked env GENESIS_SENTINEL ?rs" using inv(3) by (metis append_take_drop_id chain_linked_append)
  obtain row where log: "event_log db' = event_log ?t @ [row]"
    and counter: "event_sequences db' = dict_set ns (ev_seq row) (event_sequences ?t)"
    and seq: "ev_seq row = int ?n + 1" and row: "appended_row env args ?t (ev_seq row) row"
    using append_success [OF assms(3)] assms(4) inv(2) by auto
  have rows': "rows_of db' ns = ?rs @ [row]"
    using rows_of_appended [OF log] rows appended_rowD(1) [OF row] assms(4) by simp
  have "\<forall>s \<in> set ?rs. 1 \<le> ev_seq s \<and> ev_seq s \<le> int m"
    using seqs_sorted(3) [OF seqs] by (auto simp: in_set_conv_nth)
  then have low: "\<forall>s \<in> set ?rs. 1 \<le> ev_seq s \<and> ev_seq s \<le> ev_seq row" using assms(2) seq by force
  have "filter (\<lambda>r. 1 \<le> ev_seq r) (?rs @ [row]) = ?rs @ [row]" using low seq by (simp add: filter_id_conv)
  moreover have "sorted (map ev_seq (?rs @ [row]))" using low seqs_sorted(1) [OF seqs] by (simp add: sorted_append)
  ultimately have between: "rows_between db' ns 1 None = ?rs @ [row]"
    by (simp add: rows_between_def rows' sort_key_id_if_sorted)
  have "ev_chain_hash row = Some (expected_chain_hash env (chain_from env GENESIS_SENTINEL ?rs) row)"
    using appended_row_linked [OF row assms(5)] previous_hash_is_head [of ?t ns env] rows seqs links assms(4) by simp
  then have "chain_linked env GENESIS_SENTINEL (?rs @ [row])" using links by simp
  moreover have "\<not> counter_mismatch db' ns"
    using low by (cases ?rs) (auto simp: counter_mismatch_def rows' counter max_event_seq_def fold_max_last)
  ultimately show ?thesis
    using assms(2) seq
    by (simp add: verify_merkle_chain_def starting_hash_def between Let_def fold_verify_row_break
        fold_verify_row_fields del: fold_append chain_linked.simps chain_linked_append)
qed

section \<open>Samples\<close>

definition long_log :: log_db where
  "long_log = sample_log\<lparr>event_log := [sample_event, sample_event\<lparr>ev_seq := 2\<rparr>, sample_event\<lparr>ev_seq := 3\<rparr>],
     event_sequences := [(''ns'', 3)]\<rparr>"

lemma sample_logs_inv: "log_inv sample_log_env sample_log" "log_inv sample_log_env long_log"
proof -
  have "log_inv sample_log_env sample_log \<and> log_inv sample_log_env long_log"
    unfolding log_inv_def
    by (auto simp: rows_of_def long_log_def sample_log_def sample_event_def dict_getd_def upt_conv_Cons)
  then show "log_inv sample_log_env sample_log" "log_inv sample_log_env long_log" by blast+
qed

theorem truncated_log_passes_witness:
  "tick_namespace sample_log_env (int 1) sample_append ''ns'' (truncate_log ''ns'' 2 long_log) =
     (truncate_log ''ns'' 2 long_log, Inr True) \<and>
   counter_mismatch (truncate_log ''ns'' 2 long_log) ''ns''"
  by (rule truncated_log_passes [OF sample_logs_inv(2)]) (simp_all add: rows_of_def long_log_def sample_event_def)

theorem truncation_masked_witness:
  "\<exists>rep. verify_merkle_chain sample_log_env ''ns'' 1 None None None
      (fst (append_transaction sample_log_env sample_append (truncate_log ''ns'' 0 sample_log))) = Inr rep \<and>
    cr_valid rep \<and> cr_checked rep = int 0 + 1 \<and>
    cr_last_verified_seq rep = int (length (rows_of sample_log ''ns'')) + 1"
proof -
  let ?t = "truncate_log ''ns'' 0 sample_log"
  have "\<forall>r \<in> set (event_log ?t). ev_occurred_at r \<noteq> 11"
    by (simp add: truncate_log_def sample_log_def sample_event_def)
  then have ok: "append_transaction sample_log_env sample_append ?t =
      (fst (append_transaction sample_log_env sample_append ?t),
       Inr \<lparr>res_event_id = ''e1'', res_event_seq = dict_getd (event_sequences ?t) ''ns'' 0 + 1, res_occurred_at = 11\<rparr>)"
    by (intro prod_eqI) (simp_all add: sample_append_ok)
  show ?thesis
    by (rule truncation_masked [OF sample_logs_inv(1) _ ok]) (simp_all add: sample_stable, simp add: sample_append_def)
qed

end
