(* ===== verification/Degradation.thy ===== *)
theory Degradation
  imports PyValues
begin

text \<open>
  The degradation register (\<^verbatim>\<open>src/nce/degradation.py\<close>): per-namespace counters of graceful
  fallbacks. Every method holds the register's lock for its whole body, so each is one step on the
  dictionary of dictionaries. The clock's ISO text is an input of \<open>register_record\<close>.
\<close>

section \<open>Model\<close>

record DegradationRecord =
  dr_namespace_id :: string
  dr_engine :: string
  dr_code :: string
  dr_count :: int
  dr_first_seen_at :: string
  dr_last_seen_at :: string
  dr_detail :: string
  dr_onboarding_hint :: string

type_synonym DegradationRegister = "(string, (string, DegradationRecord) dict) dict"

record degradation_event =
  de_namespace :: "string option"
  de_engine :: string
  de_code :: string
  de_detail :: string
  de_hint :: string

definition namespace_key :: "string option \<Rightarrow> string" where
  "namespace_key ns = (case ns of None \<Rightarrow> ''system'' | Some s \<Rightarrow> strip s)"

definition register_record :: "string \<Rightarrow> degradation_event \<Rightarrow> DegradationRegister \<Rightarrow> DegradationRecord \<times> DegradationRegister" where
  "register_record now_iso ev reg =
     (let ns_key = namespace_key (de_namespace ev);
          ns_dict = dict_getd reg ns_key [];
          rec = (case dict_get ns_dict (de_code ev) of
             Some rec \<Rightarrow> rec\<lparr>dr_count := dr_count rec + 1, dr_last_seen_at := now_iso,
               dr_detail := (if de_detail ev \<noteq> [] then de_detail ev else dr_detail rec),
               dr_onboarding_hint := (if de_hint ev \<noteq> [] then de_hint ev else dr_onboarding_hint rec)\<rparr>
           | None \<Rightarrow> \<lparr>dr_namespace_id = ns_key, dr_engine = strip (de_engine ev), dr_code = strip (de_code ev),
               dr_count = 1, dr_first_seen_at = now_iso, dr_last_seen_at = now_iso,
               dr_detail = strip (de_detail ev), dr_onboarding_hint = strip (de_hint ev)\<rparr>)
      in (rec, dict_set ns_key (dict_set (de_code ev) rec ns_dict) reg))"

definition get_degradations :: "string option \<Rightarrow> DegradationRegister \<Rightarrow> DegradationRecord list" where
  "get_degradations ns reg = (case ns of
      Some s \<Rightarrow> map snd (dict_getd reg (strip s) [])
    | None \<Rightarrow> concat (map (\<lambda>(_, ns_dict). map snd ns_dict) reg))"

definition count_in :: "(string, DegradationRecord) dict \<Rightarrow> int" where
  "count_in ns_dict = (\<Sum>(_, r)\<leftarrow>ns_dict. dr_count r)"

definition total_count :: "string option \<Rightarrow> DegradationRegister \<Rightarrow> int" where
  "total_count ns reg = (case ns of
      Some s \<Rightarrow> count_in (dict_getd reg (strip s) [])
    | None \<Rightarrow> (\<Sum>(_, ns_dict)\<leftarrow>reg. count_in ns_dict))"

record degradation_summary =
  total_events :: int
  unique_codes :: "string list"
  by_engine :: "(string, int) dict"
  by_namespace :: "(string, int) dict"

definition tally :: "'k \<Rightarrow> int \<Rightarrow> ('k, int) dict \<Rightarrow> ('k, int) dict" where
  "tally k n d = dict_set k (dict_getd d k 0 + n) d"

definition summarise_record :: "string \<Rightarrow> string \<times> DegradationRecord \<Rightarrow> degradation_summary \<Rightarrow> degradation_summary" where
  "summarise_record ns_key cr s = (case cr of (code, rec) \<Rightarrow>
     \<lparr>total_events = total_events s + dr_count rec, unique_codes = set_add code (unique_codes s),
      by_engine = tally (dr_engine rec) (dr_count rec) (by_engine s),
      by_namespace = tally ns_key (dr_count rec) (by_namespace s)\<rparr>)"

definition get_summary :: "DegradationRegister \<Rightarrow> degradation_summary" where
  "get_summary reg =
     fold (\<lambda>(ns_key, ns_dict) s. fold (summarise_record ns_key) ns_dict s) reg
       \<lparr>total_events = 0, unique_codes = [], by_engine = [], by_namespace = []\<rparr>"

definition clear_register :: "string option \<Rightarrow> DegradationRegister \<Rightarrow> DegradationRegister" where
  "clear_register ns reg = (case ns of Some s \<Rightarrow> AList.delete (strip s) reg | None \<Rightarrow> [])"

section \<open>Lemmas\<close>

lemma sum_dict_set:
  fixes f :: "'v \<Rightarrow> int"
  shows "(\<Sum>(_, v)\<leftarrow>AList.update k v' d. f v) =
    (\<Sum>(_, v)\<leftarrow>d. f v) - (case map_of d k of None \<Rightarrow> 0 | Some w \<Rightarrow> f w) + f v'"
  by (induction d) auto

lemma count_in_Nil [simp]: "count_in [] = 0"
  by (simp add: count_in_def)

lemma count_in_Cons [simp]: "count_in ((c, r) # d) = dr_count r + count_in d"
  by (simp add: count_in_def)

lemma count_in_set [simp]:
  "count_in (AList.update k r d) = count_in d - (case map_of d k of None \<Rightarrow> 0 | Some r \<Rightarrow> dr_count r) + dr_count r"
  by (simp add: count_in_def sum_dict_set)

lemma register_record_ns:
  assumes "register_record t ev reg = (rec, reg')"
  shows "count_in (dict_getd reg' ns []) =
    count_in (dict_getd reg ns []) + (if ns = namespace_key (de_namespace ev) then 1 else 0)"
  using assms by (auto simp: register_record_def Let_def split: option.splits)

lemma register_record_total:
  assumes "register_record t ev reg = (rec, reg')"
  shows "total_count None reg' = total_count None reg + 1"
  using assms
  by (auto simp: register_record_def Let_def total_count_def sum_dict_set dict_getd_def split: option.splits)

lemma sum_tally: "(\<Sum>(_, v)\<leftarrow>tally k n d. v) = (\<Sum>(_, v)\<leftarrow>d. v) + n"
  using sum_dict_set [of "\<lambda>x. x" k "dict_getd d k 0 + n" d]
  by (simp add: tally_def dict_getd_def split: option.splits)

lemma getd_tally [simp]: "dict_getd (tally k n d) k' 0 = dict_getd d k' 0 + (if k' = k then n else 0)"
  by (simp add: tally_def)

lemma summarise_record_simps [simp]:
  "total_events (summarise_record ns (c, r) s) = total_events s + dr_count r"
  "unique_codes (summarise_record ns (c, r) s) = set_add c (unique_codes s)"
  "by_engine (summarise_record ns (c, r) s) = tally (dr_engine r) (dr_count r) (by_engine s)"
  "by_namespace (summarise_record ns (c, r) s) = tally ns (dr_count r) (by_namespace s)"
  by (simp_all add: summarise_record_def)

lemma summarise_fold:
  "let s' = fold (summarise_record ns) ds s in
     total_events s' = total_events s + count_in ds \<and>
     (\<Sum>(_, v)\<leftarrow>by_engine s'. v) = (\<Sum>(_, v)\<leftarrow>by_engine s. v) + count_in ds \<and>
     set (unique_codes s') = set (unique_codes s) \<union> fst ` set ds \<and>
     (distinct (unique_codes s) \<longrightarrow> distinct (unique_codes s')) \<and>
     (\<forall>k. dict_getd (by_namespace s') k 0 =
        dict_getd (by_namespace s) k 0 + (if k = ns then count_in ds else 0))"
proof (induction ds arbitrary: s)
  case (Cons cr ds)
  obtain c r where cr: "cr = (c, r)" by force
  from Cons.IH [of "summarise_record ns cr s"] show ?case
    by (auto simp: Let_def cr sum_tally)
qed simp

lemma get_summary_fold:
  "let s' = fold (\<lambda>(ns_key, ns_dict) s. fold (summarise_record ns_key) ns_dict s) reg s in
     total_events s' = total_events s + total_count None reg \<and>
     (\<Sum>(_, v)\<leftarrow>by_engine s'. v) = (\<Sum>(_, v)\<leftarrow>by_engine s. v) + total_count None reg \<and>
     set (unique_codes s') = set (unique_codes s) \<union> (\<Union>(_, d)\<in>set reg. fst ` set d) \<and>
     (distinct (unique_codes s) \<longrightarrow> distinct (unique_codes s')) \<and>
     (distinct (map fst reg) \<longrightarrow> (\<forall>k. dict_getd (by_namespace s') k 0 =
        dict_getd (by_namespace s) k 0 + count_in (dict_getd reg k [])))"
proof (induction reg arbitrary: s)
  case (Cons nd reg)
  obtain ns d where nd: "nd = (ns, d)" by force
  have absent: "ns \<notin> set (map fst reg) \<Longrightarrow> dict_getd reg ns [] = []"
    by (simp add: dict_getd_def map_of_eq_None_iff [THEN iffD2])
  show ?case
    using Cons.IH [of "fold (summarise_record ns) d s"] summarise_fold [of ns d s] absent
    by (auto simp: Let_def nd total_count_def dict_getd_def)
qed (simp add: total_count_def dict_getd_def)

lemma register_record_distinct:
  "register_record t ev reg = (rec, reg') \<Longrightarrow> distinct (map fst reg) \<Longrightarrow> distinct (map fst reg')"
  by (auto simp: register_record_def Let_def intro: distinct_dict_set)

definition run_events :: "(string \<times> degradation_event) list \<Rightarrow> DegradationRegister" where
  "run_events evs = fold (\<lambda>(t, ev) reg. snd (register_record t ev reg)) evs []"

lemma run_events_snoc: "run_events (evs @ [(t, ev)]) = snd (register_record t ev (run_events evs))"
  by (simp add: run_events_def)

lemma run_events_counts:
  "distinct (map fst (run_events evs)) \<and> total_count None (run_events evs) = int (length evs) \<and>
   count_in (dict_getd (run_events evs) ns []) =
     int (length (filter (\<lambda>(t, ev). namespace_key (de_namespace ev) = ns) evs))"
proof (induction evs rule: rev_induct)
  case Nil
  show ?case by (simp add: run_events_def total_count_def dict_getd_def)
next
  case (snoc e evs)
  obtain t ev where e: "e = (t, ev)" by force
  obtain rec reg' where r: "register_record t ev (run_events evs) = (rec, reg')" by force
  show ?case
    using snoc.IH register_record_ns [OF r, of ns] register_record_total [OF r] register_record_distinct [OF r]
    by (simp add: e run_events_snoc r)
qed

text \<open>The register counts every fallback once: after any sequence of recorded events, the total of a namespace
  is the number of events recorded under its key, the overall total is the number of events, and the summary
  splits that same total by namespace and by engine.\<close>

theorem register_counts_events:
  "total_count (Some ns) (run_events evs) =
     int (length (filter (\<lambda>(t, ev). namespace_key (de_namespace ev) = strip ns) evs)) \<and>
   total_count None (run_events evs) = int (length evs) \<and>
   total_events (get_summary (run_events evs)) = int (length evs) \<and>
   (\<Sum>(_, n)\<leftarrow>by_engine (get_summary (run_events evs)). n) = int (length evs) \<and>
   dict_getd (by_namespace (get_summary (run_events evs))) (strip ns) 0 = total_count (Some ns) (run_events evs)"
  using run_events_counts [of evs "strip ns"]
    get_summary_fold [of "run_events evs" "\<lparr>total_events = 0, unique_codes = [], by_engine = [], by_namespace = []\<rparr>"]
  by (simp add: Let_def get_summary_def total_count_def dict_getd_def)

end
