(* ===== verification/TrustDial.thy ===== *)
theory TrustDial
  imports Degradation
begin

text \<open>
  The trust dial (\<^verbatim>\<open>src/nce/trust_dial.py\<close>): a tenant's autonomy tier (1 autonomous to 4 advisor
  only), the precision of its recorded decisions, and the tier the measurements propose. The tables
  \<open>namespaces\<close> (its \<open>metadata\<close> column) and \<open>decision_feedback\<close> are inputs and results; a value of a JSON
  column is what the driver returns for it, \<open>loads\<close> and \<open>parse_float\<close> stand for \<open>json.loads\<close> and \<open>float\<close> on
  text, with \<open>None\<close> for the exception the code catches.
\<close>

section \<open>Tiers and decisions\<close>

definition MIN_SAMPLE_SIZE :: int where
  "MIN_SAMPLE_SIZE = 5"

definition TIER_NAMES :: "(int, string) dict" where
  "TIER_NAMES = [(1, ''autonomous''), (2, ''actor_confirm''), (3, ''advisor_pl_review''), (4, ''advisor_only'')]"

definition TIER_LABELS :: "(int, string) dict" where
  "TIER_LABELS = [(1, ''Tier 1 (Autonomous)''), (2, ''Tier 2 (Actor/Confirm)''),
     (3, ''Tier 3 (Advisor + PL Review)''), (4, ''Tier 4 (Advisor Only)'')]"

definition POSITIVE_DECISIONS :: "string set" where
  "POSITIVE_DECISIONS = {''accept'', ''accepted'', ''held'', ''succeeded'', ''confirm'', ''confirmed'', ''approved''}"

definition NEGATIVE_DECISIONS :: "string set" where
  "NEGATIVE_DECISIONS = {''override'', ''overridden'', ''deviated'', ''rework'', ''reject'', ''rejected''}"

section \<open>The configured tier\<close>

text \<open>The \<open>metadata\<close> cell as a dictionary: text is parsed (broken text counts as empty), other scalars count as empty.\<close>

definition parse_meta :: "(string \<Rightarrow> json option) \<Rightarrow> json \<Rightarrow> json" where
  "parse_meta loads meta = (case meta of
      JStr s \<Rightarrow> (case loads s of Some v \<Rightarrow> v | None \<Rightarrow> JDict [])
    | JDict d \<Rightarrow> JDict d
    | _ \<Rightarrow> JDict [])"

text \<open>\<open>tier_val in (1, 2, 3, 4)\<close> compares by value, so \<open>True\<close> and \<open>2.0\<close> are members.\<close>

definition tier_value :: "json \<Rightarrow> int option" where
  "tier_value v = (let i = (case v of
        JInt i \<Rightarrow> Some i
      | JBool b \<Rightarrow> Some (if b then 1 else 0)
      | JFloat (Fin x) \<Rightarrow> if x = of_int \<lfloor>x\<rfloor> then Some \<lfloor>x\<rfloor> else None
      | _ \<Rightarrow> None)
     in case i of Some n \<Rightarrow> if n \<in> {1, 2, 3, 4} then Some n else None | None \<Rightarrow> None)"

definition engine_key :: "string option \<Rightarrow> string" where
  "engine_key engine = (case engine of None \<Rightarrow> ''global'' | Some e \<Rightarrow> if e = [] then ''global'' else strip e)"

definition get_tenant_configured_tier ::
    "(string \<Rightarrow> json option) \<Rightarrow> json option \<Rightarrow> string option \<Rightarrow> py_error + int" where
  "get_tenant_configured_tier loads row engine =
     (case row of
        None \<Rightarrow> Inr 3
      | Some metadata \<Rightarrow>
          if \<not> truthy metadata then Inr 3
          else and_then (py_get (parse_meta loads metadata) ''trust_dial'' (JDict [])) (\<lambda>trust_dial_meta.
               let key = engine_key engine in
               and_then (and_then (py_get trust_dial_meta key (JDict [])) (\<lambda>d. py_get d ''tier'' JNull)) (\<lambda>tier_val.
               and_then (if tier_val = JNull \<and> key \<noteq> ''global''
                         then and_then (py_get trust_dial_meta ''global'' (JDict [])) (\<lambda>d. py_get d ''tier'' JNull)
                         else Inr tier_val) (\<lambda>tier_val.
               Inr (case tier_value tier_val of Some t \<Rightarrow> t | None \<Rightarrow> 3)))))"

section \<open>Measurements\<close>

record feedback_row =
  fb_engine :: string
  fb_decision :: "string option"
  fb_proposal :: "json option"

record TrustMetrics =
  sample_size :: int
  accepted_count :: int
  override_count :: int
  precision_rate :: real
  brier_score :: "real option"
  mean_calibration_error :: "real option"

definition decision_of :: "feedback_row \<Rightarrow> string" where
  "decision_of r = lower (strip (case fb_decision r of None \<Rightarrow> [] | Some d \<Rightarrow> d))"


text \<open>A confidence that \<open>float\<close> accepts and that lies in the unit interval.\<close>

definition unit_confidence :: "(string \<Rightarrow> pyfloat option) \<Rightarrow> json \<Rightarrow> real option" where
  "unit_confidence parse_float raw_conf = (case py_float parse_float raw_conf of
      Inr (Fin conf) \<Rightarrow> if 0 \<le> conf \<and> conf \<le> 1 then Some conf else None
    | _ \<Rightarrow> None)"

text \<open>The pair a row contributes, \<open>None\<close> where the loop continues.\<close>

definition calibration_pair ::
    "(string \<Rightarrow> json option) \<Rightarrow> (string \<Rightarrow> pyfloat option) \<Rightarrow> feedback_row \<Rightarrow> py_error + (real \<times> real) option" where
  "calibration_pair loads parse_float r =
     (let dec = decision_of r in
      if dec \<notin> POSITIVE_DECISIONS \<and> dec \<notin> NEGATIVE_DECISIONS then Inr None
      else let y = (if dec \<in> POSITIVE_DECISIONS then 1 else 0)
      in case fb_proposal r of
           None \<Rightarrow> Inr None
         | Some raw_prop \<Rightarrow>
             and_then (case raw_prop of
                 JDict d \<Rightarrow> Inr (Some (JDict d))
               | JStr s \<Rightarrow> Inr (loads s)
               | _ \<Rightarrow> Inr (Some (JDict []))) (\<lambda>prop.
             case prop of
               None \<Rightarrow> Inr None
             | Some prop \<Rightarrow>
                 and_then (py_get prop ''confidence'' JNull) (\<lambda>raw_conf.
                 if raw_conf = JNull then Inr None
                 else Inr (map_option (\<lambda>conf. (conf, y)) (unit_confidence parse_float raw_conf)))))"

fun calibration_pairs ::
    "(string \<Rightarrow> json option) \<Rightarrow> (string \<Rightarrow> pyfloat option) \<Rightarrow> feedback_row list \<Rightarrow> py_error + (real \<times> real) list" where
  "calibration_pairs loads parse_float [] = Inr []"
| "calibration_pairs loads parse_float (r # rs) =
     and_then (calibration_pair loads parse_float r) (\<lambda>p.
     and_then (calibration_pairs loads parse_float rs) (\<lambda>ps.
     Inr (case p of None \<Rightarrow> ps | Some cy \<Rightarrow> cy # ps)))"

definition compute_brier_calibration ::
    "(string \<Rightarrow> json option) \<Rightarrow> (string \<Rightarrow> pyfloat option) \<Rightarrow> feedback_row list \<Rightarrow> py_error + real option \<times> real option" where
  "compute_brier_calibration loads parse_float rows =
     and_then (calibration_pairs loads parse_float rows) (\<lambda>pairs.
     if pairs = [] then Inr (None, None)
     else let n = real (length pairs)
          in Inr (Some (py_round ((\<Sum>(c, y)\<leftarrow>pairs. (c - y)\<^sup>2) / n) 4),
                  Some (py_round ((\<Sum>(c, y)\<leftarrow>pairs. \<bar>c - y\<bar>) / n) 4)))"

definition compute_trust_metrics ::
    "(string \<Rightarrow> json option) \<Rightarrow> (string \<Rightarrow> pyfloat option) \<Rightarrow> feedback_row list \<Rightarrow> string option \<Rightarrow> py_error + TrustMetrics" where
  "compute_trust_metrics loads parse_float table engine =
     (let rows = (case engine of
            Some e \<Rightarrow> if e \<noteq> [] then filter (\<lambda>r. fb_engine r = strip e) table else table
          | None \<Rightarrow> table);
          total_samples = int (length rows);
          accepted = int (length (filter (\<lambda>r. decision_of r \<in> POSITIVE_DECISIONS) rows));
          overridden = int (length (filter (\<lambda>r. decision_of r \<notin> POSITIVE_DECISIONS \<and>
                                                decision_of r \<in> NEGATIVE_DECISIONS) rows))
      in and_then (compute_brier_calibration loads parse_float rows) (\<lambda>(brier, mce).
         Inr \<lparr>sample_size = total_samples, accepted_count = accepted, override_count = overridden,
              precision_rate = (if total_samples > 0 then py_round (of_int accepted / of_int total_samples) 4 else 0),
              brier_score = brier, mean_calibration_error = mce\<rparr>))"

section \<open>The proposal\<close>

datatype tier_status = Insufficient_signal | Promotion_proposed | Demoted_due_to_degradation | Tier_confirmed

definition candidate_tier :: "int \<Rightarrow> real \<Rightarrow> int" where
  "candidate_tier n p =
     (if p \<ge> 95 / 100 \<and> n \<ge> 10 then 1 else if p \<ge> 80 / 100 then 2 else if p \<ge> 60 / 100 then 3 else 4)"

text \<open>The proposed and the effective tier, the status and whether a person must act; the explanatory text is not modelled.\<close>

definition evaluate_tier_proposal :: "int \<Rightarrow> int \<Rightarrow> real \<Rightarrow> int \<times> int \<times> tier_status \<times> bool" where
  "evaluate_tier_proposal current n p =
     (if n < MIN_SAMPLE_SIZE then (current, current, Insufficient_signal, False)
      else let candidate = candidate_tier n p in
        if candidate < current then (candidate, current, Promotion_proposed, True)
        else if candidate > current then (candidate, candidate, Demoted_due_to_degradation, False)
        else (current, current, Tier_confirmed, False))"

definition tier_label :: "int \<Rightarrow> string" where
  "tier_label t = (case dict_get TIER_LABELS t of Some l \<Rightarrow> l | None \<Rightarrow> ''Tier '' @ show_int t)"

record trust_status =
  ts_current_tier :: int
  ts_proposed_tier :: int
  ts_effective_tier :: int
  ts_labels :: "string \<times> string \<times> string"
  ts_status :: tier_status
  ts_escalation_required :: bool
  ts_metrics :: TrustMetrics
  ts_transparency_level :: string
  ts_human_oversight_mode :: string
  ts_override_history_verified :: bool

text \<open>The fallback that a status reports to the degradation register.\<close>

definition status_event :: "string \<Rightarrow> string option \<Rightarrow> tier_status \<Rightarrow> int \<Rightarrow> int \<Rightarrow> real \<Rightarrow> degradation_event option" where
  "status_event ns engine st effective n p =
     (let eng = (case engine of None \<Rightarrow> ''trust_dial'' | Some e \<Rightarrow> if e = [] then ''trust_dial'' else e) in
      case st of
        Insufficient_signal \<Rightarrow> Some \<lparr>de_namespace = Some ns, de_engine = eng, de_code = ''insufficient_decision_feedback'',
          de_detail = ''Only '' @ show_int n @ '' feedback decisions recorded; minimum '' @ show_int MIN_SAMPLE_SIZE @ '' needed.'',
          de_hint = ''Record '' @ show_int (MIN_SAMPLE_SIZE - n) @ '' more human decisions to unlock autonomy proposals.''\<rparr>
      | Demoted_due_to_degradation \<Rightarrow> Some \<lparr>de_namespace = Some ns, de_engine = eng, de_code = ''autonomy_tier_demoted'',
          de_detail = ''Autonomy demoted to Tier '' @ show_int effective @ '' due to precision drop ('' @ fixed1 (p * 100) @ ''%).'',
          de_hint = ''Review recent override decisions to identify error patterns.''\<rparr>
      | _ \<Rightarrow> None)"

definition get_trust_dial_status ::
    "(string \<Rightarrow> json option) \<Rightarrow> (string \<Rightarrow> pyfloat option) \<Rightarrow> string \<Rightarrow> string \<Rightarrow> json option \<Rightarrow> feedback_row list \<Rightarrow>
       string option \<Rightarrow> DegradationRegister \<Rightarrow> (py_error + trust_status) \<times> DegradationRegister" where
  "get_trust_dial_status loads parse_float now_iso ns row table engine reg =
     (case and_then (get_tenant_configured_tier loads row engine) (\<lambda>current.
           and_then (compute_trust_metrics loads parse_float table engine) (\<lambda>metrics. Inr (current, metrics))) of
        Inl e \<Rightarrow> (Inl e, reg)
      | Inr (current, metrics) \<Rightarrow>
          (case evaluate_tier_proposal current (sample_size metrics) (precision_rate metrics) of
             (proposed, effective, st, escalation) \<Rightarrow>
               (Inr \<lparr>ts_current_tier = current, ts_proposed_tier = proposed, ts_effective_tier = effective,
                     ts_labels = (tier_label current, tier_label proposed, tier_label effective),
                     ts_status = st, ts_escalation_required = escalation, ts_metrics = metrics,
                     ts_transparency_level = (if st \<noteq> Insufficient_signal then ''high'' else ''limited''),
                     ts_human_oversight_mode = (if effective > 1 then ''human_in_the_loop'' else ''human_on_the_loop''),
                     ts_override_history_verified = (sample_size metrics > 0)\<rparr>,
                case status_event ns engine st effective (sample_size metrics) (precision_rate metrics) of
                  None \<Rightarrow> reg
                | Some ev \<Rightarrow> snd (register_record now_iso ev reg))))"

section \<open>Setting a tier\<close>

text \<open>\<open>row\<close> is the locked row; the result is the row after the update, which touches no row when the namespace is absent.\<close>

definition set_tenant_autonomy_tier ::
    "(string \<Rightarrow> json option) \<Rightarrow> string \<Rightarrow> string \<Rightarrow> json option \<Rightarrow> int \<Rightarrow> string option \<Rightarrow> py_error + json option" where
  "set_tenant_autonomy_tier loads now_iso actor row tier engine =
     (if tier \<notin> {1, 2, 3, 4} then Inl (ValueError ''tier must be an integer between 1 and 4'')
      else let meta = (case row of Some m \<Rightarrow> if truthy m then parse_meta loads m else JDict [] | None \<Rightarrow> JDict [])
      in and_then (py_get meta ''trust_dial'' (JDict [])) (\<lambda>trust_dial_meta.
         case trust_dial_meta of
           JDict d \<Rightarrow>
             (case meta of
                JDict m \<Rightarrow> Inr (map_option (\<lambda>_. JDict (dict_set ''trust_dial'' (JDict (dict_set (engine_key engine)
                    (JDict [(''tier'', JInt tier), (''tier_label'', JStr (tier_label tier)),
                            (''updated_at'', JStr now_iso), (''updated_by'', JStr actor)]) d)) m)) row)
              | _ \<Rightarrow> Inl AttributeError)
         | _ \<Rightarrow> Inl TypeError))"

text \<open>The handlers' argument checks; \<open>parse_int_text\<close> is \<open>int\<close> on text.\<close>

definition int_arg :: "(string \<Rightarrow> int option) \<Rightarrow> json \<Rightarrow> py_error + int" where
  "int_arg parse_int_text v = (case v of
      JInt i \<Rightarrow> Inr i | JBool b \<Rightarrow> Inr (if b then 1 else 0)
    | JFloat (Fin x) \<Rightarrow> Inr (if 0 \<le> x then \<lfloor>x\<rfloor> else \<lceil>x\<rceil>)
    | JFloat PInf \<Rightarrow> Inl (OtherException ''OverflowError'')
    | JFloat NInf \<Rightarrow> Inl (OtherException ''OverflowError'')
    | JStr s \<Rightarrow> (case parse_int_text s of Some i \<Rightarrow> Inr i
        | None \<Rightarrow> Inl (ValueError ''Field 'tier' must be an integer between 1 and 4''))
    | _ \<Rightarrow> Inl (ValueError ''Field 'tier' must be an integer between 1 and 4''))"

definition handle_trust_dial_set_tier ::
    "(string \<Rightarrow> json option) \<Rightarrow> (string \<Rightarrow> int option) \<Rightarrow> string \<Rightarrow> json option \<Rightarrow>
       json option \<Rightarrow> string option \<Rightarrow> string option \<Rightarrow> py_error + json option" where
  "handle_trust_dial_set_tier loads parse_int_text now_iso row tier_raw engine actor =
     (case tier_raw of
        None \<Rightarrow> Inl (ValueError ''Field 'tier' is required (integer 1-4)'')
      | Some raw \<Rightarrow>
          if raw = JNull then Inl (ValueError ''Field 'tier' is required (integer 1-4)'')
          else and_then (int_arg parse_int_text raw) (\<lambda>tier.
               set_tenant_autonomy_tier loads now_iso
                 (strip (case actor of None \<Rightarrow> ''admin'' | Some a \<Rightarrow> if a = [] then ''admin'' else a))
                 row tier (map_option strip engine)))"

section \<open>Lemmas\<close>

lemma tier_value_range: "tier_value v = Some t \<Longrightarrow> t \<in> {1, 2, 3, 4}"
  by (auto simp: tier_value_def Let_def split: option.splits if_splits sum.splits pyfloat.splits)

lemma configured_tier_range:
  "get_tenant_configured_tier loads row engine = Inr t \<Longrightarrow> t \<in> {1, 2, 3, 4}"
  by (auto simp: get_tenant_configured_tier_def Let_def and_then_eq_Inr split: option.splits if_splits
      dest: tier_value_range)

lemma candidate_tier_range: "candidate_tier n p \<in> {1, 2, 3, 4}"
  by (simp add: candidate_tier_def)

lemma mean_unit:
  assumes "xs \<noteq> []" and "\<And>x. x \<in> set xs \<Longrightarrow> 0 \<le> f x \<and> f x \<le> (1 :: real)"
  shows "0 \<le> (\<Sum>x\<leftarrow>xs. f x) / real (length xs) \<and> (\<Sum>x\<leftarrow>xs. f x) / real (length xs) \<le> 1"
proof -
  have "0 \<le> (\<Sum>x\<leftarrow>xs. f x)" using assms(2) by (intro sum_list_nonneg) auto
  moreover have "(\<Sum>x\<leftarrow>xs. f x) \<le> real (length xs)"
    using sum_list_mono [of xs f "\<lambda>_. 1"] assms(2) by (simp add: sum_list_triv)
  ultimately show ?thesis using assms(1) by (simp add: divide_le_eq_1)
qed

lemma unit_confidence_range: "unit_confidence parse_float v = Some c \<Longrightarrow> 0 \<le> c \<and> c \<le> 1"
  by (simp add: unit_confidence_def split: sum.split_asm pyfloat.split_asm if_split_asm)

lemma calibration_pair_unit:
  "calibration_pair loads parse_float r = Inr (Some (c, y)) \<Longrightarrow> 0 \<le> c \<and> c \<le> 1 \<and> (y = 0 \<or> y = 1)"
  by (auto simp: and_then_eq_Inr calibration_pair_def Let_def
      split: option.split_asm if_split_asm dest: unit_confidence_range)

lemma calibration_pairs_unit:
  "calibration_pairs loads parse_float rows = Inr ps \<Longrightarrow> (c, y) \<in> set ps \<Longrightarrow> 0 \<le> c \<and> c \<le> 1 \<and> (y = 0 \<or> y = 1)"
  by (induction rows arbitrary: ps)
     (auto simp: and_then_eq_Inr split: option.split_asm dest: calibration_pair_unit)

lemma brier_unit:
  assumes "compute_brier_calibration loads parse_float rows = Inr (b, m)"
  shows "(\<forall>x. b = Some x \<longrightarrow> 0 \<le> x \<and> x \<le> 1) \<and> (\<forall>x. m = Some x \<longrightarrow> 0 \<le> x \<and> x \<le> 1)"
proof -
  obtain ps where ps: "calibration_pairs loads parse_float rows = Inr ps"
    using assms by (auto simp: compute_brier_calibration_def and_then_eq_Inr)
  show ?thesis
  proof (cases "ps = []")
    case False
    have unit: "0 \<le> \<bar>c - y\<bar> \<and> \<bar>c - y\<bar> \<le> 1" if "(c, y) \<in> set ps" for c y
      using calibration_pairs_unit [OF ps that] by auto
    have "0 \<le> (c - y)\<^sup>2 \<and> (c - y)\<^sup>2 \<le> 1" if "(c, y) \<in> set ps" for c y
      using unit [OF that] abs_square_le_1 [of "c - y"] by simp
    then show ?thesis
      using assms False unit mean_unit [OF False, of "\<lambda>(c, y). (c - y)\<^sup>2"] mean_unit [OF False, of "\<lambda>(c, y). \<bar>c - y\<bar>"]
      by (auto simp: compute_brier_calibration_def ps Let_def intro!: py_round_unit [THEN conjunct1] py_round_unit [THEN conjunct2])
  qed (use assms ps in \<open>auto simp: compute_brier_calibration_def\<close>)
qed

lemma trust_metrics_bounds:
  assumes "compute_trust_metrics loads parse_float table engine = Inr m"
  shows "0 \<le> precision_rate m \<and> precision_rate m \<le> 1 \<and> 0 \<le> accepted_count m \<and> 0 \<le> override_count m \<and>
    accepted_count m + override_count m \<le> sample_size m \<and>
    (\<forall>x. brier_score m = Some x \<longrightarrow> 0 \<le> x \<and> x \<le> 1) \<and> (\<forall>x. mean_calibration_error m = Some x \<longrightarrow> 0 \<le> x \<and> x \<le> 1)"
proof -
  have parts: "int (length (filter P xs)) + int (length (filter (\<lambda>r. \<not> P r \<and> Q r) xs)) \<le> int (length xs)"
    for P Q and xs :: "feedback_row list"
    by (induction xs) auto
  have ratio: "0 \<le> py_round (of_int (int (length (filter P xs))) / of_int (int (length xs))) 4 \<and>
      py_round (of_int (int (length (filter P xs))) / of_int (int (length xs))) 4 \<le> 1" for P and xs :: "feedback_row list"
    using length_filter_le [of P xs] by (intro py_round_unit) (auto simp: divide_le_eq_1)
  show ?thesis
    using assms parts ratio by (auto simp: compute_trust_metrics_def Let_def and_then_eq_Inr dest: brier_unit)
qed

lemma evaluate_tier_proposal_cases:
  assumes "evaluate_tier_proposal current n p = (proposed, effective, st, esc)"
  shows "current \<le> effective \<and> (esc \<longleftrightarrow> proposed < current) \<and> effective = max current proposed \<and>
    proposed = (if n < MIN_SAMPLE_SIZE then current else candidate_tier n p) \<and>
    (st = Insufficient_signal \<longleftrightarrow> n < MIN_SAMPLE_SIZE) \<and> (st = Demoted_due_to_degradation \<longleftrightarrow> current < proposed)"
  using assms by (auto simp: evaluate_tier_proposal_def Let_def split: if_splits)

text \<open>C25: The trust dial never raises a tenant's autonomy by itself: whatever the recorded decisions, the effective
  tier is the configured one or a more restrictive one, a promotion is only proposed and flagged for a person, a
  demotion takes effect at once, and fewer than five decisions change nothing; the reported rates are probabilities,
  and exactly the statuses without enough signal and with a demotion are counted as a degradation.\<close>

theorem trust_dial_never_self_promotes:
  assumes "get_trust_dial_status loads parse_float now_iso ns row table engine reg = (Inr st, reg')"
  shows "ts_current_tier st \<in> {1, 2, 3, 4} \<and> ts_effective_tier st \<in> {1, 2, 3, 4} \<and>
    ts_effective_tier st = max (ts_current_tier st) (ts_proposed_tier st) \<and>
    (ts_escalation_required st \<longleftrightarrow> ts_proposed_tier st < ts_current_tier st) \<and>
    ts_proposed_tier st = (if sample_size (ts_metrics st) < 5 then ts_current_tier st
      else candidate_tier (sample_size (ts_metrics st)) (precision_rate (ts_metrics st))) \<and>
    0 \<le> precision_rate (ts_metrics st) \<and> precision_rate (ts_metrics st) \<le> 1 \<and>
    total_count None reg' = total_count None reg +
      (if sample_size (ts_metrics st) < 5 \<or> ts_current_tier st < ts_proposed_tier st then 1 else 0)"
proof -
  obtain current m where cur: "get_tenant_configured_tier loads row engine = Inr current"
    and m: "compute_trust_metrics loads parse_float table engine = Inr m"
    using assms by (auto simp: get_trust_dial_status_def split: sum.splits prod.splits simp: and_then_eq_Inr)
  obtain p e s esc where ev: "evaluate_tier_proposal current (sample_size m) (precision_rate m) = (p, e, s, esc)"
    by (metis prod_cases4)
  note c = evaluate_tier_proposal_cases [OF ev]
  have tot: "total_count None (case status_event ns engine s e (sample_size m) (precision_rate m) of
        None \<Rightarrow> reg | Some ev \<Rightarrow> snd (register_record now_iso ev reg)) = total_count None reg +
      (if s = Insufficient_signal \<or> s = Demoted_due_to_degradation then 1 else 0)"
    using register_record_total [of now_iso _ reg, OF prod.collapse [symmetric]]
    by (cases s) (auto simp: status_event_def Let_def)
  have st: "ts_current_tier st = current" "ts_proposed_tier st = p" "ts_effective_tier st = e"
      "ts_escalation_required st = esc" "ts_metrics st = m"
      "reg' = (case status_event ns engine s e (sample_size m) (precision_rate m) of
        None \<Rightarrow> reg | Some ev \<Rightarrow> snd (register_record now_iso ev reg))"
    using assms by (auto simp: get_trust_dial_status_def cur m ev)
  have p: "p = (if sample_size m < 5 then current else candidate_tier (sample_size m) (precision_rate m))"
    using c by (simp add: MIN_SAMPLE_SIZE_def)
  have cur_range: "current \<in> {1, 2, 3, 4}" using configured_tier_range [OF cur] .
  have p_range: "p \<in> {1, 2, 3, 4}"
    using cur_range candidate_tier_range [of "sample_size m" "precision_rate m"] unfolding p by presburger
  have e: "e = max current p" using c by blast
  have e_range: "e \<in> {1, 2, 3, 4}" using cur_range p_range unfolding e max_def by presburger
  have "s = Insufficient_signal \<or> s = Demoted_due_to_degradation \<longleftrightarrow> sample_size m < 5 \<or> current < p"
    using c by (simp add: MIN_SAMPLE_SIZE_def)
  with tot have "total_count None reg' = total_count None reg + (if sample_size m < 5 \<or> current < p then 1 else 0)"
    by (simp add: st)
  then show ?thesis unfolding st(1-5)
    using cur_range e e_range p c trust_metrics_bounds [OF m] by blast
qed

lemma no_metadata_status:
  "get_trust_dial_status loads parse_float t ns None [] None [] =
    (Inr \<lparr>ts_current_tier = 3, ts_proposed_tier = 3, ts_effective_tier = 3,
       ts_labels = (tier_label 3, tier_label 3, tier_label 3), ts_status = Insufficient_signal,
       ts_escalation_required = False,
       ts_metrics = \<lparr>sample_size = 0, accepted_count = 0, override_count = 0, precision_rate = 0,
         brier_score = None, mean_calibration_error = None\<rparr>,
       ts_transparency_level = ''limited'', ts_human_oversight_mode = ''human_in_the_loop'',
       ts_override_history_verified = False\<rparr>,
     snd (register_record t (the (status_event ns None Insufficient_signal 3 0 0)) []))"
  by (simp add: get_trust_dial_status_def get_tenant_configured_tier_def compute_trust_metrics_def
      compute_brier_calibration_def evaluate_tier_proposal_def MIN_SAMPLE_SIZE_def status_event_def)

theorem trust_dial_never_self_promotes_witness:
  "total_count None (snd (register_record ''t'' (the (status_event ''ns'' None Insufficient_signal 3 0 0)) [])) = 1"
  using trust_dial_never_self_promotes [OF no_metadata_status [of Map.empty Map.empty "''t''" "''ns''"]]
  by (simp add: total_count_def)

text \<open>What the driver returns for a stored JSON value: the value, or its text.\<close>

definition reads_as :: "(string \<Rightarrow> json option) \<Rightarrow> json \<Rightarrow> json \<Rightarrow> bool" where
  "reads_as loads cell v = (cell = v \<or> (\<exists>s. s \<noteq> [] \<and> cell = JStr s \<and> loads s = Some v))"

lemma reads_as_dict:
  "reads_as loads cell (JDict d) \<Longrightarrow> d \<noteq> [] \<Longrightarrow> truthy cell \<and> parse_meta loads cell = JDict d"
  by (auto simp: reads_as_def parse_meta_def)

lemma tier_value_JInt [simp]: "tier_value (JInt t) = (if t \<in> {1, 2, 3, 4} then Some t else None)"
  by (simp add: tier_value_def)

lemma dict_set_not_Nil [simp]: "AList.update k v d \<noteq> []"
  by (cases d) auto

lemma set_tier_shape:
  assumes "set_tenant_autonomy_tier loads t actor (Some cell) tier engine = Inr (Some v)"
  shows "tier \<in> {1, 2, 3, 4}" and "\<exists>m d l. (if truthy cell then parse_meta loads cell else JDict []) = JDict m \<and>
    dict_getd m ''trust_dial'' (JDict []) = JDict d \<and> map_of l ''tier'' = Some (JInt tier) \<and>
    v = JDict (dict_set ''trust_dial'' (JDict (dict_set (engine_key engine) (JDict l) d)) m)"
proof -
  let ?m = "if truthy cell then parse_meta loads cell else JDict []"
  show "tier \<in> {1, 2, 3, 4}"
    using assms by (auto simp: set_tenant_autonomy_tier_def split: if_splits)
  obtain m where m: "?m = JDict m"
    using assms by (cases ?m) (auto simp: set_tenant_autonomy_tier_def py_get_def split: if_splits)
  moreover obtain d where d: "dict_getd m ''trust_dial'' (JDict []) = JDict d"
    using assms m
    by (cases "dict_getd m ''trust_dial'' (JDict [])") (auto simp: set_tenant_autonomy_tier_def split: if_splits)
  moreover have "v = JDict (dict_set ''trust_dial'' (JDict (dict_set (engine_key engine)
      (JDict [(''tier'', JInt tier), (''tier_label'', JStr (tier_label tier)),
        (''updated_at'', JStr t), (''updated_by'', JStr actor)]) d)) m)"
    using assms m d by (auto simp: set_tenant_autonomy_tier_def split: if_splits)
  ultimately show "\<exists>m d l. ?m = JDict m \<and> dict_getd m ''trust_dial'' (JDict []) = JDict d \<and>
      map_of l ''tier'' = Some (JInt tier) \<and>
      v = JDict (dict_set ''trust_dial'' (JDict (dict_set (engine_key engine) (JDict l) d)) m)"
    by (intro exI [of _ m] exI [of _ d] exI) (auto simp: m d)
qed

lemma get_tier_dicts:
  assumes "row = Some cell" and "truthy cell" and "parse_meta loads cell = JDict m"
    and "dict_getd m ''trust_dial'' (JDict []) = JDict d"
  shows "get_tenant_configured_tier loads row engine =
    (let key = engine_key engine in
     and_then (py_get (dict_getd d key (JDict [])) ''tier'' JNull) (\<lambda>v.
     and_then (if v = JNull \<and> key \<noteq> ''global'' then py_get (dict_getd d ''global'' (JDict [])) ''tier'' JNull else Inr v)
       (\<lambda>v. Inr (case tier_value v of Some t \<Rightarrow> t | None \<Rightarrow> 3))))"
  using assms by (simp add: get_tenant_configured_tier_def Let_def cong: if_cong)

text \<open>A tier set by an administrator is the tier read back, for the engine it was set for and through either form in
  which the driver returns the column; setting the tier of one engine leaves the tier of every other engine as it was.
  A tier outside 1 to 4 is refused.\<close>

theorem set_tier_round_trip:
  assumes "set_tenant_autonomy_tier loads t actor (Some cell) tier engine = Inr (Some v)" and "reads_as loads cell' v"
  shows "get_tenant_configured_tier loads (Some cell') engine = Inr tier \<and>
    (\<forall>e n. engine_key engine \<noteq> ''global'' \<and> engine_key e \<noteq> engine_key engine \<and>
       get_tenant_configured_tier loads (Some cell) e = Inr n \<longrightarrow> get_tenant_configured_tier loads (Some cell') e = Inr n) \<and>
    tier \<in> {1, 2, 3, 4}"
proof -
  obtain m d l where old: "(if truthy cell then parse_meta loads cell else JDict []) = JDict m"
    "dict_getd m ''trust_dial'' (JDict []) = JDict d" and l: "map_of l ''tier'' = Some (JInt tier)"
    and v: "v = JDict (dict_set ''trust_dial'' (JDict (dict_set (engine_key engine) (JDict l) d)) m)"
    using set_tier_shape(2) [OF assms(1)] by blast
  have range: "tier \<in> {1, 2, 3, 4}" by (rule set_tier_shape(1) [OF assms(1)])
  have l': "dict_getd l ''tier'' JNull = JInt tier" by (simp add: dict_getd_def l)
  note new = get_tier_dicts [OF refl reads_as_dict [OF assms(2) [unfolded v] dict_set_not_Nil, THEN conjunct1]
      reads_as_dict [OF assms(2) [unfolded v] dict_set_not_Nil, THEN conjunct2], simplified, OF refl]
  have self: "get_tenant_configured_tier loads (Some cell') engine = Inr tier"
    using range by (auto simp: new Let_def l')
  have other: "get_tenant_configured_tier loads (Some cell') e = Inr n"
    if "engine_key engine \<noteq> ''global''" "engine_key e \<noteq> engine_key engine"
      "get_tenant_configured_tier loads (Some cell) e = Inr n" for e n
  proof (cases "truthy cell")
    case True
    with old have "parse_meta loads cell = JDict m" by simp
    from get_tier_dicts [OF refl True this old(2), of e] that show ?thesis by (simp add: new Let_def cong: if_cong)
  next
    case False
    with old that have "d = []" "n = 3"
      by (auto simp: dict_getd_def get_tenant_configured_tier_def)
    with that show ?thesis by (simp add: new Let_def dict_getd_def tier_value_def)
  qed
  show ?thesis using self other range by blast
qed

lemma sample_set_tier:
  "set_tenant_autonomy_tier Map.empty ''t'' ''admin'' (Some (JDict [])) 2 (Some ''sales'') =
    Inr (Some (JDict [(''trust_dial'', JDict [(''sales'', JDict [(''tier'', JInt 2), (''tier_label'', JStr (tier_label 2)),
      (''updated_at'', JStr ''t''), (''updated_by'', JStr ''admin'')])])]))"
  by (simp add: set_tenant_autonomy_tier_def dict_getd_def engine_key_def strip_def is_space_def)

theorem set_tier_round_trip_witness:
  "get_tenant_configured_tier Map.empty (Some (JDict [(''trust_dial'', JDict [(''sales'', JDict [(''tier'', JInt 2),
     (''tier_label'', JStr (tier_label 2)), (''updated_at'', JStr ''t''), (''updated_by'', JStr ''admin'')])])]))
     (Some ''sales'') = Inr 2"
  using set_tier_round_trip [OF sample_set_tier, of "JDict [(''trust_dial'', JDict [(''sales'', JDict [(''tier'', JInt 2),
     (''tier_label'', JStr (tier_label 2)), (''updated_at'', JStr ''t''), (''updated_by'', JStr ''admin'')])])]"]
  by (simp add: reads_as_def)

end
