(* ===== verification/ThreeWayMatch.thy ===== *)
theory ThreeWayMatch
  imports PyValues
begin

text \<open>
  The three-way match of a purchase order, a goods receipt and an invoice
  (\<^verbatim>\<open>src/nce/vertical_modules/procurement/three_way_match.py\<close>). The documents are JSON objects; \<open>parse_float\<close>
  and \<open>repr_of\<close> are \<open>float\<close> on text and \<open>str\<close> on values other than text, integers, booleans and \<open>None\<close>.
  The explanatory \<open>description\<close> of a substitution is not modelled.
\<close>

type_synonym obj = "(string, json) dict"

section \<open>Validation helpers\<close>

definition require_positive_numeric :: "(string \<Rightarrow> pyfloat option) \<Rightarrow> obj \<Rightarrow> string \<Rightarrow> py_error + pyfloat" where
  "require_positive_numeric parse_float d key =
     (case dict_get d key of
        None \<Rightarrow> Inl (ValueError key)
      | Some v \<Rightarrow>
          and_then (py_float parse_float v) (\<lambda>value.
          if pf_le value (Fin 0) then Inl (ValueError key) else Inr value))"

definition require_str :: "(json \<Rightarrow> string) \<Rightarrow> obj \<Rightarrow> string \<Rightarrow> py_error + string" where
  "require_str repr_of d key =
     (case dict_get d key of
        None \<Rightarrow> Inl (ValueError key)
      | Some v \<Rightarrow> (let value = strip (py_str repr_of v) in if value = [] then Inl (ValueError key) else Inr value))"

section \<open>Substitution detection\<close>

datatype substitution_level = EXACT | EQUIVALENT_SKU | COMPATIBLE | DIFFERENT

record substitution =
  is_substitution :: bool
  sub_level :: substitution_level
  sub_po_article :: string
  sub_invoice_article :: string

definition norm_article :: "string \<Rightarrow> string" where
  "norm_article s = upper (strip s)"

definition detect_substitution :: "(json \<Rightarrow> string) \<Rightarrow> string \<Rightarrow> string \<Rightarrow> obj \<Rightarrow> substitution" where
  "detect_substitution repr_of po_article invoice_article invoice =
     (let po_norm = norm_article po_article;
          result = (\<lambda>is_sub level. \<lparr>is_substitution = is_sub, sub_level = level,
            sub_po_article = po_article, sub_invoice_article = invoice_article\<rparr>);
          compatible_with = (let v = dict_getd invoice ''compatible_with'' JNull in if truthy v then v else JList [])
      in if po_norm = norm_article invoice_article then result False EXACT
         else if dict_getd invoice ''equivalent_sku'' JNull = JBool True then result True EQUIVALENT_SKU
         else if (case dict_getd invoice ''substitute_for'' (JStr []) of
                    JStr s \<Rightarrow> norm_article s = po_norm | _ \<Rightarrow> False) then result True EQUIVALENT_SKU
         else if (case compatible_with of
                    JList cs \<Rightarrow> po_norm \<in> set (map (\<lambda>c. norm_article (py_str repr_of c)) cs) | _ \<Rightarrow> False)
              then result True COMPATIBLE
         else result True DIFFERENT)"

section \<open>Confidence\<close>

text \<open>\<open>abs(1.0 - ratio) * 100.0\<close>, weighted.\<close>

definition deviation :: "pyfloat \<Rightarrow> pyfloat" where
  "deviation ratio = pf_mult (pf_abs (pf_sub (Fin 1) ratio)) (Fin 100)"

definition compute_confidence :: "pyfloat \<Rightarrow> pyfloat \<Rightarrow> pyfloat \<Rightarrow> pyfloat \<Rightarrow> pyfloat \<Rightarrow> bool \<Rightarrow> pyfloat" where
  "compute_confidence po_qty po_unit_price gr_qty invoice_qty invoice_unit_price is_different =
     (let po_total = pf_mult po_qty po_unit_price;
          invoice_total = pf_mult invoice_qty invoice_unit_price;
          qty_ratio = pf_div (py_min gr_qty invoice_qty) po_qty;
          price_ratio = pf_div invoice_unit_price po_unit_price;
          amount_ratio = pf_div invoice_total po_total;
          qty_penalty = pf_mult (deviation qty_ratio) (Fin (40 / 100));
          price_penalty = pf_mult (deviation price_ratio) (Fin (35 / 100));
          amount_penalty = pf_mult (deviation amount_ratio) (Fin (25 / 100));
          raw_score = pf_sub (pf_sub (pf_sub (Fin 100) qty_penalty) price_penalty) amount_penalty;
          raw_score = (if is_different then pf_sub raw_score (Fin 15) else raw_score)
      in py_max (Fin 0) (py_min (Fin 100) raw_score))"

section \<open>Tier\<close>

datatype tier = GREEN | YELLOW | RED

definition tier_name :: "tier \<Rightarrow> string" where
  "tier_name t = (case t of GREEN \<Rightarrow> ''GREEN'' | YELLOW \<Rightarrow> ''YELLOW'' | RED \<Rightarrow> ''RED'')"

text \<open>The raw cutoffs: \<open>MATCH_TOLERANCE\<close> before \<open>DEFAULT_THRESHOLDS\<close> before the built-in 115 and 70.\<close>

definition raw_cutoffs :: "(string \<Rightarrow> pyfloat option) \<Rightarrow> obj \<Rightarrow> py_error + pyfloat \<times> pyfloat" where
  "raw_cutoffs parse_float tolerances =
     (let match_tol = dict_getd tolerances ''MATCH_TOLERANCE'' (JDict []);
          defaults = dict_getd tolerances ''DEFAULT_THRESHOLDS'' (JDict []) in
      and_then (py_get defaults ''green'' (JInt 115)) (\<lambda>default_green.
      and_then (py_get match_tol ''GREEN_THRESHOLD'' default_green) (\<lambda>g.
      and_then (py_float parse_float g) (\<lambda>raw_green.
      and_then (py_get defaults ''yellow'' (JInt 70)) (\<lambda>default_yellow.
      and_then (py_get match_tol ''YELLOW_THRESHOLD'' default_yellow) (\<lambda>y.
      and_then (py_float parse_float y) (\<lambda>raw_yellow. Inr (raw_green, raw_yellow))))))))"

text \<open>A zone entry is copied with \<open>dict\<close>; entries other than objects and empty values are rejected here.\<close>

definition copy_dict :: "json \<Rightarrow> py_error + json" where
  "copy_dict v = (case v of JDict d \<Rightarrow> Inr v | JList [] \<Rightarrow> Inr (JDict []) | JStr [] \<Rightarrow> Inr (JDict []) | _ \<Rightarrow> Inl TypeError)"

definition resolve_tier :: "(string \<Rightarrow> pyfloat option) \<Rightarrow> pyfloat \<Rightarrow> obj \<Rightarrow> py_error + tier \<times> json" where
  "resolve_tier parse_float confidence tolerances =
     and_then (raw_cutoffs parse_float tolerances) (\<lambda>(raw_green, raw_yellow).
     and_then (py_get (dict_getd tolerances ''MATCH_TOLERANCE'' (JDict [])) ''zones'' (JDict [])) (\<lambda>zones.
     let green_threshold = py_min raw_green (Fin 100);
         yellow_threshold = py_min raw_yellow (Fin 100);
         tier = (if pf_le green_threshold confidence then GREEN
                 else if pf_le yellow_threshold confidence then YELLOW else RED)
     in and_then (py_get zones (tier_name tier) (JDict [(''label'', JStr (tier_name tier))])) (\<lambda>zone.
        and_then (copy_dict zone) (\<lambda>tolerance_zone. Inr (tier, tolerance_zone)))))"

record match_result =
  mr_confidence :: pyfloat
  mr_tier :: tier
  mr_tolerance_zone :: json
  mr_substitution :: substitution

definition do_evaluate_three_way_match ::
    "(string \<Rightarrow> pyfloat option) \<Rightarrow> (json \<Rightarrow> string) \<Rightarrow> obj \<Rightarrow> obj \<Rightarrow> obj \<Rightarrow> obj \<Rightarrow> py_error + match_result" where
  "do_evaluate_three_way_match parse_float repr_of tolerances po goods_receipt invoice =
     and_then (require_positive_numeric parse_float po ''quantity'') (\<lambda>po_qty.
     and_then (require_positive_numeric parse_float po ''unit_price'') (\<lambda>po_unit_price.
     and_then (require_str repr_of po ''article_id'') (\<lambda>po_article.
     and_then (require_positive_numeric parse_float goods_receipt ''quantity'') (\<lambda>gr_qty.
     and_then (require_positive_numeric parse_float invoice ''quantity'') (\<lambda>invoice_qty.
     and_then (require_positive_numeric parse_float invoice ''unit_price'') (\<lambda>invoice_unit_price.
     and_then (require_str repr_of invoice ''article_id'') (\<lambda>invoice_article.
     let substitution = detect_substitution repr_of po_article invoice_article invoice;
         confidence = compute_confidence po_qty po_unit_price gr_qty invoice_qty invoice_unit_price
           (sub_level substitution = DIFFERENT)
     in and_then (resolve_tier parse_float confidence tolerances) (\<lambda>(tier, zone).
        Inr \<lparr>mr_confidence = confidence, mr_tier = tier, mr_tolerance_zone = zone, mr_substitution = substitution\<rparr>))))))))"

section \<open>Lemmas\<close>


lemma confidence_range: "\<exists>c. compute_confidence a b g q p d = Fin c \<and> 0 \<le> c \<and> c \<le> 100"
proof -
  have clamp: "\<exists>c. py_max (Fin 0) (py_min (Fin 100) x) = Fin c \<and> 0 \<le> c \<and> c \<le> 100" for x
    by (cases x) (auto simp: py_min_def py_max_def)
  show ?thesis unfolding compute_confidence_def Let_def by (rule clamp)
qed




lemma resolve_tier_split:
  assumes "resolve_tier pf c tol = Inr (t, z)" and "raw_cutoffs pf tol = Inr (rg, ry)"
  shows "t = (if pf_le (py_min rg (Fin 100)) c then GREEN else if pf_le (py_min ry (Fin 100)) c then YELLOW else RED)"
  using assms by (auto simp: resolve_tier_def Let_def and_then_eq_Inr)

lemma green_at_full: "rg \<noteq> NaN \<Longrightarrow> pf_le (py_min rg (Fin 100)) (Fin 100)"
  by (cases rg) (auto simp: py_min_def)


lemma three_way_parts:
  assumes "do_evaluate_three_way_match pf rp tol po gr iv = Inr r"
  obtains a b g q p where "require_positive_numeric pf po ''quantity'' = Inr a"
    "require_positive_numeric pf po ''unit_price'' = Inr b" "require_positive_numeric pf gr ''quantity'' = Inr g"
    "require_positive_numeric pf iv ''quantity'' = Inr q" "require_positive_numeric pf iv ''unit_price'' = Inr p"
    "mr_confidence r = compute_confidence a b g q p (sub_level (mr_substitution r) = DIFFERENT)"
    "resolve_tier pf (mr_confidence r) tol = Inr (mr_tier r, mr_tolerance_zone r)"
  using assms by (auto simp: do_evaluate_three_way_match_def Let_def and_then_eq_Inr)


text \<open>A price or quantity that is not a number passes the positivity check and is scored as a perfect match: whenever
  the invoiced unit price is \<open>nan\<close> and the match returns, its confidence is 100 and, with any cutoff that is a number, its
  tier GREEN.\<close>

theorem nan_price_matches_green:
  assumes "do_evaluate_three_way_match pf rp tol po gr iv = Inr r" and "raw_cutoffs pf tol = Inr (rg, ry)" and "rg \<noteq> NaN"
    and "require_positive_numeric pf iv ''unit_price'' = Inr NaN"
  shows "mr_confidence r = Fin 100 \<and> mr_tier r = GREEN"
proof -
  obtain a b g q where c: "mr_confidence r = compute_confidence a b g q NaN (sub_level (mr_substitution r) = DIFFERENT)"
    and t: "resolve_tier pf (mr_confidence r) tol = Inr (mr_tier r, mr_tolerance_zone r)"
    using three_way_parts [OF assms(1)] assms(4) by (metis sum.inject(2))
  have "mr_confidence r = Fin 100" unfolding c by (simp add: compute_confidence_def deviation_def Let_def)
  moreover have "mr_tier r = GREEN"
    using resolve_tier_split [OF t assms(2)] green_at_full [OF assms(3)] calculation by simp
  ultimately show ?thesis by simp
qed

definition sample_doc :: "json \<Rightarrow> obj" where
  "sample_doc price = [(''article_id'', JStr ''A1''), (''quantity'', JInt 2), (''unit_price'', price)]"

lemma sample_required [simp]:
  "require_positive_numeric pf (sample_doc price) ''quantity'' = Inr (Fin 2)"
  "require_positive_numeric pf (sample_doc (JInt 5)) ''unit_price'' = Inr (Fin 5)"
  "require_positive_numeric pf (sample_doc (JFloat NaN)) ''unit_price'' = Inr NaN"
  "require_str rp (sample_doc price) ''article_id'' = Inr ''A1''"
  by (simp_all add: require_positive_numeric_def require_str_def sample_doc_def py_float_def number_of_def
      py_str_def strip_def is_space_def)

lemma no_tolerances: "raw_cutoffs pf [] = Inr (Fin 115, Fin 70)"
  by (simp add: raw_cutoffs_def dict_getd_def py_float_def number_of_def)

lemma sample_evaluates:
  assumes "compute_confidence (Fin 2) (Fin 5) (Fin 2) (Fin 2) x False = Fin 100"
    and "require_positive_numeric pf (sample_doc price) ''unit_price'' = Inr x"
  shows "do_evaluate_three_way_match pf rp [] (sample_doc (JInt 5)) (sample_doc JNull) (sample_doc price) =
    Inr \<lparr>mr_confidence = Fin 100, mr_tier = GREEN, mr_tolerance_zone = JDict [(''label'', JStr ''GREEN'')],
      mr_substitution = \<lparr>is_substitution = False, sub_level = EXACT, sub_po_article = ''A1'', sub_invoice_article = ''A1''\<rparr>\<rparr>"
  using assms
  by (simp add: do_evaluate_three_way_match_def detect_substitution_def Let_def resolve_tier_def no_tolerances
      dict_getd_def tier_name_def copy_dict_def)


theorem nan_price_matches_green_witness:
  "\<exists>r. do_evaluate_three_way_match Map.empty (\<lambda>v. []) [] (sample_doc (JInt 5)) (sample_doc JNull) (sample_doc (JFloat NaN)) = Inr r \<and>
    mr_confidence r = Fin 100 \<and> mr_tier r = GREEN"
proof -
  have c: "compute_confidence (Fin 2) (Fin 5) (Fin 2) (Fin 2) NaN False = Fin 100"
    by (simp add: compute_confidence_def deviation_def)
  note s = sample_evaluates [of NaN Map.empty "JFloat NaN" "\<lambda>v. []", OF c sample_required(3)]
  show ?thesis using nan_price_matches_green [OF s no_tolerances _ sample_required(3)] s by auto
qed

end
