(* ===== verification/Matching.thy ===== *)
theory Matching
  imports ThreeWayMatch
begin

text \<open>
  Invoice matching (\<^verbatim>\<open>src/nce/vertical_modules/economy/matching.py\<close>): the score of an invoice line
  against a candidate commitment, the choice of the best candidate, the resolution of the cutoffs with
  their per-supplier overrides, and the triage of the invoice. Objects are dictionaries of JSON values
  with every field untyped; \<open>repr_of\<close> is \<open>str\<close> on floats and containers. A \<open>Decimal\<close> amount is a number
  like any other.
\<close>

section \<open>Tokens, flags and amounts\<close>

definition STOPWORDS :: "string set" where
  "STOPWORDS = {''the'', ''a'', ''for'', ''of'', ''and'', ''to'', ''with'', ''i'', ''og'', ''en'', ''et'', ''til'', ''med''}"

text \<open>The characters \<^verbatim>\<open>[a-z0-9]\<close> and the Norwegian letters ae, oe, aa (code points 230, 248, 229).\<close>

definition token_char :: "char \<Rightarrow> bool" where
  "token_char c = (let n = of_char c :: nat in 97 \<le> n \<and> n \<le> 122 \<or> 48 \<le> n \<and> n \<le> 57 \<or> n = 230 \<or> n = 248 \<or> n = 229)"

fun split_runs :: "string \<Rightarrow> string \<Rightarrow> string list" where
  "split_runs acc [] = [rev acc]"
| "split_runs acc (c # s) = (if token_char c then split_runs (c # acc) s else rev acc # split_runs [] s)"

definition tokenize :: "string \<Rightarrow> string list" where
  "tokenize text = filter (\<lambda>token. length token \<ge> 3 \<and> token \<notin> STOPWORDS) (split_runs [] (lower text))"

definition flag :: "json \<Rightarrow> bool" where
  "flag value = (value = JBool True \<or> py_eq value (JInt 1))"

definition is_numeric_amount :: "json \<Rightarrow> bool" where
  "is_numeric_amount value = (case value of JInt _ \<Rightarrow> True | JFloat _ \<Rightarrow> True | _ \<Rightarrow> False)"

definition as_amount :: "json \<Rightarrow> pyfloat" where
  "as_amount value = (case value of JInt i \<Rightarrow> Fin (of_int i) | JFloat x \<Rightarrow> x | _ \<Rightarrow> Fin 0)"

section \<open>Component scores\<close>

text \<open>Each returns its points and the reasons it appends.\<close>

definition get_field :: "obj \<Rightarrow> string \<Rightarrow> json" where
  "get_field d key = dict_getd d key JNull"

definition score_supplier :: "obj \<Rightarrow> int \<times> string list" where
  "score_supplier context =
     (if flag (get_field context ''supplier_exact'') then (40, [''supplier exact orgnr match''])
      else if flag (get_field context ''supplier_fuzzy'') then (20, [''supplier fuzzy name match''])
      else (0, [''supplier unknown'']))"

definition percent :: "pyfloat \<Rightarrow> string" where
  "percent pct = (case pf_mult pct (Fin 100) of
      Fin x \<Rightarrow> fixed1 x | PInf \<Rightarrow> ''inf'' | NInf \<Rightarrow> ''-inf'' | NaN \<Rightarrow> ''nan'') @ ''%''"

definition score_amount :: "obj \<Rightarrow> obj \<Rightarrow> int \<times> string list" where
  "score_amount context line =
     (let expected_amount = as_amount (dict_getd context ''expected_amount'' (JInt 0)) in
      if pf_le expected_amount (Fin 0) then (0, [''amount: no expected baseline''])
      else let raw_line_total = get_field line ''line_total'' in
      if \<not> is_numeric_amount raw_line_total then (0, [''amount: no line total to compare''])
      else let pct = pf_div (pf_abs (pf_sub (as_amount raw_line_total) expected_amount)) expected_amount in
      if pf_le pct (Fin (2 / 100)) then (30, [''amount within 2% ('' @ percent pct @ '')''])
      else if pf_le pct (Fin (10 / 100)) then (15, [''amount within 10% ('' @ percent pct @ '')''])
      else (0, [''amount divergence '' @ percent pct]))"

definition text_field :: "obj \<Rightarrow> string \<Rightarrow> string" where
  "text_field d key = (case dict_getd d key (JStr []) of JStr s \<Rightarrow> s | _ \<Rightarrow> [])"

definition has_bom :: "obj option \<Rightarrow> bool" where
  "has_bom bom_line = (bom_line \<noteq> None \<and> bom_line \<noteq> Some [])"

definition score_article :: "obj \<Rightarrow> obj option \<Rightarrow> int \<times> string list" where
  "score_article line bom_line =
     (if \<not> has_bom bom_line then (0, [''article: no BOM candidate''])
      else let bom = the bom_line;
               line_article_no = get_field line ''article_no'';
               bom_article_no = get_field bom ''article_no'' in
      if truthy line_article_no \<and> truthy bom_article_no \<and> py_eq line_article_no bom_article_no
      then (20, [''articleNo exact match''])
      else let a = tokenize (text_field line ''description'');
               b = tokenize (text_field bom ''description'');
               overlap = length (filter (\<lambda>token. token \<in> set b) a) in
      if overlap \<ge> 2 then (10, [''article semantic match ('' @ show_nat overlap @ '' shared tokens)''])
      else (0, [''article no match'']))"

definition score_project :: "obj \<Rightarrow> int \<times> string list" where
  "score_project invoice =
     (if flag (get_field invoice ''project_dimension_present'') then (10, [''project dimension present on invoice''])
      else if flag (get_field invoice ''project_dimension_inferred'')
      then (5, [''project inferred from articleNo + supplier context''])
      else (0, [''project not identifiable'']))"

definition score_bom_line :: "obj \<Rightarrow> obj option \<Rightarrow> int \<times> string list" where
  "score_bom_line line bom_line =
     (if has_bom bom_line \<and> truthy (get_field line ''article_no'') \<and>
         py_eq (get_field (the bom_line) ''article_no'') (get_field line ''article_no'') \<and>
         truthy (get_field (the bom_line) ''project_id'')
      then (15, [''live BOMLine tie-back via articleNo + projectId'']) else (0, []))"

definition score_expected_from_po :: "obj \<Rightarrow> int \<times> string list" where
  "score_expected_from_po context =
     (if flag (get_field context ''po_expected'') then (10, [''PO exists expecting this invoice +/-7 days'']) else (0, []))"

definition score_supplier_pattern :: "obj \<Rightarrow> int \<times> string list" where
  "score_supplier_pattern context =
     (if flag (get_field context ''supplier_pattern_seen'') then (5, [''supplier pattern recognized (MatchLearning)''])
      else (0, []))"

definition score_po_number_match :: "obj \<Rightarrow> int \<times> string list" where
  "score_po_number_match context =
     (if flag (get_field context ''po_number_exact_match'')
      then (50, [''PO-nr eksakt match (orderReference == PurchaseOrder.poNumber)'']) else (0, []))"

section \<open>One line against one candidate\<close>

record candidate =
  cand_bom_line :: "obj option"
  cand_context :: obj
  cand_three_way_result :: json
  cand_id :: json

definition EMPTY_CANDIDATE :: candidate where
  "EMPTY_CANDIDATE = \<lparr>cand_bom_line = None, cand_context = [], cand_three_way_result = JNull, cand_id = JNull\<rparr>"

record pair_score =
  supplier_match :: int
  amount_match :: int
  article_match :: int
  project_match :: int
  bom_line_match :: int
  expected_from_po :: int
  supplier_pattern :: int
  po_number_match :: int
  total :: int
  reasons :: "string list"

definition score_pair :: "obj \<Rightarrow> obj \<Rightarrow> candidate \<Rightarrow> pair_score" where
  "score_pair invoice line c =
     (let bom_line = cand_bom_line c; context = cand_context c;
          (s, r1) = score_supplier context;
          (a, r2) = score_amount context line;
          (t, r3) = score_article line bom_line;
          (p, r4) = score_project invoice;
          (b, r5) = score_bom_line line bom_line;
          (e, r6) = score_expected_from_po context;
          (sp, r7) = score_supplier_pattern context;
          (po, r8) = score_po_number_match context
      in \<lparr>supplier_match = s, amount_match = a, article_match = t, project_match = p, bom_line_match = b,
          expected_from_po = e, supplier_pattern = sp, po_number_match = po,
          total = s + a + t + p + b + e + sp + po, reasons = r1 @ r2 @ r3 @ r4 @ r5 @ r6 @ r7 @ r8\<rparr>)"

fun best_loop :: "obj \<Rightarrow> obj \<Rightarrow> nat \<Rightarrow> candidate list \<Rightarrow> nat \<times> pair_score \<Rightarrow> nat \<times> pair_score" where
  "best_loop invoice line index [] best = best"
| "best_loop invoice line index (c # cs) best =
     (let result = score_pair invoice line c in
      best_loop invoice line (Suc index) cs (if total result > total (snd best) then (index, result) else best))"

definition best_candidate_result :: "obj \<Rightarrow> obj \<Rightarrow> candidate list \<Rightarrow> nat \<times> candidate \<times> pair_score" where
  "best_candidate_result invoice line candidates =
     (let pool = (if candidates \<noteq> [] then candidates else [EMPTY_CANDIDATE]);
          (best_index, best_result) = best_loop invoice line 1 (tl pool) (0, score_pair invoice line (pool ! 0))
      in (best_index, pool ! best_index, best_result))"

section \<open>Cutoffs\<close>

definition MIN_GREEN :: int where
  "MIN_GREEN = 50 + 10"

definition VALID_OVERRIDE_KEYS :: "string set" where
  "VALID_OVERRIDE_KEYS = {''green'', ''yellow'', ''_comment''}"

fun normalised_keys_from :: "obj \<Rightarrow> obj \<Rightarrow> py_error + obj" where
  "normalised_keys_from out [] = Inr out"
| "normalised_keys_from out ((k, v) # raw) =
     (if dict_get out (strip k) \<noteq> None then Inl (ValueError ''two keys normalise to one'')
      else normalised_keys_from (dict_set (strip k) v out) raw)"

definition normalised_keys :: "obj \<Rightarrow> py_error + obj" where
  "normalised_keys raw = normalised_keys_from [] raw"

definition coerce_cutoff :: "json \<Rightarrow> real option" where
  "coerce_cutoff value = (case value of JInt i \<Rightarrow> Some (of_int i) | JFloat (Fin x) \<Rightarrow> Some x | _ \<Rightarrow> None)"

definition coherent_cutoffs :: "real option \<Rightarrow> real option \<Rightarrow> py_error + real \<times> real" where
  "coherent_cutoffs green yellow =
     (case green of
        None \<Rightarrow> Inl (ValueError ''incoherent thresholds'')
      | Some g \<Rightarrow>
          (case yellow of
             None \<Rightarrow> Inl (ValueError ''incoherent thresholds'')
           | Some y \<Rightarrow>
               if g \<le> of_int MIN_GREEN \<or> y \<le> 0 \<or> g < y then Inl (ValueError ''incoherent thresholds'')
               else Inr (g, y)))"

definition resolve_thresholds :: "(json \<Rightarrow> string) \<Rightarrow> obj \<Rightarrow> obj \<Rightarrow> py_error + real \<times> real" where
  "resolve_thresholds repr_of thresholds invoice =
     (let supplier_orgnr = get_field invoice ''supplier_orgnr'' in
      and_then (normalised_keys thresholds) (\<lambda>top.
      and_then (case get_field top ''supplier_overrides'' of
          JNull \<Rightarrow> Inr [] | JDict d \<Rightarrow> Inr d
        | _ \<Rightarrow> Inl (ValueError ''supplier_overrides must be an object'')) (\<lambda>raw_overrides.
      and_then (normalised_keys raw_overrides) (\<lambda>overrides.
      let key = (if supplier_orgnr = JNull then [] else strip (py_str repr_of supplier_orgnr)) in
      and_then (case (if key \<noteq> [] then dict_getd overrides key (JDict []) else JDict []) of
          JDict d \<Rightarrow> Inr d | _ \<Rightarrow> Inl (ValueError ''override entry must be an object'')) (\<lambda>override.
      and_then (normalised_keys override) (\<lambda>override.
      if \<not> set (dict_keys override) \<subseteq> VALID_OVERRIDE_KEYS then Inl (ValueError ''unknown override keys'')
      else coherent_cutoffs (coerce_cutoff (dict_getd override ''green'' (get_field top ''green'')))
             (coerce_cutoff (dict_getd override ''yellow'' (get_field top ''yellow'')))))))))"

definition tier_for_score :: "int \<Rightarrow> real \<Rightarrow> real \<Rightarrow> tier" where
  "tier_for_score score green yellow =
     (if of_int score \<ge> green then GREEN else if of_int score \<ge> yellow then YELLOW else RED)"

definition tier_severity :: "tier \<Rightarrow> int" where
  "tier_severity t = (case t of RED \<Rightarrow> 2 | YELLOW \<Rightarrow> 1 | GREEN \<Rightarrow> 0)"

text \<open>\<open>max(tiers, key=...)\<close>: the first of the most severe.\<close>

fun worst_tier :: "tier \<Rightarrow> tier list \<Rightarrow> tier" where
  "worst_tier best [] = best"
| "worst_tier best (t # ts) = worst_tier (if tier_severity t > tier_severity best then t else best) ts"

section \<open>The invoice\<close>

record line_match =
  lm_result :: pair_score
  lm_line_index :: nat
  lm_tier :: tier
  lm_candidate_id :: json
  lm_candidate_index :: "nat option"
  lm_three_way_result :: json

record invoice_match =
  im_score :: int
  im_tier :: tier
  im_breakdown :: "line_match list"

definition match_line :: "real \<Rightarrow> real \<Rightarrow> obj \<Rightarrow> candidate list \<Rightarrow> nat \<times> obj \<Rightarrow> line_match" where
  "match_line green yellow invoice candidates il =
     (let (line_index, line) = il;
          (candidate_index, candidate, result) = best_candidate_result invoice line candidates
      in \<lparr>lm_result = result, lm_line_index = line_index, lm_tier = tier_for_score (total result) green yellow,
          lm_candidate_id = (if candidates \<noteq> [] then cand_id candidate else JNull),
          lm_candidate_index = (if candidates \<noteq> [] then Some candidate_index else None),
          lm_three_way_result = cand_three_way_result candidate\<rparr>)"

text \<open>\<open>ls\<close> is the value of \<open>invoice["lines"]\<close>, the empty list when absent.\<close>

definition do_match_invoice ::
    "(json \<Rightarrow> string) \<Rightarrow> obj \<Rightarrow> obj \<Rightarrow> obj list \<Rightarrow> candidate list \<Rightarrow> py_error + invoice_match" where
  "do_match_invoice repr_of thresholds invoice ls candidates =
     and_then (resolve_thresholds repr_of thresholds invoice) (\<lambda>(green, yellow).
     if ls = [] then Inr \<lparr>im_score = 0, im_tier = RED, im_breakdown = []\<rparr>
     else let breakdown = map (match_line green yellow invoice candidates) (zip [0..<length ls] ls);
              tiers = map lm_tier breakdown;
              invoice_tier = worst_tier (hd tiers) (tl tiers);
              totals = map (\<lambda>e. total (lm_result e)) (filter (\<lambda>e. lm_tier e = invoice_tier) breakdown)
          in Inr \<lparr>im_score = Min (set totals), im_tier = invoice_tier, im_breakdown = breakdown\<rparr>)"

section \<open>Lemmas\<close>

lemmas component_defs = score_supplier_def score_amount_def score_article_def score_project_def score_bom_line_def
  score_expected_from_po_def score_supplier_pattern_def score_po_number_match_def

lemma component_range:
  "0 \<le> fst (score_supplier ctx) \<and> fst (score_supplier ctx) \<le> 40"
  "0 \<le> fst (score_amount ctx line) \<and> fst (score_amount ctx line) \<le> 30"
  "0 \<le> fst (score_article line bom) \<and> fst (score_article line bom) \<le> 20"
  "0 \<le> fst (score_project iv) \<and> fst (score_project iv) \<le> 10"
  "0 \<le> fst (score_bom_line line bom) \<and> fst (score_bom_line line bom) \<le> 15"
  "0 \<le> fst (score_expected_from_po ctx) \<and> fst (score_expected_from_po ctx) \<le> 10"
  "0 \<le> fst (score_supplier_pattern ctx) \<and> fst (score_supplier_pattern ctx) \<le> 5"
  "0 \<le> fst (score_po_number_match ctx) \<and> fst (score_po_number_match ctx) \<le> 50"
  by (simp_all add: component_defs Let_def)

lemma score_pair_simps:
  "supplier_match (score_pair iv line c) = fst (score_supplier (cand_context c))"
  "amount_match (score_pair iv line c) = fst (score_amount (cand_context c) line)"
  "article_match (score_pair iv line c) = fst (score_article line (cand_bom_line c))"
  "project_match (score_pair iv line c) = fst (score_project iv)"
  "bom_line_match (score_pair iv line c) = fst (score_bom_line line (cand_bom_line c))"
  "expected_from_po (score_pair iv line c) = fst (score_expected_from_po (cand_context c))"
  "supplier_pattern (score_pair iv line c) = fst (score_supplier_pattern (cand_context c))"
  "po_number_match (score_pair iv line c) = fst (score_po_number_match (cand_context c))"
  "total (score_pair iv line c) = fst (score_supplier (cand_context c)) + fst (score_amount (cand_context c) line) +
     fst (score_article line (cand_bom_line c)) + fst (score_project iv) + fst (score_bom_line line (cand_bom_line c)) +
     fst (score_expected_from_po (cand_context c)) + fst (score_supplier_pattern (cand_context c)) +
     fst (score_po_number_match (cand_context c))"
  by (simp_all add: score_pair_def case_prod_beta Let_def)

text \<open>The components that depend on the candidate; \<open>project_match\<close> is read from the invoice alone.\<close>

definition candidate_signals :: "pair_score \<Rightarrow> int list" where
  "candidate_signals r = [supplier_match r, amount_match r, article_match r, bom_line_match r, expected_from_po r,
     supplier_pattern r, po_number_match r]"

lemma score_pair_bounds:
  "0 \<le> total (score_pair iv line c) \<and> total (score_pair iv line c) \<le> 180 \<and>
   total (score_pair iv line c) = project_match (score_pair iv line c) + sum_list (candidate_signals (score_pair iv line c)) \<and>
   project_match (score_pair iv line c) \<le> 10 \<and> (\<forall>x\<in>set (candidate_signals (score_pair iv line c)). 0 \<le> x \<and> x \<le> 50)"
proof -
  note b = component_range(1) [of "cand_context c"] component_range(2) [of "cand_context c" line]
    component_range(3) [of line "cand_bom_line c"] component_range(4) [of iv]
    component_range(5) [of line "cand_bom_line c"] component_range(6) [of "cand_context c"]
    component_range(7) [of "cand_context c"] component_range(8) [of "cand_context c"]
  show ?thesis
  proof (intro conjI)
    show "0 \<le> total (score_pair iv line c)" "total (score_pair iv line c) \<le> 180"
      unfolding score_pair_simps using b by linarith+
    show "\<forall>x\<in>set (candidate_signals (score_pair iv line c)). 0 \<le> x \<and> x \<le> 50"
      unfolding candidate_signals_def score_pair_simps list.set ball_simps insert_iff using b by force
  qed (use b in \<open>simp_all add: score_pair_simps candidate_signals_def\<close>)
qed

lemma two_signals:
  fixes xs :: "int list"
  assumes "\<forall>x\<in>set xs. 0 \<le> x \<and> x \<le> m" and "m < sum_list xs" and "0 \<le> m"
  shows "2 \<le> length (filter (\<lambda>x. x \<noteq> 0) xs)"
proof (rule ccontr)
  have sum: "sum_list xs = sum_list (filter (\<lambda>x. x \<noteq> 0) xs)" by (induction xs) auto
  assume "\<not> 2 \<le> length (filter (\<lambda>x. x \<noteq> 0) xs)"
  then have "filter (\<lambda>x. x \<noteq> 0) xs = [] \<or> (\<exists>x. filter (\<lambda>x. x \<noteq> 0) xs = [x])"
    by (cases "filter (\<lambda>x. x \<noteq> 0) xs"; cases "tl (filter (\<lambda>x. x \<noteq> 0) xs)") auto
  then show False
  proof
    assume "\<exists>x. filter (\<lambda>x. x \<noteq> 0) xs = [x]"
    then obtain x where x: "filter (\<lambda>x. x \<noteq> 0) xs = [x]" by blast
    then have "x \<in> set xs" by (metis filter_eq_Cons_iff in_set_conv_decomp)
    with assms x sum show False by auto
  qed (use assms sum in auto)
qed

lemma best_loop_max:
  assumes "best_loop iv line k cs (i, r) = (j, r')"
  shows "(\<forall>c\<in>set cs. total (score_pair iv line c) \<le> total r') \<and> total r \<le> total r' \<and>
    (j = i \<and> r' = r \<or> (\<exists>m < length cs. j = k + m \<and> r' = score_pair iv line (cs ! m) \<and> total r < total r' \<and>
       (\<forall>m' < m. total (score_pair iv line (cs ! m')) < total r')))"
  using assms
proof (induction cs arbitrary: k i r)
  case (Cons c cs)
  show ?case
  proof (cases "total (score_pair iv line c) > total r")
    case True
    with Cons.prems have "best_loop iv line (Suc k) cs (k, score_pair iv line c) = (j, r')" by (simp add: Let_def)
    from Cons.IH [OF this] True show ?thesis
    proof (elim conjE disjE)
      assume a: "\<forall>c\<in>set cs. total (score_pair iv line c) \<le> total r'" "j = k" "r' = score_pair iv line c"
      then show ?thesis using True by (auto intro!: exI [of _ 0])
    next
      assume a: "\<forall>c\<in>set cs. total (score_pair iv line c) \<le> total r'"
        "\<exists>m<length cs. j = Suc k + m \<and> r' = score_pair iv line (cs ! m) \<and> total (score_pair iv line c) < total r' \<and>
          (\<forall>m'<m. total (score_pair iv line (cs ! m')) < total r')"
      then obtain m where "m < length cs" "j = Suc k + m" "r' = score_pair iv line (cs ! m)"
        "total (score_pair iv line c) < total r'" "\<forall>m'<m. total (score_pair iv line (cs ! m')) < total r'" by blast
      then show ?thesis using a(1) True
        by (auto intro!: exI [of _ "Suc m"] simp: nth_Cons split: nat.splits)
    qed
  next
    case False
    with Cons.prems have "best_loop iv line (Suc k) cs (i, r) = (j, r')" by (simp add: Let_def)
    from Cons.IH [OF this] False show ?thesis
    proof (elim conjE disjE)
      assume a: "\<forall>c\<in>set cs. total (score_pair iv line c) \<le> total r'" "total r \<le> total r'"
        "\<exists>m<length cs. j = Suc k + m \<and> r' = score_pair iv line (cs ! m) \<and> total r < total r' \<and>
          (\<forall>m'<m. total (score_pair iv line (cs ! m')) < total r')"
      then obtain m where "m < length cs" "j = Suc k + m" "r' = score_pair iv line (cs ! m)"
        "total r < total r'" "\<forall>m'<m. total (score_pair iv line (cs ! m')) < total r'" by blast
      then show ?thesis using a(1,2) False
        by (auto intro!: exI [of _ "Suc m"] simp: nth_Cons split: nat.splits)
    qed auto
  qed
qed auto

text \<open>The candidates a line is scored against.\<close>

definition pool_of :: "candidate list \<Rightarrow> candidate list" where
  "pool_of candidates = (if candidates \<noteq> [] then candidates else [EMPTY_CANDIDATE])"

lemma best_candidate:
  assumes "best_candidate_result iv line cands = (i, c, r)"
  shows "i < length (pool_of cands) \<and> c = pool_of cands ! i \<and> r = score_pair iv line c \<and>
    (\<forall>k < length (pool_of cands). total (score_pair iv line (pool_of cands ! k)) \<le> total r) \<and>
    (\<forall>k < i. total (score_pair iv line (pool_of cands ! k)) < total r)"
proof -
  obtain d ds where pool: "pool_of cands = d # ds" by (cases "pool_of cands") (auto simp: pool_of_def split: if_splits)
  from assms have loop: "best_loop iv line 1 ds (0, score_pair iv line d) = (i, r)" and c: "c = (d # ds) ! i"
    by (auto simp: best_candidate_result_def Let_def pool [symmetric] pool_of_def [symmetric] split: prod.splits)
       (simp_all add: pool)
  from best_loop_max [OF loop] show ?thesis
  proof (elim conjE disjE)
    assume "\<forall>c\<in>set ds. total (score_pair iv line c) \<le> total r" "i = 0" "r = score_pair iv line d"
    then show ?thesis using c by (auto simp: pool nth_Cons split: nat.splits)
  next
    assume a: "\<forall>c\<in>set ds. total (score_pair iv line c) \<le> total r"
      and "\<exists>m<length ds. i = 1 + m \<and> r = score_pair iv line (ds ! m) \<and> total (score_pair iv line d) < total r \<and>
        (\<forall>m'<m. total (score_pair iv line (ds ! m')) < total r)"
    then obtain m where "m < length ds" "i = Suc m" "r = score_pair iv line (ds ! m)"
      "total (score_pair iv line d) < total r" "\<forall>m'<m. total (score_pair iv line (ds ! m')) < total r" by auto
    then show ?thesis using a c by (auto simp: pool nth_Cons split: nat.splits)
  qed
qed

lemma worst_tier_max:
  "worst_tier b ts \<in> set (b # ts) \<and> (\<forall>t\<in>set (b # ts). tier_severity t \<le> tier_severity (worst_tier b ts))"
  by (induction ts arbitrary: b) force+

text \<open>What a breakdown entry must say of its line: the first best candidate of the pool, its score, tier and echoed verdict.\<close>

definition line_won :: "real \<Rightarrow> real \<Rightarrow> obj \<Rightarrow> candidate list \<Rightarrow> nat \<Rightarrow> obj \<Rightarrow> line_match \<Rightarrow> bool" where
  "line_won g y iv cands i line e \<longleftrightarrow> (\<exists>k < length (pool_of cands).
     lm_line_index e = i \<and> lm_result e = score_pair iv line (pool_of cands ! k) \<and>
     (\<forall>c\<in>set (pool_of cands). total (score_pair iv line c) \<le> total (lm_result e)) \<and>
     (\<forall>m < k. total (score_pair iv line (pool_of cands ! m)) < total (lm_result e)) \<and>
     lm_tier e = tier_for_score (total (lm_result e)) g y \<and>
     lm_candidate_index e = (if cands \<noteq> [] then Some k else None) \<and>
     lm_three_way_result e = cand_three_way_result (pool_of cands ! k))"

lemma match_line_won: "line_won g y iv cands i line (match_line g y iv cands (i, line))"
proof -
  obtain k c r where b: "best_candidate_result iv line cands = (k, c, r)" by (metis prod_cases3)
  from best_candidate [OF b] have
    "k < length (pool_of cands)" "c = pool_of cands ! k" "r = score_pair iv line c"
    "\<forall>c\<in>set (pool_of cands). total (score_pair iv line c) \<le> total r"
    "\<forall>m < k. total (score_pair iv line (pool_of cands ! m)) < total r"
    by (auto simp: in_set_conv_nth)
  then show ?thesis unfolding line_won_def by (intro exI [of _ k]) (simp add: match_line_def b)
qed

lemma match_line_total: "\<exists>c. lm_result (match_line g y iv cands (i, line)) = score_pair iv line c"
  using match_line_won [of g y iv cands i line] by (auto simp: line_won_def)

lemma match_lines_nth:
  "i < length ls \<Longrightarrow> map (match_line g y iv cands) (zip [0..<length ls] ls) ! i = match_line g y iv cands (i, ls ! i)"
  by simp

lemma do_match_lines:
  assumes "do_match_invoice rp thr iv ls cands = Inr res" and "resolve_thresholds rp thr iv = Inr (g, y)" and "ls \<noteq> []"
  shows "im_breakdown res = map (match_line g y iv cands) (zip [0..<length ls] ls)"
    and "im_tier res \<in> lm_tier ` set (im_breakdown res)"
    and "\<forall>e\<in>set (im_breakdown res). tier_severity (lm_tier e) \<le> tier_severity (im_tier res)"
    and "im_score res = Min ((\<lambda>e. total (lm_result e)) ` {e \<in> set (im_breakdown res). lm_tier e = im_tier res})"
proof -
  let ?b = "map (match_line g y iv cands) (zip [0..<length ls] ls)"
  let ?t = "worst_tier (hd (map lm_tier ?b)) (tl (map lm_tier ?b))"
  have res: "res = \<lparr>im_score = Min (set (map (\<lambda>e. total (lm_result e)) (filter (\<lambda>e. lm_tier e = ?t) ?b))),
      im_tier = ?t, im_breakdown = ?b\<rparr>"
    using assms by (simp add: do_match_invoice_def Let_def)
  have "?b \<noteq> []" using assms(3) by (cases ls) auto
  then have tiers: "set (hd (map lm_tier ?b) # tl (map lm_tier ?b)) = lm_tier ` set ?b" by (cases ?b) auto
  note w = worst_tier_max [of "hd (map lm_tier ?b)" "tl (map lm_tier ?b)", unfolded tiers]
  show "im_breakdown res = ?b" by (simp add: res)
  show "im_tier res \<in> lm_tier ` set (im_breakdown res)" using w by (simp add: res)
  show "\<forall>e\<in>set (im_breakdown res). tier_severity (lm_tier e) \<le> tier_severity (im_tier res)"
    using w by (simp add: res)
  show "im_score res = Min ((\<lambda>e. total (lm_result e)) ` {e \<in> set (im_breakdown res). lm_tier e = im_tier res})"
    by (simp add: res)
qed

text \<open>The triage of an invoice: without lines it is RED with score 0; otherwise every line is reported with the first of
  the candidates that score highest for it, that candidate's points and tier, and Procurement's verdict unchanged; the
  invoice has the worst tier of its lines and the lowest score among them, between 0 and 180.\<close>

theorem match_invoice_triage:
  assumes "do_match_invoice rp thr iv ls cands = Inr res"
  shows "\<exists>g y. resolve_thresholds rp thr iv = Inr (g, y) \<and>
    (ls = [] \<longrightarrow> res = \<lparr>im_score = 0, im_tier = RED, im_breakdown = []\<rparr>) \<and>
    (ls \<noteq> [] \<longrightarrow> length (im_breakdown res) = length ls \<and>
      (\<forall>i < length ls. line_won g y iv cands i (ls ! i) (im_breakdown res ! i)) \<and>
      (\<forall>e\<in>set (im_breakdown res). tier_severity (lm_tier e) \<le> tier_severity (im_tier res)) \<and>
      (\<forall>e\<in>set (im_breakdown res). lm_tier e = im_tier res \<longrightarrow> im_score res \<le> total (lm_result e)) \<and>
      (\<exists>e\<in>set (im_breakdown res). lm_tier e = im_tier res \<and> total (lm_result e) = im_score res) \<and>
      0 \<le> im_score res \<and> im_score res \<le> 180)"
proof -
  obtain g y where gy: "resolve_thresholds rp thr iv = Inr (g, y)"
    using assms by (auto simp: do_match_invoice_def and_then_eq_Inr)
  have lines: "length (im_breakdown res) = length ls \<and>
      (\<forall>i < length ls. line_won g y iv cands i (ls ! i) (im_breakdown res ! i)) \<and>
      (\<forall>e\<in>set (im_breakdown res). tier_severity (lm_tier e) \<le> tier_severity (im_tier res)) \<and>
      (\<forall>e\<in>set (im_breakdown res). lm_tier e = im_tier res \<longrightarrow> im_score res \<le> total (lm_result e)) \<and>
      (\<exists>e\<in>set (im_breakdown res). lm_tier e = im_tier res \<and> total (lm_result e) = im_score res) \<and>
      0 \<le> im_score res \<and> im_score res \<le> 180" if ne: "ls \<noteq> []"
  proof -
    note m = do_match_lines [OF assms gy ne]
    let ?S = "(\<lambda>e. total (lm_result e)) ` {e \<in> set (im_breakdown res). lm_tier e = im_tier res}"
    have fin: "finite ?S" and nonempty: "?S \<noteq> {}" using m(2) by auto
    have low: "\<forall>e\<in>set (im_breakdown res). lm_tier e = im_tier res \<longrightarrow> im_score res \<le> total (lm_result e)"
      unfolding m(4) using fin by auto
    obtain e where e: "e \<in> set (im_breakdown res)" "lm_tier e = im_tier res" "total (lm_result e) = im_score res"
      using Min_in [OF fin nonempty] unfolding m(4) by auto
    obtain i l where "e = match_line g y iv cands (i, l)" using e(1) unfolding m(1) by auto
    with match_line_total have "\<exists>c l. lm_result e = score_pair iv l c" by blast
    then have "0 \<le> im_score res" "im_score res \<le> 180"
      using score_pair_bounds by (metis e(3))+
    moreover have "length (im_breakdown res) = length ls" unfolding m(1) by simp
    moreover have "\<forall>i < length ls. line_won g y iv cands i (ls ! i) (im_breakdown res ! i)"
      unfolding m(1) using match_line_won by (simp add: match_lines_nth)
    ultimately show ?thesis using m(3) low e by blast
  qed
  have "ls = [] \<longrightarrow> res = \<lparr>im_score = 0, im_tier = RED, im_breakdown = []\<rparr>"
    using assms gy by (auto simp: do_match_invoice_def)
  with gy lines show ?thesis by blast
qed

lemma coherent_cutoffs_Inr:
  "coherent_cutoffs go yo = Inr (g, y) \<longleftrightarrow> go = Some g \<and> yo = Some y \<and> 60 < g \<and> 0 < y \<and> y \<le> g"
  by (auto simp: coherent_cutoffs_def MIN_GREEN_def split: option.splits)

lemma resolve_thresholds_coherent:
  "resolve_thresholds rp thr iv = Inr (g, y) \<Longrightarrow> 60 < g \<and> 0 < y \<and> y \<le> g"
  by (auto simp: resolve_thresholds_def Let_def and_then_eq_Inr coherent_cutoffs_Inr split: if_split_asm)

text \<open>No invoice is approved automatically on a single signal: whatever the configuration that resolves, if an invoice
  is GREEN then it has lines, and for every one of them at least two of the signals that tie it to its candidate fired.\<close>

theorem green_needs_two_signals:
  assumes "do_match_invoice rp thr iv ls cands = Inr res" and "im_tier res = GREEN"
  shows "ls \<noteq> [] \<and> (\<forall>e\<in>set (im_breakdown res).
    2 \<le> length (filter (\<lambda>x. x \<noteq> 0) (candidate_signals (lm_result e))))"
proof -
  obtain g y where gy: "resolve_thresholds rp thr iv = Inr (g, y)"
    using assms by (auto simp: do_match_invoice_def and_then_eq_Inr)
  have ne: "ls \<noteq> []" using assms gy by (auto simp: do_match_invoice_def)
  note m = do_match_lines [OF assms(1) gy ne]
  show ?thesis
  proof (intro conjI ballI ne)
    fix e assume e: "e \<in> set (im_breakdown res)"
    then have "tier_severity (lm_tier e) \<le> 0" using m(3) assms(2) by (auto simp: tier_severity_def)
    then have green: "lm_tier e = GREEN" by (cases "lm_tier e") (auto simp: tier_severity_def)
    obtain i l where il: "e = match_line g y iv cands (i, l)" using e unfolding m(1) by auto
    from match_line_won [of g y iv cands i l] obtain c where
      r: "lm_result e = score_pair iv l c" and "lm_tier e = tier_for_score (total (lm_result e)) g y"
      unfolding il line_won_def by blast
    with green have "g \<le> of_int (total (lm_result e))" by (auto simp: tier_for_score_def split: if_split_asm)
    with resolve_thresholds_coherent [OF gy] have "60 < total (lm_result e)" by linarith
    with score_pair_bounds [of iv l c] have "50 < sum_list (candidate_signals (lm_result e))"
      unfolding r by linarith
    then show "2 \<le> length (filter (\<lambda>x. x \<noteq> 0) (candidate_signals (lm_result e)))"
      using score_pair_bounds [of iv l c] unfolding r by (intro two_signals [of _ 50]) auto
  qed
qed

lemma normalised_keys_from_keep:
  "normalised_keys_from out raw = Inr d \<Longrightarrow> map_of out k = Some v \<Longrightarrow> map_of d k = Some v"
  by (induction out raw rule: normalised_keys_from.induct) (fastforce split: if_split_asm)+

lemma normalised_keys_from_entry:
  "normalised_keys_from out raw = Inr d \<Longrightarrow> (k, v) \<in> set raw \<Longrightarrow> map_of d (strip k) = Some v"
  by (induction out raw rule: normalised_keys_from.induct)
     (auto split: if_split_asm intro: normalised_keys_from_keep)

lemmas normalised_keys_entry = normalised_keys_from_entry [where out = "[]", folded normalised_keys_def]

lemma normalised_getd: "normalised_keys raw = Inr d \<Longrightarrow> (k, v) \<in> set raw \<Longrightarrow> dict_getd d (strip k) w = v"
  by (simp add: dict_getd_def normalised_keys_entry)

text \<open>A supplier override is never silently ignored: if the cutoffs of an invoice resolve, and the configuration holds
  for the invoice's supplier, under a key that reads the same after trimming, an override of the green cutoff, however its
  key is padded, then that override is the green cutoff used; and the cutoffs are coherent.\<close>

theorem override_never_ignored:
  assumes "resolve_thresholds rp thr iv = Inr (g, y)" and "(ok, JDict overrides) \<in> set thr" and "strip ok = ''supplier_overrides''"
    and "(sk, JDict override) \<in> set overrides" and "get_field iv ''supplier_orgnr'' \<noteq> JNull"
    and "strip sk = strip (py_str rp (get_field iv ''supplier_orgnr''))" and "strip sk \<noteq> []"
    and "(gk, v) \<in> set override" and "strip gk = ''green''"
  shows "coerce_cutoff v = Some g \<and> 60 < g \<and> 0 < y \<and> y \<le> g"
proof -
  obtain top where top: "normalised_keys thr = Inr top"
    using assms(1) by (auto simp: resolve_thresholds_def Let_def and_then_eq_Inr)
  have so: "get_field top ''supplier_overrides'' = JDict overrides"
    using normalised_getd [OF top assms(2)] assms(3) by (simp add: get_field_def)
  obtain ov where ov: "normalised_keys overrides = Inr ov"
    using assms(1) by (auto simp: resolve_thresholds_def Let_def and_then_eq_Inr top so)
  have entry: "dict_getd ov (strip (py_str rp (get_field iv ''supplier_orgnr''))) (JDict []) = JDict override"
    using normalised_getd [OF ov assms(4)] assms(6) by simp
  have "\<exists>o'. normalised_keys override = Inr o' \<and>
      coherent_cutoffs (coerce_cutoff (dict_getd o' ''green'' (get_field top ''green'')))
        (coerce_cutoff (dict_getd o' ''yellow'' (get_field top ''yellow''))) = Inr (g, y)"
    using assms(1,5,6,7)
    by (auto simp: resolve_thresholds_def Let_def and_then_eq_Inr top so ov entry split: if_split_asm)
  then obtain o' where o': "normalised_keys override = Inr o'"
    and cut: "coerce_cutoff (dict_getd o' ''green'' (get_field top ''green'')) = Some g" "60 < g" "0 < y" "y \<le> g"
    by (auto simp: coherent_cutoffs_Inr)
  have "dict_getd o' ''green'' (get_field top ''green'') = v"
    using normalised_getd [OF o' assms(8)] assms(9) by simp
  with cut show ?thesis by simp
qed

section \<open>Witnesses\<close>

definition sample_thresholds :: obj where
  "sample_thresholds = [(''green'', JInt 115), (''yellow'', JInt 70),
     (''supplier_overrides'', JDict [('' 987'', JDict [(''green '', JInt 130)])])]"

definition sample_invoice :: obj where
  "sample_invoice = [(''supplier_orgnr'', JStr ''987'')]"

definition sample_candidate :: candidate where
  "sample_candidate = \<lparr>cand_bom_line = Some [(''article_no'', JStr ''A1''), (''project_id'', JStr ''P'')],
     cand_context = [(''supplier_exact'', JBool True), (''expected_amount'', JInt 100), (''po_number_exact_match'', JBool True)],
     cand_three_way_result = JStr ''GREEN'', cand_id = JInt 7\<rparr>"

definition sample_line :: obj where
  "sample_line = [(''article_no'', JStr ''A1''), (''line_total'', JInt 101)]"

lemma sample_thresholds_resolve: "resolve_thresholds rp sample_thresholds sample_invoice = Inr (130, 70)"
  by (simp add: resolve_thresholds_def sample_thresholds_def sample_invoice_def get_field_def dict_getd_def
      normalised_keys_def strip_def is_space_def py_str_def VALID_OVERRIDE_KEYS_def coerce_cutoff_def
      coherent_cutoffs_Inr)

lemma sample_total: "total (score_pair sample_invoice sample_line sample_candidate) = 155"
  by (simp add: score_pair_simps component_defs sample_candidate_def sample_line_def sample_invoice_def get_field_def
      dict_getd_def flag_def py_eq_def number_of_def has_bom_def as_amount_def is_numeric_amount_def)

lemma sample_match:
  "\<exists>res. do_match_invoice rp sample_thresholds sample_invoice [sample_line] [sample_candidate] = Inr res \<and>
     im_tier res = GREEN \<and> im_score res = 155 \<and> length (im_breakdown res) = 1"
  by (simp add: do_match_invoice_def sample_thresholds_resolve Let_def match_line_def best_candidate_result_def
      sample_total tier_for_score_def)

theorem match_invoice_triage_witness:
  "\<exists>res. do_match_invoice (\<lambda>v. []) sample_thresholds sample_invoice [sample_line] [sample_candidate] = Inr res \<and>
     length (im_breakdown res) = 1 \<and> 0 \<le> im_score res \<and> im_score res \<le> 180"
  using sample_match [of "\<lambda>v. []"] match_invoice_triage by fastforce

theorem green_needs_two_signals_witness:
  "\<exists>res. do_match_invoice (\<lambda>v. []) sample_thresholds sample_invoice [sample_line] [sample_candidate] = Inr res \<and>
     (\<forall>e\<in>set (im_breakdown res). 2 \<le> length (filter (\<lambda>x. x \<noteq> 0) (candidate_signals (lm_result e))))"
  using sample_match [of "\<lambda>v. []"] green_needs_two_signals by blast

theorem override_never_ignored_witness: "coerce_cutoff (JInt 130) = Some 130"
proof -
  from override_never_ignored [OF sample_thresholds_resolve [of "\<lambda>v. []"],
      of "''supplier_overrides''" "[('' 987'', JDict [(''green '', JInt 130)])]" "'' 987''" "[(''green '', JInt 130)]"
        "''green ''" "JInt 130"]
  show ?thesis
    by (simp add: sample_thresholds_def sample_invoice_def get_field_def dict_getd_def strip_def is_space_def py_str_def)
qed

end
