(* ===== verification/Quotas.thy ===== *)
theory Quotas
  imports Complex_Main Prelude "HOL-Library.List_Lexorder" "HOL-Library.Char_ord"
begin

text \<open>
  Resource quotas (\<^verbatim>\<open>src/nce/quotas.py\<close>): consuming the quotas of a namespace and an agent, in the
  \<open>resource_quotas\<close> table or on Redis counters that mirror it, the rollback of a reservation, the flush of
  the counters and the cost of the tools. The table is a dictionary from row ids to rows, in the order
  the database returns them; Redis is a map from keys to numbers; \<open>fails\<close> says for which rows a Redis call
  raises before it takes effect.
\<close>

section \<open>State\<close>

record quota_row =
  q_ns :: string
  q_resource :: string
  q_agent :: "string option"
  q_used :: int
  q_limit :: int
  q_reset_at :: "real option"

type_synonym quota_table = "(string, quota_row) dict"
type_synonym redis_counters = "string \<rightharpoonup> int"

datatype quota_error = QuotaExceededError | QuotaValueError | RedisError

record QuotaReservation =
  res_pool :: bool
  res_redis :: bool
  res_ns :: "string option"
  res_steps :: "(string \<times> int) list"

record quota_state =
  qs_table :: quota_table
  qs_redis :: redis_counters

definition QUOTA_REDIS_KEY_PREFIX :: string where
  "QUOTA_REDIS_KEY_PREFIX = ''nce:quota:used:''"

definition MAX_QUOTA_DELTA :: int where
  "MAX_QUOTA_DELTA = 10000000"

definition quota_redis_key :: "string \<Rightarrow> string \<Rightarrow> string" where
  "quota_redis_key ns qid = QUOTA_REDIS_KEY_PREFIX @ ns @ '':'' @ qid"

text \<open>\<open>rest.rsplit(":", 1)\<close>: what is before and after the last colon.\<close>

definition rsplit_colon :: "string \<Rightarrow> (string \<times> string) option" where
  "rsplit_colon s = (let (tail, rest) = (takeWhile (\<lambda>c. c \<noteq> CHR '':'') (rev s), dropWhile (\<lambda>c. c \<noteq> CHR '':'') (rev s))
     in if rest = [] then None else Some (rev (tl rest), rev tail))"

definition parse_quota_redis_key :: "(string \<Rightarrow> string option) \<Rightarrow> string \<Rightarrow> (string \<times> string) option" where
  "parse_quota_redis_key uuid key =
     (if take (length QUOTA_REDIS_KEY_PREFIX) key \<noteq> QUOTA_REDIS_KEY_PREFIX then None
      else case rsplit_colon (drop (length QUOTA_REDIS_KEY_PREFIX) key) of
             None \<Rightarrow> None
           | Some (ns_str, qid_str) \<Rightarrow>
               (case uuid ns_str of
                  None \<Rightarrow> None
                | Some ns \<Rightarrow> (case uuid qid_str of None \<Rightarrow> None | Some qid \<Rightarrow> Some (ns, qid))))"

section \<open>Counters\<close>

text \<open>The atomic script on one counter; \<open>-1\<close> reports that the limit would be exceeded.\<close>

definition quota_incr_lua :: "string \<Rightarrow> int \<Rightarrow> int \<Rightarrow> int \<Rightarrow> redis_counters \<Rightarrow> int \<times> redis_counters" where
  "quota_incr_lua key base delta limit redis =
     (let v = (case redis key of None \<Rightarrow> base | Some cur \<Rightarrow> cur);
          newv = v + delta
      in if newv > limit then (-1, redis) else (newv, redis(key \<mapsto> newv)))"

definition quota_incr_failed :: "int \<Rightarrow> bool" where
  "quota_incr_failed result = (result = -1)"

definition redis_decrby :: "string \<Rightarrow> int \<Rightarrow> redis_counters \<Rightarrow> redis_counters" where
  "redis_decrby key delta redis = redis(key \<mapsto> (case redis key of None \<Rightarrow> 0 | Some v \<Rightarrow> v) - delta)"

text \<open>One row of the table, under Redis and in the table itself.\<close>

definition redis_incr ::
    "(string \<Rightarrow> bool) \<Rightarrow> string \<Rightarrow> quota_table \<Rightarrow> string \<Rightarrow> int \<Rightarrow> redis_counters \<Rightarrow> quota_error + redis_counters" where
  "redis_incr fails ns table qid delta redis =
     (case dict_get table qid of
        None \<Rightarrow> Inl RedisError
      | Some row \<Rightarrow>
          if fails qid then Inl RedisError
          else case quota_incr_lua (quota_redis_key ns qid) (q_used row) delta (q_limit row) redis of
                 (res, redis') \<Rightarrow> if quota_incr_failed res then Inl QuotaExceededError else Inr redis')"

definition pg_incr :: "string \<Rightarrow> int \<Rightarrow> quota_table \<Rightarrow> quota_error + quota_table" where
  "pg_incr qid delta table =
     (case dict_get table qid of
        Some row \<Rightarrow>
          if q_used row + delta \<le> q_limit row
          then Inr (dict_set qid (row\<lparr>q_used := q_used row + delta\<rparr>) table) else Inl QuotaExceededError
      | None \<Rightarrow> Inl QuotaExceededError)"

text \<open>The loop over the rows to charge: the steps applied so far, and the error that stopped it.\<close>

fun incr_all ::
    "(string \<Rightarrow> int \<Rightarrow> 's \<Rightarrow> quota_error + 's) \<Rightarrow> (string \<times> int) list \<Rightarrow> 's \<Rightarrow> quota_error option \<times> (string \<times> int) list \<times> 's" where
  "incr_all incr [] s = (None, [], s)"
| "incr_all incr ((qid, delta) # work) s =
     (case incr qid delta s of
        Inl e \<Rightarrow> (Some e, [], s)
      | Inr s' \<Rightarrow> (case incr_all incr work s' of (e, steps, s'') \<Rightarrow> (e, (qid, delta) # steps, s'')))"

section \<open>Consuming\<close>

text \<open>The positive amounts, refused when one exceeds the maximum.\<close>

fun quota_deltas :: "(string, int) dict \<Rightarrow> quota_error + (string, int) dict" where
  "quota_deltas [] = Inr []"
| "quota_deltas ((k, d) # amounts) =
     (if d \<le> 0 then quota_deltas amounts
      else if d > MAX_QUOTA_DELTA then Inl QuotaValueError
      else case quota_deltas amounts of Inl e \<Rightarrow> Inl e | Inr ds \<Rightarrow> Inr ((k, d) # ds))"

definition row_matches :: "real \<Rightarrow> string \<Rightarrow> string option \<Rightarrow> string \<Rightarrow> quota_row \<Rightarrow> bool" where
  "row_matches now ns agent resource row =
     (q_ns row = ns \<and> q_resource row = resource \<and>
      (case q_reset_at row of None \<Rightarrow> True | Some t \<Rightarrow> t > now) \<and>
      (q_agent row = None \<or> agent \<noteq> None \<and> q_agent row = agent))"

text \<open>The selected rows, those of the whole namespace first.\<close>

definition select_rows :: "real \<Rightarrow> string \<Rightarrow> string option \<Rightarrow> quota_table \<Rightarrow> string \<Rightarrow> string list" where
  "select_rows now ns agent table resource =
     (let rows = filter (\<lambda>(_, row). row_matches now ns agent resource row) table
      in map fst (filter (\<lambda>(_, row). q_agent row = None) rows @ filter (\<lambda>(_, row). q_agent row \<noteq> None) rows))"

definition quota_work :: "real \<Rightarrow> string \<Rightarrow> string option \<Rightarrow> quota_table \<Rightarrow> (string, int) dict \<Rightarrow> (string \<times> int) list" where
  "quota_work now ns agent table deltas =
     concat (map (\<lambda>(resource, delta). map (\<lambda>qid. (qid, delta)) (select_rows now ns agent table resource))
       (sort_key fst deltas))"

definition null_reservation :: QuotaReservation where
  "null_reservation = \<lparr>res_pool = False, res_redis = False, res_ns = None, res_steps = []\<rparr>"

definition undo_redis :: "string \<Rightarrow> (string \<times> int) list \<Rightarrow> redis_counters \<Rightarrow> redis_counters" where
  "undo_redis ns steps redis = fold (\<lambda>(qid, delta). redis_decrby (quota_redis_key ns qid) delta) (rev steps) redis"

definition consume_resources_redis ::
    "(string \<Rightarrow> bool) \<Rightarrow> string \<Rightarrow> quota_table \<Rightarrow> (string \<times> int) list \<Rightarrow> redis_counters \<Rightarrow>
       (quota_error + QuotaReservation) \<times> redis_counters" where
  "consume_resources_redis fails ns table work redis =
     (case incr_all (redis_incr fails ns table) work redis of
        (None, steps, redis') \<Rightarrow>
          (Inr \<lparr>res_pool = True, res_redis = True, res_ns = Some ns, res_steps = steps\<rparr>, redis')
      | (Some e, steps, redis') \<Rightarrow> (Inl e, undo_redis ns steps redis'))"

definition consume_resources ::
    "bool \<Rightarrow> bool \<Rightarrow> (string \<Rightarrow> bool) \<Rightarrow> real \<Rightarrow> string \<Rightarrow> string option \<Rightarrow> (string, int) dict \<Rightarrow> quota_state \<Rightarrow>
       (quota_error + QuotaReservation) \<times> quota_state" where
  "consume_resources enabled use_redis fails now ns agent amounts st =
     (if \<not> enabled then (Inr null_reservation, st)
      else case quota_deltas amounts of
             Inl e \<Rightarrow> (Inl e, st)
           | Inr deltas \<Rightarrow>
               if deltas = [] then (Inr \<lparr>res_pool = True, res_redis = False, res_ns = None, res_steps = []\<rparr>, st)
               else let work = quota_work now ns agent (qs_table st) deltas in
               if use_redis
               then (case consume_resources_redis fails ns (qs_table st) work (qs_redis st) of
                       (r, redis') \<Rightarrow> (r, st\<lparr>qs_redis := redis'\<rparr>))
               else (case incr_all pg_incr work (qs_table st) of
                       (None, steps, table') \<Rightarrow>
                         (Inr \<lparr>res_pool = True, res_redis = False, res_ns = None, res_steps = steps\<rparr>,
                          st\<lparr>qs_table := table'\<rparr>)
                     | (Some e, _, _) \<Rightarrow> (Inl e, st)))"

text \<open>\<open>QuotaReservation.rollback\<close>; a decrement in the table stops at zero.\<close>

definition pg_decr :: "string \<Rightarrow> int \<Rightarrow> quota_table \<Rightarrow> quota_table" where
  "pg_decr qid delta table = (case dict_get table qid of
      None \<Rightarrow> table | Some row \<Rightarrow> dict_set qid (row\<lparr>q_used := max 0 (q_used row - delta)\<rparr>) table)"

definition rollback :: "QuotaReservation \<Rightarrow> quota_state \<Rightarrow> quota_state" where
  "rollback r st =
     (if res_redis r \<and> res_ns r \<noteq> None \<and> res_steps r \<noteq> []
      then st\<lparr>qs_redis := undo_redis (the (res_ns r)) (res_steps r) (qs_redis st)\<rparr>
      else if res_steps r = [] \<or> \<not> res_pool r then st
      else st\<lparr>qs_table := fold (\<lambda>(qid, delta). pg_decr qid delta) (res_steps r) (qs_table st)\<rparr>)"

section \<open>Flush and reset\<close>

definition flush_key :: "(string \<Rightarrow> string option) \<Rightarrow> string \<Rightarrow> quota_state \<Rightarrow> int \<times> quota_state" where
  "flush_key uuid key st =
     (case parse_quota_redis_key uuid key of
        None \<Rightarrow> (0, st)
      | Some (ns, qid) \<Rightarrow>
          (case qs_redis st key of
             None \<Rightarrow> (0, st)
           | Some used \<Rightarrow>
               (case dict_get (qs_table st) qid of
                  Some row \<Rightarrow>
                    if q_ns row = ns
                    then (1, st\<lparr>qs_table := dict_set qid (row\<lparr>q_used := max (q_used row) used\<rparr>) (qs_table st)\<rparr>)
                    else (1, st)
                | None \<Rightarrow> (1, st))))"

fun flush_quota_counters_to_postgres :: "(string \<Rightarrow> string option) \<Rightarrow> string list \<Rightarrow> quota_state \<Rightarrow> int \<times> quota_state" where
  "flush_quota_counters_to_postgres uuid [] st = (0, st)"
| "flush_quota_counters_to_postgres uuid (key # keys) st =
     (case flush_key uuid key st of
        (n, st') \<Rightarrow> (case flush_quota_counters_to_postgres uuid keys st' of (m, st'') \<Rightarrow> (n + m, st'')))"

definition delete_quota_redis_counter :: "string \<Rightarrow> string \<Rightarrow> quota_state \<Rightarrow> quota_state" where
  "delete_quota_redis_counter ns qid st = st\<lparr>qs_redis := (qs_redis st)(quota_redis_key ns qid := None)\<rparr>"

section \<open>Costs\<close>

definition estimate_llm_tokens :: "int \<Rightarrow> string option list \<Rightarrow> int" where
  "estimate_llm_tokens divisor texts =
     (let total_chars = (\<Sum>t\<leftarrow>texts. int (length (case t of None \<Rightarrow> [] | Some s \<Rightarrow> s)))
      in max 1 (total_chars div max 1 divisor))"

definition utf8_length :: "string \<Rightarrow> int" where
  "utf8_length s = (\<Sum>c\<leftarrow>s. if (of_char c :: nat) < 128 then 1 else 2)"

definition estimate_storage_bytes :: "string option list \<Rightarrow> int" where
  "estimate_storage_bytes texts = (\<Sum>t\<leftarrow>texts. utf8_length (case t of None \<Rightarrow> [] | Some s \<Rightarrow> s))"

type_synonym tool_args = "string \<Rightarrow> string option"

definition store_memory_cost :: "int \<Rightarrow> tool_args \<Rightarrow> (string, int) dict" where
  "store_memory_cost divisor args =
     (let texts = [args ''content'', args ''summary'', args ''heavy_payload''];
          tok = estimate_llm_tokens divisor texts
      in [(''llm_tokens'', max 1 (tok * 3)), (''storage_bytes'', estimate_storage_bytes texts), (''memory_count'', 1)])"

definition search_cost :: "int \<Rightarrow> tool_args \<Rightarrow> (string, int) dict" where
  "search_cost divisor args = [(''llm_tokens'', estimate_llm_tokens divisor [args ''query''] + 50)]"

definition tool_cost :: "int \<Rightarrow> string \<Rightarrow> tool_args \<Rightarrow> (string, int) dict option" where
  "tool_cost divisor tool args =
     (if tool = ''store_memory'' then Some (store_memory_cost divisor args)
      else if tool \<in> {''semantic_search'', ''api_semantic_search'', ''a2a_query_shared''} then Some (search_cost divisor args)
      else if tool \<in> {''boost_memory'', ''forget_memory'', ''unredact_memory''} then Some [(''llm_tokens'', 64)]
      else if tool = ''list_contradictions'' then Some [(''llm_tokens'', 128)]
      else None)"

definition nonempty_or :: "string option \<Rightarrow> string \<Rightarrow> string" where
  "nonempty_or v d = (case v of None \<Rightarrow> d | Some s \<Rightarrow> if s = [] then d else s)"

definition tool_quota_plan ::
    "(string \<Rightarrow> string option) \<Rightarrow> int \<Rightarrow> string \<Rightarrow> tool_args \<Rightarrow> quota_error + (string \<times> string option \<times> (string, int) dict) option" where
  "tool_quota_plan uuid divisor tool args =
     (case tool_cost divisor tool args of
        None \<Rightarrow> Inr None
      | Some amounts \<Rightarrow>
          (case args (if tool = ''a2a_query_shared'' then ''consumer_namespace_id'' else ''namespace_id'') of
             None \<Rightarrow> Inr None
           | Some raw \<Rightarrow>
               (case uuid raw of
                  None \<Rightarrow> Inl QuotaValueError
                | Some ns \<Rightarrow>
                    Inr (Some (ns,
                      if tool = ''a2a_query_shared'' then Some (nonempty_or (args ''consumer_agent_id'') ''default'')
                      else if tool = ''list_contradictions''
                      then (case args ''agent_id'' of None \<Rightarrow> None | Some a \<Rightarrow> if a = [] then None else Some a)
                      else Some (nonempty_or (args ''agent_id'') ''default''),
                      amounts)))))"

definition consume_for_tool ::
    "(string \<Rightarrow> string option) \<Rightarrow> int \<Rightarrow> bool \<Rightarrow> bool \<Rightarrow> (string \<Rightarrow> bool) \<Rightarrow> real \<Rightarrow> string \<Rightarrow> tool_args \<Rightarrow> quota_state \<Rightarrow>
       (quota_error + QuotaReservation) \<times> quota_state" where
  "consume_for_tool uuid divisor enabled use_redis fails now tool args st =
     (if \<not> enabled then (Inr null_reservation, st)
      else case tool_quota_plan uuid divisor tool args of
             Inl e \<Rightarrow> (Inl e, st)
           | Inr None \<Rightarrow> (Inr null_reservation, st)
           | Inr (Some (ns, agent, amounts)) \<Rightarrow> consume_resources enabled use_redis fails now ns agent amounts st)"

section \<open>The contract of a counter\<close>

text \<open>What a list of steps adds to a row.\<close>

definition charge :: "(string \<times> int) list \<Rightarrow> string \<Rightarrow> int" where
  "charge steps qid = (\<Sum>(q, d)\<leftarrow>steps. if q = qid then d else 0)"

lemma charge_simps [simp]:
  "charge [] qid = 0" "charge ((q, d) # steps) qid = (if q = qid then d else 0) + charge steps qid"
  by (simp_all add: charge_def)

lemma charge_nonneg: "(\<And>q d. (q, d) \<in> set steps \<Longrightarrow> 0 < d) \<Longrightarrow> 0 \<le> charge steps qid"
proof (induction steps)
  case (Cons s steps)
  obtain q d where s: "s = (q, d)" by force
  have "0 < d" using Cons.prems by (auto simp: s)
  moreover have "0 \<le> charge steps qid" using Cons by auto
  ultimately show ?case by (simp add: s)
qed simp

lemma charge_pos: "(\<And>q d. (q, d) \<in> set steps \<Longrightarrow> 0 < d) \<Longrightarrow> 0 < charge steps qid \<longleftrightarrow> qid \<in> fst ` set steps"
proof (induction steps)
  case (Cons s steps)
  obtain q d where s: "s = (q, d)" by force
  have "0 < d" and nonneg: "0 \<le> charge steps qid" using Cons.prems by (auto simp: s intro!: charge_nonneg)
  then show ?case using Cons.IH Cons.prems by (auto simp: s)
qed simp

text \<open>
  A counter adds a positive amount to one row and to no other, keeps within the row's limit, and refuses
  only what would exceed it. The table and the Redis mirror are two implementations.
\<close>

locale quota_counter =
  fixes usage :: "'s \<Rightarrow> string \<Rightarrow> int"
    and limit :: "'s \<Rightarrow> string \<Rightarrow> int"
    and known :: "'s \<Rightarrow> string \<Rightarrow> bool"
    and incr :: "string \<Rightarrow> int \<Rightarrow> 's \<Rightarrow> quota_error + 's"
  assumes incr_usage: "known s q \<Longrightarrow> 0 < d \<Longrightarrow> incr q d s = Inr s' \<Longrightarrow> usage s' = (usage s)(q := usage s q + d)"
    and incr_limit: "known s q \<Longrightarrow> 0 < d \<Longrightarrow> incr q d s = Inr s' \<Longrightarrow> usage s q + d \<le> limit s q \<and> limit s' = limit s"
    and incr_known: "known s q \<Longrightarrow> 0 < d \<Longrightarrow> incr q d s = Inr s' \<Longrightarrow> known s p \<Longrightarrow> known s' p"
    and incr_exceeded: "known s q \<Longrightarrow> 0 < d \<Longrightarrow> incr q d s = Inl QuotaExceededError \<Longrightarrow> limit s q < usage s q + d"
begin

lemma incr_all_usage:
  assumes "incr_all incr work s = (e, steps, s')" and "\<And>q d. (q, d) \<in> set work \<Longrightarrow> known s q \<and> 0 < d"
  shows "usage s' q = usage s q + charge steps q \<and> limit s' = limit s \<and> set steps \<subseteq> set work \<and>
    (e = None \<longrightarrow> steps = work) \<and> (q \<in> fst ` set steps \<longrightarrow> usage s' q \<le> limit s q)"
  using assms
proof (induction work arbitrary: s steps)
  case (Cons w work)
  obtain p d where w: "w = (p, d)" by force
  have p: "known s p" "0 < d" using Cons.prems(2) w by auto
  show ?case
  proof (cases "incr p d s")
    case (Inr s1)
    obtain steps' where r: "incr_all incr work s1 = (e, steps', s')" and st: "steps = (p, d) # steps'"
      using Cons.prems(1) by (auto simp: w Inr split: prod.splits)
    have known: "known s1 q \<and> 0 < d" if "(q, d) \<in> set work" for q d
      using Cons.prems(2) [of q d] that incr_known [OF p Inr] by (auto simp: w)
    note IH = Cons.IH [OF r known]
    have pos: "0 < d" if "(q, d) \<in> set steps'" for q d using IH that known by blast
    have fit: "usage s' q \<le> limit s q" if "q \<in> fst ` set steps"
    proof (cases "q \<in> fst ` set steps'")
      case True
      with IH incr_limit [OF p Inr] show ?thesis by simp
    next
      case False
      then have "q = p" "charge steps' q = 0"
        using that charge_pos [of steps' q] charge_nonneg [of steps' q] pos by (auto simp: st)
      with IH incr_usage [OF p Inr] incr_limit [OF p Inr] show ?thesis by simp
    qed
    show ?thesis using IH incr_usage [OF p Inr] incr_limit [OF p Inr] fit by (auto simp: st w)
  qed (use Cons.prems w in auto)
qed simp

lemma incr_all_refused:
  assumes "incr_all incr work s = (Some QuotaExceededError, steps, s')"
    and "\<And>q d. (q, d) \<in> set work \<Longrightarrow> known s q \<and> 0 < d"
  shows "\<exists>q d rest. work = steps @ (q, d) # rest \<and> limit s q < usage s' q + d"
  using assms
proof (induction work arbitrary: s steps)
  case (Cons w work)
  obtain p d where w: "w = (p, d)" by force
  have p: "known s p" "0 < d" using Cons.prems(2) w by auto
  show ?case
  proof (cases "incr p d s")
    case (Inl e)
    then show ?thesis using Cons.prems(1) incr_exceeded [OF p] by (auto simp: w)
  next
    case (Inr s1)
    obtain steps' where r: "incr_all incr work s1 = (Some QuotaExceededError, steps', s')" and "steps = w # steps'"
      using Cons.prems(1) by (auto simp: w Inr split: prod.splits)
    have "known s1 q \<and> 0 < d" if "(q, d) \<in> set work" for q d
      using Cons.prems(2) [of q d] that incr_known [OF p Inr] by (auto simp: w)
    from Cons.IH [OF r this] show ?thesis using incr_limit [OF p Inr] \<open>steps = w # steps'\<close> by auto
  qed
qed simp

end

section \<open>The two counters\<close>

definition table_usage :: "quota_table \<Rightarrow> string \<Rightarrow> int" where
  "table_usage table qid = (case dict_get table qid of None \<Rightarrow> 0 | Some row \<Rightarrow> q_used row)"

definition table_limit :: "quota_table \<Rightarrow> string \<Rightarrow> int" where
  "table_limit table qid = (case dict_get table qid of None \<Rightarrow> 0 | Some row \<Rightarrow> q_limit row)"

definition redis_usage :: "string \<Rightarrow> quota_table \<Rightarrow> redis_counters \<Rightarrow> string \<Rightarrow> int" where
  "redis_usage ns table redis qid =
     (case redis (quota_redis_key ns qid) of Some v \<Rightarrow> v | None \<Rightarrow> table_usage table qid)"

lemma quota_redis_key_eq [simp]: "quota_redis_key ns q = quota_redis_key ns p \<longleftrightarrow> q = p"
  by (simp add: quota_redis_key_def)

interpretation table: quota_counter table_usage table_limit "\<lambda>table qid. dict_get table qid \<noteq> None" pg_incr
  by unfold_locales
    (auto simp: pg_incr_def table_usage_def table_limit_def fun_eq_iff split: option.splits if_split_asm)

lemma redis_incr_Inr:
  assumes "redis_incr fails ns table q d r = Inr r'" and "dict_get table q \<noteq> None"
  shows "r' = r(quota_redis_key ns q \<mapsto> redis_usage ns table r q + d) \<and> redis_usage ns table r q + d \<le> table_limit table q"
  using assms
  by (auto simp: redis_incr_def quota_incr_lua_def quota_incr_failed_def redis_usage_def table_usage_def table_limit_def
      Let_def split: option.split_asm if_split_asm)

lemma redis_incr_exceeded:
  assumes "redis_incr fails ns table q d r = Inl QuotaExceededError" and "0 \<le> redis_usage ns table r q" and "0 < d"
  shows "table_limit table q < redis_usage ns table r q + d"
  using assms
  by (auto simp: redis_incr_def quota_incr_lua_def quota_incr_failed_def redis_usage_def table_usage_def table_limit_def
      Let_def split: option.split_asm if_split_asm)

lemma redis_usage_set:
  "redis_usage ns table (r(quota_redis_key ns q \<mapsto> v)) p = (if p = q then v else redis_usage ns table r p)"
  by (simp add: redis_usage_def)

interpretation redis: quota_counter "redis_usage ns table" "\<lambda>_. table_limit table"
    "\<lambda>redis qid. dict_get table qid \<noteq> None \<and> 0 \<le> redis_usage ns table redis qid" "redis_incr fails ns table"
  by unfold_locales (auto simp: fun_eq_iff redis_usage_set dest!: redis_incr_Inr intro: redis_incr_exceeded)

section \<open>Consuming and rolling back\<close>

definition usage_of :: "bool \<Rightarrow> string \<Rightarrow> quota_state \<Rightarrow> string \<Rightarrow> int" where
  "usage_of use_redis ns st qid =
     (if use_redis then redis_usage ns (qs_table st) (qs_redis st) qid else table_usage (qs_table st) qid)"



lemma charge_append [simp]: "charge (xs @ ys) q = charge xs q + charge ys q"
  by (simp add: charge_def)

lemma charge_rev [simp]: "charge (rev xs) q = charge xs q"
  by (induction xs) (auto simp: charge_def)








text \<open>A rollback whose Redis counter has disappeared in the meantime (expired, evicted or reset) makes the row forget its
  usage: the counter is recreated below zero, so that the whole limit can be consumed once more although the table still
  records the row as used.\<close>

theorem lost_counter_rollback_forgets:
  assumes "qs_redis st (quota_redis_key ns q) = None" and "dict_get (qs_table st) q = Some row"
    and "0 < d" and "0 \<le> q_limit row" and "\<not> fails q"
  shows "let st' = rollback \<lparr>res_pool = True, res_redis = True, res_ns = Some ns, res_steps = [(q, d)]\<rparr> st in
    usage_of True ns st q = q_used row \<and> usage_of True ns st' q = - d \<and> table_usage (qs_table st') q = q_used row \<and>
    (\<exists>redis'. redis_incr fails ns (qs_table st') q (q_limit row + d) (qs_redis st') = Inr redis')"
  using assms
  by (simp add: Let_def rollback_def undo_redis_def redis_decrby_def usage_of_def redis_usage_def table_usage_def
      redis_incr_def quota_incr_lua_def quota_incr_failed_def)

section \<open>The flush\<close>

lemma rsplit_colon_last: "CHR '':'' \<notin> set qid \<Longrightarrow> rsplit_colon (ns @ '':'' @ qid) = Some (ns, qid)"
proof -
  assume "CHR '':'' \<notin> set qid"
  then have no: "\<And>c. c \<in> set (rev qid) \<Longrightarrow> c \<noteq> CHR '':''" by auto
  show ?thesis
    using takeWhile_append2 [of "rev qid" "\<lambda>c. c \<noteq> CHR '':''" "CHR '':'' # rev ns", OF no]
      dropWhile_append2 [of "rev qid" "\<lambda>c. c \<noteq> CHR '':''" "CHR '':'' # rev ns", OF no]
    by (simp add: rsplit_colon_def)
qed

lemma quota_redis_key_roundtrip:
  assumes "CHR '':'' \<notin> set qid" and "uuid ns = Some ns" and "uuid qid = Some qid"
  shows "parse_quota_redis_key uuid (quota_redis_key ns qid) = Some (ns, qid)"
  using assms rsplit_colon_last [OF assms(1), of ns]
  by (simp add: parse_quota_redis_key_def quota_redis_key_def)

lemma flush_key_usage:
  assumes "flush_key uuid key st = (n, st')"
  shows "table_usage (qs_table st) q \<le> table_usage (qs_table st') q \<and> qs_redis st' = qs_redis st \<and>
    table_limit (qs_table st') q = table_limit (qs_table st) q"
  using assms by (auto simp: flush_key_def table_usage_def table_limit_def split: option.split_asm prod.split_asm if_split_asm)

lemma flush_never_lowers:
  "flush_quota_counters_to_postgres uuid keys st = (n, st') \<Longrightarrow>
   table_usage (qs_table st) q \<le> table_usage (qs_table st') q \<and> qs_redis st' = qs_redis st"
proof (induction keys arbitrary: st n)
  case (Cons key keys)
  obtain m st1 where k: "flush_key uuid key st = (m, st1)" by force
  obtain m' where f: "flush_quota_counters_to_postgres uuid keys st1 = (m', st')"
    using Cons.prems by (auto simp: k split: prod.split_asm)
  show ?case using flush_key_usage [OF k, of q] Cons.IH [OF f] by auto
qed simp

section \<open>Witnesses\<close>

definition sample_quota_row :: quota_row where
  "sample_quota_row = \<lparr>q_ns = ''n'', q_resource = ''llm_tokens'', q_agent = None, q_used = 5, q_limit = 10, q_reset_at = None\<rparr>"

definition sample_quota_state :: quota_state where
  "sample_quota_state = \<lparr>qs_table = [(''r'', sample_quota_row)], qs_redis = Map.empty\<rparr>"




theorem lost_counter_rollback_forgets_witness:
  "usage_of True ''n'' (rollback \<lparr>res_pool = True, res_redis = True, res_ns = Some ''n'', res_steps = [(''r'', 3)]\<rparr>
     sample_quota_state) ''r'' = - 3"
  using lost_counter_rollback_forgets [of sample_quota_state "''n''" "''r''" sample_quota_row 3 "\<lambda>q. False"]
  by (simp add: Let_def sample_quota_state_def sample_quota_row_def)

end
