(* ===== verification/Inventory.thy ===== *)
theory Inventory
  imports PyValues "HOL-Library.List_Lexorder" "HOL-Library.Char_ord" "HOL-Library.Multiset"
begin

text \<open>
  Stock keeping (\<^verbatim>\<open>src/nce/vertical_modules/inventory/\<close>: \<open>stock.py\<close>, \<open>reservation.py\<close>, \<open>transactions.py\<close>):
  quantities per namespace, article and location, transfers, consumption, reservations, the ledger of
  movements and the mirror in the knowledge graph. A quantity is a number of thousandths, a unit cost a
  number of hundredths, as the columns hold them. Each operation runs in one transaction: it returns an
  error, and then nothing is written, or the new database.
\<close>

section \<open>State\<close>

datatype inv_error =
    InvValueError string
  | InsufficientStockError int
  | InsufficientAvailableError int int int
  | OverReleaseError int
  | OwnershipError string
  | NumericOverflow
  | ForeignKeyViolation
  | RmaNotFoundError string
  | RmaAlreadySettledError string string
  | RmaNotWeeeScopeError string
  | LedgerDivergenceError "(string \<times> string \<times> int \<times> int \<times> int) list"

record item_row =
  qty_on_hand :: int
  qty_reserved :: int
  qty_blocked :: int
  ir_created :: int

record ledger_row =
  lr_key :: "string \<times> string \<times> string"
  lr_delta :: int
  lr_reason :: string
  lr_unit_cost :: "int option"
  lr_ref :: "string option"
  lr_created :: int

text \<open>A row of \<open>inventory_rma\<close>, the goods returned.\<close>

record rma_row =
  rma_sku :: string
  rma_serial :: "string option"
  rma_location :: string
  rma_qty :: int
  rma_reason :: string
  rma_weee :: string
  rma_disposal_ref :: "string option"
  rma_movement :: string

text \<open>A key of \<open>inventory_items\<close>: namespace, article, location.\<close>

type_synonym item_key = "string \<times> string \<times> string"

text \<open>
  The tables, and \<open>iv_now\<close>, the value of \<open>now()\<close>: the time the current transaction began. Receipts are
  kept under their idempotency key.
\<close>

record inv_db =
  iv_now :: int
  iv_items :: "(item_key, item_row) dict"
  iv_ledger :: "ledger_row list"
  iv_locations :: "(string \<times> string) list"
  iv_owners :: "(string \<times> string, string) dict"
  iv_nodes :: "(string \<times> string, string) dict"
  iv_edges :: "(string \<times> string \<times> string \<times> string, real) dict"
  iv_listeners :: "(string \<times> string) list"
  iv_outbox :: "(string \<times> string \<times> string \<times> string) list"
  iv_rmas :: "(string \<times> string, rma_row) dict"
  iv_receipts :: "(string \<times> string, string) dict"

section \<open>Quantities\<close>

text \<open>\<open>ROUND_HALF_UP\<close> of the \<open>decimal\<close> module: ties go away from zero.\<close>

definition round_half_away :: "real \<Rightarrow> int" where
  "round_half_away x = (if 0 \<le> x then \<lfloor>x + 1 / 2\<rfloor> else - \<lfloor>- x + 1 / 2\<rfloor>)"

text \<open>\<open>value.quantize(...)\<close>, in units of the last place; the default context has 28 digits.\<close>

definition quantise :: "nat \<Rightarrow> real \<Rightarrow> inv_error + int" where
  "quantise places x = (let q = round_half_away (x * 10 ^ places) in
     if \<bar>q\<bar> \<ge> 10 ^ 28 then Inl (InvValueError ''too large to express'') else Inr q)"

definition as_decimal :: "json \<Rightarrow> inv_error + real" where
  "as_decimal v = (case v of
      JBool _ \<Rightarrow> Inl (InvValueError ''bool is not a number'')
    | JInt i \<Rightarrow> Inr (of_int i)
    | JFloat (Fin x) \<Rightarrow> Inr x
    | JFloat _ \<Rightarrow> Inl (InvValueError ''must be finite'')
    | _ \<Rightarrow> Inl (InvValueError ''expected int/float/Decimal''))"

definition as_quantity :: "json \<Rightarrow> inv_error + int" where
  "as_quantity v = (if v = JNull then Inl (InvValueError ''a quantity is required'')
     else and_then (as_decimal v) (\<lambda>x. and_then (quantise 3 x) (\<lambda>q.
       if q \<le> 0 then Inl (InvValueError ''must be > 0'') else Inr q)))"

definition as_uuid :: "(string \<Rightarrow> string option) \<Rightarrow> string option \<Rightarrow> inv_error + string" where
  "as_uuid uuid raw = (case raw of
      None \<Rightarrow> Inl (InvValueError ''required'')
    | Some s \<Rightarrow> if s = [] then Inl (InvValueError ''required'')
        else case uuid s of None \<Rightarrow> Inl (InvValueError ''expected a UUID string'') | Some u \<Rightarrow> Inr u)"

definition as_sku :: "string option \<Rightarrow> inv_error + string" where
  "as_sku raw = (let sku = strip (case raw of None \<Rightarrow> [] | Some s \<Rightarrow> s) in
     if sku = [] then Inl (InvValueError ''sku is required'') else Inr sku)"

text \<open>\<open>NUMERIC(18,3)\<close> for quantities, \<open>NUMERIC(18,2)\<close> for costs: 18 digits in units of the last place.\<close>

definition fits_column :: "int \<Rightarrow> bool" where
  "fits_column q \<longleftrightarrow> \<bar>q\<bar> < 10 ^ 18"

section \<open>The ledger\<close>

definition REASONS_IN :: "string list" where
  "REASONS_IN = [''transfer_in'', ''goods_receipt'']"

definition REASONS_OUT :: "string list" where
  "REASONS_OUT = [''transfer_out'', ''consumption'']"

definition VALID_REASON_CATEGORIES :: "string list" where
  "VALID_REASON_CATEGORIES = [''transfer_in'', ''transfer_out'', ''consumption'', ''adjustment'', ''goods_receipt'']"

definition assert_sign_matches_category :: "string \<Rightarrow> int \<Rightarrow> inv_error + unit" where
  "assert_sign_matches_category reason delta =
     (if reason \<in> set REASONS_IN \<and> delta \<le> 0 then Inl (InvValueError ''requires a positive delta'')
      else if reason \<in> set REASONS_OUT \<and> delta \<ge> 0 then Inl (InvValueError ''requires a negative delta'')
      else Inr ())"

definition ledger_cost :: "json option \<Rightarrow> inv_error + int option" where
  "ledger_cost unit_cost = (case unit_cost of
      None \<Rightarrow> Inr None
    | Some v \<Rightarrow> and_then (as_decimal v) (\<lambda>x. and_then (quantise 2 x) (\<lambda>c. Inr (Some c))))"

definition append_stock_transaction ::
  "item_key \<Rightarrow> json \<Rightarrow> string \<Rightarrow> string option \<Rightarrow> json option \<Rightarrow> inv_db \<Rightarrow> inv_error + inv_db" where
  "append_stock_transaction key delta reason ref unit_cost db = (case key of (ns, sku, loc) \<Rightarrow>
     if reason \<notin> set VALID_REASON_CATEGORIES then Inl (InvValueError ''reason_category'')
     else and_then (as_decimal delta) (\<lambda>x.
       and_then (quantise 3 x) (\<lambda>q.
       if q = 0 then Inl (InvValueError ''delta must be non-zero'')
       else and_then (assert_sign_matches_category reason q) (\<lambda>_.
       and_then (ledger_cost unit_cost) (\<lambda>cost.
       if \<not> fits_column q \<or> (\<exists>c \<in> set_option cost. \<not> fits_column c) then Inl NumericOverflow
       else if (ns, loc) \<notin> set (iv_locations db) then Inl ForeignKeyViolation
       else Inr (db\<lparr>iv_ledger := iv_ledger db @ [\<lparr>lr_key = key, lr_delta = q, lr_reason = reason,
              lr_unit_cost = cost, lr_ref = ref, lr_created = iv_now db\<rparr>]\<rparr>))))))"

section \<open>Stock rows\<close>

definition decrement_on_hand :: "item_key \<Rightarrow> int \<Rightarrow> inv_db \<Rightarrow> inv_error + (inv_db \<times> int)" where
  "decrement_on_hand key qty db = (case dict_get (iv_items db) key of
      None \<Rightarrow> Inl (InsufficientStockError 0)
    | Some row \<Rightarrow>
        if qty_on_hand row \<ge> qty
        then Inr (db\<lparr>iv_items := dict_set key (row\<lparr>qty_on_hand := qty_on_hand row - qty\<rparr>) (iv_items db)\<rparr>, qty_on_hand row - qty)
        else Inl (InsufficientStockError (qty_on_hand row)))"

definition increment_on_hand :: "item_key \<Rightarrow> int \<Rightarrow> inv_db \<Rightarrow> inv_error + (inv_db \<times> int)" where
  "increment_on_hand key qty db = (case key of (ns, sku, loc) \<Rightarrow>
     if \<not> fits_column qty then Inl NumericOverflow
     else case dict_get (iv_items db) key of
       None \<Rightarrow>
         if (ns, loc) \<notin> set (iv_locations db) then Inl (InvValueError ''location does not exist'')
         else Inr (db\<lparr>iv_items := dict_set key \<lparr>qty_on_hand = qty, qty_reserved = 0, qty_blocked = 0, ir_created = iv_now db\<rparr> (iv_items db)\<rparr>, qty)
     | Some row \<Rightarrow>
         if \<not> fits_column (qty_on_hand row + qty) then Inl NumericOverflow
         else Inr (db\<lparr>iv_items := dict_set key (row\<lparr>qty_on_hand := qty_on_hand row + qty\<rparr>) (iv_items db)\<rparr>, qty_on_hand row + qty))"

section \<open>The graph mirror\<close>

definition assert_owner :: "inv_db \<Rightarrow> string \<Rightarrow> string \<Rightarrow> string \<Rightarrow> inv_error + unit" where
  "assert_owner db ns node_type writer = (if dict_get (iv_owners db) (ns, node_type) = Some writer then Inr ()
     else Inl (OwnershipError node_type))"

definition stock_location_label :: "string \<Rightarrow> string" where
  "stock_location_label loc = ''StockLocation:'' @ loc"

definition inventory_item_label :: "string \<Rightarrow> string \<Rightarrow> string" where
  "inventory_item_label sku loc = ''InventoryItem:'' @ sku @ '':'' @ loc"

text \<open>
  \<open>publish\<close> writes an outbox row only for an event some handler or active webhook of the namespace consumes;
  \<open>iv_listeners\<close> are those selectors.
\<close>

definition selector_key :: "string \<Rightarrow> string \<Rightarrow> string" where
  "selector_key node_type opn = node_type @ ''.'' @ opn"

definition publish :: "string \<Rightarrow> string \<Rightarrow> string \<Rightarrow> string \<Rightarrow> inv_db \<Rightarrow> inv_db" where
  "publish ns node_type opn aggregate_id db =
     (if (ns, selector_key node_type opn) \<in> set (iv_listeners db)
      then db\<lparr>iv_outbox := iv_outbox db @ [(ns, node_type, opn, aggregate_id)]\<rparr> else db)"

definition emit_graph_write :: "string \<Rightarrow> string \<Rightarrow> string \<Rightarrow> string \<Rightarrow> inv_db \<Rightarrow> inv_db" where
  "emit_graph_write ns node_type opn node_id db = publish ns node_type opn node_id db"

definition upsert_kg_node :: "string \<Rightarrow> string \<Rightarrow> string \<Rightarrow> inv_db \<Rightarrow> inv_error + inv_db" where
  "upsert_kg_node ns label node_type db = and_then (assert_owner db ns node_type ''inventory'') (\<lambda>_.
     Inr (emit_graph_write ns node_type ''upserted'' label (db\<lparr>iv_nodes := dict_set (label, ns) node_type (iv_nodes db)\<rparr>)))"

definition upsert_kg_edge :: "string \<Rightarrow> string \<Rightarrow> string \<Rightarrow> string \<Rightarrow> real \<Rightarrow> inv_db \<Rightarrow> inv_db" where
  "upsert_kg_edge ns subj pred obj confidence db =
     db\<lparr>iv_edges := dict_set (subj, pred, obj, ns) confidence (iv_edges db)\<rparr>"

definition mirror_item_at_location :: "item_key \<Rightarrow> inv_db \<Rightarrow> inv_error + inv_db" where
  "mirror_item_at_location key db = (case key of (ns, sku, loc) \<Rightarrow>
     and_then (upsert_kg_node ns (stock_location_label loc) ''STOCK_LOCATION'' db) (\<lambda>db1.
     and_then (upsert_kg_node ns (inventory_item_label sku loc) ''INVENTORY_ITEM'' db1) (\<lambda>db2.
     Inr (upsert_kg_edge ns (inventory_item_label sku loc) ''at'' (stock_location_label loc) 1 db2))))"

section \<open>Operations\<close>

definition qty_json :: "int \<Rightarrow> json" where
  "qty_json q = JFloat (Fin (of_int q / 1000))"

text \<open>A row write and the ledger row that documents it.\<close>

definition move_out :: "item_key \<Rightarrow> int \<Rightarrow> string \<Rightarrow> string option \<Rightarrow> inv_db \<Rightarrow> inv_error + (inv_db \<times> int)" where
  "move_out key qty reason ref db = and_then (decrement_on_hand key qty db) (\<lambda>(db1, n).
     and_then (append_stock_transaction key (qty_json (- qty)) reason ref None db1) (\<lambda>db2. Inr (db2, n)))"

definition move_in :: "item_key \<Rightarrow> int \<Rightarrow> string \<Rightarrow> string option \<Rightarrow> json option \<Rightarrow> inv_db \<Rightarrow> inv_error + (inv_db \<times> int)" where
  "move_in key qty reason ref cost db = and_then (increment_on_hand key qty db) (\<lambda>(db1, n).
     and_then (append_stock_transaction key (qty_json qty) reason ref cost db1) (\<lambda>db2. Inr (db2, n)))"

definition canonical_lock_order :: "string \<Rightarrow> string \<Rightarrow> string \<times> string" where
  "canonical_lock_order a b = (if a < b then (a, b) else (b, a))"

text \<open>The transaction of \<open>do_transfer_stock\<close>, after its arguments are validated.\<close>

definition transfer_stock ::
  "string \<Rightarrow> string \<Rightarrow> int \<Rightarrow> string \<Rightarrow> string \<Rightarrow> inv_db \<Rightarrow> inv_error + (inv_db \<times> int \<times> int)" where
  "transfer_stock ns sku qty from_loc to_loc db =
     (case canonical_lock_order from_loc to_loc of (first, second) \<Rightarrow>
        and_then
          (if first = from_loc
           then and_then (move_out (ns, sku, from_loc) qty ''transfer_out'' (Some to_loc) db) (\<lambda>(db1, f).
                and_then (move_in (ns, sku, to_loc) qty ''transfer_in'' (Some from_loc) None db1) (\<lambda>(db2, t).
                Inr (db2, f, t)))
           else and_then (move_in (ns, sku, to_loc) qty ''transfer_in'' (Some from_loc) None db) (\<lambda>(db1, t).
                and_then (move_out (ns, sku, from_loc) qty ''transfer_out'' (Some to_loc) db1) (\<lambda>(db2, f).
                Inr (db2, f, t))))
          (\<lambda>(db2, f, t).
             and_then (mirror_item_at_location (ns, sku, first) db2) (\<lambda>db3.
             and_then (mirror_item_at_location (ns, sku, second) db3) (\<lambda>db4.
             Inr (db4, f, t)))))"

definition do_transfer_stock ::
  "(string \<Rightarrow> string option) \<Rightarrow> string option \<Rightarrow> string option \<Rightarrow> json \<Rightarrow> string option \<Rightarrow> string option \<Rightarrow> inv_db \<Rightarrow>
     inv_error + (inv_db \<times> int \<times> int)" where
  "do_transfer_stock uuid ns_raw sku_raw qty_raw from_raw to_raw db =
     and_then (as_uuid uuid ns_raw) (\<lambda>ns. and_then (as_sku sku_raw) (\<lambda>sku. and_then (as_quantity qty_raw) (\<lambda>qty.
     and_then (as_uuid uuid from_raw) (\<lambda>from_loc. and_then (as_uuid uuid to_raw) (\<lambda>to_loc.
       if from_loc = to_loc then Inl (InvValueError ''locations must differ'')
       else transfer_stock ns sku qty from_loc to_loc db)))))"

definition record_consumption ::
  "string \<Rightarrow> string \<Rightarrow> int \<Rightarrow> string \<Rightarrow> string option \<Rightarrow> inv_db \<Rightarrow> inv_error + (inv_db \<times> int)" where
  "record_consumption ns sku qty loc work_order db =
     and_then (move_out (ns, sku, loc) qty ''consumption'' work_order db) (\<lambda>(db1, n).
     and_then (mirror_item_at_location (ns, sku, loc) db1) (\<lambda>db2. Inr (db2, n)))"

definition do_record_consumption ::
  "(string \<Rightarrow> string option) \<Rightarrow> string option \<Rightarrow> string option \<Rightarrow> json \<Rightarrow> string option \<Rightarrow> json \<Rightarrow> inv_db \<Rightarrow>
     inv_error + (inv_db \<times> int)" where
  "do_record_consumption uuid ns_raw sku_raw qty_raw loc_raw work_order db =
     and_then (as_uuid uuid ns_raw) (\<lambda>ns. and_then (as_sku sku_raw) (\<lambda>sku. and_then (as_quantity qty_raw) (\<lambda>qty.
     and_then (as_uuid uuid loc_raw) (\<lambda>loc.
       case work_order of
         JNull \<Rightarrow> record_consumption ns sku qty loc None db
       | JStr s \<Rightarrow> record_consumption ns sku qty loc (Some s) db
       | _ \<Rightarrow> Inl (InvValueError ''work_order must be a string'')))))"

definition as_project_label :: "string option \<Rightarrow> inv_error + string" where
  "as_project_label raw = (let label = strip (case raw of None \<Rightarrow> [] | Some s \<Rightarrow> s) in
     if label = [] then Inl (InvValueError ''project_id is required'')
     else if map lower_char (take 8 label) \<noteq> ''project:'' then Inl (InvValueError ''must be a PROJECT label'')
     else if length label \<le> 8 then Inl (InvValueError ''must include a quote id'')
     else Inr label)"

record stock_fields =
  sf_on_hand :: int
  sf_reserved :: int
  sf_blocked :: int
  sf_available :: int

definition fields_of :: "item_row \<Rightarrow> stock_fields" where
  "fields_of row = \<lparr>sf_on_hand = qty_on_hand row, sf_reserved = qty_reserved row, sf_blocked = qty_blocked row,
     sf_available = qty_on_hand row - qty_reserved row - qty_blocked row\<rparr>"

definition reserve_stock ::
  "string \<Rightarrow> string \<Rightarrow> int \<Rightarrow> string \<Rightarrow> string \<Rightarrow> inv_db \<Rightarrow> inv_error + (inv_db \<times> stock_fields)" where
  "reserve_stock ns sku qty loc project db = (case dict_get (iv_items db) (ns, sku, loc) of
      None \<Rightarrow> Inl (InsufficientAvailableError 0 0 0)
    | Some row \<Rightarrow>
        if qty_on_hand row - qty_reserved row - qty_blocked row \<ge> qty then
          (if \<not> fits_column (qty_reserved row + qty) then Inl NumericOverflow
           else let row' = row\<lparr>qty_reserved := qty_reserved row + qty\<rparr> in
             Inr (upsert_kg_edge ns (inventory_item_label sku loc) ''reserved_for'' project 1
                    (db\<lparr>iv_items := dict_set (ns, sku, loc) row' (iv_items db)\<rparr>), fields_of row'))
        else Inl (InsufficientAvailableError (qty_on_hand row) (qty_reserved row) (qty_blocked row)))"

definition release_stock ::
  "string \<Rightarrow> string \<Rightarrow> int \<Rightarrow> string \<Rightarrow> inv_db \<Rightarrow> inv_error + (inv_db \<times> stock_fields)" where
  "release_stock ns sku qty loc db = (case dict_get (iv_items db) (ns, sku, loc) of
      None \<Rightarrow> Inl (OverReleaseError 0)
    | Some row \<Rightarrow>
        if qty_reserved row \<ge> qty then
          (let row' = row\<lparr>qty_reserved := qty_reserved row - qty\<rparr> in
             Inr (db\<lparr>iv_items := dict_set (ns, sku, loc) row' (iv_items db)\<rparr>, fields_of row'))
        else Inl (OverReleaseError (qty_reserved row)))"

definition with_reservation_args ::
  "(string \<Rightarrow> string option) \<Rightarrow> string option \<Rightarrow> string option \<Rightarrow> json \<Rightarrow> string option \<Rightarrow> string option \<Rightarrow>
     (string \<Rightarrow> string \<Rightarrow> int \<Rightarrow> string \<Rightarrow> string \<Rightarrow> inv_error + 'a) \<Rightarrow> inv_error + 'a" where
  "with_reservation_args uuid ns_raw sku_raw qty_raw loc_raw project_raw f =
     and_then (as_uuid uuid ns_raw) (\<lambda>ns. and_then (as_sku sku_raw) (\<lambda>sku. and_then (as_quantity qty_raw) (\<lambda>qty.
     and_then (as_uuid uuid loc_raw) (\<lambda>loc. and_then (as_project_label project_raw) (\<lambda>project.
       f ns sku qty loc project)))))"

definition do_reserve_stock ::
  "(string \<Rightarrow> string option) \<Rightarrow> string option \<Rightarrow> string option \<Rightarrow> json \<Rightarrow> string option \<Rightarrow> string option \<Rightarrow> inv_db \<Rightarrow>
     inv_error + (inv_db \<times> stock_fields)" where
  "do_reserve_stock uuid ns_raw sku_raw qty_raw loc_raw project_raw db =
     with_reservation_args uuid ns_raw sku_raw qty_raw loc_raw project_raw
       (\<lambda>ns sku qty loc project. reserve_stock ns sku qty loc project db)"

definition do_release_stock ::
  "(string \<Rightarrow> string option) \<Rightarrow> string option \<Rightarrow> string option \<Rightarrow> json \<Rightarrow> string option \<Rightarrow> string option \<Rightarrow> inv_db \<Rightarrow>
     inv_error + (inv_db \<times> stock_fields)" where
  "do_release_stock uuid ns_raw sku_raw qty_raw loc_raw project_raw db =
     with_reservation_args uuid ns_raw sku_raw qty_raw loc_raw project_raw
       (\<lambda>ns sku qty loc project. release_stock ns sku qty loc db)"

definition do_stock_levels ::
  "(string \<Rightarrow> string option) \<Rightarrow> string option \<Rightarrow> string option \<Rightarrow> string option \<Rightarrow> inv_db \<Rightarrow>
     inv_error + (string \<times> string \<times> stock_fields) list" where
  "do_stock_levels uuid ns_raw sku_raw loc_raw db =
     and_then (as_uuid uuid ns_raw) (\<lambda>ns.
     and_then (case sku_raw of None \<Rightarrow> Inr None | Some s \<Rightarrow> and_then (as_sku (Some s)) (\<lambda>sku. Inr (Some sku))) (\<lambda>sku.
     and_then (case loc_raw of None \<Rightarrow> Inr None | Some l \<Rightarrow> and_then (as_uuid uuid (Some l)) (\<lambda>loc. Inr (Some loc))) (\<lambda>loc.
       Inr (map (\<lambda>((n, s, l), row). (s, l, fields_of row))
         (sort_key (\<lambda>((n, s, l), row). s) (sort_key (\<lambda>((n, s, l), row). l)
           (filter (\<lambda>((n, s, l), row). n = ns \<and> (sku = None \<or> sku = Some s) \<and> (loc = None \<or> loc = Some l))
             (iv_items db))))))))"

section \<open>Movements\<close>

lemma round_half_away_of_int [simp]: "round_half_away (of_int i) = i"
proof -
  have "\<lfloor>of_int j + 1 / 2 :: real\<rfloor> = j" for j :: int
    by linarith
  from this [of i] this [of "- i"] show ?thesis
    by (simp add: round_half_away_def)
qed

lemma as_decimal_qty_json [simp]: "as_decimal (qty_json q) = Inr (of_int q / 1000)"
  by (simp add: as_decimal_def qty_json_def)

lemma quantise_thousandths:
  "quantise 3 (of_int q / 1000) = (if \<bar>q\<bar> \<ge> 10 ^ 28 then Inl (InvValueError ''too large to express'') else Inr q)"
proof -
  have "of_int q / 1000 * 10 ^ 3 = (of_int q :: real)" by simp
  then show ?thesis unfolding quantise_def Let_def by (simp only: round_half_away_of_int)
qed

text \<open>What it takes to append a movement whose quantity is already in thousandths.\<close>

definition ledger_accepts :: "item_key \<Rightarrow> int \<Rightarrow> string \<Rightarrow> inv_db \<Rightarrow> bool" where
  "ledger_accepts key q reason db \<longleftrightarrow> reason \<in> set VALID_REASON_CATEGORIES \<and> q \<noteq> 0 \<and>
     assert_sign_matches_category reason q = Inr () \<and> fits_column q \<and> (fst key, snd (snd key)) \<in> set (iv_locations db)"

definition ledger_entry :: "item_key \<Rightarrow> int \<Rightarrow> string \<Rightarrow> int option \<Rightarrow> string option \<Rightarrow> int \<Rightarrow> ledger_row" where
  "ledger_entry key q reason c ref t =
     \<lparr>lr_key = key, lr_delta = q, lr_reason = reason, lr_unit_cost = c, lr_ref = ref, lr_created = t\<rparr>"

lemma ledger_entry_sel [simp]:
  "lr_key (ledger_entry key q reason c ref t) = key" "lr_delta (ledger_entry key q reason c ref t) = q"
  "lr_created (ledger_entry key q reason c ref t) = t" "lr_unit_cost (ledger_entry key q reason c ref t) = c"
  by (simp_all add: ledger_entry_def)

lemma append_stock_transaction_Inr:
  "append_stock_transaction key (qty_json q) reason ref cost db = Inr db' \<longleftrightarrow>
     ledger_accepts key q reason db \<and> (\<exists>c. ledger_cost cost = Inr c \<and> (\<forall>u \<in> set_option c. fits_column u) \<and>
     db' = db\<lparr>iv_ledger := iv_ledger db @ [ledger_entry key q reason c ref (iv_now db)]\<rparr>)"
  by (auto simp: append_stock_transaction_def and_then_eq_Inr quantise_thousandths ledger_accepts_def
      ledger_entry_def fits_column_def split: prod.splits if_splits)

text \<open>
  The abstract movement: the row of the key, created empty when there is none, and one ledger row that
  carries the same signed quantity. The row keeps its reserved and blocked quantities.
\<close>

definition stock_row :: "inv_db \<Rightarrow> item_key \<Rightarrow> item_row" where
  "stock_row db key = (case dict_get (iv_items db) key of
      None \<Rightarrow> \<lparr>qty_on_hand = 0, qty_reserved = 0, qty_blocked = 0, ir_created = iv_now db\<rparr> | Some row \<Rightarrow> row)"

definition post_movement :: "item_key \<Rightarrow> ledger_row \<Rightarrow> inv_db \<Rightarrow> inv_db" where
  "post_movement key r db = db\<lparr>
     iv_items := dict_set key ((stock_row db key)\<lparr>qty_on_hand := qty_on_hand (stock_row db key) + lr_delta r\<rparr>) (iv_items db),
     iv_ledger := iv_ledger db @ [r]\<rparr>"

definition moved :: "item_key \<Rightarrow> int \<Rightarrow> inv_db \<Rightarrow> inv_db \<Rightarrow> bool" where
  "moved key d db db' \<longleftrightarrow> (\<exists>r. lr_key r = key \<and> lr_delta r = d \<and> lr_created r = iv_now db \<and>
     (0 \<le> d \<or> 0 \<le> qty_on_hand (stock_row db key) + d) \<and> db' = post_movement key r db)"

lemma decrement_on_hand_Inr:
  "decrement_on_hand key qty db = Inr (db', n) \<longleftrightarrow> (\<exists>row. dict_get (iv_items db) key = Some row \<and> qty \<le> qty_on_hand row \<and>
     n = qty_on_hand row - qty \<and> db' = db\<lparr>iv_items := dict_set key (row\<lparr>qty_on_hand := n\<rparr>) (iv_items db)\<rparr>)"
  by (auto simp: decrement_on_hand_def split: option.splits)

lemma increment_on_hand_Inr:
  "increment_on_hand key qty db = Inr (db', n) \<longleftrightarrow>
     fits_column qty \<and> (dict_get (iv_items db) key = None \<longrightarrow> (fst key, snd (snd key)) \<in> set (iv_locations db)) \<and>
     (dict_get (iv_items db) key \<noteq> None \<longrightarrow> fits_column n) \<and> n = qty_on_hand (stock_row db key) + qty \<and>
     db' = db\<lparr>iv_items := dict_set key ((stock_row db key)\<lparr>qty_on_hand := n\<rparr>) (iv_items db)\<rparr>"
  by (cases key) (auto simp: increment_on_hand_def stock_row_def split: option.splits)

lemma movedI:
  "db' = post_movement key (ledger_entry key d reason c ref (iv_now db)) db \<Longrightarrow>
   0 \<le> d \<or> 0 \<le> qty_on_hand (stock_row db key) + d \<Longrightarrow> moved key d db db'"
  by (auto simp: moved_def intro!: exI [of _ "ledger_entry key d reason c ref (iv_now db)"])

lemma ledger_cost_None [simp]: "ledger_cost None = Inr None"
  by (simp add: ledger_cost_def)

lemma move_out_Inr:
  "move_out key qty reason ref db = Inr (db', n) \<longleftrightarrow>
     dict_get (iv_items db) key \<noteq> None \<and> qty \<le> qty_on_hand (stock_row db key) \<and> ledger_accepts key (- qty) reason db \<and>
     n = qty_on_hand (stock_row db key) - qty \<and>
     db' = post_movement key (ledger_entry key (- qty) reason None ref (iv_now db)) db"
  by (auto simp: move_out_def and_then_eq_Inr decrement_on_hand_Inr append_stock_transaction_Inr post_movement_def
      stock_row_def ledger_accepts_def)

lemma move_in_Inr:
  "move_in key qty reason ref cost db = Inr (db', n) \<longleftrightarrow>
     (dict_get (iv_items db) key \<noteq> None \<longrightarrow> fits_column n) \<and> ledger_accepts key qty reason db \<and>
     n = qty_on_hand (stock_row db key) + qty \<and> (\<exists>c. ledger_cost cost = Inr c \<and> (\<forall>u \<in> set_option c. fits_column u) \<and>
     db' = post_movement key (ledger_entry key qty reason c ref (iv_now db)) db)"
  by (auto simp: move_in_def and_then_eq_Inr increment_on_hand_Inr append_stock_transaction_Inr post_movement_def
      ledger_accepts_def)

lemma move_out_moved:
  "move_out key qty reason ref db = Inr (db', n) \<Longrightarrow> moved key (- qty) db db'"
  by (auto simp: move_out_Inr intro: movedI)

lemma move_in_moved:
  "move_in key qty reason ref cost db = Inr (db', n) \<Longrightarrow> 0 \<le> qty \<Longrightarrow> moved key qty db db'"
  by (auto simp: move_in_Inr intro: movedI)

section \<open>The stock invariant\<close>

definition deltas :: "inv_db \<Rightarrow> item_key \<Rightarrow> int list" where
  "deltas db key = map lr_delta (filter (\<lambda>r. lr_key r = key) (iv_ledger db))"

text \<open>A history that never drives the balance below zero.\<close>

fun never_negative :: "int \<Rightarrow> int list \<Rightarrow> bool" where
  "never_negative acc [] = True"
| "never_negative acc (x # xs) = (0 \<le> acc + x \<and> never_negative (acc + x) xs)"

lemma never_negative_append [simp]:
  "never_negative acc (xs @ ys) \<longleftrightarrow> never_negative acc xs \<and> never_negative (acc + sum_list xs) ys"
  by (induction xs arbitrary: acc) (auto simp: add.assoc)

definition ledger_born :: "inv_db \<Rightarrow> item_key \<Rightarrow> item_row \<Rightarrow> bool" where
  "ledger_born db key row \<longleftrightarrow> (\<exists>r \<in> set (iv_ledger db). lr_key r = key \<and> lr_created r \<le> ir_created row)"

definition stock_inv :: "inv_db \<Rightarrow> bool" where
  "stock_inv db \<longleftrightarrow> distinct (dict_keys (iv_items db)) \<and>
     (\<forall>r \<in> set (iv_ledger db). lr_key r \<in> set (dict_keys (iv_items db)) \<and> lr_created r \<le> iv_now db) \<and>
     sorted (map lr_created (iv_ledger db)) \<and>
     (\<forall>(key, row) \<in> set (iv_items db).
        qty_on_hand row = sum_list (deltas db key) \<and> never_negative 0 (deltas db key) \<and>
        0 \<le> qty_on_hand row \<and> 0 \<le> qty_reserved row \<and> 0 \<le> qty_blocked row \<and> ledger_born db key row)"

lemma deltas_missing:
  "stock_inv db \<Longrightarrow> dict_get (iv_items db) key = None \<Longrightarrow> deltas db key = []"
  by (auto simp: stock_inv_def deltas_def filter_empty_conv map_of_eq_None_iff)

lemma stock_inv_row:
  assumes "stock_inv db" and "dict_get (iv_items db) key = Some row"
  shows "qty_on_hand row = sum_list (deltas db key)" "never_negative 0 (deltas db key)"
    "0 \<le> qty_on_hand row" "0 \<le> qty_reserved row" "0 \<le> qty_blocked row" "ledger_born db key row"
  using assms map_of_SomeD [OF assms(2)] by (auto simp: stock_inv_def)

lemma stock_row_inv:
  assumes "stock_inv db"
  shows "qty_on_hand (stock_row db key) = sum_list (deltas db key)" "never_negative 0 (deltas db key)"
    "0 \<le> qty_on_hand (stock_row db key)" "0 \<le> qty_reserved (stock_row db key)" "0 \<le> qty_blocked (stock_row db key)"
proof -
  show "qty_on_hand (stock_row db key) = sum_list (deltas db key)" "0 \<le> qty_on_hand (stock_row db key)"
    "0 \<le> qty_reserved (stock_row db key)" "0 \<le> qty_blocked (stock_row db key)"
    using stock_inv_row [OF assms, of key] deltas_missing [OF assms, of key]
    by (auto simp: stock_row_def split: option.splits)
  show "never_negative 0 (deltas db key)"
    using stock_inv_row(2) [OF assms, of key] deltas_missing [OF assms, of key]
    by (cases "dict_get (iv_items db) key") auto
qed

lemma stock_inv_ledger:
  "stock_inv db \<Longrightarrow> r \<in> set (iv_ledger db) \<Longrightarrow> \<exists>row. dict_get (iv_items db) (lr_key r) = Some row"
  using map_of_eq_None_iff [of "iv_items db" "lr_key r"] by (auto simp: stock_inv_def)

lemma stock_invI:
  assumes "distinct (dict_keys (iv_items db))"
    and "\<And>r. r \<in> set (iv_ledger db) \<Longrightarrow> dict_get (iv_items db) (lr_key r) \<noteq> None \<and> lr_created r \<le> iv_now db"
    and "sorted (map lr_created (iv_ledger db))"
    and "\<And>key row. dict_get (iv_items db) key = Some row \<Longrightarrow>
      qty_on_hand row = sum_list (deltas db key) \<and> never_negative 0 (deltas db key) \<and>
      0 \<le> qty_on_hand row \<and> 0 \<le> qty_reserved row \<and> 0 \<le> qty_blocked row \<and> ledger_born db key row"
  shows "stock_inv db"
  using assms by (force simp: stock_inv_def map_of_eq_None_iff)

text \<open>
  The steps every operation is made of: a movement with its ledger row, a change of the reserved
  quantity of a row, a write to the other tables, and the clock between transactions.
\<close>

inductive stock_step :: "inv_db \<Rightarrow> inv_db \<Rightarrow> bool" where
  step_move: "moved key d db db' \<Longrightarrow> stock_step db db'"
| step_reserve: "dict_get (iv_items db) key = Some row \<Longrightarrow> 0 \<le> n \<or> qty_reserved row \<le> n \<Longrightarrow>
     stock_step db (db\<lparr>iv_items := dict_set key (row\<lparr>qty_reserved := n\<rparr>) (iv_items db)\<rparr>)"
| step_other: "iv_items db' = iv_items db \<Longrightarrow> iv_ledger db' = iv_ledger db \<Longrightarrow> iv_now db \<le> iv_now db' \<Longrightarrow>
     stock_step db db'"

lemma moved_inv:
  assumes inv: "stock_inv db" and "moved key d db db'"
  shows "stock_inv db'"
proof -
  obtain r where r: "lr_key r = key" "lr_delta r = d" "lr_created r = iv_now db"
    and nonneg: "0 \<le> d \<or> 0 \<le> qty_on_hand (stock_row db key) + d" and db': "db' = post_movement key r db"
    using assms(2) by (auto simp: moved_def)
  have deltas': "deltas db' k = deltas db k @ (if k = key then [d] else [])" for k
    using r by (simp add: deltas_def db' post_movement_def)
  have le: "0 \<le> qty_on_hand (stock_row db key) + d"
    using nonneg stock_row_inv(3) [OF inv, of key] by auto
  show ?thesis
  proof (rule stock_invI)
    show "distinct (dict_keys (iv_items db'))"
      using inv by (auto simp: stock_inv_def db' post_movement_def)
  next
    fix r' assume "r' \<in> set (iv_ledger db')"
    then show "dict_get (iv_items db') (lr_key r') \<noteq> None \<and> lr_created r' \<le> iv_now db'"
      using stock_inv_ledger [OF inv, of r'] inv r by (auto simp: db' post_movement_def stock_inv_def)
  next
    show "sorted (map lr_created (iv_ledger db'))"
      using inv r by (auto simp: db' post_movement_def stock_inv_def sorted_append)
  next
    fix k row assume row: "dict_get (iv_items db') k = Some row"
    have born: "ledger_born db k' row' \<Longrightarrow> ledger_born db' k' row'" for k' row'
      by (auto simp: ledger_born_def db' post_movement_def)
    have born_key: "ledger_born db' key (stock_row db key)"
    proof (cases "dict_get (iv_items db) key")
      case None
      then show ?thesis using r by (auto simp: ledger_born_def db' post_movement_def stock_row_def)
    next
      case (Some row')
      then show ?thesis using born stock_inv_row(6) [OF inv Some] by (simp add: stock_row_def)
    qed
    show "qty_on_hand row = sum_list (deltas db' k) \<and> never_negative 0 (deltas db' k) \<and>
      0 \<le> qty_on_hand row \<and> 0 \<le> qty_reserved row \<and> 0 \<le> qty_blocked row \<and> ledger_born db' k row"
    proof (cases "k = key")
      case True
      then have "row = (stock_row db key)\<lparr>qty_on_hand := qty_on_hand (stock_row db key) + d\<rparr>"
        using row r by (simp add: db' post_movement_def)
      then show ?thesis
        using True stock_row_inv [OF inv, of key] le born_key by (simp add: deltas' ledger_born_def)
    next
      case False
      then have "dict_get (iv_items db) k = Some row"
        using row by (simp add: db' post_movement_def)
      then show ?thesis
        using False stock_inv_row [OF inv, of k row] born by (simp add: deltas')
    qed
  qed
qed

lemma stock_step_inv: "stock_step db db' \<Longrightarrow> stock_inv db \<Longrightarrow> stock_inv db'"
proof (induction rule: stock_step.induct)
  case (step_move key d db db')
  then show ?case by (blast intro: moved_inv)
next
  case (step_reserve db key row n)
  then show ?case
    using stock_inv_row [OF step_reserve(3)] stock_inv_ledger [OF step_reserve(3)]
      order_trans [OF stock_inv_row(4) [OF step_reserve(3,1)], of n]
    by (intro stock_invI) (auto simp: stock_inv_def deltas_def ledger_born_def split: if_splits)
next
  case (step_other db' db)
  then show ?case by (auto simp: stock_inv_def deltas_def ledger_born_def)
qed

section \<open>Every operation is a sequence of stock steps\<close>

lemma steps_keep_stock_inv: "stock_step\<^sup>*\<^sup>* db db' \<Longrightarrow> stock_inv db \<Longrightarrow> stock_inv db'"
  by (induction rule: rtranclp_induct) (auto intro: stock_step_inv)

text \<open>
  The contract of an operation on the stock tables, possibly on databases with a property \<open>ok\<close> only: what it
  commits is a sequence of stock steps, so it keeps the invariant.
\<close>

locale guarded_stock_operation =
  fixes ok :: "inv_db \<Rightarrow> bool"
    and run :: "inv_db \<Rightarrow> inv_error + inv_db \<times> 'r"
  assumes guarded_steps: "ok db \<Longrightarrow> run db = Inr (db', x) \<Longrightarrow> stock_step\<^sup>*\<^sup>* db db'"
begin

lemma guarded_inv: "ok db \<Longrightarrow> stock_inv db \<Longrightarrow> run db = Inr (db', x) \<Longrightarrow> stock_inv db'"
  using guarded_steps by (blast intro: steps_keep_stock_inv)

end

locale stock_operation =
  fixes run :: "inv_db \<Rightarrow> inv_error + inv_db \<times> 'r"
  assumes run_steps: "run db = Inr (db', x) \<Longrightarrow> stock_step\<^sup>*\<^sup>* db db'"

sublocale stock_operation < unguarded: guarded_stock_operation "\<lambda>_. True" run
  by unfold_locales (rule run_steps)

context stock_operation begin

lemma run_inv: "stock_inv db \<Longrightarrow> run db = Inr (db', x) \<Longrightarrow> stock_inv db'"
  by (rule unguarded.guarded_inv) simp

end

lemma as_quantity_pos: "as_quantity v = Inr q \<Longrightarrow> 0 < q"
  by (auto simp: as_quantity_def and_then_eq_Inr split: if_splits)

lemma upsert_kg_node_fields:
  assumes "upsert_kg_node ns label typ db = Inr db'"
  shows "iv_items db' = iv_items db" "iv_ledger db' = iv_ledger db" "iv_now db' = iv_now db"
    "iv_locations db' = iv_locations db" "iv_owners db' = iv_owners db" "iv_rmas db' = iv_rmas db"
    "iv_receipts db' = iv_receipts db"
  using assms by (auto simp: upsert_kg_node_def and_then_eq_Inr emit_graph_write_def publish_def)

lemma upsert_kg_edge_fields [simp]:
  "iv_items (upsert_kg_edge ns s p obj c db) = iv_items db"
  "iv_ledger (upsert_kg_edge ns s p obj c db) = iv_ledger db" "iv_now (upsert_kg_edge ns s p obj c db) = iv_now db"
  "iv_locations (upsert_kg_edge ns s p obj c db) = iv_locations db" "iv_owners (upsert_kg_edge ns s p obj c db) = iv_owners db"
  "iv_rmas (upsert_kg_edge ns s p obj c db) = iv_rmas db" "iv_receipts (upsert_kg_edge ns s p obj c db) = iv_receipts db"
  by (simp_all add: upsert_kg_edge_def)

definition owns_stock_nodes :: "inv_db \<Rightarrow> string \<Rightarrow> bool" where
  "owns_stock_nodes db ns \<longleftrightarrow> dict_get (iv_owners db) (ns, ''STOCK_LOCATION'') = Some ''inventory'' \<and>
     dict_get (iv_owners db) (ns, ''INVENTORY_ITEM'') = Some ''inventory''"

lemma mirror_Inr_iff: "(\<exists>db'. mirror_item_at_location key db = Inr db') \<longleftrightarrow> owns_stock_nodes db (fst key)"
  by (cases key) (auto simp: mirror_item_at_location_def upsert_kg_node_def assert_owner_def and_then_eq_Inr
      owns_stock_nodes_def emit_graph_write_def publish_def split: if_splits)

lemma mirror_fields:
  assumes "mirror_item_at_location key db = Inr db'"
  shows "iv_items db' = iv_items db" "iv_ledger db' = iv_ledger db" "iv_now db' = iv_now db"
    "iv_locations db' = iv_locations db" "iv_owners db' = iv_owners db"
  using assms by (auto simp: mirror_item_at_location_def and_then_eq_Inr upsert_kg_node_fields split: prod.splits)

lemma mirror_step: "mirror_item_at_location key db = Inr db' \<Longrightarrow> stock_step db db'"
  by (rule step_other) (simp_all add: mirror_fields)

lemma record_consumption_steps:
  "record_consumption ns sku qty loc w db = Inr (db', n) \<Longrightarrow> stock_step\<^sup>*\<^sup>* db db'"
  by (auto simp: record_consumption_def and_then_eq_Inr split: prod.splits dest!: move_out_moved mirror_step step_move
      intro: converse_rtranclp_into_rtranclp)

lemma transfer_stock_moves:
  assumes "transfer_stock ns sku qty a b db = Inr (db', f, t)"
  obtains (out_first) db1 db2 db3 where "a < b" "move_out (ns, sku, a) qty ''transfer_out'' (Some b) db = Inr (db1, f)"
      "move_in (ns, sku, b) qty ''transfer_in'' (Some a) None db1 = Inr (db2, t)"
      "mirror_item_at_location (ns, sku, a) db2 = Inr db3" "mirror_item_at_location (ns, sku, b) db3 = Inr db'"
    | (in_first) db1 db2 db3 where "b < a" "move_in (ns, sku, b) qty ''transfer_in'' (Some a) None db = Inr (db1, t)"
      "move_out (ns, sku, a) qty ''transfer_out'' (Some b) db1 = Inr (db2, f)"
      "mirror_item_at_location (ns, sku, b) db2 = Inr db3" "mirror_item_at_location (ns, sku, a) db3 = Inr db'"
    | (same) db1 db2 db3 where "a = b" "move_out (ns, sku, a) qty ''transfer_out'' (Some b) db = Inr (db1, f)"
      "move_in (ns, sku, b) qty ''transfer_in'' (Some a) None db1 = Inr (db2, t)"
      "mirror_item_at_location (ns, sku, a) db2 = Inr db3" "mirror_item_at_location (ns, sku, b) db3 = Inr db'"
proof (cases a b rule: linorder_cases)
  case less
  then show ?thesis
    using assms out_first by (auto simp: transfer_stock_def canonical_lock_order_def and_then_eq_Inr split: prod.splits)
next
  case equal
  then show ?thesis
    using assms same by (auto simp: transfer_stock_def canonical_lock_order_def and_then_eq_Inr split: prod.splits)
next
  case greater
  then have "canonical_lock_order a b = (b, a)" "b \<noteq> a" by (auto simp: canonical_lock_order_def)
  then show ?thesis
    using greater assms in_first by (auto simp: transfer_stock_def and_then_eq_Inr split: prod.splits)
qed

lemma four_steps:
  "stock_step db db1 \<Longrightarrow> stock_step db1 db2 \<Longrightarrow> stock_step db2 db3 \<Longrightarrow> stock_step db3 db4 \<Longrightarrow> stock_step\<^sup>*\<^sup>* db db4"
  by (blast intro: converse_rtranclp_into_rtranclp)

lemma transfer_stock_steps:
  assumes "transfer_stock ns sku qty a b db = Inr (db', f, t)" and "0 \<le> qty"
  shows "stock_step\<^sup>*\<^sup>* db db'"
  using assms(1)
proof (cases rule: transfer_stock_moves)
  case (out_first db1 db2 db3)
  show ?thesis
    by (rule four_steps [OF step_move [OF move_out_moved [OF out_first(2)]]
        step_move [OF move_in_moved [OF out_first(3) assms(2)]] mirror_step [OF out_first(4)] mirror_step [OF out_first(5)]])
next
  case (in_first db1 db2 db3)
  show ?thesis
    by (rule four_steps [OF step_move [OF move_in_moved [OF in_first(2) assms(2)]]
        step_move [OF move_out_moved [OF in_first(3)]] mirror_step [OF in_first(4)] mirror_step [OF in_first(5)]])
next
  case (same db1 db2 db3)
  show ?thesis
    by (rule four_steps [OF step_move [OF move_out_moved [OF same(2)]]
        step_move [OF move_in_moved [OF same(3) assms(2)]] mirror_step [OF same(4)] mirror_step [OF same(5)]])
qed

lemma reserve_stock_steps:
  "reserve_stock ns sku qty loc p db = Inr (db', x) \<Longrightarrow> 0 \<le> qty \<Longrightarrow> stock_step\<^sup>*\<^sup>* db db'"
proof -
  assume "reserve_stock ns sku qty loc p db = Inr (db', x)" and "0 \<le> qty"
  then obtain row where row: "dict_get (iv_items db) (ns, sku, loc) = Some row"
    and db': "db' = upsert_kg_edge ns (inventory_item_label sku loc) ''reserved_for'' p 1
      (db\<lparr>iv_items := dict_set (ns, sku, loc) (row\<lparr>qty_reserved := qty_reserved row + qty\<rparr>) (iv_items db)\<rparr>)"
    by (auto simp: reserve_stock_def Let_def split: option.splits if_splits)
  from row \<open>0 \<le> qty\<close> have "stock_step db (db\<lparr>iv_items := dict_set (ns, sku, loc) (row\<lparr>qty_reserved := qty_reserved row + qty\<rparr>) (iv_items db)\<rparr>)"
    by (auto intro: step_reserve)
  moreover have "stock_step \<dots> db'" unfolding db' by (rule step_other) simp_all
  ultimately show ?thesis by (meson rtranclp.simps)
qed

lemma release_stock_steps:
  "release_stock ns sku qty loc db = Inr (db', x) \<Longrightarrow> stock_step\<^sup>*\<^sup>* db db'"
  by (auto simp: release_stock_def Let_def split: option.splits if_splits intro!: r_into_rtranclp step_reserve)

interpretation transfer_op: stock_operation "do_transfer_stock uuid ns_raw sku_raw qty_raw from_raw to_raw"
  for uuid ns_raw sku_raw qty_raw from_raw to_raw
  by unfold_locales
     (auto simp: do_transfer_stock_def and_then_eq_Inr split: if_splits dest!: as_quantity_pos intro: transfer_stock_steps)

interpretation consumption_op: stock_operation "do_record_consumption uuid ns_raw sku_raw qty_raw loc_raw work_order"
  for uuid ns_raw sku_raw qty_raw loc_raw work_order
  by unfold_locales
     (cases work_order; auto simp: do_record_consumption_def and_then_eq_Inr intro: record_consumption_steps)

interpretation reserve_op: stock_operation "do_reserve_stock uuid ns_raw sku_raw qty_raw loc_raw project_raw"
  for uuid ns_raw sku_raw qty_raw loc_raw project_raw
  by unfold_locales
     (auto simp: do_reserve_stock_def with_reservation_args_def and_then_eq_Inr dest!: as_quantity_pos intro: reserve_stock_steps)

interpretation release_op: stock_operation "do_release_stock uuid ns_raw sku_raw qty_raw loc_raw project_raw"
  for uuid ns_raw sku_raw qty_raw loc_raw project_raw
  by unfold_locales
     (auto simp: do_release_stock_def with_reservation_args_def and_then_eq_Inr intro: release_stock_steps)

section \<open>Transfers\<close>

definition total_on_hand :: "inv_db \<Rightarrow> int" where
  "total_on_hand db = sum_list (map (\<lambda>e. qty_on_hand (snd e)) (iv_items db))"

definition transfer_allowed :: "string \<Rightarrow> string \<Rightarrow> int \<Rightarrow> string \<Rightarrow> string \<Rightarrow> inv_db \<Rightarrow> bool" where
  "transfer_allowed ns sku qty a b db \<longleftrightarrow>
     dict_get (iv_items db) (ns, sku, a) \<noteq> None \<and> qty \<le> qty_on_hand (stock_row db (ns, sku, a)) \<and>
     fits_column qty \<and> (dict_get (iv_items db) (ns, sku, b) \<noteq> None \<longrightarrow> fits_column (qty_on_hand (stock_row db (ns, sku, b)) + qty)) \<and>
     (ns, a) \<in> set (iv_locations db) \<and> (ns, b) \<in> set (iv_locations db) \<and> owns_stock_nodes db ns"

lemma sum_rows_dict_set:
  fixes g :: "'v \<Rightarrow> int"
  shows "distinct (dict_keys d) \<Longrightarrow> sum_list (map (\<lambda>e. g (snd e)) (AList.update key w d)) =
    sum_list (map (\<lambda>e. g (snd e)) d) + g w - (case dict_get d key of None \<Rightarrow> 0 | Some v \<Rightarrow> g v)"
  by (induction d) auto

lemma post_movement_fields [simp]:
  "iv_now (post_movement key r db) = iv_now db" "iv_ledger (post_movement key r db) = iv_ledger db @ [r]"
  "iv_locations (post_movement key r db) = iv_locations db" "iv_owners (post_movement key r db) = iv_owners db"
  "dict_get (iv_items (post_movement key r db)) k =
     (if k = key then Some ((stock_row db key)\<lparr>qty_on_hand := qty_on_hand (stock_row db key) + lr_delta r\<rparr>)
      else dict_get (iv_items db) k)"
  by (simp_all add: post_movement_def)

lemma stock_row_post_movement [simp]:
  "stock_row (post_movement key r db) k =
     (if k = key then (stock_row db key)\<lparr>qty_on_hand := qty_on_hand (stock_row db key) + lr_delta r\<rparr> else stock_row db k)"
  by (simp add: stock_row_def [of "post_movement key r db"] stock_row_def [of db k] split: option.splits)

lemma total_post_movement:
  "distinct (dict_keys (iv_items db)) \<Longrightarrow> total_on_hand (post_movement key r db) = total_on_hand db + lr_delta r"
  by (auto simp: total_on_hand_def post_movement_def sum_rows_dict_set stock_row_def split: option.splits)

lemma distinct_post_movement [simp]:
  "distinct (dict_keys (iv_items db)) \<Longrightarrow> distinct (dict_keys (iv_items (post_movement key r db)))"
  by (auto simp: post_movement_def)

lemma ledger_accepts_fields [simp]:
  "ledger_accepts key q reason (post_movement k r db) = ledger_accepts key q reason db"
  by (simp add: ledger_accepts_def)

lemma ledger_accepts_transfer [simp]:
  "0 < qty \<Longrightarrow> ledger_accepts (ns, sku, l) (- qty) ''transfer_out'' db \<longleftrightarrow> fits_column qty \<and> (ns, l) \<in> set (iv_locations db)"
  "0 < qty \<Longrightarrow> ledger_accepts (ns, sku, l) qty ''transfer_in'' db \<longleftrightarrow> fits_column qty \<and> (ns, l) \<in> set (iv_locations db)"
  by (auto simp: ledger_accepts_def VALID_REASON_CATEGORIES_def assert_sign_matches_category_def REASONS_IN_def
      REASONS_OUT_def fits_column_def)

lemma mirror_ex: "owns_stock_nodes db ns \<Longrightarrow> \<exists>db'. mirror_item_at_location (ns, sku, l) db = Inr db'"
  using mirror_Inr_iff [of "(ns, sku, l)" db] by simp

lemma owns_stock_nodes_cong: "iv_owners db' = iv_owners db \<Longrightarrow> owns_stock_nodes db' ns = owns_stock_nodes db ns"
  by (simp add: owns_stock_nodes_def)

lemma stock_row_cong: "iv_items db' = iv_items db \<Longrightarrow> iv_now db' = iv_now db \<Longrightarrow> stock_row db' = stock_row db"
  by (simp add: stock_row_def fun_eq_iff split: option.splits)

lemma transfer_succeeds:
  assumes ok: "transfer_allowed ns sku qty a b db" and "0 < qty" and "a \<noteq> b"
  shows "\<exists>r. transfer_stock ns sku qty a b db = Inr r"
proof -
  let ?A = "(ns, sku, a)" and ?B = "(ns, sku, b)"
  let ?out = "ledger_entry ?A (- qty) ''transfer_out'' None (Some b) (iv_now db)"
    and ?in = "ledger_entry ?B qty ''transfer_in'' None (Some a) (iv_now db)"
  have mirrors: "\<exists>db'. and_then (mirror_item_at_location (ns, sku, x) d) (mirror_item_at_location (ns, sku, y)) = Inr db'"
    if d: "iv_owners d = iv_owners db" for d x y
  proof -
    have owns: "owns_stock_nodes d ns" using ok owns_stock_nodes_cong [OF d] by (simp add: transfer_allowed_def)
    then obtain d1 where "mirror_item_at_location (ns, sku, x) d = Inr d1"
      using mirror_ex by blast
    moreover from this obtain d2 where "mirror_item_at_location (ns, sku, y) d1 = Inr d2"
      using mirror_ex owns owns_stock_nodes_cong [OF mirror_fields(5)] by blast
    ultimately show ?thesis by auto
  qed
  have moves: "move_out ?A qty ''transfer_out'' (Some b) db = Inr (post_movement ?A ?out db, qty_on_hand (stock_row db ?A) - qty)"
    "move_in ?B qty ''transfer_in'' (Some a) None (post_movement ?A ?out db) =
       Inr (post_movement ?B ?in (post_movement ?A ?out db), qty_on_hand (stock_row db ?B) + qty)"
    "move_in ?B qty ''transfer_in'' (Some a) None db = Inr (post_movement ?B ?in db, qty_on_hand (stock_row db ?B) + qty)"
    "move_out ?A qty ''transfer_out'' (Some b) (post_movement ?B ?in db) =
       Inr (post_movement ?A ?out (post_movement ?B ?in db), qty_on_hand (stock_row db ?A) - qty)"
    using assms by (auto simp: move_out_Inr move_in_Inr transfer_allowed_def)
  from mirrors [of "post_movement ?B ?in (post_movement ?A ?out db)"] mirrors [of "post_movement ?A ?out (post_movement ?B ?in db)"]
  show ?thesis using \<open>a \<noteq> b\<close>
    by (cases "a < b") (auto simp: transfer_stock_def canonical_lock_order_def moves \<open>a \<noteq> b\<close> \<open>a \<noteq> b\<close> [symmetric] and_then_eq_Inr)
qed

lemma transfer_effect:
  assumes run: "transfer_stock ns sku qty a b db = Inr (db', f, t)" and "0 < qty" and "a \<noteq> b"
  defines "A \<equiv> (ns, sku, a)" and "B \<equiv> (ns, sku, b)"
  defines "out \<equiv> ledger_entry A (- qty) ''transfer_out'' None (Some b) (iv_now db)"
    and "inn \<equiv> ledger_entry B qty ''transfer_in'' None (Some a) (iv_now db)"
  shows "\<exists>db2. db2 \<in> {post_movement B inn (post_movement A out db), post_movement A out (post_movement B inn db)} \<and>
    iv_items db' = iv_items db2 \<and> iv_ledger db' = iv_ledger db2 \<and> iv_now db' = iv_now db2 \<and>
    f = qty_on_hand (stock_row db A) - qty \<and> t = qty_on_hand (stock_row db B) + qty \<and> transfer_allowed ns sku qty a b db"
  using run
proof (cases rule: transfer_stock_moves)
  case (out_first db1 db2 db3)
  have owns: "owns_stock_nodes db2 ns" using out_first(4) mirror_Inr_iff [of A db2] by (auto simp: A_def)
  show ?thesis
    using out_first owns assms(2,3) mirror_fields [OF out_first(4)] mirror_fields [OF out_first(5)]
    by (intro exI [of _ db2])
       (auto simp: move_out_Inr move_in_Inr transfer_allowed_def A_def B_def out_def inn_def owns_stock_nodes_def)
next
  case (in_first db1 db2 db3)
  have owns: "owns_stock_nodes db2 ns" using in_first(4) mirror_Inr_iff [of B db2] by (auto simp: B_def)
  show ?thesis
    using in_first owns assms(2,3) mirror_fields [OF in_first(4)] mirror_fields [OF in_first(5)]
    by (intro exI [of _ db2])
       (auto simp: move_out_Inr move_in_Inr transfer_allowed_def A_def B_def out_def inn_def owns_stock_nodes_def)
next
  case same
  then show ?thesis using assms(3) by simp
qed

text \<open>A transfer between two locations of one namespace succeeds exactly when the source row holds the
  quantity, both locations exist, the sums fit their columns and the namespace lets the inventory engine write
  the graph nodes; it then takes the quantity from the source row and adds it to the target row, touches no other
  row and no reserved or blocked quantity, keeps the total stock, and leaves one outgoing and one incoming ledger
  row. The order in which the rows are locked, by location id, makes no difference to the outcome.
\<close>

theorem transfer_correct:
  assumes "as_uuid uuid ns_raw = Inr ns" and "as_sku sku_raw = Inr sku" and "as_quantity qty_raw = Inr qty"
    and "as_uuid uuid from_raw = Inr a" and "as_uuid uuid to_raw = Inr b" and "a \<noteq> b"
    and "distinct (dict_keys (iv_items db))"
  shows "case do_transfer_stock uuid ns_raw sku_raw qty_raw from_raw to_raw db of
      Inl _ \<Rightarrow> \<not> transfer_allowed ns sku qty a b db
    | Inr (db', f, t) \<Rightarrow> transfer_allowed ns sku qty a b db \<and>
        f = qty_on_hand (stock_row db (ns, sku, a)) - qty \<and> t = qty_on_hand (stock_row db (ns, sku, b)) + qty \<and>
        stock_row db' = (stock_row db)
          ((ns, sku, a) := (stock_row db (ns, sku, a))\<lparr>qty_on_hand := f\<rparr>,
           (ns, sku, b) := (stock_row db (ns, sku, b))\<lparr>qty_on_hand := t\<rparr>) \<and>
        total_on_hand db' = total_on_hand db \<and>
        mset (iv_ledger db') = mset (iv_ledger db) + {#
          ledger_entry (ns, sku, a) (- qty) ''transfer_out'' None (Some b) (iv_now db),
          ledger_entry (ns, sku, b) qty ''transfer_in'' None (Some a) (iv_now db)#}"
proof -
  have q: "0 < qty" using assms(3) by (rule as_quantity_pos)
  have run: "do_transfer_stock uuid ns_raw sku_raw qty_raw from_raw to_raw db = transfer_stock ns sku qty a b db"
    using assms by (simp add: do_transfer_stock_def)
  show ?thesis
  proof (cases "transfer_stock ns sku qty a b db")
    case (Inl e)
    then show ?thesis using transfer_succeeds [of ns sku qty a b db] q assms(6) run by auto
  next
    case (Inr r)
    obtain db' f t where r: "r = (db', f, t)" by (cases r) auto
    from transfer_effect [OF Inr [unfolded r] q assms(6)] obtain db2 where db2:
      "db2 = post_movement (ns, sku, b) (ledger_entry (ns, sku, b) qty ''transfer_in'' None (Some a) (iv_now db))
           (post_movement (ns, sku, a) (ledger_entry (ns, sku, a) (- qty) ''transfer_out'' None (Some b) (iv_now db)) db) \<or>
       db2 = post_movement (ns, sku, a) (ledger_entry (ns, sku, a) (- qty) ''transfer_out'' None (Some b) (iv_now db))
           (post_movement (ns, sku, b) (ledger_entry (ns, sku, b) qty ''transfer_in'' None (Some a) (iv_now db)) db)"
      and eqs: "iv_items db' = iv_items db2" "iv_ledger db' = iv_ledger db2" "iv_now db' = iv_now db2"
      and ft: "f = qty_on_hand (stock_row db (ns, sku, a)) - qty" "t = qty_on_hand (stock_row db (ns, sku, b)) + qty"
      and ok: "transfer_allowed ns sku qty a b db"
      by auto
    have "stock_row db2 = (stock_row db) ((ns, sku, a) := (stock_row db (ns, sku, a))\<lparr>qty_on_hand := f\<rparr>,
        (ns, sku, b) := (stock_row db (ns, sku, b))\<lparr>qty_on_hand := t\<rparr>)"
      using db2 assms(6) by (auto simp: ft fun_eq_iff)
    moreover have "total_on_hand db2 = total_on_hand db"
      using db2 assms(7) by (auto simp: total_post_movement)
    ultimately show ?thesis
      using db2 ok ft by (auto simp: run Inr r stock_row_cong [OF eqs(1,3)] eqs(2) total_on_hand_def eqs(1))
  qed
qed

definition sample_item :: item_row where
  "sample_item = \<lparr>qty_on_hand = 5000, qty_reserved = 4000, qty_blocked = 0, ir_created = 1\<rparr>"

definition sample_stock :: inv_db where
  "sample_stock = \<lparr>iv_now = 2, iv_items = [((''n'', ''cable'', ''l1''), sample_item)],
     iv_ledger = [ledger_entry (''n'', ''cable'', ''l1'') 5000 ''goods_receipt'' (Some 250) None 1],
     iv_locations = [(''n'', ''l1''), (''n'', ''l2'')],
     iv_owners = [((''n'', ''STOCK_LOCATION''), ''inventory''), ((''n'', ''INVENTORY_ITEM''), ''inventory'')],
     iv_nodes = [], iv_edges = [], iv_listeners = [], iv_outbox = [], iv_rmas = [], iv_receipts = []\<rparr>"

lemma sample_args [simp]:
  "as_uuid Some (Some ''n'') = Inr ''n''" "as_uuid Some (Some ''l1'') = Inr ''l1''" "as_uuid Some (Some ''l2'') = Inr ''l2''"
  "as_sku (Some ''cable'') = Inr ''cable''" "as_quantity (JInt 2) = Inr 2000"
proof -
  have "quantise 3 2 = Inr 2000"
    using quantise_thousandths [of 2000] by simp
  then show "as_quantity (JInt 2) = Inr 2000" by (simp add: as_quantity_def as_decimal_def)
qed (simp_all add: as_uuid_def as_sku_def strip_def is_space_def)

lemma sample_transfer_allowed [simp]: "transfer_allowed ''n'' ''cable'' 2000 ''l1'' ''l2'' sample_stock"
  by (simp add: transfer_allowed_def sample_stock_def sample_item_def stock_row_def fits_column_def owns_stock_nodes_def)

lemma sample_stock_rows [simp]:
  "stock_row sample_stock (''n'', ''cable'', ''l1'') = sample_item" "qty_on_hand (stock_row sample_stock (''n'', ''cable'', ''l2'')) = 0"
  "distinct (dict_keys (iv_items sample_stock))" "dict_get (iv_items sample_stock) (''n'', ''cable'', ''l1'') = Some sample_item"
  by (simp_all add: sample_stock_def stock_row_def)

theorem transfer_correct_witness:
  "\<exists>db' f t. do_transfer_stock Some (Some ''n'') (Some ''cable'') (JInt 2) (Some ''l1'') (Some ''l2'') sample_stock = Inr (db', f, t) \<and>
     f = 3000 \<and> t = 2000 \<and> total_on_hand db' = total_on_hand sample_stock"
  using transfer_correct [of Some "Some ''n''" "''n''" "Some ''cable''" "''cable''" "JInt 2" 2000 "Some ''l1''" "''l1''"
      "Some ''l2''" "''l2''" sample_stock]
  by (auto simp: sample_item_def split: sum.splits)

section \<open>Reservations\<close>

definition available :: "item_row \<Rightarrow> int" where
  "available row = qty_on_hand row - qty_reserved row - qty_blocked row"

text \<open>A reservation with well-formed arguments succeeds exactly when the row exists, holds at least that
  much available stock and the sum fits the column; it then raises the reserved quantity of that row by
  the amount, leaves at least zero available, moves no stock and appends nothing to the ledger; and
  releasing the same quantity gives back every row as it was.
\<close>

theorem reserve_release_round_trip:
  assumes "as_uuid uuid ns_raw = Inr ns" and "as_sku sku_raw = Inr sku" and "as_quantity qty_raw = Inr qty"
    and "as_uuid uuid loc_raw = Inr loc" and "as_project_label project_raw = Inr project" and "stock_inv db"
  shows "case do_reserve_stock uuid ns_raw sku_raw qty_raw loc_raw project_raw db of
      Inl _ \<Rightarrow> \<not> (\<exists>row. dict_get (iv_items db) (ns, sku, loc) = Some row \<and> qty \<le> available row \<and> fits_column (qty_reserved row + qty))
    | Inr (db', s) \<Rightarrow> (\<exists>row. dict_get (iv_items db) (ns, sku, loc) = Some row \<and>
        dict_get (iv_items db') = (dict_get (iv_items db))((ns, sku, loc) \<mapsto> row\<lparr>qty_reserved := qty_reserved row + qty\<rparr>) \<and>
        sf_available s = available row - qty \<and> 0 \<le> sf_available s) \<and>
        iv_ledger db' = iv_ledger db \<and>
        (\<exists>db'' s'. do_release_stock uuid ns_raw sku_raw qty_raw loc_raw project_raw db' = Inr (db'', s') \<and>
           dict_get (iv_items db'') = dict_get (iv_items db) \<and> sf_available s' = sf_available s + qty)"
proof (cases "dict_get (iv_items db) (ns, sku, loc)")
  case None
  then show ?thesis using assms by (simp add: do_reserve_stock_def with_reservation_args_def reserve_stock_def)
next
  case (Some row)
  show ?thesis
  proof (cases "qty \<le> available row \<and> fits_column (qty_reserved row + qty)")
    case False
    then show ?thesis
      using assms Some by (auto simp: do_reserve_stock_def with_reservation_args_def reserve_stock_def available_def)
  next
    case True
    have "qty_reserved (row\<lparr>qty_reserved := qty_reserved row + qty\<rparr>) \<ge> qty"
      using stock_inv_row(4) [OF assms(6) Some] by simp
    with True show ?thesis
      using assms Some
      by (auto simp: do_reserve_stock_def do_release_stock_def with_reservation_args_def reserve_stock_def release_stock_def
          Let_def available_def fields_of_def)
  qed
qed

lemma sample_stock_inv [simp]: "stock_inv sample_stock"
  by (simp add: stock_inv_def sample_stock_def sample_item_def deltas_def ledger_born_def)

lemma sample_project_label [simp]: "as_project_label (Some ''PROJECT:Q1'') = Inr ''PROJECT:Q1''"
  by code_simp

lemma sample_one [simp]: "as_quantity (JInt 1) = Inr 1000"
  using quantise_thousandths [of 1000] by (simp add: as_quantity_def as_decimal_def)

theorem reserve_release_round_trip_witness:
  "\<exists>db' s. do_reserve_stock Some (Some ''n'') (Some ''cable'') (JInt 1) (Some ''l1'') (Some ''PROJECT:Q1'') sample_stock = Inr (db', s) \<and>
     sf_available s = 0"
  using reserve_release_round_trip [of Some "Some ''n''" "''n''" "Some ''cable''" "''cable''" "JInt 1" 1000 "Some ''l1''" "''l1''"
      "Some ''PROJECT:Q1''" "''PROJECT:Q1''" sample_stock]
  by (auto simp: sample_item_def available_def fits_column_def split: sum.splits)

text \<open>Consumption looks at the quantity on hand alone: whatever is reserved, a consumption of at most what
  is on hand goes through, and when it takes more than was available the row is left with a negative
  available quantity: stock reserved for a project has been consumed and the reservation still stands.
\<close>
theorem consumption_overrides_reservations:
  assumes "dict_get (iv_items db) (ns, sku, loc) = Some row" and "0 < qty" and "qty \<le> qty_on_hand row"
    and "available row < qty" and "fits_column qty" and "(ns, loc) \<in> set (iv_locations db)" and "owns_stock_nodes db ns"
  shows "\<exists>db' row'. record_consumption ns sku qty loc work_order db = Inr (db', qty_on_hand row - qty) \<and>
    dict_get (iv_items db') (ns, sku, loc) = Some row' \<and> qty_reserved row' = qty_reserved row \<and> available row' < 0"
proof -
  let ?k = "(ns, sku, loc)"
  let ?r = "ledger_entry ?k (- qty) ''consumption'' None work_order (iv_now db)"
  have accepts: "ledger_accepts ?k (- qty) ''consumption'' db"
    using assms by (auto simp: ledger_accepts_def VALID_REASON_CATEGORIES_def assert_sign_matches_category_def REASONS_IN_def
        REASONS_OUT_def fits_column_def)
  have row: "stock_row db ?k = row" using assms(1) by (simp add: stock_row_def)
  have out: "move_out ?k qty ''consumption'' work_order db = Inr (post_movement ?k ?r db, qty_on_hand row - qty)"
    using assms accepts row by (simp add: move_out_Inr)
  obtain db' where m: "mirror_item_at_location ?k (post_movement ?k ?r db) = Inr db'"
    using mirror_ex [of "post_movement ?k ?r db" ns sku loc] assms(7) by (auto simp: owns_stock_nodes_def)
  from mirror_fields(1) [OF m] row assms(4) show ?thesis
    by (auto simp: record_consumption_def out m available_def)
qed

theorem consumption_overrides_reservations_witness:
  "\<exists>db' row'. record_consumption ''n'' ''cable'' 2000 ''l1'' None sample_stock = Inr (db', 3000) \<and>
     dict_get (iv_items db') (''n'', ''cable'', ''l1'') = Some row' \<and> qty_reserved row' = 4000 \<and> available row' < 0"
  using consumption_overrides_reservations [of sample_stock "''n''" "''cable''" "''l1''" sample_item 2000 None]
  by (auto simp: sample_stock_def sample_item_def available_def fits_column_def owns_stock_nodes_def)

end
