(* ===== verification/StockReports.thy ===== *)
theory StockReports
  imports Inventory
begin

text \<open>
  Reading the ledger: the value of a stock row by first-in-first-out layers or by weighted average
  (\<open>transactions.py\<close>) and the reconciliation of stock that has not moved with its ledger
  (\<open>reconcile.py\<close>). A value is a number of hundred-thousandths, a quantity in thousandths times a cost in
  hundredths; the average keeps its running value as a real number, where \<open>Decimal\<close> rounds each quotient to
  28 digits.
\<close>

section \<open>Valuation\<close>

function consume_layers :: "(int \<times> int) list \<Rightarrow> int \<Rightarrow> (int \<times> int) list" where
  "consume_layers [] to_remove = []"
| "consume_layers ((qty, cost) # layers) to_remove =
     (if to_remove > 0 then
        (let tk = min qty to_remove in
         if qty - tk \<le> 0 then consume_layers layers (to_remove - tk)
         else consume_layers ((qty - tk, cost) # layers) (to_remove - tk))
      else (qty, cost) # layers)"
  by pat_completeness auto
termination
  by (relation "measures [\<lambda>(ls, r). length ls, \<lambda>(ls, r). nat r]") (auto simp: min_def)

definition fifo_row :: "int \<times> int option \<Rightarrow> (int \<times> int) list \<Rightarrow> (int \<times> int) list" where
  "fifo_row row layers = (case row of (delta, unit_cost) \<Rightarrow>
     if delta > 0 then layers @ [(delta, case unit_cost of None \<Rightarrow> 0 | Some c \<Rightarrow> c)]
     else consume_layers layers (- delta))"

definition compute_fifo :: "(int \<times> int option) list \<Rightarrow> real \<times> int" where
  "compute_fifo rows = (let layers = fold fifo_row rows [] in
     (of_int (sum_list (map (\<lambda>(q, c). q * c) layers)), sum_list (map fst layers)))"

definition average_row :: "int \<times> int option \<Rightarrow> real \<times> int \<Rightarrow> real \<times> int" where
  "average_row row st = (case (row, st) of ((delta, unit_cost), (running_value, running_qty)) \<Rightarrow>
     if delta > 0 then
       (running_value + of_int (delta * (case unit_cost of None \<Rightarrow> 0 | Some c \<Rightarrow> c)), running_qty + delta)
     else (let qty_out = min (- delta) running_qty in
       (if running_qty > 0 then running_value - of_int qty_out * (running_value / of_int running_qty) else running_value,
        running_qty - qty_out)))"

definition compute_average :: "(int \<times> int option) list \<Rightarrow> real \<times> int" where
  "compute_average rows = fold average_row rows (0, 0)"

definition compute_valuation :: "(int \<times> int option) list \<Rightarrow> string \<Rightarrow> inv_error + (real \<times> int)" where
  "compute_valuation rows mode =
     (if mode = ''fifo'' then Inr (compute_fifo rows)
      else if mode = ''average'' then Inr (compute_average rows)
      else Inl (InvValueError ''unknown method''))"

text \<open>The ledger rows of one key, oldest first; rows of one instant keep their order of insertion.\<close>

definition valuation_rows :: "inv_db \<Rightarrow> item_key \<Rightarrow> (int \<times> int option) list" where
  "valuation_rows db key = map (\<lambda>r. (lr_delta r, lr_unit_cost r))
     (sort_key lr_created (filter (\<lambda>r. lr_key r = key) (iv_ledger db)))"

definition do_valuation ::
  "(string \<Rightarrow> string option) \<Rightarrow> string \<Rightarrow> string option \<Rightarrow> string option \<Rightarrow> string option \<Rightarrow> inv_db \<Rightarrow> inv_error + (int \<times> int)" where
  "do_valuation uuid mode ns_raw sku_raw loc_raw db =
     and_then (as_uuid uuid ns_raw) (\<lambda>ns. and_then (as_sku sku_raw) (\<lambda>sku. and_then (as_uuid uuid loc_raw) (\<lambda>loc.
       if mode \<notin> set [''fifo'', ''average''] then Inl (InvValueError ''method'')
       else and_then (compute_valuation (valuation_rows db (ns, sku, loc)) mode) (\<lambda>(total, remaining).
         and_then (quantise 2 (total / 100000)) (\<lambda>v. Inr (v, remaining))))))"

section \<open>First in, first out\<close>

text \<open>The reference: every thousandth of stock received, in order of arrival, at its own cost.\<close>

definition units :: "(int \<times> int) list \<Rightarrow> int list" where
  "units layers = concat (map (\<lambda>(q, c). replicate (nat q) c) layers)"

definition received :: "(int \<times> int option) list \<Rightarrow> (int \<times> int) list" where
  "received rows = map (\<lambda>(d, c). (d, case c of None \<Rightarrow> 0 | Some u \<Rightarrow> u)) (filter (\<lambda>(d, c). d > 0) rows)"

definition issued :: "(int \<times> int option) list \<Rightarrow> int" where
  "issued rows = sum_list (map (\<lambda>(d, c). if d > 0 then 0 else - d) rows)"

abbreviation layers_wf :: "(int \<times> int) list \<Rightarrow> bool" where
  "layers_wf layers \<equiv> \<forall>l \<in> set layers. 0 < fst l"

lemma units_simps [simp]: "units [] = []" "units ((q, c) # ls) = replicate (nat q) c @ units ls"
  "units (ls @ ms) = units ls @ units ms"
  by (simp_all add: units_def)

lemma units_sum: "layers_wf ls \<Longrightarrow> sum_list (map (\<lambda>(q, c). q * c) ls) = sum_list (units ls)"
  by (induction ls) (auto simp: sum_list_replicate)

lemma units_length: "layers_wf ls \<Longrightarrow> sum_list (map fst ls) = int (length (units ls))"
  by (induction ls) auto

lemma consume_layers_wf: "layers_wf ls \<Longrightarrow> layers_wf (consume_layers ls r)"
  by (induction ls r rule: consume_layers.induct) (auto simp: Let_def min_def)

lemma consume_layers_units: "layers_wf ls \<Longrightarrow> units (consume_layers ls r) = drop (nat r) (units ls)"
proof (induction ls r rule: consume_layers.induct)
  case (2 qty cost layers r)
  show ?case
  proof (cases "0 < r")
    case True
    show ?thesis
    proof (cases "qty \<le> r")
      case le: True
      then have "units (consume_layers ((qty, cost) # layers) r) = drop (nat (r - qty)) (units layers)"
        using 2 True by (simp add: min_absorb1)
      then show ?thesis using le 2(3) by (simp add: nat_diff_distrib)
    next
      case False
      then have "consume_layers ((qty, cost) # layers) r = (qty - r, cost) # layers"
        using True by (simp add: min_def)
      then show ?thesis using False True by (simp add: nat_diff_distrib)
    qed
  qed simp
qed simp

lemma fifo_row_simps [simp]:
  "0 < d \<Longrightarrow> fifo_row (d, c) ls = ls @ [(d, case c of None \<Rightarrow> 0 | Some u \<Rightarrow> u)]"
  "\<not> 0 < d \<Longrightarrow> fifo_row (d, c) ls = consume_layers ls (- d)"
  by (simp_all add: fifo_row_def)

lemma received_issued_simps [simp]:
  "received [] = []" "issued [] = 0"
  "received ((d, c) # rows) = (if 0 < d then (d, case c of None \<Rightarrow> 0 | Some u \<Rightarrow> u) # received rows else received rows)"
  "issued ((d, c) # rows) = (if 0 < d then issued rows else issued rows - d)"
  by (simp_all add: received_def issued_def)

lemma issued_nonneg: "0 \<le> issued rows"
  by (auto simp: issued_def intro!: sum_list_nonneg)

lemma fold_fifo_units:
  assumes "never_negative (sum_list (map fst ls)) (map fst rows)" and "layers_wf ls"
  shows "layers_wf (fold fifo_row rows ls) \<and>
    units (fold fifo_row rows ls) = drop (nat (issued rows)) (units (ls @ received rows)) \<and>
    sum_list (map fst (fold fifo_row rows ls)) = sum_list (map fst ls) + sum_list (map fst rows)"
  using assms
proof (induction rows arbitrary: ls)
  case Nil
  then show ?case by simp
next
  case (Cons row rows)
  obtain d c where row: "row = (d, c)" by (cases row)
  show ?case
  proof (cases "0 < d")
    case True
    let ?l = "ls @ [(d, case c of None \<Rightarrow> 0 | Some u \<Rightarrow> u)]"
    have "never_negative (sum_list (map fst ?l)) (map fst rows)" "layers_wf ?l"
      using Cons.prems row True by (auto simp: add.commute)
    from Cons.IH [OF this] show ?thesis
      using True row by simp
  next
    case False
    let ?l = "consume_layers ls (- d)"
    have wf: "layers_wf ?l" using Cons.prems(2) by (rule consume_layers_wf)
    have len: "nat (- d) \<le> length (units ls)"
      using Cons.prems row units_length [OF Cons.prems(2)] by auto
    have "sum_list (map fst ?l) = int (length (units ls) - nat (- d))"
      using units_length [OF wf] consume_layers_units [OF Cons.prems(2)] by simp
    then have sum: "sum_list (map fst ?l) = sum_list (map fst ls) + d"
      using len False units_length [OF Cons.prems(2)] by simp
    have "never_negative (sum_list (map fst ?l)) (map fst rows)"
      using Cons.prems row sum by simp
    from Cons.IH [OF this wf] have "layers_wf (fold fifo_row rows ?l) \<and>
      units (fold fifo_row rows ?l) = drop (nat (issued rows)) (drop (nat (- d)) (units ls) @ units (received rows)) \<and>
      sum_list (map fst (fold fifo_row rows ?l)) = sum_list (map fst ls) + d + sum_list (map fst rows)"
      using consume_layers_units [OF Cons.prems(2), of "- d"] sum by simp
    moreover have "drop (nat (issued rows - d)) (units ls @ units (received rows)) =
        drop (nat (issued rows)) (drop (nat (- d)) (units ls) @ units (received rows))"
    proof -
      have "nat (issued rows - d) = nat (issued rows) + nat (- d)"
        using issued_nonneg [of rows] False by simp
      then have "drop (nat (issued rows - d)) (units ls @ units (received rows)) =
          drop (nat (issued rows)) (drop (nat (- d)) (units ls @ units (received rows)))"
        by (simp only: drop_drop)
      then show ?thesis using len by simp
    qed
    ultimately show ?thesis
      using False row by simp
  qed
qed

text \<open>C33: On a history that never goes below zero, first-in-first-out valuation equals its reference: write
  down every unit received, in order of arrival, at the cost it came in at (nothing when the receipt had
  none), and strike out as many from the front as were issued; the value is the sum of the rest and the
  remaining quantity its length, which is the balance of the ledger.
\<close>
theorem fifo_is_first_in_first_out:
  assumes "never_negative 0 (map fst rows)"
  shows "compute_fifo rows =
      (let rest = drop (nat (issued rows)) (units (received rows)) in (of_int (sum_list rest), int (length rest))) \<and>
    snd (compute_fifo rows) = sum_list (map fst rows)"
proof -
  let ?ls = "fold fifo_row rows []"
  have "layers_wf ?ls" "units ?ls = drop (nat (issued rows)) (units (received rows))"
    "sum_list (map fst ?ls) = sum_list (map fst rows)"
    using fold_fifo_units [of "[]" rows] assms by simp_all
  then show ?thesis using units_length [of ?ls] by (simp add: compute_fifo_def Let_def units_sum)
qed

theorem fifo_is_first_in_first_out_witness:
  "compute_fifo [(2, Some 30), (3, None), (-3, None), (2, Some 10)] = (20, 4)"
  using fifo_is_first_in_first_out [of "[(2, Some 30), (3, None), (-3, None), (2, Some 10)]"]
  by (simp add: units_def numeral_eq_Suc)

section \<open>Both methods\<close>

definition unit_costs :: "(int \<times> int option) list \<Rightarrow> int list" where
  "unit_costs rows = map snd (received rows)"

lemma average_row_simps [simp]:
  "0 < d \<Longrightarrow> average_row (d, c) (v, q) = (v + of_int (d * (case c of None \<Rightarrow> 0 | Some u \<Rightarrow> u)), q + d)"
  "\<not> 0 < d \<Longrightarrow> 0 \<le> q + d \<Longrightarrow> average_row (d, c) (v, q) =
     (if q > 0 then v - of_int (- d) * (v / of_int q) else v, q + d)"
  by (auto simp: average_row_def Let_def min_def)

lemma average_out_bounds:
  fixes v lo :: real and q d :: int
  assumes "lo * of_int q \<le> v" "v \<le> hi * of_int q" "0 < q" "0 \<le> q + d"
  shows "lo * of_int (q + d) \<le> v - of_int (- d) * (v / of_int q)" "v - of_int (- d) * (v / of_int q) \<le> hi * of_int (q + d)"
proof -
  have eq: "v - of_int (- d) * (v / of_int q) = (v / of_int q) * of_int (q + d)"
    using assms(3) by (simp add: field_simps)
  have "lo \<le> v / of_int q" "v / of_int q \<le> hi"
    using assms by (simp_all add: field_simps)
  then show "lo * of_int (q + d) \<le> v - of_int (- d) * (v / of_int q)" "v - of_int (- d) * (v / of_int q) \<le> hi * of_int (q + d)"
    using assms(4) unfolding eq by (auto intro!: mult_right_mono simp del: times_divide_eq_left of_int_add)
qed

lemma fold_average:
  assumes "never_negative q (map fst rows)" and "\<forall>c \<in> set (unit_costs rows). lo \<le> c \<and> c \<le> hi"
    and "0 \<le> q" and "of_int lo * of_int q \<le> v" and "v \<le> of_int hi * of_int q"
  shows "snd (fold average_row rows (v, q)) = q + sum_list (map fst rows) \<and>
    of_int lo * of_int (q + sum_list (map fst rows)) \<le> fst (fold average_row rows (v, q)) \<and>
    fst (fold average_row rows (v, q)) \<le> of_int hi * of_int (q + sum_list (map fst rows))"
  using assms
proof (induction rows arbitrary: v q)
  case (Cons row rows)
  obtain d c where row: "row = (d, c)" by (cases row)
  show ?case
  proof (cases "0 < d")
    case True
    let ?u = "case c of None \<Rightarrow> 0 | Some u \<Rightarrow> u"
    have u: "lo \<le> ?u" "?u \<le> hi" using Cons.prems(2) row True by (auto simp: unit_costs_def)
    have "of_int lo * of_int (q + d) \<le> v + of_int (d * ?u)" "v + of_int (d * ?u) \<le> of_int hi * of_int (q + d)"
    proof -
      have "d * lo \<le> d * ?u" "d * ?u \<le> d * hi" using u True by (simp_all add: mult_left_mono)
      then have "real_of_int (d * lo) \<le> of_int (d * ?u)" "real_of_int (d * ?u) \<le> of_int (d * hi)"
        by (simp_all only: of_int_le_iff)
      then show "of_int lo * of_int (q + d) \<le> v + of_int (d * ?u)" "v + of_int (d * ?u) \<le> of_int hi * of_int (q + d)"
        using Cons.prems(4,5) by (simp_all add: algebra_simps)
    qed
    with Cons.IH [of "q + d" "v + of_int (d * ?u)"] Cons.prems True row show ?thesis
      by (simp add: unit_costs_def add.assoc)
  next
    case False
    let ?v = "if q > 0 then v - of_int (- d) * (v / of_int q) else v"
    have d: "0 \<le> q + d" using Cons.prems(1) row by simp
    have b: "of_int lo * of_int (q + d) \<le> ?v" "?v \<le> of_int hi * of_int (q + d)"
    proof -
      have "d = 0" if "\<not> 0 < q" using that d False Cons.prems(3) by simp
      then show "of_int lo * of_int (q + d) \<le> ?v" "?v \<le> of_int hi * of_int (q + d)"
        using average_out_bounds [OF Cons.prems(4,5) _ d] Cons.prems(4,5) by auto
    qed
    with Cons.IH [of "q + d" ?v] Cons.prems d False row show ?thesis
      by (simp add: unit_costs_def add.assoc)
  qed
qed simp

lemma valuation_rows_deltas:
  assumes "stock_inv db"
  shows "map fst (valuation_rows db key) = deltas db key"
proof -
  have "sorted (map lr_created (filter (\<lambda>r. lr_key r = key) (iv_ledger db)))"
    using assms by (auto simp: stock_inv_def intro: sorted_filter)
  then have "sort_key lr_created (filter (\<lambda>r. lr_key r = key) (iv_ledger db)) = filter (\<lambda>r. lr_key r = key) (iv_ledger db)"
    by (rule sort_key_id_if_sorted)
  then show ?thesis by (simp add: valuation_rows_def deltas_def comp_def)
qed

lemma units_costs: "set (units ls) \<subseteq> set (map snd ls)"
  by (force simp: units_def)

lemma sum_list_bounds:
  fixes xs :: "int list"
  assumes "\<forall>x \<in> set xs. lo \<le> x \<and> x \<le> hi"
  shows "lo * int (length xs) \<le> sum_list xs" "sum_list xs \<le> hi * int (length xs)"
  using assms by (induction xs) (auto simp: algebra_simps)

lemma compute_fifo_bounds:
  assumes "never_negative 0 (map fst rows)" and "\<forall>c \<in> set (unit_costs rows). lo \<le> c \<and> c \<le> hi"
  shows "snd (compute_fifo rows) = sum_list (map fst rows) \<and>
    of_int lo * of_int (sum_list (map fst rows)) \<le> fst (compute_fifo rows) \<and>
    fst (compute_fifo rows) \<le> of_int hi * of_int (sum_list (map fst rows))"
proof -
  let ?ls = "fold fifo_row rows []"
  have ls: "layers_wf ?ls" "units ?ls = drop (nat (issued rows)) (units (received rows))"
    "sum_list (map fst ?ls) = sum_list (map fst rows)"
    using fold_fifo_units [of "[]" rows] assms by simp_all
  have "set (units ?ls) \<subseteq> set (unit_costs rows)"
    using ls(2) units_costs [of "received rows"] set_drop_subset by (fastforce simp: unit_costs_def)
  then have "\<forall>x \<in> set (units ?ls). lo \<le> x \<and> x \<le> hi" using assms(2) by blast
  from sum_list_bounds [OF this] have
    "real_of_int (lo * sum_list (map fst rows)) \<le> of_int (sum_list (units ?ls))"
    "real_of_int (sum_list (units ?ls)) \<le> of_int (hi * sum_list (map fst rows))"
    using units_length [OF ls(1)] ls(3) by (simp_all only: of_int_le_iff)
  then show ?thesis using ls by (simp add: compute_fifo_def Let_def units_sum)
qed

lemma valuation_quantity:
  assumes "stock_inv db"
  shows "snd (compute_fifo (valuation_rows db key)) = qty_on_hand (stock_row db key)"
    "snd (compute_average (valuation_rows db key)) = qty_on_hand (stock_row db key)"
proof -
  let ?rows = "valuation_rows db key"
  have sum: "sum_list (map fst ?rows) = qty_on_hand (stock_row db key)" and nn: "never_negative 0 (map fst ?rows)"
    using stock_row_inv [OF assms, of key] by (simp_all add: valuation_rows_deltas [OF assms])
  have costs: "\<forall>c \<in> set (unit_costs ?rows). - (\<Sum>u \<leftarrow> unit_costs ?rows. \<bar>u\<bar>) \<le> c \<and> c \<le> (\<Sum>u \<leftarrow> unit_costs ?rows. \<bar>u\<bar>)"
  proof
    fix c assume "c \<in> set (unit_costs ?rows)"
    then have "\<bar>c\<bar> \<le> (\<Sum>u \<leftarrow> unit_costs ?rows. \<bar>u\<bar>)" by (auto intro!: member_le_sum_list)
    then show "- (\<Sum>u \<leftarrow> unit_costs ?rows. \<bar>u\<bar>) \<le> c \<and> c \<le> (\<Sum>u \<leftarrow> unit_costs ?rows. \<bar>u\<bar>)" by (simp add: abs_le_iff)
  qed
  from compute_fifo_bounds [OF nn costs] fold_average [OF nn costs, of 0] sum
  show "snd (compute_fifo ?rows) = qty_on_hand (stock_row db key)" "snd (compute_average ?rows) = qty_on_hand (stock_row db key)"
    by (simp_all add: compute_average_def)
qed

text \<open>The value the report puts on a stock row agrees with the row: under either method the remaining
  quantity it derives from the ledger is exactly the quantity on hand, uncosted receipts included, and
  the value lies between the lowest and the highest cost paid for the quantity on hand.
\<close>
theorem valuation_agrees_with_stock:
  assumes "stock_inv db" and "mode = ''fifo'' \<or> mode = ''average''"
    and "\<forall>c \<in> set (unit_costs (valuation_rows db key)). lo \<le> c \<and> c \<le> hi"
  shows "\<exists>total. compute_valuation (valuation_rows db key) mode = Inr (total, qty_on_hand (stock_row db key)) \<and>
    of_int lo * of_int (qty_on_hand (stock_row db key)) \<le> total \<and> total \<le> of_int hi * of_int (qty_on_hand (stock_row db key))"
proof -
  let ?rows = "valuation_rows db key"
  have sum: "sum_list (map fst ?rows) = qty_on_hand (stock_row db key)" and nn: "never_negative 0 (map fst ?rows)"
    using stock_row_inv [OF assms(1), of key] by (simp_all add: valuation_rows_deltas [OF assms(1)])
  from compute_fifo_bounds [OF nn assms(3)] fold_average [OF nn assms(3), of 0] assms(2) sum show ?thesis
    by (auto simp: compute_valuation_def compute_average_def prod_eq_iff)
qed

theorem valuation_agrees_with_stock_witness:
  "\<exists>total. compute_valuation (valuation_rows sample_stock (''n'', ''cable'', ''l1'')) ''average'' = Inr (total, 5000) \<and> total = 250 * 5000"
  using valuation_agrees_with_stock [OF sample_stock_inv, of "''average''" "(''n'', ''cable'', ''l1'')" 250 250]
  by (auto simp: unit_costs_def valuation_rows_def sample_stock_def sample_item_def stock_row_def)

section \<open>Dead stock\<close>

text \<open>A row of the query for stock that has not moved; times are in seconds.\<close>

record dead_row =
  dr_sku :: string
  dr_location :: string
  dr_on_hand :: int
  dr_created :: int
  dr_txn_count :: nat
  dr_sum :: "int option"
  dr_first_at :: "int option"

record buckets =
  balanced :: "dead_row list"
  unreconcilable :: "dead_row list"
  divergent :: "dead_row list"

definition opening_balance_unknown :: "dead_row \<Rightarrow> bool" where
  "opening_balance_unknown r \<longleftrightarrow> dr_txn_count r = 0 \<or> (case dr_first_at r of None \<Rightarrow> True | Some t \<Rightarrow> dr_sum r = None \<or> dr_created r < t)"

primrec classify_dead_stock_pairs :: "dead_row list \<Rightarrow> buckets" where
  "classify_dead_stock_pairs [] = \<lparr>balanced = [], unreconcilable = [], divergent = []\<rparr>"
| "classify_dead_stock_pairs (r # rows) = (let b = classify_dead_stock_pairs rows in
     if opening_balance_unknown r then b\<lparr>unreconcilable := r # unreconcilable b\<rparr>
     else if dr_sum r = Some (dr_on_hand r) then b\<lparr>balanced := r # balanced b\<rparr>
     else b\<lparr>divergent := r # divergent b\<rparr>)"

definition ledger_of :: "inv_db \<Rightarrow> item_key \<Rightarrow> ledger_row list" where
  "ledger_of db key = filter (\<lambda>r. lr_key r = key) (iv_ledger db)"

definition dead_row_of :: "inv_db \<Rightarrow> item_key \<Rightarrow> item_row \<Rightarrow> dead_row" where
  "dead_row_of db key row = (case key of (ns, sku, loc) \<Rightarrow> let rs = ledger_of db key in
     \<lparr>dr_sku = sku, dr_location = loc, dr_on_hand = qty_on_hand row, dr_created = ir_created row,
      dr_txn_count = length rs,
      dr_sum = (if rs = [] then None else Some (sum_list (map lr_delta rs))),
      dr_first_at = (if rs = [] then None else Some (Min (lr_created ` set rs)))\<rparr>)"

definition is_dead :: "inv_db \<Rightarrow> int \<Rightarrow> item_key \<Rightarrow> item_row \<Rightarrow> bool" where
  "is_dead db days key row \<longleftrightarrow> qty_on_hand row > 0 \<and>
     (\<forall>r \<in> set (ledger_of db key). lr_created r < iv_now db - days * 86400)"

definition dead_set :: "inv_db \<Rightarrow> string \<Rightarrow> int \<Rightarrow> dead_row list" where
  "dead_set db ns days = sort_key dr_sku (sort_key dr_location
     (map (\<lambda>(key, row). dead_row_of db key row)
       (filter (\<lambda>(key, row). fst key = ns \<and> is_dead db days key row) (iv_items db))))"

definition as_dead_stock_days :: "json \<Rightarrow> inv_error + int" where
  "as_dead_stock_days raw = (case raw of
      JInt i \<Rightarrow> if i < 0 then Inl (InvValueError ''must be >= 0'') else Inr i
    | _ \<Rightarrow> Inl (InvValueError ''expected a non-negative int''))"

text \<open>\<open>inventory-dead-stock.json\<close>\<close>

definition DEAD_STOCK_DAYS :: json where
  "DEAD_STOCK_DAYS = JInt 90"

definition divergence :: "dead_row \<Rightarrow> string \<times> string \<times> int \<times> int \<times> int" where
  "divergence r = (let s = (case dr_sum r of None \<Rightarrow> 0 | Some n \<Rightarrow> n) in
     (dr_sku r, dr_location r, dr_on_hand r, s, dr_on_hand r - s))"

definition do_reconcile_dead_stock ::
  "(string \<Rightarrow> string option) \<Rightarrow> string option \<Rightarrow> json \<Rightarrow> inv_db \<Rightarrow> inv_error + (int \<times> nat \<times> buckets)" where
  "do_reconcile_dead_stock uuid ns_raw days_raw db =
     and_then (as_uuid uuid ns_raw) (\<lambda>ns.
     and_then (as_dead_stock_days (if days_raw = JNull then DEAD_STOCK_DAYS else days_raw)) (\<lambda>days.
       (let rows = dead_set db ns days; b = classify_dead_stock_pairs rows in
        if divergent b \<noteq> [] then Inl (LedgerDivergenceError (map divergence (divergent b)))
        else Inr (days, length rows, b))))"

lemma classify_filters:
  "classify_dead_stock_pairs rows = \<lparr>
     balanced = filter (\<lambda>r. \<not> opening_balance_unknown r \<and> dr_sum r = Some (dr_on_hand r)) rows,
     unreconcilable = filter opening_balance_unknown rows,
     divergent = filter (\<lambda>r. \<not> opening_balance_unknown r \<and> dr_sum r \<noteq> Some (dr_on_hand r)) rows\<rparr>"
  by (induction rows) (auto simp: Let_def)

lemma set_dead_set:
  "set (dead_set db ns days) =
     {dead_row_of db key row | key row. (key, row) \<in> set (iv_items db) \<and> fst key = ns \<and> is_dead db days key row}"
  by (auto simp: dead_set_def image_iff) blast+

lemma dead_row_balanced:
  assumes "stock_inv db" and "(key, row) \<in> set (iv_items db)"
  shows "\<not> opening_balance_unknown (dead_row_of db key row) \<and>
    dr_sum (dead_row_of db key row) = Some (dr_on_hand (dead_row_of db key row))"
proof -
  have get: "dict_get (iv_items db) key = Some row"
    using assms by (simp add: stock_inv_def)
  from stock_inv_row(6) [OF assms(1) get] obtain r where r: "r \<in> set (iv_ledger db)" "lr_key r = key" "lr_created r \<le> ir_created row"
    by (auto simp: ledger_born_def)
  then have "r \<in> set (ledger_of db key)" by (simp add: ledger_of_def)
  then have "ledger_of db key \<noteq> []" and "Min (lr_created ` set (ledger_of db key)) \<le> ir_created row"
    using r(3) by (auto intro!: order_trans [OF Min_le])
  then show ?thesis
    using stock_inv_row(1) [OF assms(1) get]
    by (auto simp: opening_balance_unknown_def dead_row_of_def Let_def deltas_def ledger_of_def split: prod.splits)
qed

lemma reconcile_balanced:
  assumes "as_uuid uuid ns_raw = Inr ns" and "as_dead_stock_days (if days_raw = JNull then DEAD_STOCK_DAYS else days_raw) = Inr days"
    and "stock_inv db"
  shows "do_reconcile_dead_stock uuid ns_raw days_raw db =
    Inr (days, length (dead_set db ns days), \<lparr>balanced = dead_set db ns days, unreconcilable = [], divergent = []\<rparr>)"
proof -
  have "\<forall>r \<in> set (dead_set db ns days). \<not> opening_balance_unknown r \<and> dr_sum r = Some (dr_on_hand r)"
    using dead_row_balanced [OF assms(3)] by (auto simp: set_dead_set)
  then show ?thesis
    using assms(1,2) by (auto simp: do_reconcile_dead_stock_def Let_def classify_filters filter_empty_conv filter_id_conv)
qed

text \<open>Reconciliation reports every dead pair in exactly one bucket and refuses exactly when some dead pair
  with a known opening balance disagrees with its ledger, naming every such pair; and stock that was only
  ever written by the inventory operations always reconciles: no divergence and no unknown opening balance.
\<close>

theorem reconcile_correct:
  assumes "as_uuid uuid ns_raw = Inr ns" and "as_dead_stock_days (if days_raw = JNull then DEAD_STOCK_DAYS else days_raw) = Inr days"
  shows "do_reconcile_dead_stock uuid ns_raw days_raw db =
      (let rows = dead_set db ns days;
           bad = filter (\<lambda>r. \<not> opening_balance_unknown r \<and> dr_sum r \<noteq> Some (dr_on_hand r)) rows in
       if bad \<noteq> [] then Inl (LedgerDivergenceError (map divergence bad))
       else Inr (days, length rows, classify_dead_stock_pairs rows)) \<and>
    mset (balanced (classify_dead_stock_pairs (dead_set db ns days))) +
      mset (unreconcilable (classify_dead_stock_pairs (dead_set db ns days))) +
      mset (divergent (classify_dead_stock_pairs (dead_set db ns days))) = mset (dead_set db ns days) \<and>
    (stock_inv db \<longrightarrow> do_reconcile_dead_stock uuid ns_raw days_raw db =
       Inr (days, length (dead_set db ns days),
            \<lparr>balanced = dead_set db ns days, unreconcilable = [], divergent = []\<rparr>))"
proof -
  have run: "do_reconcile_dead_stock uuid ns_raw days_raw db =
      (let rows = dead_set db ns days;
           bad = filter (\<lambda>r. \<not> opening_balance_unknown r \<and> dr_sum r \<noteq> Some (dr_on_hand r)) rows in
       if bad \<noteq> [] then Inl (LedgerDivergenceError (map divergence bad))
       else Inr (days, length rows, classify_dead_stock_pairs rows))"
    using assms by (simp add: do_reconcile_dead_stock_def Let_def classify_filters)
  have part: "mset (filter (\<lambda>r. \<not> opening_balance_unknown r \<and> dr_sum r = Some (dr_on_hand r)) rows) +
      mset (filter opening_balance_unknown rows) +
      mset (filter (\<lambda>r. \<not> opening_balance_unknown r \<and> dr_sum r \<noteq> Some (dr_on_hand r)) rows) = mset rows" for rows
    by (induction rows) auto
  have "do_reconcile_dead_stock uuid ns_raw days_raw db =
       Inr (days, length (dead_set db ns days),
            \<lparr>balanced = dead_set db ns days, unreconcilable = [], divergent = []\<rparr>)" if "stock_inv db"
    using assms that by (rule reconcile_balanced)
  with part show ?thesis by (simp add: run classify_filters)
qed

theorem reconcile_correct_witness:
  "do_reconcile_dead_stock Some (Some ''n'') JNull (sample_stock\<lparr>iv_now := 86400 * 91\<rparr>) =
     Inr (90, 1, \<lparr>balanced = [dead_row_of (sample_stock\<lparr>iv_now := 86400 * 91\<rparr>) (''n'', ''cable'', ''l1'') sample_item],
       unreconcilable = [], divergent = []\<rparr>)"
proof -
  have "stock_inv (sample_stock\<lparr>iv_now := 86400 * 91\<rparr>)"
    by (rule stock_step_inv [OF _ sample_stock_inv], rule step_other) (simp_all add: sample_stock_def)
  moreover have "dead_set (sample_stock\<lparr>iv_now := 86400 * 91\<rparr>) ''n'' 90 =
      [dead_row_of (sample_stock\<lparr>iv_now := 86400 * 91\<rparr>) (''n'', ''cable'', ''l1'') sample_item]"
    by (simp add: dead_set_def is_dead_def ledger_of_def sample_stock_def sample_item_def)
  moreover have "as_dead_stock_days (if JNull = JNull then DEAD_STOCK_DAYS else JNull) = Inr 90"
    by (simp add: as_dead_stock_days_def DEAD_STOCK_DAYS_def)
  note reconcile_correct [OF sample_args(1) this, of "sample_stock\<lparr>iv_now := 86400 * 91\<rparr>", THEN conjunct2, THEN conjunct2]
  ultimately show ?thesis by (simp only: list.size add_0 One_nat_def simp_thms)
qed

end
