(* ===== verification/StockReturns.thy ===== *)
theory StockReturns
  imports Inventory
begin

text \<open>
  Returned goods (\<open>rma.py\<close>): recording a return with its state of electronic-waste (WEEE) compliance, and the two legs
  that settle it, restocking and disposal. Each leg claims the pending return, moves the stock of its row,
  appends the ledger row and refreshes the graph, in one transaction.
\<close>

section \<open>Recording a return\<close>

definition VALID_WEEE_STATES :: "string list" where
  "VALID_WEEE_STATES = [''not_applicable'', ''pending'', ''awaiting_collection'', ''disposed'']"

definition rma_required_text :: "string option \<Rightarrow> inv_error + string" where
  "rma_required_text raw = (let t = strip (case raw of None \<Rightarrow> [] | Some s \<Rightarrow> s) in
     if t = [] then Inl (InvValueError ''required'') else Inr t)"

definition rma_optional_text :: "string option \<Rightarrow> string option" where
  "rma_optional_text raw = (case raw of None \<Rightarrow> None | Some s \<Rightarrow> let t = strip s in if t = [] then None else Some t)"

definition assert_weee_state :: "string \<Rightarrow> inv_error + unit" where
  "assert_weee_state s = (if s \<in> set VALID_WEEE_STATES then Inr () else Inl (InvValueError ''weee_state''))"

definition assert_disposal_ref_present_when_disposed :: "string \<Rightarrow> string option \<Rightarrow> inv_error + unit" where
  "assert_disposal_ref_present_when_disposed s ref =
     (if s = ''disposed'' \<and> (ref = None \<or> ref = Some []) then Inl (InvValueError ''requires a disposal_ref'') else Inr ())"

definition rma_quantity :: "json \<Rightarrow> inv_error + int" where
  "rma_quantity v = and_then (as_decimal v) (\<lambda>x. and_then (quantise 3 x) (\<lambda>q.
     if q \<le> 0 then Inl (InvValueError ''qty must be > 0'') else Inr q))"

definition inventory_rma_label :: "string \<Rightarrow> string" where
  "inventory_rma_label ref = ''InventoryRma:'' @ ref"

definition upsert_rma_node :: "string \<Rightarrow> string \<Rightarrow> inv_db \<Rightarrow> inv_error + inv_db" where
  "upsert_rma_node ns ref db = upsert_kg_node ns (inventory_rma_label ref) ''INVENTORY_RMA'' db"

text \<open>The arguments of \<open>do_record_rma\<close>, as the caller gives them.\<close>

record rma_args =
  ra_ref :: "string option"
  ra_sku :: "string option"
  ra_location :: "string option"
  ra_qty :: json
  ra_reason :: "string option"
  ra_serial :: "string option"
  ra_weee :: "string option"
  ra_disposal :: "string option"

text \<open>The statement that inserts a return unless its reference is already recorded.\<close>

definition insert_rma :: "string \<Rightarrow> string \<Rightarrow> rma_row \<Rightarrow> inv_db \<Rightarrow> inv_error + (inv_db \<times> bool \<times> rma_row)" where
  "insert_rma ns ref row db =
     (if \<not> fits_column (rma_qty row) then Inl NumericOverflow
      else case dict_get (iv_rmas db) (ns, ref) of
        Some old \<Rightarrow> Inr (db, False, old)
      | None \<Rightarrow>
          if (ns, rma_location row) \<notin> set (iv_locations db) then Inl ForeignKeyViolation
          else Inr (db\<lparr>iv_rmas := dict_set (ns, ref) row (iv_rmas db)\<rparr>, True, row))"

definition do_record_rma ::
  "(string \<Rightarrow> string option) \<Rightarrow> string option \<Rightarrow> rma_args \<Rightarrow> inv_db \<Rightarrow> inv_error + (inv_db \<times> bool \<times> rma_row)" where
  "do_record_rma uuid ns_raw a db =
     and_then (as_uuid uuid ns_raw) (\<lambda>ns. and_then (rma_required_text (ra_ref a)) (\<lambda>ref.
     and_then (as_sku (ra_sku a)) (\<lambda>sku. and_then (as_uuid uuid (ra_location a)) (\<lambda>loc.
     and_then (rma_quantity (ra_qty a)) (\<lambda>qty. and_then (rma_required_text (ra_reason a)) (\<lambda>reason.
     (let serial = rma_optional_text (ra_serial a);
          weee = strip (case ra_weee a of None \<Rightarrow> ''not_applicable'' | Some s \<Rightarrow> if s = [] then ''not_applicable'' else s);
          disposal = rma_optional_text (ra_disposal a) in
      and_then (assert_weee_state weee) (\<lambda>_.
      and_then (assert_disposal_ref_present_when_disposed weee disposal) (\<lambda>_.
      and_then (insert_rma ns ref \<lparr>rma_sku = sku, rma_serial = serial, rma_location = loc, rma_qty = qty, rma_reason = reason,
          rma_weee = weee, rma_disposal_ref = disposal, rma_movement = ''pending''\<rparr> db) (\<lambda>(db1, created, row).
      and_then (upsert_rma_node ns ref db1) (\<lambda>db2. Inr (db2, created, row))))))))))))"

section \<open>Settling a return\<close>

definition claim_rma :: "string \<Rightarrow> string \<Rightarrow> string \<Rightarrow> string option \<Rightarrow> inv_db \<Rightarrow> inv_error + (inv_db \<times> rma_row)" where
  "claim_rma ns ref target disposal db = (case dict_get (iv_rmas db) (ns, ref) of
      None \<Rightarrow> Inl (RmaNotFoundError ref)
    | Some row \<Rightarrow>
        if target = ''disposed'' then
          (if rma_movement row = ''pending'' \<and> rma_weee row \<noteq> ''not_applicable'' then
             (let row' = row\<lparr>rma_movement := target, rma_weee := ''disposed'', rma_disposal_ref := disposal\<rparr> in
              Inr (db\<lparr>iv_rmas := dict_set (ns, ref) row' (iv_rmas db)\<rparr>, row'))
           else if rma_weee row = ''not_applicable'' then Inl (RmaNotWeeeScopeError ref)
           else Inl (RmaAlreadySettledError ref (rma_movement row)))
        else
          (if rma_movement row = ''pending'' then
             (let row' = row\<lparr>rma_movement := target\<rparr> in
              Inr (db\<lparr>iv_rmas := dict_set (ns, ref) row' (iv_rmas db)\<rparr>, row'))
           else Inl (RmaAlreadySettledError ref (rma_movement row))))"

definition rma_ledger_ref :: "string \<Rightarrow> string option" where
  "rma_ledger_ref ref = Some (''rma:'' @ ref)"

text \<open>The transaction of a leg, after its arguments are validated; \<open>inward\<close> is \<open>sign > 0\<close>.\<close>

definition settle_rma :: "string \<Rightarrow> string \<Rightarrow> string \<Rightarrow> bool \<Rightarrow> string option \<Rightarrow> inv_db \<Rightarrow> inv_error + (inv_db \<times> rma_row \<times> int)" where
  "settle_rma ns ref target inward disposal db =
     and_then (claim_rma ns ref target disposal db) (\<lambda>(db1, row).
     and_then (if inward then move_in (ns, rma_sku row, rma_location row) (rma_qty row) ''adjustment'' (rma_ledger_ref ref) None db1
               else move_out (ns, rma_sku row, rma_location row) (rma_qty row) ''adjustment'' (rma_ledger_ref ref) db1) (\<lambda>(db2, on_hand).
     and_then (mirror_item_at_location (ns, rma_sku row, rma_location row) db2) (\<lambda>db3.
     Inr (db3, row, on_hand))))"

definition run_rma_leg ::
  "(string \<Rightarrow> string option) \<Rightarrow> string option \<Rightarrow> string option \<Rightarrow> string \<Rightarrow> bool \<Rightarrow> string option \<Rightarrow> inv_db \<Rightarrow>
     inv_error + (inv_db \<times> rma_row \<times> int)" where
  "run_rma_leg uuid ns_raw ref_raw target inward disposal db =
     and_then (as_uuid uuid ns_raw) (\<lambda>ns. and_then (rma_required_text ref_raw) (\<lambda>ref.
       settle_rma ns ref target inward disposal db))"

definition do_restock_from_rma ::
  "(string \<Rightarrow> string option) \<Rightarrow> string option \<Rightarrow> string option \<Rightarrow> inv_db \<Rightarrow> inv_error + (inv_db \<times> rma_row \<times> int)" where
  "do_restock_from_rma uuid ns_raw ref_raw db = run_rma_leg uuid ns_raw ref_raw ''restocked'' True None db"

definition do_dispose_rma_weee ::
  "(string \<Rightarrow> string option) \<Rightarrow> string option \<Rightarrow> string option \<Rightarrow> string option \<Rightarrow> inv_db \<Rightarrow> inv_error + (inv_db \<times> rma_row \<times> int)" where
  "do_dispose_rma_weee uuid ns_raw ref_raw disposal_raw db =
     (let disposal = rma_optional_text disposal_raw in
      and_then (assert_disposal_ref_present_when_disposed ''disposed'' disposal) (\<lambda>_.
        run_rma_leg uuid ns_raw ref_raw ''disposed'' False disposal db))"

section \<open>Returns keep the stock invariant\<close>

text \<open>Every recorded return has a positive quantity, a known state, and a disposal reference when it is disposed of.\<close>

definition rma_row_ok :: "rma_row \<Rightarrow> bool" where
  "rma_row_ok row \<longleftrightarrow> 0 < rma_qty row \<and> rma_weee row \<in> set VALID_WEEE_STATES \<and>
     rma_movement row \<in> set [''pending'', ''restocked'', ''disposed''] \<and>
     (rma_weee row = ''disposed'' \<longrightarrow> rma_disposal_ref row \<noteq> None) \<and>
     (rma_movement row = ''disposed'' \<longrightarrow> rma_weee row = ''disposed'')"

definition rma_inv :: "inv_db \<Rightarrow> bool" where
  "rma_inv db \<longleftrightarrow> (\<forall>row \<in> ran (dict_get (iv_rmas db)). rma_row_ok row)"

lemma rma_inv_get: "rma_inv db \<Longrightarrow> dict_get (iv_rmas db) k = Some row \<Longrightarrow> rma_row_ok row"
  by (auto simp: rma_inv_def intro: ranI)

lemma rma_inv_set:
  "rma_inv db \<Longrightarrow> rma_row_ok row \<Longrightarrow> iv_rmas db' = dict_set k row (iv_rmas db) \<Longrightarrow> rma_inv db'"
  by (auto simp: rma_inv_def ran_def split: if_splits)

lemma claim_rma_Inr:
  assumes "claim_rma ns ref target disposal db = Inr (db', row)"
  obtains old where "dict_get (iv_rmas db) (ns, ref) = Some old" "rma_movement old = ''pending''" "rma_movement row = target"
    "target = ''disposed'' \<Longrightarrow> rma_weee old \<noteq> ''not_applicable'' \<and> rma_weee row = ''disposed'' \<and> rma_disposal_ref row = disposal"
    "target \<noteq> ''disposed'' \<Longrightarrow> rma_weee row = rma_weee old \<and> rma_disposal_ref row = rma_disposal_ref old"
    "rma_sku row = rma_sku old" "rma_location row = rma_location old" "rma_qty row = rma_qty old"
    "db' = db\<lparr>iv_rmas := dict_set (ns, ref) row (iv_rmas db)\<rparr>"
  using assms by (cases "dict_get (iv_rmas db) (ns, ref)") (auto simp: claim_rma_def Let_def split: if_splits)

lemma claim_rma_step: "claim_rma ns ref target disposal db = Inr (db', row) \<Longrightarrow> stock_step db db'"
  by (erule claim_rma_Inr) (auto intro: step_other)

lemma settle_rma_Inr:
  assumes "settle_rma ns ref target inward disposal db = Inr (db', row, n)"
  obtains db1 db2 where "claim_rma ns ref target disposal db = Inr (db1, row)"
    "(if inward then move_in (ns, rma_sku row, rma_location row) (rma_qty row) ''adjustment'' (rma_ledger_ref ref) None db1
      else move_out (ns, rma_sku row, rma_location row) (rma_qty row) ''adjustment'' (rma_ledger_ref ref) db1) = Inr (db2, n)"
    "mirror_item_at_location (ns, rma_sku row, rma_location row) db2 = Inr db'"
  using assms by (auto simp: settle_rma_def and_then_eq_Inr)

lemma settle_rma_steps:
  assumes "rma_inv db" and "settle_rma ns ref target inward disposal db = Inr (db', row, n)"
  shows "stock_step\<^sup>*\<^sup>* db db'"
proof -
  obtain db1 db2 where s: "claim_rma ns ref target disposal db = Inr (db1, row)"
    "(if inward then move_in (ns, rma_sku row, rma_location row) (rma_qty row) ''adjustment'' (rma_ledger_ref ref) None db1
      else move_out (ns, rma_sku row, rma_location row) (rma_qty row) ''adjustment'' (rma_ledger_ref ref) db1) = Inr (db2, n)"
    "mirror_item_at_location (ns, rma_sku row, rma_location row) db2 = Inr db'"
    using assms(2) by (rule settle_rma_Inr)
  from s(1) have "0 \<le> rma_qty row"
    by (rule claim_rma_Inr) (use rma_inv_get [OF assms(1)] in \<open>force simp: rma_row_ok_def\<close>)
  then have "stock_step db1 db2"
    using s(2) by (auto split: if_splits intro: step_move move_in_moved move_out_moved)
  with claim_rma_step [OF s(1)] mirror_step [OF s(3)] show ?thesis
    by (blast intro: converse_rtranclp_into_rtranclp)
qed

lemma mirror_rmas: "mirror_item_at_location key db = Inr db' \<Longrightarrow> iv_rmas db' = iv_rmas db"
  by (auto simp: mirror_item_at_location_def and_then_eq_Inr upsert_kg_node_fields split: prod.splits)

lemma post_movement_rmas [simp]: "iv_rmas (post_movement key r db) = iv_rmas db" "iv_receipts (post_movement key r db) = iv_receipts db"
  by (simp_all add: post_movement_def)

lemma settle_rma_rmas:
  assumes "settle_rma ns ref target inward disposal db = Inr (db', row, n)"
  shows "iv_rmas db' = dict_set (ns, ref) row (iv_rmas db)"
  using assms
proof (rule settle_rma_Inr)
  fix db1 db2
  assume s: "claim_rma ns ref target disposal db = Inr (db1, row)"
    "(if inward then move_in (ns, rma_sku row, rma_location row) (rma_qty row) ''adjustment'' (rma_ledger_ref ref) None db1
      else move_out (ns, rma_sku row, rma_location row) (rma_qty row) ''adjustment'' (rma_ledger_ref ref) db1) = Inr (db2, n)"
    "mirror_item_at_location (ns, rma_sku row, rma_location row) db2 = Inr db'"
  have "iv_rmas db2 = iv_rmas db1" using s(2) by (auto simp: move_in_Inr move_out_Inr split: if_splits)
  moreover have "iv_rmas db1 = dict_set (ns, ref) row (iv_rmas db)" using s(1) by (rule claim_rma_Inr) simp
  ultimately show ?thesis using mirror_rmas [OF s(3)] by simp
qed

interpretation record_rma_op: stock_operation "do_record_rma uuid ns_raw a" for uuid ns_raw a
proof unfold_locales
  fix db db' x
  assume "do_record_rma uuid ns_raw a db = Inr (db', x)"
  then obtain ns ref row db1 y where "insert_rma ns ref row db = Inr (db1, y)" and n: "upsert_rma_node ns ref db1 = Inr db'"
    by (auto simp: do_record_rma_def and_then_eq_Inr Let_def)
  then have "iv_items db1 = iv_items db" "iv_ledger db1 = iv_ledger db" "iv_now db1 = iv_now db"
    by (auto simp: insert_rma_def split: if_splits option.splits)
  with n show "stock_step\<^sup>*\<^sup>* db db'"
    by (auto intro!: r_into_rtranclp step_other simp: upsert_rma_node_def upsert_kg_node_fields)
qed

interpretation restock_op: guarded_stock_operation rma_inv "do_restock_from_rma uuid ns_raw ref_raw" for uuid ns_raw ref_raw
  by unfold_locales (auto simp: do_restock_from_rma_def run_rma_leg_def and_then_eq_Inr intro: settle_rma_steps)

interpretation dispose_op: guarded_stock_operation rma_inv "do_dispose_rma_weee uuid ns_raw ref_raw disposal_raw"
  for uuid ns_raw ref_raw disposal_raw
  by unfold_locales (auto simp: do_dispose_rma_weee_def run_rma_leg_def and_then_eq_Inr Let_def intro: settle_rma_steps)

section \<open>A return is settled once\<close>

lemma settle_rma_row_ok:
  assumes inv: "rma_inv db" and run: "settle_rma ns ref target inward disposal db = Inr (db', row, n)"
    and target: "target = ''restocked'' \<or> target = ''disposed'' \<and> disposal \<noteq> None"
  shows "rma_row_ok row"
  using run
proof (rule settle_rma_Inr)
  fix db1
  assume "claim_rma ns ref target disposal db = Inr (db1, row)"
  then show ?thesis
    by (rule claim_rma_Inr)
       (use rma_inv_get [OF inv, of "(ns, ref)"] target in \<open>auto simp: rma_row_ok_def VALID_WEEE_STATES_def\<close>)
qed

lemma settle_rma_stock:
  assumes "settle_rma ns ref target inward disposal db = Inr (db', row, n)"
  shows "stock_row db' = (stock_row db)((ns, rma_sku row, rma_location row) :=
      (stock_row db (ns, rma_sku row, rma_location row))\<lparr>qty_on_hand := n\<rparr>)"
    and "n = qty_on_hand (stock_row db (ns, rma_sku row, rma_location row)) + (if inward then rma_qty row else - rma_qty row)"
    and "iv_ledger db' = iv_ledger db @ [ledger_entry (ns, rma_sku row, rma_location row)
      (if inward then rma_qty row else - rma_qty row) ''adjustment'' None (rma_ledger_ref ref) (iv_now db)]"
proof -
  let ?k = "(ns, rma_sku row, rma_location row)"
  let ?e = "ledger_entry ?k (if inward then rma_qty row else - rma_qty row) ''adjustment'' None (rma_ledger_ref ref) (iv_now db)"
  obtain db1 db2 where s: "claim_rma ns ref target disposal db = Inr (db1, row)"
    "(if inward then move_in ?k (rma_qty row) ''adjustment'' (rma_ledger_ref ref) None db1
      else move_out ?k (rma_qty row) ''adjustment'' (rma_ledger_ref ref) db1) = Inr (db2, n)"
    "mirror_item_at_location ?k db2 = Inr db'"
    using assms by (rule settle_rma_Inr)
  from s(1) have f: "iv_items db1 = iv_items db" "iv_ledger db1 = iv_ledger db" "iv_now db1 = iv_now db"
    by (rule claim_rma_Inr, simp)+
  have sr: "stock_row db1 = stock_row db" using f(1,3) by (rule stock_row_cong)
  have sr': "stock_row db' = stock_row db2" by (rule stock_row_cong) (simp_all add: mirror_fields [OF s(3)])
  have db2: "db2 = post_movement ?k ?e db1" "n = qty_on_hand (stock_row db ?k) + (if inward then rma_qty row else - rma_qty row)"
    using s(2) f sr by (auto simp: move_in_Inr move_out_Inr split: if_splits)
  show "stock_row db' = (stock_row db)(?k := (stock_row db ?k)\<lparr>qty_on_hand := n\<rparr>)"
    by (simp add: sr' db2 sr fun_eq_iff)
  show "n = qty_on_hand (stock_row db ?k) + (if inward then rma_qty row else - rma_qty row)" by (fact db2(2))
  show "iv_ledger db' = iv_ledger db @ [?e]" using mirror_fields [OF s(3)] db2 f by simp
qed

text \<open>Settling a return moves its stock exactly once. A leg succeeds only on a pending return, changes the stock
  row of that return by its recorded quantity, in for a restock and out for a disposal, with one ledger row of the
  same quantity, and touches no other row; afterwards every further leg, of either kind, is refused for as long as
  the row of the return stays as the leg left it. A disposal is only ever recorded with its documentation reference.
\<close>

theorem rma_settled_once:
  assumes "as_uuid uuid ns_raw = Inr ns" and "rma_required_text ref_raw = Inr ref" and "rma_inv db"
    and "do_restock_from_rma uuid ns_raw ref_raw db = Inr (db', row, n) \<and> d = rma_qty row \<or>
      do_dispose_rma_weee uuid ns_raw ref_raw disposal_raw db = Inr (db', row, n) \<and> d = - rma_qty row"
  shows "(\<exists>old. dict_get (iv_rmas db) (ns, ref) = Some old \<and> rma_movement old = ''pending'' \<and> rma_qty old = rma_qty row) \<and>
    stock_row db' = (stock_row db)((ns, rma_sku row, rma_location row) :=
      (stock_row db (ns, rma_sku row, rma_location row))\<lparr>qty_on_hand := qty_on_hand (stock_row db (ns, rma_sku row, rma_location row)) + d\<rparr>) \<and>
    map lr_delta (iv_ledger db') = map lr_delta (iv_ledger db) @ [d] \<and>
    rma_inv db' \<and> dict_get (iv_rmas db') (ns, ref) = Some row \<and>
    (\<forall>later. dict_get (iv_rmas later) (ns, ref) = Some row \<longrightarrow>
      (\<exists>e. do_restock_from_rma uuid ns_raw ref_raw later = Inl e) \<and>
      (\<forall>w. \<exists>e. do_dispose_rma_weee uuid ns_raw ref_raw w later = Inl e))"
proof -
  obtain target inward disposal where run: "settle_rma ns ref target inward disposal db = Inr (db', row, n)"
    and target: "target = ''restocked'' \<or> target = ''disposed'' \<and> disposal \<noteq> None"
    and d: "d = (if inward then rma_qty row else - rma_qty row)"
    using assms
    by (fastforce simp: do_restock_from_rma_def do_dispose_rma_weee_def run_rma_leg_def and_then_eq_Inr Let_def
        assert_disposal_ref_present_when_disposed_def split: if_splits)
  have rows: "iv_rmas db' = dict_set (ns, ref) row (iv_rmas db)" using run by (rule settle_rma_rmas)
  have inv': "rma_inv db'" using assms(3) settle_rma_row_ok [OF assms(3) run target] rows by (rule rma_inv_set)
  obtain db1 where claim: "claim_rma ns ref target disposal db = Inr (db1, row)" using run by (rule settle_rma_Inr)
  from claim have old: "\<exists>old. dict_get (iv_rmas db) (ns, ref) = Some old \<and> rma_movement old = ''pending'' \<and> rma_qty old = rma_qty row"
    by (rule claim_rma_Inr) simp
  from claim have settled: "rma_movement row = target"
    by (rule claim_rma_Inr) simp
  have refused: "\<exists>e. claim_rma ns ref t w later = Inl e" if "dict_get (iv_rmas later) (ns, ref) = Some row" for later t w
    using that settled target by (auto simp: claim_rma_def)
  have "(\<exists>e. do_restock_from_rma uuid ns_raw ref_raw later = Inl e) \<and>
      (\<forall>w. \<exists>e. do_dispose_rma_weee uuid ns_raw ref_raw w later = Inl e)"
    if "dict_get (iv_rmas later) (ns, ref) = Some row" for later
  proof -
    have "\<exists>e. settle_rma ns ref t b w later = Inl e" for t b w
      using refused [OF that, of t w] by (auto simp: settle_rma_def)
    then show ?thesis
      using assms(1,2)
      by (auto simp: do_restock_from_rma_def do_dispose_rma_weee_def run_rma_leg_def Let_def
          assert_disposal_ref_present_when_disposed_def)
  qed
  with old rows inv' settle_rma_stock [OF run] d show ?thesis by simp
qed

definition sample_return :: rma_row where
  "sample_return = \<lparr>rma_sku = ''cable'', rma_serial = None, rma_location = ''l1'', rma_qty = 1000, rma_reason = ''broken'',
     rma_weee = ''pending'', rma_disposal_ref = None, rma_movement = ''pending''\<rparr>"

definition sample_returns :: inv_db where
  "sample_returns = sample_stock\<lparr>iv_rmas := [((''n'', ''R1''), sample_return)]\<rparr>"

lemma sample_ref [simp]: "rma_required_text (Some ''R1'') = Inr ''R1''"
  by code_simp

lemma sample_dispose:
  "\<exists>db'. do_dispose_rma_weee Some (Some ''n'') (Some ''R1'') (Some ''DOC-7'') sample_returns =
     Inr (db', sample_return\<lparr>rma_movement := ''disposed'', rma_weee := ''disposed'', rma_disposal_ref := Some ''DOC-7''\<rparr>, 4000)"
proof -
  let ?row = "sample_return\<lparr>rma_movement := ''disposed'', rma_weee := ''disposed'', rma_disposal_ref := Some ''DOC-7''\<rparr>"
  let ?db1 = "sample_returns\<lparr>iv_rmas := [((''n'', ''R1''), ?row)]\<rparr>" and ?k = "(''n'', ''cable'', ''l1'')"
  have ref: "rma_optional_text (Some ''DOC-7'') = Some ''DOC-7''" by code_simp
  have claim: "claim_rma ''n'' ''R1'' ''disposed'' (Some ''DOC-7'') sample_returns = Inr (?db1, ?row)"
    by (simp add: claim_rma_def sample_returns_def sample_return_def Let_def)
  let ?e = "ledger_entry ?k (- 1000) ''adjustment'' None (rma_ledger_ref ''R1'') (iv_now ?db1)"
  have out: "move_out ?k 1000 ''adjustment'' (rma_ledger_ref ''R1'') ?db1 = Inr (post_movement ?k ?e ?db1, 4000)"
    by (simp add: move_out_Inr ledger_accepts_def VALID_REASON_CATEGORIES_def assert_sign_matches_category_def REASONS_IN_def
        REASONS_OUT_def fits_column_def stock_row_def sample_returns_def sample_stock_def sample_item_def)
  obtain db' where "mirror_item_at_location ?k (post_movement ?k ?e ?db1) = Inr db'"
    using mirror_ex [of "post_movement ?k ?e ?db1" "''n''"]
    by (auto simp: owns_stock_nodes_def sample_returns_def sample_stock_def)
  with claim out ref show ?thesis
    by (simp add: do_dispose_rma_weee_def run_rma_leg_def settle_rma_def assert_disposal_ref_present_when_disposed_def sample_return_def)
qed

theorem rma_settled_once_witness:
  "\<exists>db' row. do_dispose_rma_weee Some (Some ''n'') (Some ''R1'') (Some ''DOC-7'') sample_returns = Inr (db', row, 4000) \<and>
     (\<exists>e. do_restock_from_rma Some (Some ''n'') (Some ''R1'') db' = Inl e)"
proof -
  obtain db' row where run: "do_dispose_rma_weee Some (Some ''n'') (Some ''R1'') (Some ''DOC-7'') sample_returns = Inr (db', row, 4000)"
    using sample_dispose by blast
  have inv: "rma_inv sample_returns"
    by (auto simp: rma_inv_def ran_def sample_returns_def sample_return_def rma_row_ok_def VALID_WEEE_STATES_def split: if_splits)
  from rma_settled_once [OF sample_args(1) sample_ref inv, of db' row 4000 "- rma_qty row" "Some ''DOC-7''"] run show ?thesis
    by blast
qed

text \<open>
  A return recorded as already disposed of, with its documentation reference, can still be restocked: the
  guard of the restock leg looks at the movement state alone, so the row ends as disposed of and restocked at once.
\<close>

lemma disposed_return_restocked:
  assumes "dict_get (iv_rmas db) (ns, ref) = Some row" and "rma_movement row = ''pending''" and "rma_weee row = ''disposed''"
    and "0 < rma_qty row" and "fits_column (rma_qty row)" and "(ns, rma_location row) \<in> set (iv_locations db)"
    and "fits_column (qty_on_hand (stock_row db (ns, rma_sku row, rma_location row)) + rma_qty row)" and "owns_stock_nodes db ns"
  shows "\<exists>db' n. settle_rma ns ref ''restocked'' True None db = Inr (db', row\<lparr>rma_movement := ''restocked''\<rparr>, n)"
proof -
  let ?row = "row\<lparr>rma_movement := ''restocked''\<rparr>" and ?k = "(ns, rma_sku row, rma_location row)"
  let ?db1 = "db\<lparr>iv_rmas := dict_set (ns, ref) ?row (iv_rmas db)\<rparr>"
  let ?e = "ledger_entry ?k (rma_qty row) ''adjustment'' None (rma_ledger_ref ref) (iv_now ?db1)"
  have claim: "claim_rma ns ref ''restocked'' None db = Inr (?db1, ?row)" using assms by (simp add: claim_rma_def Let_def)
  have sr: "stock_row ?db1 = stock_row db" by (rule stock_row_cong) simp_all
  have "ledger_accepts ?k (rma_qty row) ''adjustment'' ?db1"
    using assms by (auto simp: ledger_accepts_def VALID_REASON_CATEGORIES_def assert_sign_matches_category_def REASONS_IN_def REASONS_OUT_def)
  then have inn: "move_in ?k (rma_qty row) ''adjustment'' (rma_ledger_ref ref) None ?db1 =
      Inr (post_movement ?k ?e ?db1, qty_on_hand (stock_row db ?k) + rma_qty row)"
    using assms sr by (simp add: move_in_Inr)
  obtain db' where "mirror_item_at_location ?k (post_movement ?k ?e ?db1) = Inr db'"
    using mirror_ex [of "post_movement ?k ?e ?db1" ns] assms(8) by (auto simp: owns_stock_nodes_def)
  with claim inn show ?thesis by (simp add: settle_rma_def)
qed

lemma record_rma_keeps_rma_inv:
  assumes "rma_inv db" and "do_record_rma uuid ns_raw a db = Inr (db', created, row)"
  shows "rma_inv db'"
proof -
  obtain ns ref new db1 where i: "insert_rma ns ref new db = Inr (db1, created, row)" and n: "upsert_rma_node ns ref db1 = Inr db'"
    and new: "rma_row_ok new"
    using assms(2)
    by (auto simp: do_record_rma_def and_then_eq_Inr Let_def rma_row_ok_def rma_quantity_def assert_weee_state_def
        assert_disposal_ref_present_when_disposed_def split: if_splits)
  have "rma_inv db1"
    using i assms(1) new by (auto simp: insert_rma_def split: if_splits option.splits intro: rma_inv_set)
  then show ?thesis using n by (auto simp: upsert_rma_node_def rma_inv_def upsert_kg_node_fields)
qed

end
