(* ===== verification/Kitting.thy ===== *)
theory Kitting
  imports Inventory
begin

text \<open>
  Reserving a kit (\<open>kitting.py\<close>): the confirmed lines of a project are expanded into reservation targets and
  reserved one after the other, each in a transaction of its own; when one finds too little available stock the
  reservations made before it are released again. The quantity of a target is a number of millionths, the product of
  two quantities in thousandths; \<open>repr_of\<close> renders the values whose text Python's \<open>str\<close> builds from \<open>repr\<close>.
\<close>

section \<open>Expansion\<close>

record kit_target =
  kt_sku :: string
  kt_qty :: int
  kt_type :: string
  kt_parent :: "string option"
  kt_decomposed :: bool

definition text_arg :: "(json \<Rightarrow> string) \<Rightarrow> json \<Rightarrow> string option" where
  "text_arg repr_of v = (if truthy v then Some (py_str repr_of v) else None)"

definition item_get :: "(string \<times> json) list \<Rightarrow> string \<Rightarrow> json" where
  "item_get d k = dict_getd d k JNull"

definition is_package :: "(string \<times> json) list \<Rightarrow> bool" where
  "is_package d \<longleftrightarrow> truthy (dict_getd d ''is_package'' (JBool False)) \<or> item_get d ''type'' = JStr ''package'' \<or>
     item_get d ''item_type'' = JStr ''package''"

definition is_kit :: "(string \<times> json) list \<Rightarrow> bool" where
  "is_kit d \<longleftrightarrow> truthy (dict_getd d ''is_kit'' (JBool False)) \<or> item_get d ''type'' = JStr ''kit'' \<or>
     item_get d ''item_type'' = JStr ''kit'' \<or> dict_get d ''components'' \<noteq> None \<or> dict_get d ''accessories'' \<noteq> None"

definition raw_components :: "(string \<times> json) list \<Rightarrow> json" where
  "raw_components d = (if truthy (item_get d ''components'') then item_get d ''components''
     else if truthy (item_get d ''accessories'') then item_get d ''accessories'' else JList [])"

fun expand_components ::
  "(json \<Rightarrow> string) \<Rightarrow> string \<Rightarrow> int \<Rightarrow> json list \<Rightarrow> inv_error + kit_target list" where
  "expand_components repr_of sku qty [] = Inr []"
| "expand_components repr_of sku qty (c # cs) = (case c of
      JDict d \<Rightarrow>
        and_then (as_sku (text_arg repr_of (if truthy (item_get d ''sku'') then item_get d ''sku'' else item_get d ''component_sku''))) (\<lambda>comp_sku.
        and_then (as_quantity (dict_getd d ''qty'' (JInt 1))) (\<lambda>ratio.
        and_then (expand_components repr_of sku qty cs) (\<lambda>ts.
          Inr (\<lparr>kt_sku = comp_sku, kt_qty = qty * ratio, kt_type = ''kit_component'', kt_parent = Some sku, kt_decomposed = True\<rparr> # ts))))
    | _ \<Rightarrow> Inl (InvValueError ''expected object''))"

definition expand_item :: "(json \<Rightarrow> string) \<Rightarrow> json \<Rightarrow> inv_error + kit_target list" where
  "expand_item repr_of raw = (case raw of
      JDict d \<Rightarrow>
        if truthy (item_get d ''expand_live_accessories'') \<or> truthy (item_get d ''query_live_edges'')
        then Inl (InvValueError ''live accessory_of edges cannot be expanded'')
        else and_then (as_sku (text_arg repr_of (item_get d ''sku''))) (\<lambda>sku.
          and_then (as_quantity (dict_getd d ''qty'' (JInt 1))) (\<lambda>qty.
          if is_package d then
            Inr [\<lparr>kt_sku = sku, kt_qty = qty * 1000, kt_type = ''package'', kt_parent = None, kt_decomposed = False\<rparr>]
          else if is_kit d then
            (case raw_components d of
               JList cs \<Rightarrow> and_then (expand_components repr_of sku qty cs) (\<lambda>ts.
                 Inr ((if truthy (dict_getd d ''include_parent'' (JBool True))
                       then [\<lparr>kt_sku = sku, kt_qty = qty * 1000, kt_type = ''kit_base'', kt_parent = Some sku, kt_decomposed = True\<rparr>]
                       else []) @ ts))
             | _ \<Rightarrow> Inl (InvValueError ''expected list''))
          else Inr [\<lparr>kt_sku = sku, kt_qty = qty * 1000, kt_type = ''standard'', kt_parent = None, kt_decomposed = False\<rparr>]))
    | _ \<Rightarrow> Inl (InvValueError ''expected object''))"

fun expand_kit_targets :: "(json \<Rightarrow> string) \<Rightarrow> json list \<Rightarrow> inv_error + kit_target list" where
  "expand_kit_targets repr_of [] = Inr []"
| "expand_kit_targets repr_of (i # is) =
     and_then (expand_item repr_of i) (\<lambda>ts. and_then (expand_kit_targets repr_of is) (\<lambda>us. Inr (ts @ us)))"

section \<open>Reserving and releasing\<close>

definition target_qty :: "kit_target \<Rightarrow> json" where
  "target_qty t = JFloat (Fin (of_int (kt_qty t) / 1000000))"

definition reserve_target ::
  "(string \<Rightarrow> string option) \<Rightarrow> string \<Rightarrow> string \<Rightarrow> string \<Rightarrow> kit_target \<Rightarrow> inv_db \<Rightarrow> inv_error + (inv_db \<times> stock_fields)" where
  "reserve_target uuid ns loc project t db =
     do_reserve_stock uuid (Some ns) (Some (kt_sku t)) (target_qty t) (Some loc) (Some project) db"

definition release_target ::
  "(string \<Rightarrow> string option) \<Rightarrow> string \<Rightarrow> string \<Rightarrow> string \<Rightarrow> kit_target \<Rightarrow> inv_db \<Rightarrow> inv_error + (inv_db \<times> stock_fields)" where
  "release_target uuid ns loc project t db =
     do_release_stock uuid (Some ns) (Some (kt_sku t)) (target_qty t) (Some loc) (Some project) db"

text \<open>The loop of \<open>do_reserve_kit\<close>: the committed database, the reservations made, and the error that stopped it.\<close>

fun reserve_targets ::
  "(string \<Rightarrow> string option) \<Rightarrow> string \<Rightarrow> string \<Rightarrow> string \<Rightarrow> kit_target list \<Rightarrow> (kit_target \<times> stock_fields) list \<Rightarrow> inv_db \<Rightarrow>
     inv_db \<times> (kit_target \<times> stock_fields) list \<times> inv_error option" where
  "reserve_targets uuid ns loc project [] completed db = (db, completed, None)"
| "reserve_targets uuid ns loc project (t # ts) completed db = (case reserve_target uuid ns loc project t db of
      Inl e \<Rightarrow> (db, completed, Some e)
    | Inr (db', s) \<Rightarrow> reserve_targets uuid ns loc project ts (completed @ [(t, s)]) db')"

fun release_all ::
  "(string \<Rightarrow> string option) \<Rightarrow> string \<Rightarrow> string \<Rightarrow> string \<Rightarrow> kit_target list \<Rightarrow> inv_db \<Rightarrow> inv_db" where
  "release_all uuid ns loc project [] db = db"
| "release_all uuid ns loc project (t # ts) db = release_all uuid ns loc project ts
     (case release_target uuid ns loc project t db of Inl _ \<Rightarrow> db | Inr (db', _) \<Rightarrow> db')"

record kit_summary =
  total_lines :: nat
  packages_reserved :: nat
  kit_components_reserved :: nat
  standard_items_reserved :: nat

definition summarise :: "kit_target list \<Rightarrow> kit_summary" where
  "summarise ts = \<lparr>total_lines = length ts,
     packages_reserved = length (filter (\<lambda>t. kt_type t = ''package'') ts),
     kit_components_reserved = length (filter (\<lambda>t. kt_type t \<in> set [''kit_component'', ''kit_base'']) ts),
     standard_items_reserved = length (filter (\<lambda>t. kt_type t \<notin> set [''package'', ''kit_component'', ''kit_base'']) ts)\<rparr>"

definition with_kit_args ::
  "(string \<Rightarrow> string option) \<Rightarrow> (json \<Rightarrow> string) \<Rightarrow> string option \<Rightarrow> string option \<Rightarrow> string option \<Rightarrow> json \<Rightarrow>
     inv_error + (string \<times> string \<times> string \<times> kit_target list)" where
  "with_kit_args uuid repr_of ns_raw loc_raw project_raw items_raw =
     and_then (as_uuid uuid ns_raw) (\<lambda>ns. and_then (as_uuid uuid loc_raw) (\<lambda>loc. and_then (as_project_label project_raw) (\<lambda>project.
       case items_raw of
         JList (i # is) \<Rightarrow> and_then (expand_kit_targets repr_of (i # is)) (\<lambda>ts. Inr (ns, loc, project, ts))
       | _ \<Rightarrow> Inl (InvValueError ''items must be a non-empty list''))))"

definition insufficient :: "inv_error \<Rightarrow> bool" where
  "insufficient e = (case e of InsufficientAvailableError _ _ _ \<Rightarrow> True | _ \<Rightarrow> False)"

definition do_reserve_kit ::
  "(string \<Rightarrow> string option) \<Rightarrow> (json \<Rightarrow> string) \<Rightarrow> string option \<Rightarrow> string option \<Rightarrow> string option \<Rightarrow> json \<Rightarrow> bool \<Rightarrow> inv_db \<Rightarrow>
     inv_db \<times> (inv_error + ((kit_target \<times> stock_fields) list \<times> kit_summary))" where
  "do_reserve_kit uuid repr_of ns_raw loc_raw project_raw items_raw all_or_nothing db =
     (case with_kit_args uuid repr_of ns_raw loc_raw project_raw items_raw of
        Inl e \<Rightarrow> (db, Inl e)
      | Inr (ns, loc, project, ts) \<Rightarrow>
          (case reserve_targets uuid ns loc project ts [] db of
             (db', completed, None) \<Rightarrow> (db', Inr (completed, summarise (map fst completed)))
           | (db', completed, Some e) \<Rightarrow>
               if insufficient e \<and> all_or_nothing
               then (release_all uuid ns loc project (rev (map fst completed)) db', Inl e)
               else (db', Inl e)))"

fun release_targets ::
  "(string \<Rightarrow> string option) \<Rightarrow> string \<Rightarrow> string \<Rightarrow> string \<Rightarrow> kit_target list \<Rightarrow> inv_db \<Rightarrow>
     inv_db \<times> (inv_error + (kit_target \<times> stock_fields) list)" where
  "release_targets uuid ns loc project [] db = (db, Inr [])"
| "release_targets uuid ns loc project (t # ts) db = (case release_target uuid ns loc project t db of
      Inl e \<Rightarrow> (db, Inl e)
    | Inr (db', s) \<Rightarrow> (case release_targets uuid ns loc project ts db' of
        (db'', Inl e) \<Rightarrow> (db'', Inl e) | (db'', Inr rs) \<Rightarrow> (db'', Inr ((t, s) # rs))))"

definition do_release_kit ::
  "(string \<Rightarrow> string option) \<Rightarrow> (json \<Rightarrow> string) \<Rightarrow> string option \<Rightarrow> string option \<Rightarrow> string option \<Rightarrow> json \<Rightarrow> inv_db \<Rightarrow>
     inv_db \<times> (inv_error + ((kit_target \<times> stock_fields) list \<times> kit_summary))" where
  "do_release_kit uuid repr_of ns_raw loc_raw project_raw items_raw db =
     (case with_kit_args uuid repr_of ns_raw loc_raw project_raw items_raw of
        Inl e \<Rightarrow> (db, Inl e)
      | Inr (ns, loc, project, ts) \<Rightarrow>
          (case release_targets uuid ns loc project ts db of
             (db', Inl e) \<Rightarrow> (db', Inl e) | (db', Inr rs) \<Rightarrow> (db', Inr (rs, summarise (map fst rs)))))"

section \<open>All or nothing\<close>

lemma release_all_append:
  "release_all uuid ns loc project (ts @ us) db = release_all uuid ns loc project us (release_all uuid ns loc project ts db)"
  by (induction ts arbitrary: db) simp_all

lemma reserve_target_Inr:
  assumes "reserve_target uuid ns loc project t db = Inr (db', s)"
  obtains k row q where "0 < q" "dict_get (iv_items db) k = Some row"
    "dict_get (iv_items db') = (dict_get (iv_items db))(k \<mapsto> row\<lparr>qty_reserved := qty_reserved row + q\<rparr>)"
    "iv_ledger db' = iv_ledger db" "qty_reserved row + qty_blocked row + q \<le> qty_on_hand row"
    "\<And>d r. dict_get (iv_items d) k = Some r \<Longrightarrow> q \<le> qty_reserved r \<Longrightarrow>
      \<exists>s'. release_target uuid ns loc project t d = Inr (d\<lparr>iv_items := dict_set k (r\<lparr>qty_reserved := qty_reserved r - q\<rparr>) (iv_items d)\<rparr>, s')"
proof -
  obtain ns' sku' q loc' p' where args: "as_uuid uuid (Some ns) = Inr ns'" "as_sku (Some (kt_sku t)) = Inr sku'"
    "as_quantity (target_qty t) = Inr q" "as_uuid uuid (Some loc) = Inr loc'" "as_project_label (Some project) = Inr p'"
    and run: "reserve_stock ns' sku' q loc' p' db = Inr (db', s)"
    using assms by (auto simp: reserve_target_def do_reserve_stock_def with_reservation_args_def and_then_eq_Inr)
  from run obtain row where row: "dict_get (iv_items db) (ns', sku', loc') = Some row"
    "dict_get (iv_items db') = (dict_get (iv_items db))((ns', sku', loc') \<mapsto> row\<lparr>qty_reserved := qty_reserved row + q\<rparr>)"
    "iv_ledger db' = iv_ledger db" "qty_reserved row + qty_blocked row + q \<le> qty_on_hand row"
    by (auto simp: reserve_stock_def Let_def split: option.splits if_splits)
  show thesis
  proof (rule that [OF as_quantity_pos [OF args(3)] row])
    fix d :: inv_db and r assume "dict_get (iv_items d) (ns', sku', loc') = Some r" "q \<le> qty_reserved r"
    then show "\<exists>s'. release_target uuid ns loc project t d =
      Inr (d\<lparr>iv_items := dict_set (ns', sku', loc') (r\<lparr>qty_reserved := qty_reserved r - q\<rparr>) (iv_items d)\<rparr>, s')"
      using args by (simp add: release_target_def do_release_stock_def with_reservation_args_def release_stock_def Let_def)
  qed
qed

lemma reserve_target_inv: "stock_inv db \<Longrightarrow> reserve_target uuid ns loc project t db = Inr (db', s) \<Longrightarrow> stock_inv db'"
  unfolding reserve_target_def by (rule reserve_op.run_inv)

lemma reserve_targets_undone:
  assumes "stock_inv db" and "reserve_targets uuid ns loc project ts completed db = (db', completed', err)"
  shows "\<exists>new. completed' = completed @ new \<and> iv_ledger db' = iv_ledger db \<and>
    (err = None \<longrightarrow> map fst new = ts) \<and>
    (\<forall>d. dict_get (iv_items d) = dict_get (iv_items db') \<longrightarrow>
       dict_get (iv_items (release_all uuid ns loc project (rev (map fst new)) d)) = dict_get (iv_items db) \<and>
       iv_ledger (release_all uuid ns loc project (rev (map fst new)) d) = iv_ledger d)"
  using assms
proof (induction ts arbitrary: completed db)
  case (Cons t ts)
  show ?case
  proof (cases "reserve_target uuid ns loc project t db")
    case (Inl e)
    then show ?thesis using Cons.prems by auto
  next
    case (Inr x)
    obtain db1 s where t: "reserve_target uuid ns loc project t db = Inr (db1, s)" using Inr by (cases x) simp
    have rest: "reserve_targets uuid ns loc project ts (completed @ [(t, s)]) db1 = (db', completed', err)"
      using Cons.prems(2) t by simp
    from Cons.IH [OF reserve_target_inv [OF Cons.prems(1) t] rest]
    obtain new where new: "completed' = (completed @ [(t, s)]) @ new" "iv_ledger db' = iv_ledger db1" "err = None \<longrightarrow> map fst new = ts"
      and undo: "\<And>d. dict_get (iv_items d) = dict_get (iv_items db') \<Longrightarrow>
        dict_get (iv_items (release_all uuid ns loc project (rev (map fst new)) d)) = dict_get (iv_items db1) \<and>
        iv_ledger (release_all uuid ns loc project (rev (map fst new)) d) = iv_ledger d"
      by blast
    from t obtain k row q where row: "dict_get (iv_items db) k = Some row"
      and eff: "dict_get (iv_items db1) = (dict_get (iv_items db))(k \<mapsto> row\<lparr>qty_reserved := qty_reserved row + q\<rparr>)"
      and led: "iv_ledger db1 = iv_ledger db"
      and rel: "\<And>d r. dict_get (iv_items d) k = Some r \<Longrightarrow> q \<le> qty_reserved r \<Longrightarrow>
        \<exists>s'. release_target uuid ns loc project t d = Inr (d\<lparr>iv_items := dict_set k (r\<lparr>qty_reserved := qty_reserved r - q\<rparr>) (iv_items d)\<rparr>, s')"
      by (rule reserve_target_Inr) blast
    have "dict_get (iv_items (release_all uuid ns loc project (rev (map fst ((t, s) # new))) d)) = dict_get (iv_items db) \<and>
        iv_ledger (release_all uuid ns loc project (rev (map fst ((t, s) # new))) d) = iv_ledger d"
      if d: "dict_get (iv_items d) = dict_get (iv_items db')" for d
    proof -
      let ?d = "release_all uuid ns loc project (rev (map fst new)) d"
      have "dict_get (iv_items ?d) k = Some (row\<lparr>qty_reserved := qty_reserved row + q\<rparr>)"
        using undo [OF d] eff by simp
      from rel [OF this] obtain s' where "release_target uuid ns loc project t ?d = Inr (?d\<lparr>iv_items := dict_set k row (iv_items ?d)\<rparr>, s')"
        using stock_inv_row(4) [OF Cons.prems(1) row] by auto
      then show ?thesis using undo [OF d] eff row by (simp add: release_all_append fun_upd_idem)
    qed
    with new led show ?thesis by (intro exI [of _ "(t, s) # new"]) auto
  qed
qed simp

text \<open>C34: Reserving a kit with \<open>all_or_nothing\<close>: when it succeeds every target of the expansion has been
  reserved, in order, and none twice; when some target finds too little available stock, every row is back
  as it was and nothing was written to the ledger, however many targets were reserved before.
\<close>
theorem reserve_kit_all_or_nothing:
  assumes "stock_inv db" and "do_reserve_kit uuid repr_of ns_raw loc_raw project_raw items_raw True db = (db', result)"
  shows "case result of
      Inr (completed, summary) \<Rightarrow> (\<exists>ns loc project ts. with_kit_args uuid repr_of ns_raw loc_raw project_raw items_raw = Inr (ns, loc, project, ts) \<and>
        map fst completed = ts \<and> total_lines summary = length ts) \<and> iv_ledger db' = iv_ledger db
    | Inl e \<Rightarrow> insufficient e \<longrightarrow> dict_get (iv_items db') = dict_get (iv_items db) \<and> iv_ledger db' = iv_ledger db"
proof (cases "with_kit_args uuid repr_of ns_raw loc_raw project_raw items_raw")
  case (Inl e)
  then show ?thesis using assms(2) by (auto simp: do_reserve_kit_def)
next
  case (Inr x)
  obtain ns loc project ts where x: "x = (ns, loc, project, ts)" by (cases x) auto
  obtain db1 completed err where run: "reserve_targets uuid ns loc project ts [] db = (db1, completed, err)"
    by (cases "reserve_targets uuid ns loc project ts [] db") auto
  from reserve_targets_undone [OF assms(1) run] have undo:
    "dict_get (iv_items (release_all uuid ns loc project (rev (map fst completed)) db1)) = dict_get (iv_items db)"
    "iv_ledger (release_all uuid ns loc project (rev (map fst completed)) db1) = iv_ledger db1"
    "iv_ledger db1 = iv_ledger db" "err = None \<longrightarrow> map fst completed = ts"
    by auto
  then show ?thesis
    using assms(2) Inr x run
    by (cases err) (auto simp: do_reserve_kit_def summarise_def split: if_splits sum.splits)
qed

definition kit_line :: "json \<Rightarrow> json" where
  "kit_line q = JDict [(''sku'', JStr ''cable''), (''qty'', q)]"

lemma sample_kit_line:
  "expand_item repr_of (kit_line (JInt n)) =
     and_then (as_quantity (JInt n)) (\<lambda>qty. Inr [\<lparr>kt_sku = ''cable'', kt_qty = qty * 1000, kt_type = ''standard'', kt_parent = None, kt_decomposed = False\<rparr>])"
  by (simp add: expand_item_def kit_line_def item_get_def dict_getd_def text_arg_def py_str_def is_package_def is_kit_def)

lemma target_as_quantity:
  "as_quantity (target_qty t) = and_then (quantise 3 (of_int (kt_qty t) / 1000000)) (\<lambda>q. if q \<le> 0 then Inl (InvValueError ''must be > 0'') else Inr q)"
  by (simp add: as_quantity_def target_qty_def as_decimal_def)

lemma sample_target: "kt_qty t = 1000000 * n \<Longrightarrow> 0 < n \<Longrightarrow> n < 10 ^ 20 \<Longrightarrow> as_quantity (target_qty t) = Inr (1000 * n)"
  using quantise_thousandths [of "1000 * n"] by (simp add: target_as_quantity)

theorem reserve_kit_all_or_nothing_witness:
  "\<exists>db' e. do_reserve_kit Some (\<lambda>_. []) (Some ''n'') (Some ''l1'') (Some ''PROJECT:Q1'') (JList [kit_line (JInt 1), kit_line (JInt 2)]) True sample_stock = (db', Inl e) \<and>
     insufficient e \<and> dict_get (iv_items db') = dict_get (iv_items sample_stock)"
proof -
  let ?t = "\<lambda>n. \<lparr>kt_sku = ''cable'', kt_qty = n, kt_type = ''standard'', kt_parent = None, kt_decomposed = False\<rparr> :: kit_target"
  have args: "with_kit_args Some (\<lambda>_. []) (Some ''n'') (Some ''l1'') (Some ''PROJECT:Q1'') (JList [kit_line (JInt 1), kit_line (JInt 2)]) =
      Inr (''n'', ''l1'', ''PROJECT:Q1'', [?t 1000000, ?t 2000000])"
    by (simp add: with_kit_args_def sample_kit_line)
  have q: "as_quantity (target_qty (?t 1000000)) = Inr 1000" "as_quantity (target_qty (?t 2000000)) = Inr 2000"
    using sample_target [of "?t 1000000" 1] sample_target [of "?t 2000000" 2] by simp_all
  have run: "\<exists>db1 c e. reserve_targets Some ''n'' ''l1'' ''PROJECT:Q1'' [?t 1000000, ?t 2000000] [] sample_stock = (db1, c, Some e) \<and> insufficient e"
    by (simp add: reserve_target_def do_reserve_stock_def with_reservation_args_def reserve_stock_def q sample_item_def Let_def fits_column_def insufficient_def)
  then obtain db' e where kit: "do_reserve_kit Some (\<lambda>_. []) (Some ''n'') (Some ''l1'') (Some ''PROJECT:Q1'') (JList [kit_line (JInt 1), kit_line (JInt 2)]) True sample_stock = (db', Inl e)"
    "insufficient e"
    by (auto simp: do_reserve_kit_def args)
  from reserve_kit_all_or_nothing [OF sample_stock_inv kit(1)] kit show ?thesis by auto
qed

text \<open>Only a shortage of stock is undone. A kit whose second line is a component so small that its quantity rounds to zero
  is refused with a \<open>ValueError\<close> raised while the targets are being reserved, and the reservation of the first line stays,
  although the caller asked for all or nothing.
\<close>
theorem reserve_kit_leaks_on_value_error:
  "\<exists>db' e. do_reserve_kit Some (\<lambda>_. []) (Some ''n'') (Some ''l1'') (Some ''PROJECT:Q1'')
      (JList [kit_line (JInt 1), JDict [(''sku'', JStr ''cable''), (''qty'', JFloat (Fin (1 / 1000))), (''include_parent'', JBool False),
         (''components'', JList [kit_line (JFloat (Fin (1 / 1000)))])]]) True sample_stock = (db', Inl (InvValueError e)) \<and>
    map_option qty_reserved (dict_get (iv_items sample_stock) (''n'', ''cable'', ''l1'')) = Some 4000 \<and>
    map_option qty_reserved (dict_get (iv_items db') (''n'', ''cable'', ''l1'')) = Some 5000"
proof -
  let ?a = "\<lparr>kt_sku = ''cable'', kt_qty = 1000000, kt_type = ''standard'', kt_parent = None, kt_decomposed = False\<rparr> :: kit_target"
  let ?b = "\<lparr>kt_sku = ''cable'', kt_qty = 1, kt_type = ''kit_component'', kt_parent = Some ''cable'', kt_decomposed = True\<rparr> :: kit_target"
  let ?items = "JList [kit_line (JInt 1), JDict [(''sku'', JStr ''cable''), (''qty'', JFloat (Fin (1 / 1000))), (''include_parent'', JBool False),
         (''components'', JList [kit_line (JFloat (Fin (1 / 1000)))])]]"
  have thousandth: "as_quantity (JFloat (Fin (1 / 1000))) = Inr 1"
    using quantise_thousandths [of 1] by (simp add: as_quantity_def as_decimal_def)
  have args: "with_kit_args Some (\<lambda>_. []) (Some ''n'') (Some ''l1'') (Some ''PROJECT:Q1'') ?items = Inr (''n'', ''l1'', ''PROJECT:Q1'', [?a, ?b])"
    using thousandth
    by (simp add: with_kit_args_def sample_kit_line)
       (simp add: expand_item_def kit_line_def item_get_def dict_getd_def text_arg_def py_str_def is_package_def is_kit_def raw_components_def)
  have qa: "as_quantity (target_qty ?a) = Inr 1000" using sample_target [of ?a 1] by simp
  have "\<lfloor>1 / 1000000 * 10 ^ 3 + 1 / 2 :: real\<rfloor> = 0" by (simp add: floor_eq_iff)
  then have qb: "as_quantity (target_qty ?b) = Inl (InvValueError ''must be > 0'')"
    by (simp add: target_as_quantity quantise_def round_half_away_def)
  show ?thesis
    by (simp add: do_reserve_kit_def args reserve_target_def do_reserve_stock_def with_reservation_args_def reserve_stock_def qa qb
        sample_item_def Let_def fits_column_def insufficient_def)
qed

end
