(* ===== verification/Lifecycle.thy ===== *)
theory Lifecycle
  imports PyValues
begin

text \<open>
  The asset life cycle (\<^verbatim>\<open>src/nce/vertical_modules/assets/lifecycle.py\<close>): the transition table read from
  \<^verbatim>\<open>asset-lifecycle.json\<close>, the transition function with its idempotent replay, and the calendar arithmetic
  of the warranty end. A date is a year, a month and a day of the proleptic Gregorian calendar, as in
  \<open>datetime.date\<close>, with years 1 to 9999.
\<close>

section \<open>Dates\<close>

record pdate =
  pd_year :: int
  pd_month :: int
  pd_day :: int

definition is_leap :: "int \<Rightarrow> bool" where
  "is_leap y = (y mod 4 = 0 \<and> (y mod 100 \<noteq> 0 \<or> y mod 400 = 0))"

definition month_length :: "int \<Rightarrow> int \<Rightarrow> int" where
  "month_length y m = (if m = 2 then (if is_leap y then 29 else 28) else if m \<in> {4, 6, 9, 11} then 30 else 31)"

definition py_date :: "int \<Rightarrow> int \<Rightarrow> int \<Rightarrow> py_error + pdate" where
  "py_date y m d =
     (if 1 \<le> y \<and> y \<le> 9999 \<and> 1 \<le> m \<and> m \<le> 12 \<and> 1 \<le> d \<and> d \<le> month_length y m
      then Inr \<lparr>pd_year = y, pd_month = m, pd_day = d\<rparr> else Inl (ValueError ''date out of range''))"

definition days_before_year :: "int \<Rightarrow> int" where
  "days_before_year y = (y - 1) * 365 + (y - 1) div 4 - (y - 1) div 100 + (y - 1) div 400"

definition days_before_month :: "int \<Rightarrow> int \<Rightarrow> int" where
  "days_before_month y m = [0, 31, 59, 90, 120, 151, 181, 212, 243, 273, 304, 334] ! nat (m - 1) +
     (if m > 2 \<and> is_leap y then 1 else 0)"

definition toordinal :: "pdate \<Rightarrow> int" where
  "toordinal d = days_before_year (pd_year d) + days_before_month (pd_year d) (pd_month d) + pd_day d"

definition days_in_month :: "int \<Rightarrow> int \<Rightarrow> py_error + int" where
  "days_in_month year month =
     and_then (if month = 12 then py_date (year + 1) 1 1 else py_date year (month + 1) 1) (\<lambda>first_of_next.
     and_then (py_date year month 1) (\<lambda>first. Inr (toordinal first_of_next - toordinal first)))"

definition add_months :: "pdate \<Rightarrow> int \<Rightarrow> py_error + pdate" where
  "add_months start months =
     (let month_index = pd_month start - 1 + months;
          year = pd_year start + month_index div 12;
          month = month_index mod 12 + 1
      in and_then (days_in_month year month) (\<lambda>n. py_date year month (min (pd_day start) n)))"

definition pad :: "nat \<Rightarrow> int \<Rightarrow> string" where
  "pad n i = (let s = show_int i in replicate (n - length s) (CHR ''0'') @ s)"

definition isoformat :: "pdate \<Rightarrow> string" where
  "isoformat d = pad 4 (pd_year d) @ ''-'' @ pad 2 (pd_month d) @ ''-'' @ pad 2 (pd_day d)"

section \<open>The state machine\<close>

record lifecycle_config =
  lc_transitions :: "(string, string list) dict"
  lc_warranty_states :: "string list"

definition lifecycle_states :: "string list" where
  "lifecycle_states = [''PROPOSED'', ''QUOTED'', ''ORDERED'', ''RECEIVED'', ''STAGED'', ''INSTALLED'', ''CONFIGURED'',
     ''VERIFIED'', ''ACTIVE'', ''DEGRADED'', ''MAINTENANCE'', ''EOL'', ''RETIRING'', ''RETIRED'']"

definition lifecycle_config_json :: lifecycle_config where
  "lifecycle_config_json = \<lparr>lc_transitions =
     [(''PROPOSED'', [''QUOTED'']), (''QUOTED'', [''ORDERED'']), (''ORDERED'', [''RECEIVED'']), (''RECEIVED'', [''STAGED'']),
      (''STAGED'', [''INSTALLED'']), (''INSTALLED'', [''CONFIGURED'']), (''CONFIGURED'', [''VERIFIED'']),
      (''VERIFIED'', [''ACTIVE'']), (''ACTIVE'', [''DEGRADED'']), (''DEGRADED'', [''MAINTENANCE'']),
      (''MAINTENANCE'', [''EOL'']), (''EOL'', [''RETIRING'']), (''RETIRING'', [''RETIRED'']), (''RETIRED'', [])],
     lc_warranty_states = [''VERIFIED'']\<rparr>"

record asset =
  lifecycle_state :: string
  warranty_until :: "string option"

record advance_result =
  ar_ok :: bool
  ar_changed :: bool
  ar_new_state :: string
  ar_warranty_set :: bool
  ar_warranty_until :: "string option"
  ar_error :: "string option"

definition is_legal_transition :: "(string, string list) dict \<Rightarrow> string \<Rightarrow> string \<Rightarrow> bool" where
  "is_legal_transition transitions current target = (target \<in> set (dict_getd transitions current []))"

definition advance :: "lifecycle_config \<Rightarrow> pdate \<Rightarrow> asset \<Rightarrow> string \<Rightarrow> int option \<Rightarrow> py_error + advance_result" where
  "advance config today asset target warranty_months =
     (let current = lifecycle_state asset; existing = warranty_until asset in
      if target = current
      then Inr \<lparr>ar_ok = True, ar_changed = False, ar_new_state = current, ar_warranty_set = False,
                ar_warranty_until = existing, ar_error = None\<rparr>
      else if \<not> is_legal_transition (lc_transitions config) current target
      then Inr \<lparr>ar_ok = False, ar_changed = False, ar_new_state = current, ar_warranty_set = False,
                ar_warranty_until = existing, ar_error = Some (''illegal transition: '' @ current @ '' -> '' @ target)\<rparr>
      else case (if target \<in> set (lc_warranty_states config) then warranty_months else None) of
             Some months \<Rightarrow>
               and_then (add_months today months) (\<lambda>end.
               Inr \<lparr>ar_ok = True, ar_changed = True, ar_new_state = target, ar_warranty_set = True,
                    ar_warranty_until = Some (isoformat end), ar_error = None\<rparr>)
           | None \<Rightarrow>
               Inr \<lparr>ar_ok = True, ar_changed = True, ar_new_state = target, ar_warranty_set = False,
                    ar_warranty_until = existing, ar_error = None\<rparr>)"

section \<open>Calendar lemmas\<close>

lemma leap_sum:
  fixes a b c a' b' c' y :: int
  assumes "a' - a = (if P then 1 else 0)" "b' - b = (if Q then 1 else 0)" "c' - c = (if R then 1 else 0)"
    and "R \<Longrightarrow> Q" "Q \<Longrightarrow> P"
  shows "(y * 365 + a' - b' + c') - ((y - 1) * 365 + a - b + c) = (if P \<and> (\<not> Q \<or> R) then 366 else 365)"
  using assms by (auto split: if_splits)

lemma year_length: "days_before_year (y + 1) - days_before_year y = (if is_leap y then 366 else 365)"
proof -
  have step: "y div k - (y - 1) div k = (if y mod k = 0 then 1 else 0)" if "0 < k" for k :: int
  proof (cases "y mod k = 0")
    case True
    then obtain q where y: "y = k * q" by auto
    have "(k * q - 1) div k = q - 1"
      using that by (intro int_div_pos_eq [where r = "k - 1"]) (auto simp: algebra_simps)
    then show ?thesis using that True by (simp add: y)
  next
    case False
    then have "0 \<le> y mod k - 1" "y mod k - 1 < k" using pos_mod_bound [OF that, of y] pos_mod_sign [OF that, of y] by auto
    moreover have "y - 1 = k * (y div k) + (y mod k - 1)" by simp
    ultimately have "(y - 1) div k = y div k" by (metis int_div_pos_eq)
    then show ?thesis using False by simp
  qed
  have "y mod 400 = 0 \<Longrightarrow> y mod 100 = 0" "y mod 100 = 0 \<Longrightarrow> y mod 4 = 0" by presburger+
  from leap_sum [OF step [of 4] step [of 100] step [of 400] this, of y]
  show ?thesis by (simp only: days_before_year_def is_leap_def add_diff_cancel_right' zero_less_numeral simp_thms)
qed

lemma days_in_month_correct:
  assumes "1 \<le> year" "year \<le> 9999" "1 \<le> month" "month \<le> 12" "(year, month) \<noteq> (9999, 12)"
  shows "days_in_month year month = Inr (month_length year month)"
proof (cases "month = 12")
  case True
  have "days_before_year (year + 1) = days_before_year year + (if is_leap year then 366 else 365)"
    using year_length [of year] by simp
  then show ?thesis using assms True
    by (auto simp: days_in_month_def py_date_def toordinal_def days_before_month_def month_length_def nat_numeral)
next
  case False
  with assms(3,4) have "month = 1 \<or> month = 2 \<or> month = 3 \<or> month = 4 \<or> month = 5 \<or> month = 6 \<or> month = 7 \<or> month = 8 \<or>
      month = 9 \<or> month = 10 \<or> month = 11" by presburger
  then show ?thesis using assms
    by (auto simp: days_in_month_def py_date_def toordinal_def days_before_month_def month_length_def nat_numeral)
qed

text \<open>Month arithmetic is calendar correct: adding months to a valid date gives a valid date whose month is exactly that
  many months later, on the same day of the month or on the month's last day when it is shorter.\<close>

theorem add_months_correct:
  assumes "py_date y m d = Inr start" and "1 \<le> y + (m - 1 + k) div 12" and "y + (m - 1 + k) div 12 < 9999"
  shows "\<exists>y' m'. add_months start k = py_date y' m' (min d (month_length y' m')) \<and>
    add_months start k = Inr \<lparr>pd_year = y', pd_month = m', pd_day = min d (month_length y' m')\<rparr> \<and>
    12 * y' + m' = 12 * y + m + k \<and> 1 \<le> m' \<and> m' \<le> 12"
proof -
  define y' where "y' = y + (m - 1 + k) div 12"
  define m' where "m' = (m - 1 + k) mod 12 + 1"
  have start: "start = \<lparr>pd_year = y, pd_month = m, pd_day = d\<rparr>" and d: "1 \<le> d"
    using assms(1) by (auto simp: py_date_def split: if_split_asm)
  have m': "1 \<le> m'" "m' \<le> 12" unfolding m'_def by presburger+
  have days: "days_in_month y' m' = Inr (month_length y' m')"
    by (rule days_in_month_correct) (use assms m' in \<open>auto simp: y'_def\<close>)
  have "1 \<le> month_length y' m'" by (simp add: month_length_def)
  then have "py_date y' m' (min d (month_length y' m')) =
      Inr \<lparr>pd_year = y', pd_month = m', pd_day = min d (month_length y' m')\<rparr>"
    using assms m' d by (simp add: py_date_def y'_def)
  moreover have "add_months start k = py_date y' m' (min d (month_length y' m'))"
    unfolding add_months_def start Let_def using days by (simp add: y'_def m'_def)
  moreover have "12 * y' + m' = 12 * y + m + k"
    unfolding y'_def m'_def using mult_div_mod_eq [of 12 "m - 1 + k"] by (simp only: distrib_left)
  ultimately show ?thesis using m' by metis
qed

theorem add_months_correct_witness:
  "add_months \<lparr>pd_year = 2026, pd_month = 1, pd_day = 31\<rparr> 1 = Inr \<lparr>pd_year = 2026, pd_month = 2, pd_day = 28\<rparr>"
proof -
  have s: "py_date 2026 1 31 = Inr \<lparr>pd_year = 2026, pd_month = 1, pd_day = 31\<rparr>" by (simp add: py_date_def month_length_def)
  from add_months_correct [OF s, of 1] obtain y' m' where
    r: "add_months \<lparr>pd_year = 2026, pd_month = 1, pd_day = 31\<rparr> 1 =
        Inr \<lparr>pd_year = y', pd_month = m', pd_day = min 31 (month_length y' m')\<rparr>"
      "12 * y' + m' = 24314" "1 \<le> m'" "m' \<le> 12"
    by auto
  then have "y' = 2026" "m' = 2" by presburger+
  then show ?thesis using r by (simp add: month_length_def is_leap_def)
qed

section \<open>Behaviour of the state machine\<close>

definition updated :: "asset \<Rightarrow> advance_result \<Rightarrow> asset" where
  "updated a r = a\<lparr>lifecycle_state := ar_new_state r, warranty_until := ar_warranty_until r\<rparr>"

lemma advance_self:
  "lifecycle_state a = s \<Longrightarrow> advance config today a s months = Inr \<lparr>ar_ok = True, ar_changed = False, ar_new_state = s,
     ar_warranty_set = False, ar_warranty_until = warranty_until a, ar_error = None\<rparr>"
  by (simp add: advance_def)

lemma advance_legal:
  assumes "advance config today a target months = Inr r" and "target \<noteq> lifecycle_state a"
    and "is_legal_transition (lc_transitions config) (lifecycle_state a) target"
  shows "ar_ok r \<and> ar_changed r \<and> ar_new_state r = target \<and>
    (ar_warranty_set r \<longleftrightarrow> target \<in> set (lc_warranty_states config) \<and> months \<noteq> None)"
  using assms
  by (cases months; cases "target \<in> set (lc_warranty_states config)") (auto simp: advance_def Let_def and_then_eq_Inr)

text \<open>Under any transition table, advancing an asset succeeds exactly on its current state and on declared successors;
  an illegal move changes nothing; only a declared move into a warranty state with a known duration sets the warranty; and
  replaying a successful request is a successful no-op that leaves state and warranty as they are.\<close>

theorem advance_exact:
  assumes "advance config today a target months = Inr r"
  shows "(ar_ok r \<longleftrightarrow> target = lifecycle_state a \<or> is_legal_transition (lc_transitions config) (lifecycle_state a) target) \<and>
    (ar_changed r \<longleftrightarrow> ar_ok r \<and> target \<noteq> lifecycle_state a) \<and>
    (ar_changed r \<longrightarrow> lifecycle_state (updated a r) = target) \<and> (\<not> ar_changed r \<longrightarrow> updated a r = a) \<and>
    (ar_warranty_set r \<longleftrightarrow> ar_changed r \<and> target \<in> set (lc_warranty_states config) \<and> months \<noteq> None) \<and>
    (ar_ok r \<longrightarrow> (\<exists>r'. advance config today' (updated a r) target months' = Inr r' \<and> ar_ok r' \<and>
       \<not> ar_changed r' \<and> updated (updated a r) r' = updated a r))"
proof (cases "target = lifecycle_state a \<or> \<not> is_legal_transition (lc_transitions config) (lifecycle_state a) target")
  case True
  then have r: "\<not> ar_changed r" "\<not> ar_warranty_set r" "updated a r = a" "ar_ok r \<longleftrightarrow> target = lifecycle_state a"
    using assms by (auto simp: advance_def Let_def updated_def split: if_split_asm)
  have "advance config today' a target months' = Inr \<lparr>ar_ok = True, ar_changed = False, ar_new_state = target,
      ar_warranty_set = False, ar_warranty_until = warranty_until a, ar_error = None\<rparr>" if "ar_ok r"
    using that r by (simp add: advance_self)
  moreover have "updated a \<lparr>ar_ok = True, ar_changed = False, ar_new_state = target, ar_warranty_set = False,
      ar_warranty_until = warranty_until a, ar_error = None\<rparr> = a" if "ar_ok r"
    using that r by (simp add: updated_def)
  ultimately have "ar_ok r \<longrightarrow> (\<exists>r'. advance config today' (updated a r) target months' = Inr r' \<and> ar_ok r' \<and>
      \<not> ar_changed r' \<and> updated (updated a r) r' = updated a r)"
    using r by simp
  then show ?thesis using r True by blast
next
  case False
  then have legal: "target \<noteq> lifecycle_state a" "is_legal_transition (lc_transitions config) (lifecycle_state a) target"
    by auto
  note r = advance_legal [OF assms legal]
  then have new: "lifecycle_state (updated a r) = target" by (simp add: updated_def)
  have "updated (updated a r) \<lparr>ar_ok = True, ar_changed = False, ar_new_state = target, ar_warranty_set = False,
      ar_warranty_until = warranty_until (updated a r), ar_error = None\<rparr> = updated a r"
    using r by (simp add: updated_def)
  then show ?thesis using r legal new advance_self [OF new, of config today' months'] by auto
qed

theorem advance_exact_witness:
  "\<exists>r. advance lifecycle_config_json \<lparr>pd_year = 2026, pd_month = 1, pd_day = 31\<rparr>
     \<lparr>lifecycle_state = ''CONFIGURED'', warranty_until = None\<rparr> ''VERIFIED'' None = Inr r \<and> ar_ok r \<and> ar_changed r"
proof -
  let ?a = "\<lparr>lifecycle_state = ''CONFIGURED'', warranty_until = None\<rparr>"
  obtain r where r: "advance lifecycle_config_json \<lparr>pd_year = 2026, pd_month = 1, pd_day = 31\<rparr> ?a ''VERIFIED'' None = Inr r"
    by (cases "advance lifecycle_config_json \<lparr>pd_year = 2026, pd_month = 1, pd_day = 31\<rparr> ?a ''VERIFIED'' None")
       (auto simp: advance_def Let_def split: if_split_asm)
  have legal: "is_legal_transition (lc_transitions lifecycle_config_json) ''CONFIGURED'' ''VERIFIED''"
    by (simp add: is_legal_transition_def lifecycle_config_json_def dict_getd_def)
  show ?thesis using advance_exact [OF r] r legal by auto
qed

text \<open>Requests are served one after the other; one that raises leaves the asset as it is.\<close>

type_synonym advance_request = "pdate \<times> string \<times> int option"

fun serve_advances :: "lifecycle_config \<Rightarrow> asset \<Rightarrow> advance_request list \<Rightarrow> advance_result list \<times> asset" where
  "serve_advances config a [] = ([], a)"
| "serve_advances config a ((today, target, months) # reqs) =
     (case advance config today a target months of
        Inl _ \<Rightarrow> serve_advances config a reqs
      | Inr r \<Rightarrow> (case serve_advances config (updated a r) reqs of (rs, a') \<Rightarrow> (r # rs, a')))"

definition lifecycle_rank :: "string \<Rightarrow> nat" where
  "lifecycle_rank s = length (takeWhile (\<lambda>t. t \<noteq> s) lifecycle_states)"

lemma shipped_table:
  "list_all (\<lambda>(s, ts). list_all (\<lambda>t. lifecycle_rank t = Suc (lifecycle_rank s) \<and> lifecycle_rank t < 14 \<and>
     (t = ''VERIFIED'' \<longrightarrow> lifecycle_rank s = 6)) ts) (lc_transitions lifecycle_config_json)"
  by code_simp

lemma shipped_edge:
  assumes "is_legal_transition (lc_transitions lifecycle_config_json) s t"
  shows "lifecycle_rank t = Suc (lifecycle_rank s) \<and> lifecycle_rank t < 14 \<and> (t = ''VERIFIED'' \<longrightarrow> lifecycle_rank s = 6)"
proof -
  from assms have "t \<in> set (dict_getd (lc_transitions lifecycle_config_json) s [])"
    by (simp add: is_legal_transition_def)
  then obtain ts where "dict_get (lc_transitions lifecycle_config_json) s = Some ts" and "t \<in> set ts"
    by (auto simp: mem_dict_getd_list)
  then show ?thesis using shipped_table by (auto simp: list_all_iff dest!: map_of_SomeD)
qed

lemma advance_rank:
  assumes "advance lifecycle_config_json today a target months = Inr r"
  shows "lifecycle_rank (lifecycle_state a) \<le> lifecycle_rank (lifecycle_state (updated a r)) \<and>
    (ar_warranty_set r \<longrightarrow> lifecycle_rank (lifecycle_state a) = 6 \<and> lifecycle_rank (lifecycle_state (updated a r)) = 7)"
proof (cases "ar_changed r")
  case True
  note e = advance_exact [OF assms]
  with True have legal: "is_legal_transition (lc_transitions lifecycle_config_json) (lifecycle_state a) target"
    and new: "lifecycle_state (updated a r) = target" by auto
  have "ar_warranty_set r \<longrightarrow> target = ''VERIFIED''" using e by (auto simp: lifecycle_config_json_def)
  then show ?thesis using shipped_edge [OF legal] unfolding new by auto
next
  case False
  then show ?thesis using advance_exact [OF assms] by auto
qed

lemma serve_advances_rank:
  assumes "serve_advances lifecycle_config_json a reqs = (rs, a')"
  shows "lifecycle_rank (lifecycle_state a) \<le> lifecycle_rank (lifecycle_state a') \<and>
    length (filter ar_warranty_set rs) \<le> (if lifecycle_rank (lifecycle_state a) \<le> 6 then 1 else 0)"
  using assms
proof (induction reqs arbitrary: a rs)
  case (Cons req reqs)
  obtain today target months where req: "req = (today, target, months)" by (metis prod_cases3)
  show ?case
  proof (cases "advance lifecycle_config_json today a target months")
    case (Inr r)
    obtain rs' where rest: "serve_advances lifecycle_config_json (updated a r) reqs = (rs', a')" and rs: "rs = r # rs'"
      using Cons.prems by (auto simp: req Inr split: prod.split_asm)
    show ?thesis using advance_rank [OF Inr] Cons.IH [OF rest] by (auto simp: rs split: if_split_asm)
  qed (use Cons in \<open>auto simp: req\<close>)
qed simp

text \<open>C27: With the shipped table an asset only moves forward: over any sequence of requests, repeated and illegal ones
  included, the state never goes back in the declared order, and the warranty is set at most once.\<close>

theorem lifecycle_forward_only:
  "serve_advances lifecycle_config_json a reqs = (rs, a') \<Longrightarrow>
   lifecycle_rank (lifecycle_state a) \<le> lifecycle_rank (lifecycle_state a') \<and> length (filter ar_warranty_set rs) \<le> 1"
  using serve_advances_rank [of a reqs rs a'] by (auto split: if_split_asm)

theorem lifecycle_forward_only_witness:
  "length (filter ar_warranty_set (fst (serve_advances lifecycle_config_json
     \<lparr>lifecycle_state = ''CONFIGURED'', warranty_until = None\<rparr>
     (replicate 2 (\<lparr>pd_year = 2026, pd_month = 1, pd_day = 31\<rparr>, ''VERIFIED'', Some 24))))) \<le> 1"
  using lifecycle_forward_only [OF prod.collapse [symmetric]] by blast

end
