(* ===== verification/GoodsReceipt.thy ===== *)
theory GoodsReceipt
  imports Inventory EventLog Lifecycle "HOL-Library.Product_Lexorder"
begin

text \<open>
  Goods receipts (\<open>goods_receipt.py\<close>): one delivery against a purchase order, captured once under a hash of its
  normalised content, stocked line by line with its costed ledger rows, projected into the graph, its serials
  handed to the asset register (\<open>assets/seed.py\<close>), the order lines it covers advanced, and the event published.
  \<open>sha\<close> is SHA-256 in hexadecimal; \<open>repr_of\<close> renders the values whose text Python's \<open>str\<close> builds from \<open>repr\<close>.
\<close>

section \<open>Normalised arguments\<close>

definition json_field_text :: "(json \<Rightarrow> string) \<Rightarrow> json \<Rightarrow> string" where
  "json_field_text repr_of v = strip (if truthy v then py_str repr_of v else [])"

definition as_po_ref :: "(json \<Rightarrow> string) \<Rightarrow> json \<Rightarrow> inv_error + string" where
  "as_po_ref repr_of raw = (let r = upper (json_field_text repr_of raw) in
     if r = [] then Inl (InvValueError ''po_ref is required'') else Inr r)"

definition as_optional_delivery_note_ref :: "json \<Rightarrow> inv_error + string option" where
  "as_optional_delivery_note_ref raw = (case raw of
      JNull \<Rightarrow> Inr None
    | JStr s \<Rightarrow> let r = upper (strip s) in Inr (if r = [] then None else Some r)
    | _ \<Rightarrow> Inl (InvValueError ''delivery_note_ref must be a string or None''))"

definition as_optional_unit_cost :: "json \<Rightarrow> inv_error + int option" where
  "as_optional_unit_cost raw = (if raw = JNull then Inr None else ledger_cost (Some raw))"

definition read_line :: "(json \<Rightarrow> string) \<Rightarrow> json \<Rightarrow> inv_error + (string \<times> int \<times> int option)" where
  "read_line repr_of raw = (case raw of
      JDict d \<Rightarrow>
        (let sku = json_field_text repr_of (dict_getd d ''sku'' JNull) in
         if sku = [] then Inl (InvValueError ''sku must be non-empty'')
         else and_then (as_quantity (dict_getd d ''qty'' JNull)) (\<lambda>qty.
           and_then (as_optional_unit_cost (dict_getd d ''unit_cost'' JNull)) (\<lambda>cost. Inr (sku, qty, cost))))
    | _ \<Rightarrow> Inl (InvValueError ''must be an object''))"

fun read_lines :: "(json \<Rightarrow> string) \<Rightarrow> json list \<Rightarrow> inv_error + (string \<times> int \<times> int option) list" where
  "read_lines repr_of [] = Inr []"
| "read_lines repr_of (l # ls) = and_then (read_line repr_of l) (\<lambda>x. and_then (read_lines repr_of ls) (\<lambda>xs. Inr (x # xs)))"

text \<open>The accumulators of the loop: the total per article, and its distinct captured costs in order of appearance.\<close>

fun gather_lines :: "(string \<times> int \<times> int option) list \<Rightarrow> (string, int) dict \<Rightarrow> (string, int list) dict \<Rightarrow>
     (string, int) dict \<times> (string, int list) dict" where
  "gather_lines [] totals costs = (totals, costs)"
| "gather_lines ((sku, qty, cost) # xs) totals costs =
     (let totals' = dict_set sku (dict_getd totals sku 0 + qty) totals;
          captured = dict_getd costs sku [];
          costs' = dict_set sku (case cost of None \<Rightarrow> captured | Some c \<Rightarrow> if c \<in> set captured then captured else captured @ [c]) costs
      in gather_lines xs totals' costs')"

definition aggregate_lines :: "(string \<times> int \<times> int option) list \<Rightarrow> inv_error + (string \<times> int \<times> int option) list" where
  "aggregate_lines xs = (let (totals, costs) = gather_lines xs [] [] in
     if \<exists>(sku, captured) \<in> set costs. length captured > 1 then Inl (InvValueError ''disagreeing unit_cost values'')
     else Inr (map (\<lambda>sku. (sku, dict_getd totals sku 0, case dict_getd costs sku [] of [] \<Rightarrow> None | c # _ \<Rightarrow> Some c)) (sort (dict_keys totals))))"

definition validate_and_aggregate_lines :: "(json \<Rightarrow> string) \<Rightarrow> json \<Rightarrow> inv_error + (string \<times> int \<times> int option) list" where
  "validate_and_aggregate_lines repr_of raw = (case raw of
      JList (l # ls) \<Rightarrow> and_then (read_lines repr_of (l # ls)) aggregate_lines
    | _ \<Rightarrow> Inl (InvValueError ''lines must be a non-empty list''))"

record scan =
  sc_sku :: string
  sc_serial :: "string option"
  sc_barcode :: "string option"

definition scan_text :: "json \<Rightarrow> inv_error + string option" where
  "scan_text v = (case v of
      JNull \<Rightarrow> Inr None
    | JStr s \<Rightarrow> if strip s = [] then Inl (InvValueError ''must be a non-empty string or None'') else Inr (Some (strip s))
    | _ \<Rightarrow> Inl (InvValueError ''must be a non-empty string or None''))"

definition read_scan :: "(json \<Rightarrow> string) \<Rightarrow> json \<Rightarrow> inv_error + scan" where
  "read_scan repr_of raw = (case raw of
      JDict d \<Rightarrow>
        (let sku = json_field_text repr_of (dict_getd d ''sku'' JNull) in
         if sku = [] then Inl (InvValueError ''sku must be non-empty'')
         else and_then (scan_text (dict_getd d ''serial'' JNull)) (\<lambda>serial.
           and_then (scan_text (dict_getd d ''barcode'' JNull)) (\<lambda>barcode.
             Inr \<lparr>sc_sku = sku, sc_serial = serial, sc_barcode = barcode\<rparr>)))
    | _ \<Rightarrow> Inl (InvValueError ''must be an object''))"

fun read_scans :: "(json \<Rightarrow> string) \<Rightarrow> json list \<Rightarrow> inv_error + scan list" where
  "read_scans repr_of [] = Inr []"
| "read_scans repr_of (l # ls) = and_then (read_scan repr_of l) (\<lambda>x. and_then (read_scans repr_of ls) (\<lambda>xs. Inr (x # xs)))"

definition or_blank :: "string option \<Rightarrow> string" where
  "or_blank v = (case v of None \<Rightarrow> [] | Some s \<Rightarrow> s)"

definition scan_key :: "scan \<Rightarrow> string \<times> string \<times> string" where
  "scan_key s = (sc_sku s, or_blank (sc_serial s), or_blank (sc_barcode s))"

definition validate_scans :: "(json \<Rightarrow> string) \<Rightarrow> json \<Rightarrow> inv_error + scan list" where
  "validate_scans repr_of raw = (case raw of
      JNull \<Rightarrow> Inr []
    | JList ls \<Rightarrow> and_then (read_scans repr_of ls) (\<lambda>xs. Inr (sort_key scan_key xs))
    | _ \<Rightarrow> Inl (InvValueError ''scans must be a list when given''))"

section \<open>The idempotency key\<close>

text \<open>\<open>str\<close> of a decimal with the given number of places.\<close>

definition decimal_text :: "nat \<Rightarrow> int \<Rightarrow> string" where
  "decimal_text places q = (if q < 0 then ''-'' else []) @ show_nat (nat \<bar>q\<bar> div 10 ^ places) @ ''.'' @
     (let f = show_nat (nat \<bar>q\<bar> mod 10 ^ places) in replicate (places - length f) CHR ''0'' @ f)"

definition opt_json :: "string option \<Rightarrow> json" where
  "opt_json v = (case v of None \<Rightarrow> JNull | Some s \<Rightarrow> JStr s)"

definition line_json :: "string \<times> int \<times> int option \<Rightarrow> json" where
  "line_json l = (case l of (sku, qty, cost) \<Rightarrow>
     JDict [(''sku'', JStr sku), (''qty'', JStr (decimal_text 3 qty)), (''unit_cost'', opt_json (map_option (decimal_text 2) cost))])"

definition scan_json :: "scan \<Rightarrow> json" where
  "scan_json s = JDict [(''sku'', JStr (sc_sku s)), (''serial'', opt_json (sc_serial s)), (''barcode'', opt_json (sc_barcode s))]"

text \<open>\<open>json.dumps(v, sort_keys=True, separators=(",", ":"))\<close>\<close>

fun dumps_compact :: "(pyfloat \<Rightarrow> string) \<Rightarrow> json \<Rightarrow> string" where
  "dumps_compact fr JNull = ''null''"
| "dumps_compact fr (JBool b) = (if b then ''true'' else ''false'')"
| "dumps_compact fr (JInt i) = show_int i"
| "dumps_compact fr (JFloat x) = fr x"
| "dumps_compact fr (JStr s) = quote_json s"
| "dumps_compact fr (JList xs) = ''['' @ join '','' (map (dumps_compact fr) xs) @ '']''"
| "dumps_compact fr (JDict d) = ''{'' @ join '','' (map (\<lambda>(k, t). quote_json k @ '':'' @ t)
     (sort_key fst (map (\<lambda>(k, v). (k, dumps_compact fr v)) d))) @ ''}''"

definition receipt_payload ::
  "string \<Rightarrow> string \<Rightarrow> (string \<times> int \<times> int option) list \<Rightarrow> scan list \<Rightarrow> string option \<Rightarrow> json" where
  "receipt_payload po_ref loc ls scans note = JDict
     ([(''po_ref'', JStr po_ref), (''location_id'', JStr loc), (''lines'', JList (map line_json ls)),
       (''scans'', JList (map scan_json scans))] @ opt_field ''delivery_note_ref'' note)"

definition compute_receipt_hash ::
  "(string \<Rightarrow> string) \<Rightarrow> string \<Rightarrow> string \<Rightarrow> (string \<times> int \<times> int option) list \<Rightarrow> scan list \<Rightarrow> string option \<Rightarrow> string" where
  "compute_receipt_hash sha po_ref loc ls scans note = sha (dumps_compact (\<lambda>_. []) (receipt_payload po_ref loc ls scans note))"

section \<open>Seeding assets\<close>

text \<open>The table \<open>assets\<close>, by namespace and BOM line: serial, functional location, life-cycle state.\<close>

type_synonym asset_table = "(string \<times> string, string option \<times> string option \<times> string) dict"

definition initial_lifecycle_state :: "string list \<Rightarrow> (string, string list) dict \<Rightarrow> inv_error + string" where
  "initial_lifecycle_state states transitions =
     (if states = [] then Inl (InvValueError ''empty STATES list'')
      else (let successors = concat (map snd transitions); entry = filter (\<lambda>s. s \<notin> set successors) states in
        if length entry \<noteq> 1 then Inl (InvValueError ''exactly one entry state'')
        else if hd entry \<noteq> hd states then Inl (InvValueError ''the entry state is not STATES[0]'')
        else Inr (hd entry)))"

text \<open>\<open>INSERT ... ON CONFLICT DO NOTHING\<close>: whether the row was created, and the row there is.\<close>

definition seed_asset ::
  "string \<Rightarrow> string option \<Rightarrow> string option \<Rightarrow> string option \<Rightarrow> asset_table \<Rightarrow>
     inv_error + (asset_table \<times> bool \<times> (string option \<times> string option \<times> string))" where
  "seed_asset ns bom_raw serial_raw floc_raw assets =
     (let bom = strip (or_blank bom_raw);
          optional = (\<lambda>v. case v of None \<Rightarrow> None | Some s \<Rightarrow> let t = strip s in if t = [] then None else Some t) in
      if bom = [] then Inl (InvValueError ''bom_line_id is required'')
      else and_then (initial_lifecycle_state lifecycle_states (lc_transitions lifecycle_config_json)) (\<lambda>state.
        case dict_get assets (ns, bom) of
          Some row \<Rightarrow> Inr (assets, False, row)
        | None \<Rightarrow> (let row = (optional serial_raw, optional floc_raw, state) in
            Inr (dict_set (ns, bom) row assets, True, row))))"

definition seed_key :: "string \<Rightarrow> string \<Rightarrow> string \<Rightarrow> string" where
  "seed_key receipt_id sku serial = ''goods-receipt:'' @ receipt_id @ '':'' @ sku @ '':'' @ serial"

text \<open>Best effort: a failed seed is reported and the loop goes on; \<open>None\<close> reports a failure, \<open>Some created\<close> a success.\<close>

fun seed_assets_with_serials ::
  "string \<Rightarrow> string \<Rightarrow> (string \<times> string) list \<Rightarrow> asset_table \<Rightarrow> asset_table \<times> bool option list" where
  "seed_assets_with_serials ns receipt_id [] assets = (assets, [])"
| "seed_assets_with_serials ns receipt_id ((sku, serial) # xs) assets =
     (case seed_asset ns (Some (seed_key receipt_id sku serial)) (Some serial) None assets of
        Inl _ \<Rightarrow> (case seed_assets_with_serials ns receipt_id xs assets of (a, rs) \<Rightarrow> (a, None # rs))
      | Inr (assets', created, _) \<Rightarrow>
          (case seed_assets_with_serials ns receipt_id xs assets' of (a, rs) \<Rightarrow> (a, Some created # rs)))"

section \<open>Order lines\<close>

text \<open>A row of \<open>procurement_po_lines\<close>; the quantity is a number of ten-thousandths.\<close>

record po_line =
  pl_ns :: string
  pl_po :: string
  pl_ref :: string
  pl_project :: "string option"
  pl_bom :: "string option"
  pl_artnr :: "string option"
  pl_quantity :: int
  pl_status :: string

definition norm_sku :: "string \<Rightarrow> string" where
  "norm_sku s = upper (strip s)"

definition received_qty :: "(string \<times> int \<times> int option) list \<Rightarrow> string \<Rightarrow> int" where
  "received_qty ls artnr = sum_list (map (\<lambda>(sku, qty, cost). if norm_sku sku = artnr then qty else 0) ls)"

definition received_skus :: "(string \<times> int \<times> int option) list \<Rightarrow> string list" where
  "received_skus ls = map (\<lambda>(sku, qty, cost). norm_sku sku) ls"

definition targets_of :: "po_line list \<Rightarrow> (string \<times> string) list" where
  "targets_of rows = map (\<lambda>r. (strip (or_blank (pl_project r)), strip (or_blank (pl_bom r))))
     (filter (\<lambda>r. strip (or_blank (pl_project r)) \<noteq> [] \<and> strip (or_blank (pl_bom r)) \<noteq> []) rows)"

definition matched_targets :: "string \<Rightarrow> string \<Rightarrow> po_line list \<Rightarrow> (string \<times> int \<times> int option) list \<Rightarrow> (string \<times> string) list" where
  "matched_targets project bom rows ls =
     (let found =
        (if project \<noteq> [] \<and> bom \<noteq> [] then [(project, bom)]
         else (let hit = targets_of (filter (\<lambda>r. norm_sku (or_blank (pl_artnr r)) \<in> set (received_skus ls)) rows) in
           if hit \<noteq> [] then hit else targets_of rows))
      in if found = [] then [(project, bom)] else found)"

text \<open>
  The row of an order line after a receipt. The query selects no column \<open>quantity_received\<close> and none \<open>quantity_ordered\<close>, so
  the quantity compared is the one of this receipt, with the quantity ordered.
\<close>

definition advance_po_line :: "(string \<times> int \<times> int option) list \<Rightarrow> po_line \<Rightarrow> po_line" where
  "advance_po_line ls r =
     (let artnr = norm_sku (or_blank (pl_artnr r)) in
      if pl_status r \<noteq> ''ORDERED'' then r
      else if artnr \<notin> set (received_skus ls) then r
      else if received_qty ls artnr * 10 < pl_quantity r then r
      else r\<lparr>pl_status := ''RECEIVED''\<rparr>)"

definition advance_po_lines ::
  "string \<Rightarrow> string \<Rightarrow> string \<Rightarrow> string \<Rightarrow> (string \<times> int \<times> int option) list \<Rightarrow> po_line list \<Rightarrow> po_line list" where
  "advance_po_lines ns po_ref project bom ls table =
     (if project \<noteq> [] \<and> bom \<noteq> [] then table
      else map (\<lambda>r. if pl_ns r = ns \<and> pl_po r = po_ref then advance_po_line ls r else r) table)"

section \<open>Recording a receipt\<close>

record receipt_world =
  rw_stock :: inv_db
  rw_po_lines :: "po_line list"
  rw_assets :: asset_table
  rw_events :: "(string \<times> string \<times> string) list"

datatype receipt_result =
    Duplicate string
  | Fresh string "(string \<times> int \<times> int option \<times> int) list" "bool option list option"

definition goods_receipt_label :: "string \<Rightarrow> string" where
  "goods_receipt_label receipt_id = ''GOODS_RECEIPT:'' @ receipt_id"

definition po_label :: "string \<Rightarrow> string" where
  "po_label po_ref = ''PO:'' @ upper po_ref"

definition sku_label :: "string \<Rightarrow> string" where
  "sku_label sku = ''PRODUCT_SKU:'' @ norm_sku sku"

definition increment_qty_on_hand :: "item_key \<Rightarrow> int \<Rightarrow> inv_db \<Rightarrow> inv_error + (inv_db \<times> int)" where
  "increment_qty_on_hand key qty db = (case key of (ns, sku, loc) \<Rightarrow>
     if \<not> fits_column qty then Inl NumericOverflow
     else case dict_get (iv_items db) key of
       None \<Rightarrow>
         if (ns, loc) \<notin> set (iv_locations db) then Inl ForeignKeyViolation
         else Inr (db\<lparr>iv_items := dict_set key \<lparr>qty_on_hand = qty, qty_reserved = 0, qty_blocked = 0, ir_created = iv_now db\<rparr> (iv_items db)\<rparr>, qty)
     | Some row \<Rightarrow>
         if \<not> fits_column (qty_on_hand row + qty) then Inl NumericOverflow
         else Inr (db\<lparr>iv_items := dict_set key (row\<lparr>qty_on_hand := qty_on_hand row + qty\<rparr>) (iv_items db)\<rparr>, qty_on_hand row + qty))"

definition cost_json :: "int option \<Rightarrow> json option" where
  "cost_json cost = map_option (\<lambda>c. JFloat (Fin (of_int c / 100))) cost"

fun receive_lines ::
  "string \<Rightarrow> string \<Rightarrow> string \<Rightarrow> (string \<times> int \<times> int option) list \<Rightarrow> inv_db \<Rightarrow>
     inv_error + (inv_db \<times> (string \<times> int \<times> int option \<times> int) list)" where
  "receive_lines ns loc receipt_id [] db = Inr (db, [])"
| "receive_lines ns loc receipt_id ((sku, qty, cost) # ls) db =
     (case and_then (increment_qty_on_hand (ns, sku, loc) qty db) (\<lambda>(db1, n).
        and_then (append_stock_transaction (ns, sku, loc) (qty_json qty) ''goods_receipt'' (Some receipt_id) (cost_json cost) db1) (\<lambda>db2.
          Inr (db2, n))) of
        Inl e \<Rightarrow> Inl (if e = NumericOverflow then InvValueError ''does not fit the inventory numeric columns'' else e)
      | Inr (db2, n) \<Rightarrow> and_then (receive_lines ns loc receipt_id ls db2) (\<lambda>(db3, rs). Inr (db3, (sku, qty, cost, n) # rs)))"

definition project_receipt ::
  "string \<Rightarrow> string \<Rightarrow> string \<Rightarrow> (string \<times> int \<times> int option) list \<Rightarrow> inv_db \<Rightarrow> inv_error + inv_db" where
  "project_receipt ns receipt_id po_ref ls db =
     and_then (upsert_kg_node ns (goods_receipt_label receipt_id) ''GOODS_RECEIPT'' db) (\<lambda>db1.
       Inr (fold (\<lambda>(sku, qty, cost). upsert_kg_edge ns (goods_receipt_label receipt_id) ''of'' (sku_label sku) 1) ls
         (upsert_kg_edge ns (goods_receipt_label receipt_id) ''against'' (po_label po_ref) 1 db1)))"

definition serials_of :: "scan list \<Rightarrow> (string \<times> string) list" where
  "serials_of scans = concat (map (\<lambda>s. case sc_serial s of None \<Rightarrow> [] | Some n \<Rightarrow> [(sc_sku s, n)]) scans)"

text \<open>The event of each distinct target, when something consumes it.\<close>

definition publish_receipt ::
  "string \<Rightarrow> string \<Rightarrow> (string \<times> string) list \<Rightarrow> receipt_world \<Rightarrow> receipt_world" where
  "publish_receipt ns receipt_id targets w =
     fold (\<lambda>(project, bom) w. w\<lparr>rw_stock := publish ns ''GOODS_RECEIPT'' ''created'' (goods_receipt_label receipt_id) (rw_stock w),
         rw_events := (if (ns, selector_key ''GOODS_RECEIPT'' ''created'') \<in> set (iv_listeners (rw_stock w))
           then rw_events w @ [(goods_receipt_label receipt_id, project, bom)] else rw_events w)\<rparr>)
       (fold set_add targets []) w"

definition record_receipt ::
  "string \<Rightarrow> string \<Rightarrow> string \<Rightarrow> string \<Rightarrow> (string \<times> int \<times> int option) list \<Rightarrow> scan list \<Rightarrow> string \<Rightarrow> string \<Rightarrow> string \<Rightarrow>
     receipt_world \<Rightarrow> inv_error + (receipt_world \<times> receipt_result)" where
  "record_receipt receipt_hash receipt_id ns po_ref ls scans loc project bom w =
     (case dict_get (iv_receipts (rw_stock w)) (ns, receipt_hash) of
        Some existing \<Rightarrow> Inr (w, Duplicate existing)
      | None \<Rightarrow>
          if (ns, loc) \<notin> set (iv_locations (rw_stock w)) then Inl (InvValueError ''location_id does not exist'')
          else
            and_then (receive_lines ns loc receipt_id ls
              ((rw_stock w)\<lparr>iv_receipts := dict_set (ns, receipt_hash) receipt_id (iv_receipts (rw_stock w))\<rparr>)) (\<lambda>(db2, rs).
            and_then (project_receipt ns receipt_id po_ref ls db2) (\<lambda>db3.
            (let rows = filter (\<lambda>r. pl_ns r = ns \<and> pl_po r = po_ref) (rw_po_lines w);
                 seeded = seed_assets_with_serials ns receipt_id (serials_of scans) (rw_assets w) in
             Inr (publish_receipt ns receipt_id (matched_targets project bom rows ls)
                    (w\<lparr>rw_stock := db3, rw_assets := fst seeded,
                       rw_po_lines := advance_po_lines ns po_ref project bom ls (rw_po_lines w)\<rparr>),
                  Fresh receipt_id rs (if serials_of scans = [] then None else Some (snd seeded)))))))"

record receipt_args =
  ga_ns :: "string option"
  ga_po :: json
  ga_note :: json
  ga_location :: "string option"
  ga_lines :: json
  ga_scans :: json
  ga_project :: json
  ga_bom :: json

definition receipt_key ::
  "(string \<Rightarrow> string option) \<Rightarrow> (json \<Rightarrow> string) \<Rightarrow> (string \<Rightarrow> string) \<Rightarrow> receipt_args \<Rightarrow>
     inv_error + (string \<times> string \<times> string \<times> (string \<times> int \<times> int option) list \<times> scan list \<times> string)" where
  "receipt_key uuid repr_of sha a =
     and_then (as_uuid uuid (ga_ns a)) (\<lambda>ns. and_then (as_po_ref repr_of (ga_po a)) (\<lambda>po_ref.
     and_then (as_optional_delivery_note_ref (ga_note a)) (\<lambda>note. and_then (as_uuid uuid (ga_location a)) (\<lambda>loc.
     and_then (validate_and_aggregate_lines repr_of (ga_lines a)) (\<lambda>ls. and_then (validate_scans repr_of (ga_scans a)) (\<lambda>scans.
       Inr (ns, po_ref, loc, ls, scans, compute_receipt_hash sha po_ref loc ls scans note)))))))"

definition do_record_goods_receipt ::
  "(string \<Rightarrow> string option) \<Rightarrow> (json \<Rightarrow> string) \<Rightarrow> (string \<Rightarrow> string) \<Rightarrow> string \<Rightarrow> receipt_args \<Rightarrow> receipt_world \<Rightarrow>
     inv_error + (receipt_world \<times> receipt_result)" where
  "do_record_goods_receipt uuid repr_of sha receipt_id a w =
     and_then (receipt_key uuid repr_of sha a) (\<lambda>(ns, po_ref, loc, ls, scans, receipt_hash).
       record_receipt receipt_hash receipt_id ns po_ref ls scans loc
         (json_field_text repr_of (ga_project a)) (json_field_text repr_of (ga_bom a)) w)"

section \<open>The order of the lines does not matter\<close>

definition line_total :: "(string \<times> int \<times> int option) list \<Rightarrow> string \<Rightarrow> int" where
  "line_total xs sku = sum_list (map (\<lambda>x. if fst x = sku then fst (snd x) else 0) xs)"

definition line_costs :: "(string \<times> int \<times> int option) list \<Rightarrow> string \<Rightarrow> int set" where
  "line_costs xs sku = {c. \<exists>q. (sku, q, Some c) \<in> set xs}"

lemma gather_lines_spec:
  assumes "gather_lines xs totals costs = (t, c)" and "distinct (dict_keys totals)" and "distinct (dict_keys costs)"
    and "\<forall>sku. distinct (dict_getd costs sku [])"
  shows "(\<forall>sku. dict_getd t sku 0 = dict_getd totals sku 0 + line_total xs sku) \<and>
    set (dict_keys t) = set (dict_keys totals) \<union> fst ` set xs \<and> distinct (dict_keys t) \<and>
    set (dict_keys c) = set (dict_keys costs) \<union> fst ` set xs \<and> distinct (dict_keys c) \<and>
    (\<forall>sku. set (dict_getd c sku []) = set (dict_getd costs sku []) \<union> line_costs xs sku \<and> distinct (dict_getd c sku []))"
  using assms
proof (induction xs totals costs rule: gather_lines.induct)
  case (2 sku qty cost xs totals costs)
  let ?cap = "dict_getd costs sku []"
  let ?new = "case cost of None \<Rightarrow> ?cap | Some u \<Rightarrow> if u \<in> set ?cap then ?cap else ?cap @ [u]"
  let ?t = "dict_set sku (dict_getd totals sku 0 + qty) totals" and ?c = "dict_set sku ?new costs"
  have d: "distinct (dict_keys ?t)" "distinct (dict_keys ?c)" "\<forall>s. distinct (dict_getd ?c s [])"
    using "2.prems" by (auto simp del: map_map split: option.splits)
  have run: "gather_lines xs ?t ?c = (t, c)" using "2.prems"(1) by (simp add: Let_def)
  have new: "set ?new = set ?cap \<union> (case cost of None \<Rightarrow> {} | Some u \<Rightarrow> {u})"
    by (auto split: option.splits)
  have costs: "line_costs ((sku, qty, cost) # xs) s = (if s = sku then (case cost of None \<Rightarrow> {} | Some u \<Rightarrow> {u}) else {}) \<union> line_costs xs s" for s
    by (auto simp: line_costs_def split: option.splits)
  from "2.IH" [OF refl refl refl run d] show ?case
    by (auto simp: line_total_def keys_dict_set [unfolded set_map] new costs)
qed (simp add: line_total_def line_costs_def)

lemma aggregate_lines_spec:
  "aggregate_lines xs = (if \<exists>sku. \<not> card (line_costs xs sku) \<le> 1 then Inl (InvValueError ''disagreeing unit_cost values'')
     else Inr (map (\<lambda>sku. (sku, line_total xs sku, if line_costs xs sku = {} then None else Some (the_elem (line_costs xs sku))))
       (sorted_list_of_set (fst ` set xs))))"
proof -
  obtain t c where g: "gather_lines xs [] [] = (t, c)" by (cases "gather_lines xs [] []")
  have spec: "\<And>sku. dict_getd t sku 0 = line_total xs sku" "set (dict_keys t) = fst ` set xs" "distinct (dict_keys t)"
    "set (dict_keys c) = fst ` set xs" "distinct (dict_keys c)"
    "\<And>sku. set (dict_getd c sku []) = line_costs xs sku" "\<And>sku. distinct (dict_getd c sku [])"
    using gather_lines_spec [OF g] by simp_all
  have len: "card (line_costs xs sku) = length (dict_getd c sku [])" for sku
    using spec(6,7) [of sku] distinct_card by metis
  have "(\<exists>(sku, captured) \<in> set c. length captured > 1) \<longleftrightarrow> (\<exists>sku. \<not> card (line_costs xs sku) \<le> 1)"
  proof
    assume "\<exists>(sku, captured) \<in> set c. length captured > 1"
    then obtain sku captured where "dict_get c sku = Some captured" "length captured > 1" using spec(5) by auto
    then have "\<not> card (line_costs xs sku) \<le> 1" by (simp add: len dict_getd_def)
    then show "\<exists>sku. \<not> card (line_costs xs sku) \<le> 1" ..
  next
    assume "\<exists>sku. \<not> card (line_costs xs sku) \<le> 1"
    then obtain sku where "1 < length (dict_getd c sku [])" by (auto simp: len not_le)
    then obtain captured where "dict_get c sku = Some captured" "1 < length captured"
      by (auto simp: dict_getd_def split: option.splits)
    then show "\<exists>(sku, captured) \<in> set c. length captured > 1" by (auto dest: map_of_SomeD)
  qed
  moreover have "sort (dict_keys t) = sorted_list_of_set (fst ` set xs)"
    using spec(2,3) by (metis sorted_list_of_set_sort_remdups distinct_remdups_id)
  moreover have "(case dict_getd c sku [] of [] \<Rightarrow> None | u # _ \<Rightarrow> Some u) =
      (if line_costs xs sku = {} then None else Some (the_elem (line_costs xs sku)))" if "card (line_costs xs sku) \<le> 1" for sku
    using that len [of sku] spec(6) [of sku] by (cases "dict_getd c sku []") (auto simp flip: spec(6))
  ultimately show ?thesis
    using g spec(1) by (auto simp: aggregate_lines_def)
qed


text \<open>Reading a list entry by entry, stopping at the first error.\<close>

lemma read_lines_iff:
  "read_lines r xs = Inr as \<longleftrightarrow> (\<forall>x \<in> set xs. \<exists>a. read_line r x = Inr a) \<and> as = map (\<lambda>x. projr (read_line r x)) xs"
  by (induction xs arbitrary: as) (force simp: and_then_eq_Inr)+







section \<open>Receiving\<close>

lemma increment_qty_on_hand_eq:
  "(fst key, snd (snd key)) \<in> set (iv_locations db) \<Longrightarrow> increment_qty_on_hand key qty db = increment_on_hand key qty db"
  by (cases key) (simp add: increment_qty_on_hand_def increment_on_hand_def split: option.splits)

lemma receive_lines_Cons:
  assumes "(ns, loc) \<in> set (iv_locations db)"
  shows "receive_lines ns loc i ((sku, qty, cost) # ls) db =
    (case move_in (ns, sku, loc) qty ''goods_receipt'' (Some i) (cost_json cost) db of
       Inl e \<Rightarrow> Inl (if e = NumericOverflow then InvValueError ''does not fit the inventory numeric columns'' else e)
     | Inr (db2, n) \<Rightarrow> and_then (receive_lines ns loc i ls db2) (\<lambda>(db3, rs). Inr (db3, (sku, qty, cost, n) # rs)))"
  using assms by (simp add: increment_qty_on_hand_eq move_in_def)

declare receive_lines.simps(2) [simp del]

lemma ledger_cost_json: "ledger_cost (cost_json cost) = Inr c \<Longrightarrow> c = cost"
proof (cases cost)
  case (Some u)
  assume c: "ledger_cost (cost_json cost) = Inr c"
  have "of_int u / 100 * 10 ^ 2 = (of_int u :: real)" by simp
  then have "quantise 2 (of_int u / 100) = (if \<bar>u\<bar> \<ge> 10 ^ 28 then Inl (InvValueError ''too large to express'') else Inr u)"
    unfolding quantise_def Let_def by (simp only: round_half_away_of_int)
  then show ?thesis using c Some by (auto simp: ledger_cost_def cost_json_def as_decimal_def split: if_splits)
qed (simp add: ledger_cost_def cost_json_def)

definition receipt_entries :: "string \<Rightarrow> string \<Rightarrow> string \<Rightarrow> int \<Rightarrow> (string \<times> int \<times> int option) list \<Rightarrow> ledger_row list" where
  "receipt_entries ns loc i t ls = map (\<lambda>(sku, qty, cost). ledger_entry (ns, sku, loc) qty ''goods_receipt'' cost (Some i) t) ls"

lemma receive_lines_spec:
  assumes "receive_lines ns loc i ls db = Inr (db', rs)" and "(ns, loc) \<in> set (iv_locations db)"
    and "\<forall>(sku, qty, cost) \<in> set ls. 0 < qty"
  shows "stock_step\<^sup>*\<^sup>* db db' \<and> iv_ledger db' = iv_ledger db @ receipt_entries ns loc i (iv_now db) ls \<and>
    iv_now db' = iv_now db \<and> iv_locations db' = iv_locations db \<and> iv_owners db' = iv_owners db \<and>
    iv_rmas db' = iv_rmas db \<and> iv_receipts db' = iv_receipts db \<and>
    map (\<lambda>(sku, qty, cost, n). (sku, qty, cost)) rs = ls \<and>
    (\<forall>k. stock_row db' k = (stock_row db k)\<lparr>qty_on_hand := qty_on_hand (stock_row db k) +
       (if fst k = ns \<and> snd (snd k) = loc then line_total ls (fst (snd k)) else 0)\<rparr>)"
  using assms
proof (induction ls arbitrary: db rs)
  case (Cons l ls)
  obtain sku qty cost where l: "l = (sku, qty, cost)" by (cases l)
  let ?k = "(ns, sku, loc)"
  obtain db1 n rs1 where m: "move_in ?k qty ''goods_receipt'' (Some i) (cost_json cost) db = Inr (db1, n)"
    and r: "receive_lines ns loc i ls db1 = Inr (db', rs1)" and rs: "rs = (sku, qty, cost, n) # rs1"
    using Cons.prems(1,2) by (auto simp: l receive_lines_Cons and_then_eq_Inr split: sum.splits)
  have qty: "0 < qty" using Cons.prems(3) l by auto
  from m have db1: "db1 = post_movement ?k (ledger_entry ?k qty ''goods_receipt'' cost (Some i) (iv_now db)) db"
    by (auto simp: move_in_Inr dest: ledger_cost_json)
  have "stock_step db db1" using step_move [OF move_in_moved [OF m]] qty by simp
  moreover have "iv_rmas db1 = iv_rmas db" "iv_receipts db1 = iv_receipts db" by (simp_all add: db1 post_movement_def)
  moreover have "stock_row db' k = (stock_row db k)\<lparr>qty_on_hand := qty_on_hand (stock_row db k) +
       (if fst k = ns \<and> snd (snd k) = loc then line_total (l # ls) (fst (snd k)) else 0)\<rparr>"
    if "stock_row db' k = (stock_row db1 k)\<lparr>qty_on_hand := qty_on_hand (stock_row db1 k) +
       (if fst k = ns \<and> snd (snd k) = loc then line_total ls (fst (snd k)) else 0)\<rparr>" for k
    using that by (cases k) (auto simp: db1 line_total_def l)
  ultimately show ?case
    using Cons.IH [OF r] Cons.prems(2,3)
    by (auto simp: db1 rs l receipt_entries_def intro: converse_rtranclp_into_rtranclp)
qed (simp add: receipt_entries_def line_total_def)

lemma line_total_pos:
  "\<forall>x \<in> set xs. 0 < fst (snd x) \<Longrightarrow> sku \<in> fst ` set xs \<Longrightarrow> 0 < line_total xs sku"
proof (induction xs)
  case (Cons x xs)
  have "0 \<le> line_total xs sku" using Cons.prems(1) by (force simp: line_total_def intro!: sum_list_nonneg)
  then show ?case using Cons by (auto simp: line_total_def)
qed simp

lemma validate_lines_pos:
  assumes "validate_and_aggregate_lines r raw = Inr ls"
  shows "\<forall>(sku, qty, cost) \<in> set ls. 0 < qty"
proof -
  obtain xs as where as: "read_lines r xs = Inr as" "aggregate_lines as = Inr ls"
    using assms
    by (auto simp: validate_and_aggregate_lines_def and_then_eq_Inr simp del: read_lines.simps split: json.split_asm list.split_asm)
  have "\<forall>x \<in> set as. 0 < fst (snd x)"
  proof
    fix x assume "x \<in> set as"
    then obtain y where "read_line r y = Inr x" using as(1) by (force simp: read_lines_iff)
    then show "0 < fst (snd x)"
      by (auto simp: read_line_def and_then_eq_Inr Let_def split: json.split_asm if_splits dest: as_quantity_pos)
  qed
  then show ?thesis
    using as(2) by (auto simp: aggregate_lines_spec split: if_splits intro!: line_total_pos)
qed

lemma fold_edges_fields:
  "iv_items (fold (\<lambda>(sku, qty, cost). upsert_kg_edge ns lab p (f sku) 1) ls db) = iv_items db \<and>
   iv_ledger (fold (\<lambda>(sku, qty, cost). upsert_kg_edge ns lab p (f sku) 1) ls db) = iv_ledger db \<and>
   iv_now (fold (\<lambda>(sku, qty, cost). upsert_kg_edge ns lab p (f sku) 1) ls db) = iv_now db \<and>
   iv_receipts (fold (\<lambda>(sku, qty, cost). upsert_kg_edge ns lab p (f sku) 1) ls db) = iv_receipts db \<and>
   iv_rmas (fold (\<lambda>(sku, qty, cost). upsert_kg_edge ns lab p (f sku) 1) ls db) = iv_rmas db"
  by (induction ls arbitrary: db) auto

lemma project_receipt_fields:
  assumes "project_receipt ns i po ls db = Inr db'"
  shows "iv_items db' = iv_items db" "iv_ledger db' = iv_ledger db" "iv_now db' = iv_now db" "iv_receipts db' = iv_receipts db"
    "iv_rmas db' = iv_rmas db"
  using assms by (auto simp: project_receipt_def and_then_eq_Inr upsert_kg_node_fields fold_edges_fields [where f = sku_label])

lemma publish_fields [simp]:
  "iv_items (publish ns t opn i db) = iv_items db" "iv_ledger (publish ns t opn i db) = iv_ledger db"
  "iv_now (publish ns t opn i db) = iv_now db" "iv_receipts (publish ns t opn i db) = iv_receipts db"
  "iv_rmas (publish ns t opn i db) = iv_rmas db"
  by (simp_all add: publish_def)

lemma publish_receipt_fields:
  "iv_items (rw_stock (publish_receipt ns i ts w)) = iv_items (rw_stock w) \<and>
   iv_ledger (rw_stock (publish_receipt ns i ts w)) = iv_ledger (rw_stock w) \<and>
   iv_now (rw_stock (publish_receipt ns i ts w)) = iv_now (rw_stock w) \<and>
   iv_receipts (rw_stock (publish_receipt ns i ts w)) = iv_receipts (rw_stock w) \<and>
   iv_rmas (rw_stock (publish_receipt ns i ts w)) = iv_rmas (rw_stock w) \<and>
   rw_po_lines (publish_receipt ns i ts w) = rw_po_lines w \<and> rw_assets (publish_receipt ns i ts w) = rw_assets w"
proof -
  have "let w' = fold (\<lambda>(project, bom) w. w\<lparr>rw_stock := publish ns ''GOODS_RECEIPT'' ''created'' (goods_receipt_label i) (rw_stock w),
         rw_events := (if (ns, selector_key ''GOODS_RECEIPT'' ''created'') \<in> set (iv_listeners (rw_stock w))
           then rw_events w @ [(goods_receipt_label i, project, bom)] else rw_events w)\<rparr>) us w in
     iv_items (rw_stock w') = iv_items (rw_stock w) \<and> iv_ledger (rw_stock w') = iv_ledger (rw_stock w) \<and>
     iv_now (rw_stock w') = iv_now (rw_stock w) \<and> iv_receipts (rw_stock w') = iv_receipts (rw_stock w) \<and>
     iv_rmas (rw_stock w') = iv_rmas (rw_stock w) \<and> rw_po_lines w' = rw_po_lines w \<and> rw_assets w' = rw_assets w" for us
    by (induction us arbitrary: w) (auto simp: Let_def)
  then show ?thesis by (simp add: publish_receipt_def Let_def)
qed

lemma record_receipt_fresh:
  assumes "record_receipt h i ns po ls scans loc project bom w = Inr (w', Fresh j rs seeds)"
    and "\<forall>(sku, qty, cost) \<in> set ls. 0 < qty"
  shows "j = i \<and> dict_get (iv_receipts (rw_stock w)) (ns, h) = None \<and>
    iv_receipts (rw_stock w') = dict_set (ns, h) i (iv_receipts (rw_stock w)) \<and>
    stock_step\<^sup>*\<^sup>* (rw_stock w) (rw_stock w') \<and>
    iv_ledger (rw_stock w') = iv_ledger (rw_stock w) @ receipt_entries ns loc i (iv_now (rw_stock w)) ls \<and>
    iv_rmas (rw_stock w') = iv_rmas (rw_stock w) \<and>
    map (\<lambda>(sku, qty, cost, n). (sku, qty, cost)) rs = ls \<and>
    rw_po_lines w' = advance_po_lines ns po project bom ls (rw_po_lines w) \<and>
    (\<forall>k. stock_row (rw_stock w') k = (stock_row (rw_stock w) k)\<lparr>qty_on_hand := qty_on_hand (stock_row (rw_stock w) k) +
       (if fst k = ns \<and> snd (snd k) = loc then line_total ls (fst (snd k)) else 0)\<rparr>)"
proof -
  let ?db = "rw_stock w" and ?db1 = "(rw_stock w)\<lparr>iv_receipts := dict_set (ns, h) i (iv_receipts (rw_stock w))\<rparr>"
  have new: "dict_get (iv_receipts ?db) (ns, h) = None" and loc: "(ns, loc) \<in> set (iv_locations ?db)"
    using assms(1) by (auto simp: record_receipt_def split: option.splits if_splits)
  let ?seeded = "seed_assets_with_serials ns i (serials_of scans) (rw_assets w)"
    and ?ts = "matched_targets project bom (filter (\<lambda>r. pl_ns r = ns \<and> pl_po r = po) (rw_po_lines w)) ls"
  obtain db2 rs' db3 where recv: "receive_lines ns loc i ls ?db1 = Inr (db2, rs')" and proj: "project_receipt ns i po ls db2 = Inr db3"
    and result: "Inr (publish_receipt ns i ?ts (w\<lparr>rw_stock := db3, rw_assets := fst ?seeded,
        rw_po_lines := advance_po_lines ns po project bom ls (rw_po_lines w)\<rparr>),
      Fresh i rs' (if serials_of scans = [] then None else Some (snd ?seeded))) =
      (Inr (w', Fresh j rs seeds) :: inv_error + receipt_world \<times> receipt_result)"
    using assms(1) new loc by (auto simp only: record_receipt_def and_then_eq_Inr Let_def option.case if_False
        not_True_eq_False prod.case split_paired_Ex)
  define w3 where "w3 = w\<lparr>rw_stock := db3, rw_assets := fst ?seeded,
    rw_po_lines := advance_po_lines ns po project bom ls (rw_po_lines w)\<rparr>"
  have w3: "rw_stock w3 = db3" "rw_po_lines w3 = advance_po_lines ns po project bom ls (rw_po_lines w)"
    by (simp_all add: w3_def)
  have out: "w' = publish_receipt ns i ?ts w3" "j = i" "rs = rs'"
    using result unfolding w3_def by auto
  have loc1: "(ns, loc) \<in> set (iv_locations ?db1)" using loc by simp
  note sp = receive_lines_spec [OF recv loc1 assms(2)]
  have spec: "stock_step\<^sup>*\<^sup>* ?db1 db2" "iv_ledger db2 = iv_ledger ?db @ receipt_entries ns loc i (iv_now ?db) ls"
    "iv_now db2 = iv_now ?db" "iv_rmas db2 = iv_rmas ?db" "iv_receipts db2 = iv_receipts ?db1"
    "map (\<lambda>(sku, qty, cost, n). (sku, qty, cost)) rs' = ls"
    using sp by simp_all
  have spec_rows: "\<forall>k. stock_row db2 k = (stock_row ?db1 k)\<lparr>qty_on_hand := qty_on_hand (stock_row ?db1 k) +
       (if fst k = ns \<and> snd (snd k) = loc then line_total ls (fst (snd k)) else 0)\<rparr>"
    using sp by (elim conjE)
  have pub: "iv_items (rw_stock w') = iv_items db2" "iv_ledger (rw_stock w') = iv_ledger db2" "iv_now (rw_stock w') = iv_now db2"
    "iv_receipts (rw_stock w') = iv_receipts db2" "iv_rmas (rw_stock w') = iv_rmas db2" "rw_po_lines w' = rw_po_lines w3"
    using out(1) publish_receipt_fields project_receipt_fields [OF proj] w3(1) by auto
  have rows: "stock_row (rw_stock w') = stock_row db2" "stock_row ?db1 = stock_row ?db"
    using pub(1,3) by (auto intro!: stock_row_cong)
  have "stock_step ?db ?db1" "stock_step db2 (rw_stock w')"
    using pub by (auto intro: step_other)
  then have "stock_step\<^sup>*\<^sup>* ?db (rw_stock w')"
    using spec(1) by (meson converse_rtranclp_into_rtranclp rtranclp.rtrancl_into_rtrancl)
  moreover from spec_rows have "\<forall>k. stock_row (rw_stock w') k = (stock_row ?db k)\<lparr>qty_on_hand := qty_on_hand (stock_row ?db k) +
       (if fst k = ns \<and> snd (snd k) = loc then line_total ls (fst (snd k)) else 0)\<rparr>"
    unfolding rows .
  ultimately show ?thesis
    using new out(2,3) pub spec w3(2) by simp
qed


section \<open>Order lines and split deliveries\<close>

text \<open>An order line is marked received only by a single receipt that covers it: whatever sequence of
  receipts arrives, as long as each of them brings less of the article than was ordered, the line keeps its
  status, even when together they bring all of it.
\<close>
theorem split_delivery_never_received:
  assumes "list_all (\<lambda>ls. received_qty ls (norm_sku (or_blank (pl_artnr r))) * 10 < pl_quantity r) deliveries"
  shows "fold advance_po_line deliveries r = r"
  using assms by (induction deliveries) (auto simp: advance_po_line_def Let_def)

definition sample_po_line :: po_line where
  "sample_po_line = \<lparr>pl_ns = ''n'', pl_po = ''PO1'', pl_ref = ''1'', pl_project = None, pl_bom = None, pl_artnr = Some ''A'',
     pl_quantity = 100000, pl_status = ''ORDERED''\<rparr>"

theorem split_delivery_never_received_witness:
  "sum_list (map (\<lambda>ls. received_qty ls (norm_sku ''A'')) [[(''A'', 6000, None)], [(''A'', 4000, None)]]) * 10 = pl_quantity sample_po_line \<and>
   pl_status (fold advance_po_line [[(''A'', 6000, None)], [(''A'', 4000, None)]] sample_po_line) = ''ORDERED'' \<and>
   pl_status (advance_po_line [(''A'', 10000, None)] sample_po_line) = ''RECEIVED''"
proof -
  have a: "norm_sku ''A'' = ''A''" by code_simp
  have "list_all (\<lambda>ls. received_qty ls (norm_sku (or_blank (pl_artnr sample_po_line))) * 10 < pl_quantity sample_po_line)
      [[(''A'', 6000, None)], [(''A'', 4000, None)]]"
    by (simp add: sample_po_line_def or_blank_def received_qty_def a)
  from split_delivery_never_received [OF this] show ?thesis
    by (simp add: advance_po_line_def sample_po_line_def or_blank_def received_qty_def received_skus_def a)
qed

section \<open>Receipts as stock operations\<close>

definition receive_into ::
  "(string \<Rightarrow> string option) \<Rightarrow> (json \<Rightarrow> string) \<Rightarrow> (string \<Rightarrow> string) \<Rightarrow> string \<Rightarrow> receipt_args \<Rightarrow> receipt_world \<Rightarrow> inv_db \<Rightarrow>
     inv_error + inv_db \<times> receipt_world \<times> receipt_result" where
  "receive_into uuid repr_of sha i a w db =
     and_then (do_record_goods_receipt uuid repr_of sha i a (w\<lparr>rw_stock := db\<rparr>)) (\<lambda>(w', r). Inr (rw_stock w', w', r))"

lemma goods_receipt_steps:
  assumes "do_record_goods_receipt uuid repr_of sha i a w = Inr (w', r)"
  shows "stock_step\<^sup>*\<^sup>* (rw_stock w) (rw_stock w')" and "iv_rmas (rw_stock w') = iv_rmas (rw_stock w)"
proof -
  obtain ns po_ref loc ls scans h where key: "receipt_key uuid repr_of sha a = Inr (ns, po_ref, loc, ls, scans, h)"
    and run: "record_receipt h i ns po_ref ls scans loc (json_field_text repr_of (ga_project a)) (json_field_text repr_of (ga_bom a)) w = Inr (w', r)"
    using assms by (auto simp: do_record_goods_receipt_def and_then_eq_Inr)
  have pos: "\<forall>(sku, qty, cost) \<in> set ls. 0 < qty"
    using key by (auto simp: receipt_key_def and_then_eq_Inr dest: validate_lines_pos)
  have "stock_step\<^sup>*\<^sup>* (rw_stock w) (rw_stock w') \<and> iv_rmas (rw_stock w') = iv_rmas (rw_stock w)"
  proof (cases r)
    case (Duplicate x)
    then have "w' = w" using run by (auto simp: record_receipt_def and_then_eq_Inr Let_def split: option.splits if_splits)
    then show ?thesis by simp
  next
    case (Fresh j rs seeds)
    show ?thesis using record_receipt_fresh [OF run [unfolded Fresh] pos] by blast
  qed
  then show "stock_step\<^sup>*\<^sup>* (rw_stock w) (rw_stock w')" "iv_rmas (rw_stock w') = iv_rmas (rw_stock w)" by simp_all
qed

interpretation receipt_op: stock_operation "receive_into uuid repr_of sha i a w" for uuid repr_of sha i a w
  by unfold_locales (auto simp: receive_into_def and_then_eq_Inr dest: goods_receipt_steps(1))





end
