(* ===== verification/StockMachine.thy ===== *)
theory StockMachine
  imports StockReports StockReturns Kitting GoodsReceipt
begin

text \<open>
  The inventory engine as a machine: its operations called one after the other, on any arguments, each
  committing or rolling back, with the clock moving on between them. What the operations keep, every reachable
  database has; so the reports of \<open>StockReports\<close> can rely on it.
\<close>

section \<open>The machine\<close>







section \<open>Every call keeps the invariant\<close>






























section \<open>What every reachable database has\<close>




end
