(* ===== verification/ProjectPhases.thy ===== *)
theory ProjectPhases
  imports PyValues
begin

text \<open>
  Project phases: the gate machine (\<^verbatim>\<open>src/nce/vertical_modules/project/phase_gates.py\<close>), the actor that
  advances a project (\<^verbatim>\<open>src/nce/vertical_modules/project/advance.py\<close>) and the case-study seed it triggers
  (\<^verbatim>\<open>src/nce/vertical_modules/project/case_study.py\<close>). The state is one namespace of the knowledge graph: its
  nodes with their types, its edges with their confidence in table order, the outbox of graph writes and
  the phase events of the log. \<open>owns\<close> is the ownership check of a node type; the faults of the three
  database sessions are inputs. The actor reads in one session and writes in another, so the model has a
  preparing and a committing half.
\<close>

section \<open>Gates\<close>

record gate_config =
  gc_transitions :: "(string, string list) dict"
  gc_criteria :: "(string, string list) dict"

definition gate_config_json :: gate_config where
  "gate_config_json = \<lparr>gc_transitions =
      [(''G0'', [''G1'']), (''G1'', [''G2'']), (''G2'', [''G3'']), (''G3'', [''G4'']), (''G4'', [''G5'']), (''G5'', [''G6'']),
       (''G6'', [])],
    gc_criteria =
      [(''G0'', []), (''G1'', [''signed_quote_attached'', ''project_manager_assigned'']),
       (''G2'', [''signed_baseline_frozen'', ''bom_lines_linked'', ''kick_off_meeting_held'']),
       (''G3'', [''design_approved'', ''bom_fully_specified'', ''site_access_confirmed'']),
       (''G4'', [''frozen_baseline_locked'', ''bom_ordered'', ''project_lead_assigned'']),
       (''G5'', [''all_bom_lines_delivered'', ''installation_complete'', ''testing_started'', ''outcomes_recorded_or_waived'']),
       (''G6'', [''all_tests_passed'', ''customer_sign_off'', ''as_built_documented'', ''handover_to_support_done''])]\<rparr>"

definition is_legal_phase_transition :: "(string, string list) dict \<Rightarrow> string \<Rightarrow> string \<Rightarrow> bool" where
  "is_legal_phase_transition transitions current target = (target \<in> set (dict_getd transitions current []))"

definition find_missing_criteria :: "string list \<Rightarrow> string set \<Rightarrow> string list" where
  "find_missing_criteria required criteria_met = filter (\<lambda>c. c \<notin> criteria_met) required"

definition can_enter_phase :: "gate_config \<Rightarrow> string \<Rightarrow> string list \<Rightarrow> string \<Rightarrow> bool \<times> string list" where
  "can_enter_phase config current criteria_met target =
     (if \<not> is_legal_phase_transition (gc_transitions config) current target then (False, [])
      else let missing = find_missing_criteria (dict_getd (gc_criteria config) target []) (set criteria_met)
           in (length missing = 0, missing))"

section \<open>The graph\<close>

record phase_event =
  ev_project :: string
  ev_from :: string
  ev_to :: string
  ev_actor :: string

record project_graph =
  kg_nodes :: "(string, string) dict"
  kg_edges :: "(string \<times> string \<times> string, real) dict"
  kg_outbox :: "(string \<times> string) list"
  kg_log :: "phase_event list"

definition gate_label :: "string \<Rightarrow> string \<Rightarrow> string" where
  "gate_label quote_id g = ''GATE:'' @ upper quote_id @ '':'' @ g"

definition starts_with :: "string \<Rightarrow> string \<Rightarrow> bool" where
  "starts_with s prefix = (take (length prefix) s = prefix)"

definition quote_id_from_project_label :: "string \<Rightarrow> py_error + string" where
  "quote_id_from_project_label project_label =
     (if \<not> starts_with (upper project_label) ''PROJECT:'' then Inl (ValueError ''does not start with PROJECT:'')
      else Inr (drop (length ''PROJECT:'') project_label))"

fun split_colon :: "string \<Rightarrow> string \<Rightarrow> string list" where
  "split_colon acc [] = [rev acc]"
| "split_colon acc (c # s) = (if c = CHR '':'' then rev acc # split_colon [] s else split_colon (c # acc) s)"

definition parse_gate_from_label :: "string \<Rightarrow> py_error + string" where
  "parse_gate_from_label label =
     (let parts = split_colon [] label in
      if length parts < 3 then Inl (ValueError ''expected format GATE:QUOTE:Gn'') else Inr (last parts))"

definition edges_from :: "project_graph \<Rightarrow> string \<Rightarrow> string \<Rightarrow> string list" where
  "edges_from g subj pred = map (\<lambda>((_, _, ob), _). ob) (filter (\<lambda>((s, p, _), _). s = subj \<and> p = pred) (kg_edges g))"

definition read_current_phase :: "project_graph \<Rightarrow> string \<Rightarrow> py_error + string option" where
  "read_current_phase g project_label =
     (case edges_from g project_label ''in_phase'' of
        [] \<Rightarrow> Inr None
      | label # _ \<Rightarrow> and_then (parse_gate_from_label label) (\<lambda>gate. Inr (Some gate)))"

definition upsert_gate_node :: "(string \<Rightarrow> bool) \<Rightarrow> string \<Rightarrow> project_graph \<Rightarrow> py_error + project_graph" where
  "upsert_gate_node owns label g =
     (if \<not> owns ''PROJECT_GATE'' then Inl (OtherException ''OwnershipError'')
      else Inr (g\<lparr>kg_nodes := dict_set label ''PROJECT_GATE'' (kg_nodes g),
                  kg_outbox := kg_outbox g @ [(''PROJECT_GATE'', label)]\<rparr>))"

definition move_in_phase_edge :: "string \<Rightarrow> string \<Rightarrow> project_graph \<Rightarrow> project_graph" where
  "move_in_phase_edge project_label new_gate_label g =
     (let rest = filter (\<lambda>((s, p, _), _). \<not> (s = project_label \<and> p = ''in_phase'')) (kg_edges g)
      in g\<lparr>kg_edges := dict_set (project_label, ''in_phase'', new_gate_label) 1 rest\<rparr>)"

definition append_phase_transition_event :: "string \<Rightarrow> string \<Rightarrow> string \<Rightarrow> string \<Rightarrow> project_graph \<Rightarrow> project_graph" where
  "append_phase_transition_event project from to actor g =
     g\<lparr>kg_log := kg_log g @ [\<lparr>ev_project = project, ev_from = from, ev_to = to, ev_actor = actor\<rparr>]\<rparr>"

section \<open>The case study\<close>

definition do_generate_case_study_edge :: "(string \<Rightarrow> bool) \<Rightarrow> string \<Rightarrow> real \<Rightarrow> project_graph \<Rightarrow> py_error + project_graph" where
  "do_generate_case_study_edge owns project_id confidence g =
     (case dict_get (kg_nodes g) project_id of
        None \<Rightarrow> Inr g
      | Some ty \<Rightarrow>
          if ty \<noteq> ''PROJECT_PROJECT'' \<and> ty \<noteq> ''PROJECT'' then Inr g
          else case edges_from g project_id ''in_phase'' of
                 [] \<Rightarrow> Inr g
               | label # _ \<Rightarrow>
                   (let parts = split_colon [] label;
                        current_phase = (if length parts \<ge> 3 then last parts else []) in
                    if current_phase \<noteq> ''G6'' then Inr g
                    else let quote_id = (if starts_with (upper project_id) ''PROJECT:''
                                         then drop (length ''PROJECT:'') project_id else project_id);
                             case_label = ''CASE_STUDY:'' @ upper quote_id in
                    if \<not> owns ''PROJECT_CASE_STUDY'' then Inl (OtherException ''OwnershipError'')
                    else Inr (g\<lparr>kg_nodes := dict_set case_label ''PROJECT_CASE_STUDY'' (kg_nodes g),
                                kg_outbox := kg_outbox g @ [(''PROJECT_CASE_STUDY'', case_label)],
                                kg_edges := dict_set (project_id, ''generates'', case_label) confidence (kg_edges g)\<rparr>)))"

section \<open>The actor\<close>

record advance_params =
  ap_namespace :: "string option"
  ap_project :: "string option"
  ap_target :: "string option"
  ap_actor :: "string option"
  ap_criteria :: "string list"

datatype advance_response =
    Advanced string
  | AlreadyThere string
  | GateRefused "string list" string
  | AdvanceError

record prepared =
  pr_project :: string
  pr_quote :: string
  pr_from :: string
  pr_to :: string
  pr_actor :: string

definition text_param :: "string option \<Rightarrow> string" where
  "text_param v = strip (case v of None \<Rightarrow> [] | Some s \<Rightarrow> s)"

definition has_outcome :: "project_graph \<Rightarrow> string \<Rightarrow> bool" where
  "has_outcome g project = (edges_from g project ''has_outcome'' \<noteq> [])"

text \<open>Everything before the write: the checks of the parameters, the two reads and the gate. \<open>g\<close> is the graph at the
  first read and \<open>g'\<close> the graph at the second.\<close>

definition prepare_advance ::
    "gate_config \<Rightarrow> (string \<Rightarrow> bool) \<Rightarrow> bool \<Rightarrow> bool \<Rightarrow> advance_params \<Rightarrow> project_graph \<Rightarrow> project_graph \<Rightarrow> advance_response + prepared" where
  "prepare_advance config valid_uuid read_fails outcome_fails params g g' =
     (let project = text_param (ap_project params); target = text_param (ap_target params); actor = text_param (ap_actor params) in
      case ap_namespace params of
        None \<Rightarrow> Inl AdvanceError
      | Some ns \<Rightarrow>
          if ns = [] \<or> \<not> valid_uuid ns then Inl AdvanceError
          else if project = [] \<or> target = [] \<or> actor = [] then Inl AdvanceError
          else case quote_id_from_project_label project of
                 Inl _ \<Rightarrow> Inl AdvanceError
               | Inr quote_id \<Rightarrow>
                   if read_fails then Inl AdvanceError
                   else case read_current_phase g project of
                          Inl _ \<Rightarrow> Inl AdvanceError
                        | Inr None \<Rightarrow> Inl AdvanceError
                        | Inr (Some current) \<Rightarrow>
                            if target = current then Inl (AlreadyThere current)
                            else let criteria = (if target = ''G5'' \<and> ''outcomes_recorded_or_waived'' \<notin> set (ap_criteria params) \<and>
                                                    \<not> outcome_fails \<and> has_outcome g' project
                                                 then ap_criteria params @ [''outcomes_recorded_or_waived''] else ap_criteria params)
                            in (case can_enter_phase config current criteria target of
                                  (ok, missing) \<Rightarrow>
                                    if \<not> ok then Inl (GateRefused missing current)
                                    else Inr \<lparr>pr_project = project, pr_quote = quote_id, pr_from = current, pr_to = target,
                                              pr_actor = actor\<rparr>))"

text \<open>The transaction, rolled back when it fails, and the case study after it, whose failure is only logged.\<close>

definition commit_advance ::
    "(string \<Rightarrow> bool) \<Rightarrow> bool \<Rightarrow> prepared \<Rightarrow> project_graph \<Rightarrow> advance_response \<times> project_graph" where
  "commit_advance owns write_fails w g =
     (let label = gate_label (pr_quote w) (pr_to w) in
      case upsert_gate_node owns label g of
        Inl _ \<Rightarrow> (AdvanceError, g)
      | Inr g1 \<Rightarrow>
          if write_fails then (AdvanceError, g)
          else let g2 = append_phase_transition_event (pr_project w) (pr_from w) (pr_to w) (pr_actor w)
                          (move_in_phase_edge (pr_project w) label g1)
          in (Advanced (pr_to w),
              if pr_to w = ''G6''
              then (case do_generate_case_study_edge owns (pr_project w) 1 g2 of Inr g3 \<Rightarrow> g3 | Inl _ \<Rightarrow> g2)
              else g2))"

definition do_advance_phase ::
    "gate_config \<Rightarrow> (string \<Rightarrow> bool) \<Rightarrow> (string \<Rightarrow> bool) \<Rightarrow> bool \<times> bool \<times> bool \<Rightarrow> advance_params \<Rightarrow> project_graph \<Rightarrow>
       advance_response \<times> project_graph" where
  "do_advance_phase config valid_uuid owns faults params g =
     (case faults of (read_fails, outcome_fails, write_fails) \<Rightarrow>
        (case prepare_advance config valid_uuid read_fails outcome_fails params g g of
           Inl r \<Rightarrow> (r, g)
         | Inr w \<Rightarrow> commit_advance owns write_fails w g))"

section \<open>Lemmas\<close>

lemma split_colon_append: "split_colon acc (xs @ CHR '':'' # ys) = split_colon acc xs @ split_colon [] ys"
  by (induction acc xs rule: split_colon.induct) auto

lemma split_colon_none: "CHR '':'' \<notin> set s \<Longrightarrow> split_colon acc s = [rev acc @ s]"
  by (induction acc s rule: split_colon.induct) auto

lemma split_colon_not_Nil [simp]: "split_colon acc s \<noteq> []"
  by (induction acc s rule: split_colon.induct) auto

lemma parse_gate_label:
  assumes "CHR '':'' \<notin> set g" shows "parse_gate_from_label (gate_label q g) = Inr g"
proof -
  have "gate_label q g = ''GATE'' @ CHR '':'' # (upper q @ CHR '':'' # g)" by (simp add: gate_label_def)
  then have "split_colon [] (gate_label q g) = [''GATE''] @ split_colon [] (upper q) @ [g]"
    by (simp only: split_colon_append split_colon_none [OF assms]) (simp add: split_colon_none)
  moreover have "1 \<le> length (split_colon [] (upper q))" by (cases "split_colon [] (upper q)") auto
  ultimately show ?thesis by (simp add: parse_gate_from_label_def)
qed

lemma edges_from_set_other:
  "p \<noteq> pred \<or> s \<noteq> subj \<Longrightarrow> edges_from (g\<lparr>kg_edges := dict_set (s, p, ob) c (kg_edges g)\<rparr>) subj pred = edges_from g subj pred"
proof -
  assume *: "p \<noteq> pred \<or> s \<noteq> subj"
  have "filter (\<lambda>((s, p, _), _). s = subj \<and> p = pred) (AList.update (s, p, ob) c d) =
      filter (\<lambda>((s, p, _), _). s = subj \<and> p = pred) d" for d :: "(string \<times> string \<times> string, real) dict"
    using * by (induction d) auto
  then show ?thesis by (simp add: edges_from_def)
qed

lemma move_edges: "edges_from (move_in_phase_edge project label g) project ''in_phase'' = [label]"
proof -
  have "filter (\<lambda>((s, p, _), _). s = project \<and> p = ''in_phase'') (AList.update (project, ''in_phase'', label) c d) =
      [((project, ''in_phase'', label), c)]"
    if "\<forall>((s, p, _), _)\<in>set d. \<not> (s = project \<and> p = ''in_phase'')" for c :: real and d
    using that by (induction d) auto
  then show ?thesis by (auto simp: edges_from_def move_in_phase_edge_def Let_def)
qed

lemma edges_from_fields [simp]:
  "edges_from (g\<lparr>kg_nodes := n\<rparr>) s p = edges_from g s p" "edges_from (g\<lparr>kg_outbox := b\<rparr>) s p = edges_from g s p"
  "edges_from (g\<lparr>kg_log := l\<rparr>) s p = edges_from g s p"
  by (simp_all add: edges_from_def)

lemma case_study_keeps_phase:
  assumes "do_generate_case_study_edge owns project c g = Inr g'"
  shows "edges_from g' subj ''in_phase'' = edges_from g subj ''in_phase'' \<and> kg_log g' = kg_log g"
proof -
  have e: "edges_from (g\<lparr>kg_nodes := n, kg_outbox := b, kg_edges := dict_set (s, ''generates'', ob) x (kg_edges g)\<rparr>) subj ''in_phase'' =
      edges_from g subj ''in_phase''" for n b s ob x
    using edges_from_set_other [where p = "''generates''" and pred = "''in_phase''" and s = s and subj = subj
        and g = "g\<lparr>kg_nodes := n, kg_outbox := b\<rparr>" and ob = ob and c = x] by simp
  show ?thesis
    using assms e
    by (auto simp: do_generate_case_study_edge_def Let_def split: option.split_asm list.split_asm if_split_asm)
qed

lemma commit_phase:
  assumes "commit_advance owns write_fails w g = (Advanced p, g')" and "CHR '':'' \<notin> set (pr_to w)"
  shows "p = pr_to w \<and> edges_from g' (pr_project w) ''in_phase'' = [gate_label (pr_quote w) (pr_to w)] \<and>
    read_current_phase g' (pr_project w) = Inr (Some (pr_to w)) \<and>
    kg_log g' = kg_log g @ [\<lparr>ev_project = pr_project w, ev_from = pr_from w, ev_to = pr_to w, ev_actor = pr_actor w\<rparr>]"
proof -
  define label where "label = gate_label (pr_quote w) (pr_to w)"
  obtain g1 where g1: "upsert_gate_node owns label g = Inr g1" and p: "p = pr_to w" and wf: "\<not> write_fails"
    using assms(1) by (auto simp: commit_advance_def Let_def label_def [symmetric] split: sum.split_asm if_split_asm)
  define g2 where "g2 = append_phase_transition_event (pr_project w) (pr_from w) (pr_to w) (pr_actor w)
      (move_in_phase_edge (pr_project w) label g1)"
  have g': "g' = g2 \<or> do_generate_case_study_edge owns (pr_project w) 1 g2 = Inr g'"
    using assms(1) g1 wf
    by (auto simp: commit_advance_def Let_def label_def [symmetric] g2_def [symmetric] split: sum.split_asm if_split_asm)
  have e2: "edges_from g2 (pr_project w) ''in_phase'' = [label]"
    using move_edges [of "pr_project w" label g1] by (simp add: g2_def append_phase_transition_event_def)
  have l2: "kg_log g2 = kg_log g @ [\<lparr>ev_project = pr_project w, ev_from = pr_from w, ev_to = pr_to w, ev_actor = pr_actor w\<rparr>]"
    using g1 by (auto simp: g2_def append_phase_transition_event_def move_in_phase_edge_def Let_def upsert_gate_node_def
        split: if_split_asm)
  have "edges_from g' (pr_project w) ''in_phase'' = [label]" "kg_log g' = kg_log g2"
    using g' e2 case_study_keeps_phase by auto
  then show ?thesis using p l2 parse_gate_label [OF assms(2)] by (simp add: label_def read_current_phase_def)
qed

text \<open>The criteria the gate is checked against.\<close>

definition effective_criteria :: "advance_params \<Rightarrow> project_graph \<Rightarrow> string set" where
  "effective_criteria params g = set (ap_criteria params) \<union>
     (if has_outcome g (text_param (ap_project params)) then {''outcomes_recorded_or_waived''} else {})"

lemma prepare_ready:
  assumes "prepare_advance config valid_uuid rf oo params g g' = Inr w"
  shows "pr_project w = text_param (ap_project params) \<and> pr_to w = text_param (ap_target params) \<and>
    pr_actor w = text_param (ap_actor params) \<and> read_current_phase g (pr_project w) = Inr (Some (pr_from w)) \<and>
    is_legal_phase_transition (gc_transitions config) (pr_from w) (pr_to w) \<and>
    set (dict_getd (gc_criteria config) (pr_to w) []) \<subseteq> effective_criteria params g'"
  using assms
  by (auto simp: prepare_advance_def Let_def can_enter_phase_def find_missing_criteria_def effective_criteria_def
      filter_empty_conv split: option.split_asm sum.split_asm if_split_asm)

text \<open>C26: Advancing a project, one call at a time: the call reports success only if the target is a declared successor of the
  current phase and every criterion of the gate is met or resolved from the graph; the project then has the target as its
  one phase and exactly one event from the old to the new phase was appended. Every other answer, an error of the write
  included, leaves the graph and the log untouched.\<close>

theorem advance_phase_sound:
  assumes "do_advance_phase config valid_uuid owns faults params g = (resp, g')"
    and "\<forall>gates\<in>snd ` set (gc_transitions config). \<forall>gate\<in>set gates. CHR '':'' \<notin> set gate"
  shows "(\<forall>p. resp = Advanced p \<longrightarrow> (\<exists>current. let project = text_param (ap_project params) in
      read_current_phase g project = Inr (Some current) \<and> p = text_param (ap_target params) \<and>
      is_legal_phase_transition (gc_transitions config) current p \<and>
      set (dict_getd (gc_criteria config) p []) \<subseteq> effective_criteria params g \<and>
      read_current_phase g' project = Inr (Some p) \<and> length (edges_from g' project ''in_phase'') = 1 \<and>
      kg_log g' = kg_log g @ [\<lparr>ev_project = project, ev_from = current, ev_to = p, ev_actor = text_param (ap_actor params)\<rparr>])) \<and>
    ((\<forall>p. resp \<noteq> Advanced p) \<longrightarrow> g' = g)"
proof -
  obtain rf oo wf where faults: "faults = (rf, oo, wf)" by (metis prod_cases3)
  show ?thesis
  proof (cases "prepare_advance config valid_uuid rf oo params g g")
    case (Inl r)
    have "resp \<noteq> Advanced p" for p
      using assms(1) Inl
      by (auto simp: do_advance_phase_def faults prepare_advance_def Let_def
          split: option.split_asm sum.split_asm if_split_asm prod.split_asm)
    moreover have "g' = g" using assms(1) Inl by (auto simp: do_advance_phase_def faults)
    ultimately show ?thesis by simp
  next
    case (Inr w)
    note w = prepare_ready [OF Inr]
    have run: "commit_advance owns wf w g = (resp, g')" using assms(1) Inr by (simp add: do_advance_phase_def faults)
    obtain gates where "dict_get (gc_transitions config) (pr_from w) = Some gates" "pr_to w \<in> set gates"
      using w by (auto simp: is_legal_phase_transition_def mem_dict_getd_list)
    then have colon: "CHR '':'' \<notin> set (pr_to w)" using assms(2) by (force dest: map_of_SomeD)
    show ?thesis
    proof (cases "\<exists>p. resp = Advanced p")
      case True
      then obtain p where p: "resp = Advanced p" by blast
      from commit_phase [OF run [unfolded p] colon] w show ?thesis unfolding p Let_def by auto
    next
      case False
      have "g' = g" using run False
        by (auto simp: commit_advance_def Let_def split: sum.split_asm if_split_asm)
      with False show ?thesis by blast
    qed
  qed
qed

text \<open>The write does not check the phase that was read: an advance prepared while the project was in one phase and committed
  later, whatever phase other calls have moved the project to in between, sets its own target as the phase and logs a
  transition from the stale phase, so two overlapping calls can move a project backwards.\<close>

theorem stale_commit_overwrites_phase:
  assumes "prepare_advance config valid_uuid rf oo params g\<^sub>0 g\<^sub>0 = Inr w" and "CHR '':'' \<notin> set (pr_to w)" and "owns ''PROJECT_GATE''"
  shows "\<exists>g'. commit_advance owns False w g = (Advanced (pr_to w), g') \<and>
    read_current_phase g' (pr_project w) = Inr (Some (pr_to w)) \<and>
    (\<exists>e. kg_log g' = kg_log g @ [e] \<and> read_current_phase g\<^sub>0 (pr_project w) = Inr (Some (ev_from e)) \<and> ev_to e = pr_to w)"
proof -
  obtain g' where run: "commit_advance owns False w g = (Advanced (pr_to w), g')"
    using assms(3) by (auto simp: commit_advance_def Let_def upsert_gate_node_def)
  from commit_phase [OF run assms(2)] prepare_ready [OF assms(1)] show ?thesis using run by auto
qed

section \<open>Witnesses\<close>

definition sample_project :: "string \<Rightarrow> project_graph" where
  "sample_project gate = \<lparr>kg_nodes = [(''PROJECT:Q1'', ''PROJECT'')],
     kg_edges = [((''PROJECT:Q1'', ''in_phase'', gate_label ''Q1'' gate), 1)], kg_outbox = [], kg_log = []\<rparr>"

definition sample_params :: advance_params where
  "sample_params = \<lparr>ap_namespace = Some ''ns'', ap_project = Some ''PROJECT:Q1'', ap_target = Some ''G2'', ap_actor = Some ''pl'',
     ap_criteria = [''signed_baseline_frozen'', ''bom_lines_linked'', ''kick_off_meeting_held'']\<rparr>"

definition sample_prepared :: prepared where
  "sample_prepared = \<lparr>pr_project = ''PROJECT:Q1'', pr_quote = ''Q1'', pr_from = ''G1'', pr_to = ''G2'', pr_actor = ''pl''\<rparr>"

lemma sample_strip:
  "strip ''PROJECT:Q1'' = ''PROJECT:Q1''" "strip ''G2'' = ''G2''" "strip ''pl'' = ''pl''" "upper ''PROJECT:Q1'' = ''PROJECT:Q1''"
  by code_simp+

lemma sample_phase: "CHR '':'' \<notin> set gate \<Longrightarrow> read_current_phase (sample_project gate) ''PROJECT:Q1'' = Inr (Some gate)"
  by (simp add: read_current_phase_def sample_project_def edges_from_def parse_gate_label)

lemma sample_prepare:
  "prepare_advance gate_config_json (\<lambda>s. True) False False sample_params (sample_project ''G1'') (sample_project ''G1'') = Inr sample_prepared"
  using sample_phase [of "''G1''"]
  by (simp add: prepare_advance_def sample_params_def text_param_def sample_strip quote_id_from_project_label_def
      starts_with_def can_enter_phase_def is_legal_phase_transition_def gate_config_json_def dict_getd_def
      find_missing_criteria_def sample_prepared_def)

theorem stale_commit_overwrites_phase_witness:
  "read_current_phase (sample_project ''G3'') ''PROJECT:Q1'' = Inr (Some ''G3'') \<and>
   (\<exists>g'. commit_advance (\<lambda>s. True) False sample_prepared (sample_project ''G3'') = (Advanced ''G2'', g') \<and>
     read_current_phase g' ''PROJECT:Q1'' = Inr (Some ''G2''))"
  using stale_commit_overwrites_phase [OF sample_prepare, of "\<lambda>s. True" "sample_project ''G3''"] sample_phase [of "''G3''"]
  by (auto simp: sample_prepared_def)

theorem advance_phase_sound_witness:
  "\<exists>g'. do_advance_phase gate_config_json (\<lambda>s. True) (\<lambda>s. True) (False, False, False) sample_params (sample_project ''G1'') =
     (Advanced ''G2'', g') \<and> read_current_phase g' ''PROJECT:Q1'' = Inr (Some ''G2'')"
proof -
  obtain g' where run: "do_advance_phase gate_config_json (\<lambda>s. True) (\<lambda>s. True) (False, False, False) sample_params
      (sample_project ''G1'') = (Advanced ''G2'', g')"
    by (auto simp: do_advance_phase_def sample_prepare commit_advance_def Let_def upsert_gate_node_def sample_prepared_def)
  have "\<forall>gates\<in>snd ` set (gc_transitions gate_config_json). \<forall>gate\<in>set gates. CHR '':'' \<notin> set gate"
    by (simp add: gate_config_json_def)
  from advance_phase_sound [OF run this] run show ?thesis
    by (auto simp: Let_def sample_params_def text_param_def sample_strip)
qed

end
