(* ===== verification/Spec2Isabelle.thy ===== *)
theory Spec2Isabelle
  imports MemoryDecay A2A OutboxRelay AtmsCausal Chrono CircuitBreaker HttpResilience ToolGovernance Governor ChainTick TrustDial Matching Quotas StockMachine ProjectPhases
begin

text \<open>
  \<^bold>\<open>A verification of the decision core of the NCE cognitive engine.\<close>

  NCE is a Python service: agents store memories and topology, the engine derives beliefs and impact
  predictions from them, runs tools under governance and keeps a tamper-evident log of what happened; a set of
  vertical modules adds business processes. Most of its code moves data between PostgreSQL, Redis, MongoDB and
  HTTP; this development models the parts that decide, one theory per part, and what they promise to each other.

  \<^bold>\<open>Theories and sources.\<close>

  \<^item> \<open>Prelude\<close>, \<open>PyValues\<close>: dictionaries as association lists in insertion order, strings, JSON values,
    exceptions as values of sum types, Python's floats and number formatting; reachability with the locale of an
    invariant, and the locale of a table whose rows only move forward.
  \<^item> \<open>Atms\<close>, \<open>AtmsSearch\<close>, \<open>AtmsCascade\<close>, \<open>AtmsMachine\<close>: the truth maintenance engine (\<^verbatim>\<open>src/nce/atms.py\<close>).
    \<open>Atms\<close> has the engine record, registration, the explicit-stack proof search and the cascade;
    \<open>AtmsSearch\<close> shows that the search returns and decides well-founded support (an inductive predicate);
    \<open>AtmsCascade\<close> that retraction and re-evaluation set every flag to its support; \<open>AtmsMachine\<close> states the
    public operations as a step relation with its invariant.
  \<^item> \<open>Traversal\<close>, \<open>CausalGraph\<close>, \<open>DoCalculus\<close>: the causal graph and the intervention engine
    (\<^verbatim>\<open>src/nce/causal/correlation.py\<close>): worklist traversals with their termination, failure propagation, path
    enumeration, the do-operator, impact probabilities and confounders.
  \<^item> \<open>AtmsCausal\<close>: the translation of a graph into an engine; the root theory shows that both analyses agree.
  \<^item> \<open>Chrono\<close>: counterfactual branches (\<^verbatim>\<open>src/nce/causal/chrono.py\<close>, \<^verbatim>\<open>src/nce/temporal.py\<close>).
  \<^item> \<open>Retry\<close>, \<open>CircuitBreaker\<close>, \<open>HttpResilience\<close>: calls to providers and HTTP services under retry budgets
    and a circuit breaker (\<^verbatim>\<open>src/nce/providers/base.py\<close>, \<^verbatim>\<open>src/nce/http_resilience.py\<close>); the locale of \<open>Retry\<close>
    is the contract of the retry loop, interpreted for both clients.
  \<^item> \<open>ToolGovernance\<close>, \<open>Governor\<close>: the cache of disabled tools and the execution of governed actions with its
    policy, idempotency keys, approval queue and audit trail (\<^verbatim>\<open>src/nce/tool_governance.py\<close>,
    \<^verbatim>\<open>src/nce/autonomy/\<close>).
  \<^item> \<open>EventTypes\<close>, \<open>EventLog\<close>, \<open>EventLogChain\<close>, \<open>ChainTick\<close>: the append-only log, its signatures and hash
    chains and the job that verifies them (\<^verbatim>\<open>src/nce/event_types.py\<close>, \<^verbatim>\<open>src/nce/event_log.py\<close>,
    \<^verbatim>\<open>src/nce/cron.py\<close>).
  \<^item> \<open>EventCatalogue\<close>, \<open>DeadLetters\<close>, \<open>OutboxRelay\<close>: the transactional outbox. \<open>EventCatalogue\<close> is the shipped table of
    event contracts (\<^verbatim>\<open>src/nce/events/catalogue.py\<close>); \<open>DeadLetters\<close> the queue of failed tasks, what of them is stored,
    their triage and the retry budget of a worker (\<^verbatim>\<open>src/nce/dead_letter_queue.py\<close>, \<^verbatim>\<open>src/nce/tasks.py\<close>); \<open>OutboxRelay\<close>
    the relay passes with handlers, webhooks, retries, rollbacks and crashes (\<^verbatim>\<open>src/nce/outbox_relay.py\<close>,
    \<^verbatim>\<open>src/nce/events/bus.py\<close>, \<^verbatim>\<open>src/nce/outbound_webhooks/\<close>): effects exactly once, and every event settled after
    five passes.
  \<^item> \<open>A2A\<close>: sharing between agents (\<^verbatim>\<open>src/nce/a2a.py\<close>, \<^verbatim>\<open>src/nce/a2a_mcp_handlers.py\<close>): grants, their tokens and scopes
    and the query of another agent's memories, as a machine over all operations; a token opens exactly what an active
    grant says, and what the query returns is stated with the cases in which that is more than the scope named.
  \<^item> \<open>CronLocks\<close>: the Redis locks of scheduled jobs (\<^verbatim>\<open>src/nce/redis_lock.py\<close>, \<^verbatim>\<open>src/nce/cron_lock.py\<close>), with
    instances that interleave by a step relation.
  \<^item> \<open>MemoryDecay\<close>: forgetting (\<^verbatim>\<open>src/nce/temporal_decay.py\<close>, \<^verbatim>\<open>src/nce/salience.py\<close>): the retention of a memory and its
    countdown, the sweep under a cron lock that ends forgotten memories, with its soundness and the number of sweeps it
    needs, and the salience of a memory, whose decay is the same curve.
  \<^item> \<open>Inventory\<close>, \<open>StockReports\<close>, \<open>StockReturns\<close>, \<open>Kitting\<close>, \<open>GoodsReceipt\<close>, \<open>StockMachine\<close>: the inventory engine
    (\<^verbatim>\<open>src/nce/vertical_modules/inventory/\<close>). \<open>Inventory\<close> has the tables, transfers, consumption and reservations
    with the ledger they write and the graph nodes and events they emit; one locale states what a stock operation
    promises of rows and ledger, interpreted for every operation of this and the following theories.
    \<open>StockReports\<close> values the ledger and reconciles it with the stock; \<open>StockReturns\<close>, \<open>Kitting\<close> and
    \<open>GoodsReceipt\<close> are the returns, the kits and the receipts with the assets they seed and the order lines they
    close; \<open>StockMachine\<close> serves any sequence of those calls and shows that the reports always agree with the stock.
  \<^item> \<open>Quotas\<close>: resource quotas in the table and on Redis counters (\<^verbatim>\<open>src/nce/quotas.py\<close>); one locale states a
    counter, interpreted for both.
  \<^item> \<open>Degradation\<close>, \<open>TrustDial\<close>: the register of degradations and the autonomy tier of a tenant
    (\<^verbatim>\<open>src/nce/degradation.py\<close>, \<^verbatim>\<open>src/nce/trust_dial.py\<close>).
  \<^item> \<open>ThreeWayMatch\<close>, \<open>Matching\<close>: matching orders, receipts and invoices
    (\<^verbatim>\<open>src/nce/vertical_modules/procurement/three_way_match.py\<close>,
    \<^verbatim>\<open>src/nce/vertical_modules/economy/matching.py\<close>).
  \<^item> \<open>Lifecycle\<close>, \<open>ProjectPhases\<close>: the life cycle of assets and the phases of projects with their shipped
    configuration (\<^verbatim>\<open>src/nce/vertical_modules/assets/lifecycle.py\<close>, \<^verbatim>\<open>src/nce/vertical_modules/project/\<close>,
    \<^verbatim>\<open>src/nce/config_data/\<close>).

  \<^bold>\<open>How code is modelled.\<close> Classes are records, methods functions from the state and the arguments to the new
  state and the result; an exception is a value of a sum type and every raise and early return is a branch.
  Loops that might not end are partial functions into option types, where \<open>None\<close> is a run that never
  returns; the theorems about them state that they return. No fuel is used. Time, random numbers, UUIDs and the
  outcome of each external call are arguments. Third-party code is a parameter with its documented behaviour as
  a hypothesis: the retry library, SHA-256 and HMAC, canonical JSON, the \<open>jsonb\<close> type, date and float parsing.
  Concurrent calls are sequences of the transactions and steps they consist of.

  \<^bold>\<open>Idealisations.\<close> A finite float is a real number, without rounding; the infinities and \<open>nan\<close> are kept where
  the code reads floats from outside. Strings are lists of 8-bit characters. Where Python iterates over a set,
  the order is an argument or the result is shown not to depend on it. Log lines, metrics and explanatory texts
  are left out. In the inventory, quantities count thousandths and costs hundredths, as the numeric columns do; the
  rounding of a Decimal to 28 digits is not modelled, ids are ordered as strings, rows created at the same time
  are in order of insertion, and the time of a transaction is a field of the state.

  \<^bold>\<open>Not modelled.\<close> The servers, request handlers, orchestrators, the replay engine, SQL schema and migrations,
  embeddings, extraction with language models, authentication (client certificates included) and key storage, configuration, the launcher and
  most vertical modules: wiring, database I/O or code that rests on packages outside the repository. Of the event
  log, the start-up probes of the database's privileges and policies are left out; of the jobs of the
  scheduler, all but the chain verification and the forgetting of memories; of the inventory, the recommendation of cable drums and the
  replenishment proposals, and in a goods receipt the value it projects for the order.
\<close>

section \<open>Properties that span components\<close>

text \<open>C3: The truth maintenance system and the causal graph agree on what a failure takes down: for every
  well-formed topology, cyclic ones included, and every known node, the ATMS intervention returns, without
  an error, the failed node together with exactly the nodes that failure propagation reports as impacted.\<close>

theorem atms_agrees_with_impact:
  assumes "wf_graph g" and "distinct order" and "set order = {n. get_node g n \<noteq> None}"
    and "get_node g x \<noteq> None"
  shows "\<exists>r. impacted_by g x = Some r \<and>
    evaluate_atms_intervention order g [x] = Some (Inr (insert x (set r)))"
proof -
  obtain r where r: "impacted_by g x = Some r" "set r = {y. (causes g)\<^sup>*\<^sup>* x y} - {x}"
    using impacted_exact [OF assms(1)] by blast
  have "failure_sets g [x] = insert x (set r)"
    using assms(4) by (auto simp: failure_sets_def failure_set_def r(2))
  then show ?thesis using r(1) atms_intervention_exact [OF assms(1-3), of "[x]"] by simp
qed

theorem atms_agrees_with_impact_witness:
  "\<exists>r. impacted_by sample_graph ''pdu'' = Some r \<and>
    evaluate_atms_intervention [''pdu'', ''srv'', ''sw'', ''app''] sample_graph [''pdu''] =
      Some (Inr (insert ''pdu'' (set r)))"
proof (rule atms_agrees_with_impact [OF wf_sample_graph])
  show "set [''pdu'', ''srv'', ''sw'', ''app''] = {n. get_node sample_graph n \<noteq> None}"
    by (auto simp: sample_graph_def from_rows_node source_type_of_def target_type_of_def sample_row_def
        split: if_splits)
qed (simp_all add: sample_pdu)

end
